(* ===== verification/Prelude.thy ===== *)
theory Prelude
  imports Main
begin

text \<open>
  Shared vocabulary of the development: results with errors as values, the generic
  facts on lists that several components use, and the contract of a state machine
  (a step function with an invariant and an admissibility condition on its inputs).

  JavaScript strings are lists of code units. Identifiers, keys and messages are
  \<open>string\<close> (code units below 256); text whose code units matter above that range
  (surrogate pairs) is a list of 16-bit words in the theory that needs it.
\<close>

named_theorems step_defs \<open>unfolding rules of a component's operations\<close>
named_theorems inv_intros \<open>introduction rules of a component's invariant\<close>

section \<open>Results\<close>

text \<open>A computation that throws is \<open>Inl\<close> of what it throws.\<close>

type_synonym ('e, 'a) result = "'e + 'a"

definition ok_of :: "('e, 'a) result \<Rightarrow> 'a option" where
  "ok_of r = (case r of Inl _ \<Rightarrow> None | Inr a \<Rightarrow> Some a)"

lemma ok_of_simps [simp]: "ok_of (Inl e) = None" "ok_of (Inr a) = Some a"
  by (simp_all add: ok_of_def)

lemma ok_of_Some [simp]: "ok_of r = Some a \<longleftrightarrow> r = Inr a"
  by (cases r) (simp_all add: ok_of_def)

section \<open>State machines\<close>

text \<open>
  \<open>run step s is\<close> feeds the inputs one after the other; \<open>trace_ok\<close> says that every input
  was admissible in the state in which it arrived (a clock that does not go back, say).
\<close>

primrec run :: "('s \<Rightarrow> 'i \<Rightarrow> 's) \<Rightarrow> 's \<Rightarrow> 'i list \<Rightarrow> 's" where
  "run step s [] = s"
| "run step s (i # is) = run step (step s i) is"

primrec trace_ok :: "('s \<Rightarrow> 'i \<Rightarrow> 's) \<Rightarrow> ('s \<Rightarrow> 'i \<Rightarrow> bool) \<Rightarrow> 's \<Rightarrow> 'i list \<Rightarrow> bool" where
  "trace_ok step adm s [] = True"
| "trace_ok step adm s (i # is) = (adm s i \<and> trace_ok step adm (step s i) is)"

lemma run_append: "run step s (xs @ ys) = run step (run step s xs) ys"
  by (induction xs arbitrary: s) auto

lemma trace_ok_append:
  "trace_ok step adm s (xs @ ys) \<longleftrightarrow>
     trace_ok step adm s xs \<and> trace_ok step adm (run step s xs) ys"
  by (induction xs arbitrary: s) auto

lemma trace_ok_all: "(\<And>s i. adm s i) \<Longrightarrow> trace_ok step adm s is"
  by (induction "is" arbitrary: s) auto

text \<open>
  The contract of a component that is a state machine: its invariant is kept by every
  admissible step. What a client gets from it is that the invariant holds along every
  admissible run, at the end and at each point on the way.
\<close>

locale invariant_machine =
  fixes step :: "'s \<Rightarrow> 'i \<Rightarrow> 's"
    and adm :: "'s \<Rightarrow> 'i \<Rightarrow> bool"
    and inv :: "'s \<Rightarrow> bool"
  assumes step_keeps: "inv s \<Longrightarrow> adm s i \<Longrightarrow> inv (step s i)"
begin

lemma run_keeps: "inv s \<Longrightarrow> trace_ok step adm s is \<Longrightarrow> inv (run step s is)"
  by (induction "is" arbitrary: s) (auto intro: step_keeps)

lemma run_keeps_everywhere:
  assumes "inv s" and "trace_ok step adm s is" and "is = pre @ post"
  shows "inv (run step s pre)"
  using assms by (auto simp: trace_ok_append intro: run_keeps)

end

section \<open>Lists\<close>

lemma distinct_map_filter: "distinct (map f xs) \<Longrightarrow> distinct (map f (filter P xs))"
  by (induction xs) auto

lemma distinct_map_drop: "distinct (map f xs) \<Longrightarrow> distinct (map f (drop n xs))"
  by (simp add: drop_map [symmetric])

lemma set_drop_subset: "x \<in> set (drop n xs) \<Longrightarrow> x \<in> set xs"
  by (meson in_set_dropD)

lemma sorted_map_filter: "sorted (map f xs) \<Longrightarrow> sorted (map f (filter P xs))"
  by (induction xs) auto

lemma sorted_map_drop: "sorted (map f xs) \<Longrightarrow> sorted (map f (drop n xs))"
  by (simp add: drop_map [symmetric] sorted_wrt_drop)

lemma find_SomeD: "find P xs = Some x \<Longrightarrow> x \<in> set xs \<and> P x"
  by (auto simp: find_Some_iff)


text \<open>A separator that the first parts do not hold splits a sequence in one way.\<close>

lemma split_at_separator:
  "xs @ c # ys = xs' @ c # ys' \<Longrightarrow> c \<notin> set xs \<Longrightarrow> c \<notin> set xs' \<Longrightarrow> xs = xs' \<and> ys = ys'"
proof (induction xs arbitrary: xs')
  case Nil
  then show ?case by (cases xs') auto
next
  case (Cons x xs)
  then obtain xs'' where "xs' = x # xs''" by (cases xs') auto
  with Cons show ?case by auto
qed

end
