(* ===== verification/QrSession.thy ===== *)
theory QrSession
  imports Prelude Complex_Main
begin

text \<open>
  \<open>pi-extension/src/pairing/qr.ts\<close>: the single active pairing token and its reservation.
  A reservation object is compared by identity in the code, so it carries the reference
  number \<open>rv_ref\<close> it was allocated under. The token text (random bytes) and the readings of
  \<open>Date.now()\<close> are arguments.
\<close>

section \<open>The lifetime of a token\<close>

definition token_ttl_ms :: int where "token_ttl_ms = 60000"
definition pair_ttl_min_ms :: int where "pair_ttl_min_ms = 10000"
definition pair_ttl_max_ms :: int where "pair_ttl_max_ms = 600000"

text \<open>The argument is a double: \<open>None\<close> stands for the non-finite values.\<close>

definition clamp_pair_ttl_ms :: "rat option \<Rightarrow> int" where
  "clamp_pair_ttl_ms ttl =
     (case ttl of None \<Rightarrow> token_ttl_ms
      | Some x \<Rightarrow> min pair_ttl_max_ms (max pair_ttl_min_ms \<lfloor>x\<rfloor>))"

section \<open>State\<close>

record reservation =
  rv_ref :: nat
  rv_token :: string
  rv_owner :: string
  rv_request :: string

datatype reservation_status = RsReserved | RsReleased | RsCommitted

record 'c reservation_state =
  rs_reservation :: reservation
  rs_status :: reservation_status
  rs_completion :: "'c option"

record 'c active_token =
  at_token :: string
  at_expires :: int
  at_consumed :: bool
  at_reservation :: "'c reservation_state option"

record 'c qr_session =
  qs_active :: "'c active_token option"
  qs_next_ref :: nat

datatype 'c reserve_result =
    ResReserved reservation
  | ResCommitted "'c option"
  | ResExpired
  | ResConsumed
  | ResUnknown

datatype consume_result = CoOk | CoExpired | CoConsumed | CoUnknown

definition qr_init :: "'c qr_session" where
  "qr_init = \<lparr> qs_active = None, qs_next_ref = 0 \<rparr>"

section \<open>Operations\<close>

definition issue_token :: "'c qr_session \<Rightarrow> string \<Rightarrow> int \<Rightarrow> int \<Rightarrow> 'c qr_session \<times> (string \<times> int)" where
  "issue_token qs token now ttl =
     (qs\<lparr>qs_active := Some \<lparr> at_token = token, at_expires = now + ttl, at_consumed = False,
                             at_reservation = None \<rparr>\<rparr>, (token, now + ttl))"

text \<open>\<open>Object.freeze(...)\<close>: a new reservation object.\<close>

definition fresh_reservation :: "'c qr_session \<Rightarrow> string \<Rightarrow> string \<Rightarrow> string \<Rightarrow> reservation" where
  "fresh_reservation qs token owner request =
     \<lparr> rv_ref = qs_next_ref qs, rv_token = token, rv_owner = owner, rv_request = request \<rparr>"

definition reserve_token ::
  "'c qr_session \<Rightarrow> string \<Rightarrow> string \<Rightarrow> string \<Rightarrow> int \<Rightarrow> 'c qr_session \<times> 'c reserve_result" where
  "reserve_token qs token owner request now =
     (case qs_active qs of None \<Rightarrow> (qs, ResUnknown) | Some act \<Rightarrow>
      if at_token act \<noteq> token then (qs, ResUnknown)
      else
        let existing = at_reservation act;
            foreign = (case existing of None \<Rightarrow> False
              | Some ex \<Rightarrow> rv_owner (rs_reservation ex) \<noteq> owner \<or> rv_request (rs_reservation ex) \<noteq> request)
        in
        if foreign then (qs, ResConsumed)
        else if (case existing of Some ex \<Rightarrow> rs_status ex = RsCommitted | None \<Rightarrow> False)
          then (qs, ResCommitted (case existing of Some ex \<Rightarrow> rs_completion ex | None \<Rightarrow> None))
        else if now > at_expires act then (qs, ResExpired)
        else if at_consumed act then (qs, ResConsumed)
        else
          (case existing of
             Some ex \<Rightarrow>
               if rs_status ex = RsReserved then (qs, ResReserved (rs_reservation ex))
               else
                 let rv = (if rs_status ex = RsReleased then fresh_reservation qs token owner request
                           else rs_reservation ex) in
                 (qs\<lparr>qs_active := Some (act\<lparr>at_reservation := Some
                     \<lparr> rs_reservation = rv, rs_status = RsReserved, rs_completion = None \<rparr>\<rparr>),
                     qs_next_ref := Suc (qs_next_ref qs)\<rparr>, ResReserved rv)
           | None \<Rightarrow>
               let rv = fresh_reservation qs token owner request in
               (qs\<lparr>qs_active := Some (act\<lparr>at_reservation := Some
                   \<lparr> rs_reservation = rv, rs_status = RsReserved, rs_completion = None \<rparr>\<rparr>),
                   qs_next_ref := Suc (qs_next_ref qs)\<rparr>, ResReserved rv)))"

text \<open>The reservation that \<open>rv\<close> denotes, when it is the active one and still reserved.\<close>

definition held :: "'c qr_session \<Rightarrow> reservation \<Rightarrow> ('c active_token \<times> 'c reservation_state) option" where
  "held qs rv =
     (case qs_active qs of None \<Rightarrow> None | Some act \<Rightarrow>
      (case at_reservation act of None \<Rightarrow> None | Some st \<Rightarrow>
       if rs_reservation st \<noteq> rv \<or> rs_status st \<noteq> RsReserved then None
       else Some (act, st)))"

definition commit_token :: "'c qr_session \<Rightarrow> reservation \<Rightarrow> 'c \<Rightarrow> int \<Rightarrow> 'c qr_session \<times> bool" where
  "commit_token qs rv completion now =
     (case held qs rv of None \<Rightarrow> (qs, False) | Some (act, st) \<Rightarrow>
      if at_token act \<noteq> rv_token rv \<or> now > at_expires act then (qs, False)
      else (qs\<lparr>qs_active := Some (act\<lparr>at_reservation := Some
              (st\<lparr>rs_status := RsCommitted, rs_completion := Some completion\<rparr>)\<rparr>)\<rparr>, True))"

definition release_token :: "'c qr_session \<Rightarrow> reservation \<Rightarrow> 'c qr_session \<times> bool" where
  "release_token qs rv =
     (case held qs rv of None \<Rightarrow> (qs, False) | Some (act, st) \<Rightarrow>
      (qs\<lparr>qs_active := Some (act\<lparr>at_reservation := Some (st\<lparr>rs_status := RsReleased\<rparr>)\<rparr>)\<rparr>, True))"

definition is_reservation_current :: "'c qr_session \<Rightarrow> reservation \<Rightarrow> int \<Rightarrow> bool" where
  "is_reservation_current qs rv now =
     (case held qs rv of None \<Rightarrow> False | Some (act, st) \<Rightarrow>
      at_token act = rv_token rv \<and> now \<le> at_expires act)"

definition consume_token :: "'c qr_session \<Rightarrow> string \<Rightarrow> int \<Rightarrow> 'c qr_session \<times> consume_result" where
  "consume_token qs token now =
     (case qs_active qs of None \<Rightarrow> (qs, CoUnknown) | Some act \<Rightarrow>
      if at_token act \<noteq> token then (qs, CoUnknown)
      else if at_consumed act \<or> at_reservation act \<noteq> None then (qs, CoConsumed)
      else if now > at_expires act then (qs, CoExpired)
      else (qs\<lparr>qs_active := Some (act\<lparr>at_consumed := True\<rparr>)\<rparr>, CoOk))"

definition qr_clear :: "'c qr_session \<Rightarrow> 'c qr_session" where
  "qr_clear qs = qs\<lparr>qs_active := None\<rparr>"

section \<open>The machine\<close>

text \<open>
  A commit is asked with the reservation object that an earlier \<open>reserve_token\<close> answered;
  the inputs name it by its value.
\<close>

datatype 'c qr_input =
    QIssue string int int
  | QReserve string string string int
  | QCommit reservation 'c int
  | QRelease reservation
  | QConsume string int
  | QClear

datatype 'c qr_output =
    OIssued string int
  | OReserve "'c reserve_result"
  | OBool bool
  | OConsume consume_result
  | ODone

fun qr_do :: "'c qr_session \<Rightarrow> 'c qr_input \<Rightarrow> 'c qr_session \<times> 'c qr_output" where
  "qr_do qs (QIssue token now ttl) =
     (let (qs', token', expires) = issue_token qs token now ttl in (qs', OIssued token' expires))"
| "qr_do qs (QReserve token owner request now) =
     (let (qs', r) = reserve_token qs token owner request now in (qs', OReserve r))"
| "qr_do qs (QCommit rv c now) = (let (qs', b) = commit_token qs rv c now in (qs', OBool b))"
| "qr_do qs (QRelease rv) = (let (qs', b) = release_token qs rv in (qs', OBool b))"
| "qr_do qs (QConsume token now) = (let (qs', r) = consume_token qs token now in (qs', OConsume r))"
| "qr_do qs QClear = (qr_clear qs, ODone)"

definition qr_step :: "'c qr_session \<Rightarrow> 'c qr_input \<Rightarrow> 'c qr_session" where
  "qr_step qs i = fst (qr_do qs i)"

fun replaces_token :: "'c qr_input \<Rightarrow> bool" where
  "replaces_token (QIssue token now ttl) = True"
| "replaces_token QClear = True"
| "replaces_token _ = False"

text \<open>
  The invariant: the active reservation is of the active token and older than the next
  reference; a completion is stored exactly with a committed reservation; a token consumed
  through the compatibility call was never reserved.
\<close>

definition qr_inv :: "'c qr_session \<Rightarrow> bool" where
  "qr_inv qs \<longleftrightarrow>
     (case qs_active qs of None \<Rightarrow> True | Some act \<Rightarrow>
      (case at_reservation act of None \<Rightarrow> True | Some st \<Rightarrow>
        rv_token (rs_reservation st) = at_token act
        \<and> rv_ref (rs_reservation st) < qs_next_ref qs
        \<and> (rs_status st = RsCommitted \<longleftrightarrow> rs_completion st \<noteq> None)
        \<and> \<not> at_consumed act))"

lemma qr_inv_init: "qr_inv qr_init"
  by (simp add: qr_inv_def qr_init_def)

lemma heldD:
  "held qs rv = Some (act, st) \<Longrightarrow> qs_active qs = Some act \<and> at_reservation act = Some st
     \<and> rs_reservation st = rv \<and> rs_status st = RsReserved"
  by (auto simp: held_def split: option.splits if_splits)

lemma reserve_token_inv:
  assumes "qr_inv qs"
  shows "qr_inv (fst (reserve_token qs token owner request now))"
proof (cases "qs_active qs")
  case (Some act)
  then show ?thesis
    using assms by (cases "at_reservation act")
      (auto simp: reserve_token_def qr_inv_def fresh_reservation_def Let_def)
qed (simp add: reserve_token_def assms)

lemma commit_token_inv: "qr_inv qs \<Longrightarrow> qr_inv (fst (commit_token qs rv c now))"
  by (cases "held qs rv") (auto simp: commit_token_def qr_inv_def dest: heldD)

lemma release_token_inv: "qr_inv qs \<Longrightarrow> qr_inv (fst (release_token qs rv))"
  by (cases "held qs rv") (auto simp: release_token_def qr_inv_def dest: heldD)

lemma consume_token_inv: "qr_inv qs \<Longrightarrow> qr_inv (fst (consume_token qs token now))"
  by (cases "qs_active qs") (auto simp: consume_token_def qr_inv_def split: option.splits)

lemma qr_step_inv: "qr_inv qs \<Longrightarrow> qr_inv (qr_step qs i)"
proof (cases i)
  case (QIssue t n ttl)
  then show ?thesis by (simp add: qr_step_def issue_token_def qr_inv_def)
next
  case QClear
  then show ?thesis by (simp add: qr_step_def qr_clear_def qr_inv_def)
qed (simp_all add: qr_step_def split_beta reserve_token_inv commit_token_inv release_token_inv
    consume_token_inv)

interpretation qr: invariant_machine qr_step "\<lambda>_ _. True" qr_inv
  by unfold_locales (rule qr_step_inv)

lemma qr_run_inv: "qr_inv qs \<Longrightarrow> qr_inv (run qr_step qs is)"
  by (rule qr.run_keeps) (simp_all add: trace_ok_all)

section \<open>Ownership of a token\<close>

text \<open>\<open>owned qs token owner request\<close>: the active token is held by that Owner's request.\<close>

definition owned :: "'c qr_session \<Rightarrow> string \<Rightarrow> string \<Rightarrow> string \<Rightarrow> bool" where
  "owned qs token owner request \<longleftrightarrow>
     (\<exists>act st. qs_active qs = Some act \<and> at_token act = token \<and> at_reservation act = Some st
        \<and> rv_owner (rs_reservation st) = owner \<and> rv_request (rs_reservation st) = request)"

definition granted :: "'c reserve_result \<Rightarrow> bool" where
  "granted r \<longleftrightarrow> (\<exists>rv. r = ResReserved rv) \<or> (\<exists>c. r = ResCommitted c)"

lemma reserve_granted_owned:
  assumes "reserve_token qs token owner request now = (qs', r)" and "granted r"
  shows "owned qs' token owner request"
proof (cases "qs_active qs")
  case (Some act)
  then show ?thesis
    using assms by (cases "at_reservation act")
      (auto simp: reserve_token_def owned_def granted_def fresh_reservation_def Let_def split: if_splits)
qed (use assms in \<open>simp add: reserve_token_def granted_def\<close>)

lemma reserve_foreign:
  assumes "owned qs token owner request" and "owner' \<noteq> owner \<or> request' \<noteq> request"
  shows "reserve_token qs token owner' request' now = (qs, ResConsumed)"
  using assms by (auto simp: owned_def reserve_token_def Let_def)

lemma owned_reserve:
  assumes "owned qs token owner request"
  shows "owned (fst (reserve_token qs token' owner' request' now)) token owner request"
proof (cases "token' = token \<and> owner' = owner \<and> request' = request")
  case True
  from assms obtain act st where act: "qs_active qs = Some act" "at_token act = token"
    "at_reservation act = Some st" "rv_owner (rs_reservation st) = owner"
    "rv_request (rs_reservation st) = request" by (auto simp: owned_def)
  with True show ?thesis
    by (auto simp: reserve_token_def owned_def fresh_reservation_def Let_def)
next
  case False
  from assms obtain act where "qs_active qs = Some act" "at_token act = token" by (auto simp: owned_def)
  with False assms show ?thesis
    using reserve_foreign [OF assms, of owner' request' now]
    by (cases "token' = token") (auto simp: reserve_token_def)
qed

lemma owned_commit: "owned qs t ow rq \<Longrightarrow> owned (fst (commit_token qs rv c now)) t ow rq"
  by (cases "held qs rv") (auto simp: commit_token_def owned_def dest: heldD)

lemma owned_release: "owned qs t ow rq \<Longrightarrow> owned (fst (release_token qs rv)) t ow rq"
  by (cases "held qs rv") (auto simp: release_token_def owned_def dest: heldD)

lemma owned_consume: "owned qs t ow rq \<Longrightarrow> owned (fst (consume_token qs token now)) t ow rq"
  by (auto simp: consume_token_def owned_def)

lemma owned_step: "owned qs t ow rq \<Longrightarrow> \<not> replaces_token i \<Longrightarrow> owned (qr_step qs i) t ow rq"
  by (cases i) (auto simp: qr_step_def split_beta owned_reserve owned_commit owned_release owned_consume)

lemma owned_run:
  "owned qs t ow rq \<Longrightarrow> \<forall>i \<in> set is. \<not> replaces_token i \<Longrightarrow> owned (run qr_step qs is) t ow rq"
  by (induction "is" arbitrary: qs) (auto intro: owned_step)

text \<open>A committed reservation with its completion, and that nothing short of a new QR undoes it.\<close>

definition committed :: "'c qr_session \<Rightarrow> string \<Rightarrow> string \<Rightarrow> string \<Rightarrow> 'c \<Rightarrow> bool" where
  "committed qs token owner request c \<longleftrightarrow>
     (\<exists>act st. qs_active qs = Some act \<and> at_token act = token \<and> at_reservation act = Some st
        \<and> rv_owner (rs_reservation st) = owner \<and> rv_request (rs_reservation st) = request
        \<and> rs_status st = RsCommitted \<and> rs_completion st = Some c)"

lemma committed_not_held: "committed qs t ow rq c \<Longrightarrow> held qs rv = None"
  by (auto simp: committed_def held_def)

lemma committed_owned: "committed qs t ow rq c \<Longrightarrow> owned qs t ow rq"
  by (auto simp: committed_def owned_def)

lemma committed_reserve: "committed qs t ow rq c \<Longrightarrow> fst (reserve_token qs t' ow' rq' now) = qs"
  by (auto simp: committed_def reserve_token_def Let_def)

lemma committed_consume: "committed qs t ow rq c \<Longrightarrow> fst (consume_token qs t' now) = qs"
  by (auto simp: committed_def consume_token_def)

lemma committed_step:
  "committed qs t ow rq c \<Longrightarrow> \<not> replaces_token i \<Longrightarrow> qr_step qs i = qs"
  by (cases i)
    (auto simp: qr_step_def split_beta committed_reserve committed_consume commit_token_def
      release_token_def committed_not_held)

lemma committed_run:
  "committed qs t ow rq c \<Longrightarrow> \<forall>i \<in> set is. \<not> replaces_token i \<Longrightarrow> run qr_step qs is = qs"
  by (induction "is") (auto simp: committed_step)

lemma commit_committed:
  assumes "commit_token qs rv c now = (qs', True)" and "qr_inv qs"
  shows "committed qs' (rv_token rv) (rv_owner rv) (rv_request rv) c"
  using assms by (cases "held qs rv")
    (auto simp: commit_token_def committed_def dest!: heldD split: if_splits)

lemma committed_answers:
  assumes "committed qs t ow rq c"
  shows "reserve_token qs t ow rq now = (qs, ResCommitted (Some c))"
    and "ow' \<noteq> ow \<or> rq' \<noteq> rq \<Longrightarrow> reserve_token qs t ow' rq' now = (qs, ResConsumed)"
    and "snd (commit_token qs rv c' now) = False"
    and "snd (release_token qs rv) = False"
    and "\<not> is_reservation_current qs rv now"
    and "snd (consume_token qs t now) = CoConsumed"
  using assms committed_not_held [OF assms] reserve_foreign [OF committed_owned [OF assms]]
  by (auto simp: committed_def reserve_token_def commit_token_def release_token_def
      is_reservation_current_def consume_token_def Let_def)

section \<open>Properties\<close>

definition demo_rv :: reservation where
  "demo_rv = \<lparr> rv_ref = 0, rv_token = ''tok'', rv_owner = ''alice'', rv_request = ''r1'' \<rparr>"

definition demo_reserved :: "nat qr_session" where
  "demo_reserved = \<lparr> qs_active = Some \<lparr> at_token = ''tok'', at_expires = 60100, at_consumed = False,
     at_reservation = Some \<lparr> rs_reservation = demo_rv, rs_status = RsReserved, rs_completion = None \<rparr> \<rparr>,
     qs_next_ref = 1 \<rparr>"

definition demo_committed :: "nat qr_session" where
  "demo_committed = \<lparr> qs_active = Some \<lparr> at_token = ''tok'', at_expires = 60100, at_consumed = False,
     at_reservation = Some \<lparr> rs_reservation = demo_rv, rs_status = RsCommitted, rs_completion = Some 7 \<rparr> \<rparr>,
     qs_next_ref = 1 \<rparr>"

lemma demo_reserve:
  "reserve_token (fst (issue_token qr_init ''tok'' 100 token_ttl_ms)) ''tok'' ''alice'' ''r1'' 200
   = (demo_reserved, ResReserved demo_rv)"
  by (simp add: reserve_token_def issue_token_def qr_init_def token_ttl_ms_def demo_reserved_def
      demo_rv_def fresh_reservation_def Let_def)

lemma demo_commit: "commit_token demo_reserved demo_rv 7 300 = (demo_committed, True)"
  by (simp add: commit_token_def held_def demo_reserved_def demo_committed_def demo_rv_def)

lemma demo_reserved_inv: "qr_inv demo_reserved"
  by (simp add: qr_inv_def demo_reserved_def demo_rv_def)

text \<open>
  C3: A pairing token serves one Owner request. Once a reservation was granted to an Owner and
  a request id, then until the QR code is replaced or cleared no sequence of operations (releases,
  commits, retries and compatibility calls included) makes the token grant a reservation or a
  committed result to any other Owner or request.
\<close>

theorem token_single_owner:
  assumes "reserve_token qs token owner request now = (qs1, g)" and "granted g"
    and "\<forall>i \<in> set ops. \<not> replaces_token i"
    and "reserve_token (run qr_step qs1 ops) token owner' request' now' = (qs2, g')" and "granted g'"
  shows "owner' = owner \<and> request' = request"
proof (rule ccontr)
  assume other: "\<not> (owner' = owner \<and> request' = request)"
  have "owned qs1 token owner request" using assms(1,2) by (rule reserve_granted_owned)
  then have "owned (run qr_step qs1 ops) token owner request" using assms(3) by (rule owned_run)
  then have "reserve_token (run qr_step qs1 ops) token owner' request' now'
      = (run qr_step qs1 ops, ResConsumed)"
    using other by (intro reserve_foreign) auto
  with assms(4) have "g' = ResConsumed" by simp
  with assms(5) show False by (simp add: granted_def)
qed

theorem token_single_owner_witness:
  "\<not> granted (snd (reserve_token (run qr_step demo_reserved [QRelease demo_rv]) ''tok'' ''bob'' ''r1'' 400))"
proof
  let ?out = "reserve_token (run qr_step demo_reserved [QRelease demo_rv]) ''tok'' ''bob'' ''r1'' 400"
  assume "granted (snd ?out)"
  then have "''bob'' = ''alice'' \<and> ''r1'' = ''r1''"
    by (intro token_single_owner [OF demo_reserve, of "[QRelease demo_rv]" _ _ 400 "fst ?out" "snd ?out"])
      (simp_all add: granted_def)
  then show False by simp
qed

text \<open>
  C4: A commit is final and replayable. After a successful \<open>commitToken\<close>, whatever operations
  follow short of a new QR code, the same Owner and request get the same completion back at any
  time (also after the token's TTL), everybody else is told the token is consumed, and no
  reservation object can be committed, released or seen as current any more.
\<close>

theorem commit_final_and_replayed:
  assumes "qr_inv qs" and "commit_token qs rv c now = (qs1, True)"
    and "\<forall>i \<in> set ops. \<not> replaces_token i" and "qs2 = run qr_step qs1 ops"
  shows "snd (reserve_token qs2 (rv_token rv) (rv_owner rv) (rv_request rv) t) = ResCommitted (Some c)
    \<and> (\<forall>ow rq. (ow, rq) \<noteq> (rv_owner rv, rv_request rv)
        \<longrightarrow> snd (reserve_token qs2 (rv_token rv) ow rq t) = ResConsumed)
    \<and> \<not> snd (commit_token qs2 rv' c' t) \<and> \<not> snd (release_token qs2 rv')
    \<and> \<not> is_reservation_current qs2 rv' t \<and> snd (consume_token qs2 (rv_token rv) t) = CoConsumed"
proof -
  have com: "committed qs1 (rv_token rv) (rv_owner rv) (rv_request rv) c"
    using assms(2,1) by (rule commit_committed)
  then have "qs2 = qs1" using assms(3,4) by (simp add: committed_run)
  then show ?thesis using committed_answers [OF com] by auto
qed

theorem commit_final_and_replayed_witness:
  "snd (reserve_token (run qr_step demo_committed [QRelease demo_rv, QReserve ''tok'' ''bob'' ''r9'' 5])
     ''tok'' ''alice'' ''r1'' 999999) = ResCommitted (Some 7)"
  using commit_final_and_replayed [OF demo_reserved_inv demo_commit,
      of "[QRelease demo_rv, QReserve ''tok'' ''bob'' ''r9'' 5]" _ 999999 demo_rv 0]
  by (simp add: demo_rv_def)

text \<open>
  C5: Nothing is granted or committed after the deadline. Past the expiry of the active token,
  and unless its reservation was committed before, no reservation is granted for it, no commit
  succeeds, no reservation counts as current and the compatibility call does not consume it.
\<close>

theorem expired_token_grants_nothing:
  assumes "qs_active qs = Some act" and "at_expires act < now"
    and "\<forall>st. at_reservation act = Some st \<longrightarrow> rs_status st \<noteq> RsCommitted"
  shows "\<not> granted (snd (reserve_token qs token owner request now))
    \<and> commit_token qs rv c now = (qs, False)
    \<and> \<not> is_reservation_current qs rv now
    \<and> snd (consume_token qs token now) \<noteq> CoOk"
  using assms
  by (cases "at_reservation act")
    (auto simp: reserve_token_def granted_def commit_token_def is_reservation_current_def held_def
      consume_token_def Let_def)

theorem expired_token_grants_nothing_witness:
  "commit_token demo_reserved demo_rv 7 60101 = (demo_reserved, False)"
proof -
  obtain act where act: "qs_active demo_reserved = Some act" by (simp add: demo_reserved_def)
  from act have "at_expires act < 60101"
    and "\<forall>st. at_reservation act = Some st \<longrightarrow> rs_status st \<noteq> RsCommitted"
    by (auto simp: demo_reserved_def)
  from expired_token_grants_nothing [OF act this] show ?thesis by blast
qed

text \<open>
  The pairing TTL that a caller asks for is brought into the interval from ten seconds to
  ten minutes, is the floor of the argument inside it, and the default for a non-finite argument.
\<close>

theorem clamp_pair_ttl_bounds:
  "pair_ttl_min_ms \<le> clamp_pair_ttl_ms ttl \<and> clamp_pair_ttl_ms ttl \<le> pair_ttl_max_ms
   \<and> (\<forall>x. ttl = Some x \<and> of_int pair_ttl_min_ms \<le> x \<and> x \<le> of_int pair_ttl_max_ms
        \<longrightarrow> clamp_pair_ttl_ms ttl = \<lfloor>x\<rfloor>)"
proof (cases ttl)
  case None
  then show ?thesis
    by (simp add: clamp_pair_ttl_ms_def token_ttl_ms_def pair_ttl_min_ms_def pair_ttl_max_ms_def)
next
  case (Some x)
  then show ?thesis
    by (auto simp: clamp_pair_ttl_ms_def pair_ttl_min_ms_def pair_ttl_max_ms_def le_floor_iff
        floor_le_iff max_def min_def)
qed

theorem clamp_pair_ttl_bounds_witness:
  "clamp_pair_ttl_ms (Some (25000 / 2)) = 12500 \<and> clamp_pair_ttl_ms (Some 3) = 10000"
  using clamp_pair_ttl_bounds [of "Some (25000 / 2)"] clamp_pair_ttl_bounds [of "Some 3"]
  by (simp add: pair_ttl_min_ms_def pair_ttl_max_ms_def)
    (simp add: clamp_pair_ttl_ms_def pair_ttl_min_ms_def pair_ttl_max_ms_def)

end
