(* ===== verification/JsMap.thy ===== *)
theory JsMap
  imports Prelude
begin

text \<open>
  The \<open>Map\<close> of JavaScript: keys are unique and iteration is in insertion order, which the
  code relies on (the oldest entry is \<open>keys().next()\<close>). A map is an association list in
  that order: \<open>set\<close> of a present key keeps its place, \<open>set\<close> of an absent one appends.
\<close>

type_synonym ('k, 'v) js_map = "('k \<times> 'v) list"

definition jm_get :: "('k, 'v) js_map \<Rightarrow> 'k \<Rightarrow> 'v option" where
  "jm_get m k = map_of m k"

fun jm_set :: "'k \<Rightarrow> 'v \<Rightarrow> ('k, 'v) js_map \<Rightarrow> ('k, 'v) js_map" where
  "jm_set k v [] = [(k, v)]"
| "jm_set k v ((k', v') # m) = (if k' = k then (k, v) # m else (k', v') # jm_set k v m)"

definition jm_delete :: "'k \<Rightarrow> ('k, 'v) js_map \<Rightarrow> ('k, 'v) js_map" where
  "jm_delete k m = filter (\<lambda>kv. fst kv \<noteq> k) m"

definition jm_has :: "('k, 'v) js_map \<Rightarrow> 'k \<Rightarrow> bool" where
  "jm_has m k = (jm_get m k \<noteq> None)"

definition jm_values :: "('k, 'v) js_map \<Rightarrow> 'v list" where
  "jm_values m = map snd m"

definition jm_keys :: "('k, 'v) js_map \<Rightarrow> 'k list" where
  "jm_keys m = map fst m"

definition jm_ok :: "('k, 'v) js_map \<Rightarrow> bool" where
  "jm_ok m \<longleftrightarrow> distinct (map fst m)"

section \<open>Laws\<close>

lemma jm_get_Nil [simp]: "jm_get [] k = None"
  by (simp add: jm_get_def)

lemma jm_get_Cons [simp]: "jm_get ((k', v) # m) k = (if k' = k then Some v else jm_get m k)"
  by (simp add: jm_get_def)

lemma jm_get_set [simp]: "jm_get (jm_set k v m) k' = (if k' = k then Some v else jm_get m k')"
  by (induction k v m rule: jm_set.induct) auto

lemma jm_get_delete [simp]: "jm_get (jm_delete k m) k' = (if k' = k then None else jm_get m k')"
  by (induction m) (auto simp: jm_delete_def)

lemma jm_get_None_iff: "jm_get m k = None \<longleftrightarrow> k \<notin> fst ` set m"
  by (simp add: jm_get_def map_of_eq_None_iff)

lemma jm_get_SomeD: "jm_get m k = Some v \<Longrightarrow> (k, v) \<in> set m"
  by (simp add: jm_get_def map_of_SomeD)

lemma jm_get_Some_iff: "jm_ok m \<Longrightarrow> jm_get m k = Some v \<longleftrightarrow> (k, v) \<in> set m"
  by (auto simp: jm_get_def jm_ok_def intro: map_of_SomeD map_of_is_SomeI)

lemma jm_has_iff: "jm_has m k \<longleftrightarrow> k \<in> fst ` set m"
  by (simp add: jm_has_def jm_get_None_iff)

lemma jm_set_keys: "fst ` set (jm_set k v m) = insert k (fst ` set m)"
  by (induction k v m rule: jm_set.induct) auto

lemma jm_set_absent: "k \<notin> fst ` set m \<Longrightarrow> jm_set k v m = m @ [(k, v)]"
  by (induction k v m rule: jm_set.induct) auto

lemma jm_set_entries: "(k', v') \<in> set (jm_set k v m) \<Longrightarrow> (k' = k \<and> v' = v) \<or> (k', v') \<in> set m"
  by (induction k v m rule: jm_set.induct) (auto split: if_splits)

lemma jm_delete_keys: "fst ` set (jm_delete k m) = fst ` set m - {k}"
  by (auto simp: jm_delete_def)

lemma jm_delete_entries: "kv \<in> set (jm_delete k m) \<longleftrightarrow> kv \<in> set m \<and> fst kv \<noteq> k"
  by (simp add: jm_delete_def)

lemma jm_delete_absent: "k \<notin> fst ` set m \<Longrightarrow> jm_delete k m = m"
  by (auto simp: jm_delete_def filter_id_conv)

lemma jm_ok_Nil [simp, intro!]: "jm_ok []"
  by (simp add: jm_ok_def)

lemma jm_ok_set [simp]: "jm_ok m \<Longrightarrow> jm_ok (jm_set k v m)"
proof (induction k v m rule: jm_set.induct)
  case (2 k v k' v' m)
  then show ?case
    using jm_set_keys [of k v m] by (auto simp: jm_ok_def)
qed (simp add: jm_ok_def)

lemma jm_ok_delete [simp]: "jm_ok m \<Longrightarrow> jm_ok (jm_delete k m)"
  by (simp add: jm_ok_def jm_delete_def distinct_map_filter)

lemma jm_ok_filter: "jm_ok m \<Longrightarrow> jm_ok (filter P m)"
  by (simp add: jm_ok_def distinct_map_filter)

lemma jm_get_filter:
  "jm_ok m \<Longrightarrow> jm_get (filter P m) k =
     (case jm_get m k of Some v \<Rightarrow> if P (k, v) then Some v else None | None \<Rightarrow> None)"
proof (induction m)
  case (Cons kv m)
  obtain k' v where kv: "kv = (k', v)" by (cases kv)
  from Cons.prems kv have "jm_ok m" and "k' \<notin> fst ` set m" by (auto simp: jm_ok_def)
  then have "jm_get m k' = None" by (simp add: jm_get_None_iff)
  with Cons.IH [OF \<open>jm_ok m\<close>] kv show ?case by auto
qed simp

lemma jm_ok_drop: "jm_ok m \<Longrightarrow> jm_ok (drop n m)"
  by (simp add: jm_ok_def distinct_map_drop)

lemma jm_length_set: "length (jm_set k v m) = (if jm_has m k then length m else Suc (length m))"
  by (induction k v m rule: jm_set.induct) (auto simp: jm_has_def)

lemma jm_length_delete: "length (jm_delete k m) \<le> length m"
  by (simp add: jm_delete_def)

section \<open>The interface of a keyed store\<close>

text \<open>
  What the clients of a map use: lookups after an update or a deletion, and that a store
  built by these operations stays well formed. The client lemmas are about sequences of
  operations and hold for every provider of the interface.
\<close>

locale keyed_store =
  fixes empty :: 'm
    and get :: "'m \<Rightarrow> 'k \<Rightarrow> 'v option"
    and put :: "'k \<Rightarrow> 'v \<Rightarrow> 'm \<Rightarrow> 'm"
    and del :: "'k \<Rightarrow> 'm \<Rightarrow> 'm"
    and wf :: "'m \<Rightarrow> bool"
  assumes get_empty: "get empty k = None"
    and get_put: "get (put k v m) k' = (if k' = k then Some v else get m k')"
    and get_del: "get (del k m) k' = (if k' = k then None else get m k')"
    and wf_empty: "wf empty"
    and wf_put: "wf m \<Longrightarrow> wf (put k v m)"
    and wf_del: "wf m \<Longrightarrow> wf (del k m)"
begin

lemma get_move_to_end: "get (put k v (del k m)) k' = get (put k v m) k'"
  by (simp add: get_put get_del)

lemma get_del_put: "get m k = None \<Longrightarrow> get (del k (put k v m)) k' = get m k'"
  by (simp add: get_put get_del)

lemma get_del_comm: "get (del k (del j m)) i = get (del j (del k m)) i"
  by (simp add: get_del)

lemma wf_move_to_end: "wf m \<Longrightarrow> wf (put k v (del k m))"
  by (intro wf_put wf_del)

lemma get_put_list:
  "get (foldr (\<lambda>(k, v). put k v) kvs m) k =
     (case map_of kvs k of Some v \<Rightarrow> Some v | None \<Rightarrow> get m k)"
  by (induction kvs) (auto simp: get_put split: prod.splits)

lemma wf_put_list: "wf m \<Longrightarrow> wf (foldr (\<lambda>(k, v). put k v) kvs m)"
  by (induction kvs) (auto intro: wf_put split: prod.splits)

end

interpretation jmap: keyed_store "[]" jm_get jm_set jm_delete jm_ok
  by unfold_locales auto

end
