(* ===== verification/Json.thy ===== *)
theory Json
  imports JsMap "HOL-Library.Char_ord" "HOL-Library.List_Lexorder" "HOL-Library.Multiset"
begin

text \<open>
  JSON values as the code passes them around, \<open>JSON.stringify\<close>, and the canonical form
  that \<open>pi-extension/src/protocol/v2/session_state.ts\<close> hashes.

  Numbers: an integral value is \<open>NInt\<close>; any other finite double is \<open>NFrac\<close> of the
  decimal text that \<open>Number.prototype.toString\<close> gives it (the text determines the value);
  the non-finite values are \<open>NNaN\<close> and \<open>NInf\<close>. Negative zero is \<open>NInt 0\<close>: it prints as 0 and
  compares equal to it. An object is its list of members in enumeration order; a member
  whose value is \<open>undefined\<close> is absent, since \<open>JSON.stringify\<close> leaves it out.
\<close>

datatype number = NInt int | NFrac string | NNaN | NInf bool

datatype json =
    JNull
  | JBool bool
  | JNum number
  | JStr string
  | JArr "json list"
  | JObj "(string \<times> json) list"

fun finite_number :: "number \<Rightarrow> bool" where
  "finite_number (NInt _) = True"
| "finite_number (NFrac _) = True"
| "finite_number NNaN = False"
| "finite_number (NInf _) = False"

definition field :: "string \<Rightarrow> json \<Rightarrow> json option" where
  "field k j = (case j of JObj ms \<Rightarrow> map_of ms k | _ \<Rightarrow> None)"

definition str_field :: "string \<Rightarrow> json \<Rightarrow> string option" where
  "str_field k j = (case field k j of Some (JStr s) \<Rightarrow> Some s | _ \<Rightarrow> None)"

definition is_record :: "json \<Rightarrow> bool" where
  "is_record j = (case j of JObj _ \<Rightarrow> True | _ \<Rightarrow> False)"

section \<open>JSON.stringify\<close>

fun digits_of :: "nat \<Rightarrow> string" where
  "digits_of n = (if n < 10 then [char_of (48 + n)]
                  else digits_of (n div 10) @ [char_of (48 + n mod 10)])"

declare digits_of.simps [simp del]

definition int_text :: "int \<Rightarrow> string" where
  "int_text i = (if i < 0 then CHR ''-'' # digits_of (nat (- i)) else digits_of (nat i))"

fun number_text :: "number \<Rightarrow> string" where
  "number_text (NInt i) = int_text i"
| "number_text (NFrac s) = s"
| "number_text NNaN = ''null''"
| "number_text (NInf _) = ''null''"

definition hex_digit :: "nat \<Rightarrow> char" where
  "hex_digit n = (if n < 10 then char_of (48 + n) else char_of (87 + n))"

definition escape_char :: "char \<Rightarrow> string" where
  "escape_char c =
     (let n = (of_char c :: nat) in
      if n = 34 then [CHR 0x5C, CHR 0x22]
      else if n = 92 then [CHR 0x5C, CHR 0x5C]
      else if n = 8 then [CHR 0x5C, CHR ''b'']
      else if n = 12 then [CHR 0x5C, CHR ''f'']
      else if n = 10 then [CHR 0x5C, CHR ''n'']
      else if n = 13 then [CHR 0x5C, CHR ''r'']
      else if n = 9 then [CHR 0x5C, CHR ''t'']
      else if n < 32 then [CHR 0x5C, CHR ''u'', CHR ''0'', CHR ''0'', hex_digit (n div 16), hex_digit (n mod 16)]
      else [c])"

definition quote_text :: "string \<Rightarrow> string" where
  "quote_text s = CHR 0x22 # concat (map escape_char s) @ [CHR 0x22]"

fun comma_join :: "string list \<Rightarrow> string" where
  "comma_join [] = []"
| "comma_join [s] = s"
| "comma_join (s # t # ss) = s @ CHR '','' # comma_join (t # ss)"

fun stringify :: "json \<Rightarrow> string" where
  "stringify JNull = ''null''"
| "stringify (JBool b) = (if b then ''true'' else ''false'')"
| "stringify (JNum n) = number_text n"
| "stringify (JStr s) = quote_text s"
| "stringify (JArr js) = CHR ''['' # comma_join (map stringify js) @ '']''"
| "stringify (JObj ms) =
     CHR ''{'' # comma_join (map (\<lambda>(k, v). quote_text k @ CHR '':'' # stringify v) ms) @ ''}''"

text \<open>
  The UTF-8 length of a text: code units below 128 take one byte, the others two.
\<close>

definition utf8_length :: "string \<Rightarrow> nat" where
  "utf8_length s = sum_list (map (\<lambda>c. if (of_char c :: nat) < 128 then 1 else 2) s)"

definition json_bytes :: "json \<Rightarrow> nat" where
  "json_bytes j = utf8_length (stringify j)"

lemma utf8_length_append [simp]: "utf8_length (s @ t) = utf8_length s + utf8_length t"
  by (simp add: utf8_length_def)

lemma utf8_length_ge: "length s \<le> utf8_length s"
  by (induction s) (auto simp: utf8_length_def)

section \<open>The order in which an object enumerates its members\<close>

text \<open>
  An object lists its array-index keys (the decimal text of a number below \<open>2 ^ 32 - 1\<close>)
  first, in ascending order, and the other keys in the order of their insertion.
\<close>

definition digit_value :: "char \<Rightarrow> nat" where
  "digit_value c = of_char c - 48"

definition is_digit :: "char \<Rightarrow> bool" where
  "is_digit c = (48 \<le> (of_char c :: nat) \<and> (of_char c :: nat) \<le> 57)"

definition index_value :: "string \<Rightarrow> nat" where
  "index_value s = foldl (\<lambda>n c. 10 * n + digit_value c) 0 s"

definition is_index_key :: "string \<Rightarrow> bool" where
  "is_index_key s =
     (s \<noteq> [] \<and> list_all is_digit s \<and> (hd s \<noteq> CHR ''0'' \<or> length s = 1)
      \<and> index_value s < 4294967295)"

definition enumerate_members :: "(string \<times> 'a) list \<Rightarrow> (string \<times> 'a) list" where
  "enumerate_members ms =
     sort_key (\<lambda>m. index_value (fst m)) (filter (\<lambda>m. is_index_key (fst m)) ms)
     @ filter (\<lambda>m. \<not> is_index_key (fst m)) ms"

end
