(* ===== verification/Bytes.thy ===== *)
theory Bytes
  imports Json "HOL-Library.Word"
begin

text \<open>
  Byte strings: the UTF-8 encoding of text, the Base64 encoding that \<open>Buffer.toString("base64")\<close>
  and \<open>btoa\<close> produce, and the decoder of \<open>pwa/src/lib/remote-pi/encoding.ts\<close>.
\<close>

type_synonym byte = "8 word"

section \<open>UTF-8\<close>

text \<open>\<open>TextEncoder.encode\<close> on code units below 256.\<close>

definition utf8_char :: "char \<Rightarrow> byte list" where
  "utf8_char c =
     (let n = (of_char c :: nat) in
      if n < 128 then [word_of_nat n] else [word_of_nat (192 + n div 64), word_of_nat (128 + n mod 64)])"

definition utf8_encode :: "string \<Rightarrow> byte list" where
  "utf8_encode s = concat (map utf8_char s)"

lemma length_utf8_encode: "length (utf8_encode s) = utf8_length s"
  by (induction s) (auto simp: utf8_encode_def utf8_length_def utf8_char_def Let_def)

lemma utf8_encode_append [simp]: "utf8_encode (s @ t) = utf8_encode s @ utf8_encode t"
  by (simp add: utf8_encode_def)

section \<open>The Base64 alphabet\<close>

definition b64_char :: "nat \<Rightarrow> char" where
  "b64_char n = (if n < 26 then char_of (65 + n) else if n < 52 then char_of (71 + n)
                 else if n < 62 then char_of (n - 4) else if n = 62 then CHR ''+'' else CHR ''/'')"

definition b64_value :: "char \<Rightarrow> nat option" where
  "b64_value c =
     (let n = (of_char c :: nat) in
      if 65 \<le> n \<and> n \<le> 90 then Some (n - 65)
      else if 97 \<le> n \<and> n \<le> 122 then Some (n - 71)
      else if 48 \<le> n \<and> n \<le> 57 then Some (n + 4)
      else if n = 43 then Some 62 else if n = 47 then Some 63 else None)"

lemma of_b64_char:
  "n < 64 \<Longrightarrow> (of_char (b64_char n) :: nat) =
     (if n < 26 then 65 + n else if n < 52 then 71 + n else if n < 62 then n - 4
      else if n = 62 then 43 else 47)"
  by (auto simp: b64_char_def)

lemma b64_value_char [simp]: "n < 64 \<Longrightarrow> b64_value (b64_char n) = Some n"
  unfolding b64_value_def Let_def by (subst of_b64_char, assumption)+ auto

lemma b64_value_bound: "b64_value c = Some n \<Longrightarrow> n < 64"
  by (auto simp: b64_value_def Let_def split: if_splits)

section \<open>Encoding\<close>

definition sx1 :: "nat \<Rightarrow> nat" where "sx1 a = a div 4"
definition sx2 :: "nat \<Rightarrow> nat \<Rightarrow> nat" where "sx2 a b = (a mod 4) * 16 + b div 16"
definition sx3 :: "nat \<Rightarrow> nat \<Rightarrow> nat" where "sx3 b c = (b mod 16) * 4 + c div 64"
definition sx4 :: "nat \<Rightarrow> nat" where "sx4 c = c mod 64"

lemma sx_bounds:
  "a < 256 \<Longrightarrow> sx1 a < 64" "b < 256 \<Longrightarrow> sx2 a b < 64" "c < 256 \<Longrightarrow> sx3 b c < 64" "sx4 c < 64"
proof -
  have "a mod 4 \<le> 3" "b mod 16 \<le> 15" for a b :: nat
    using mod_less_divisor [of 4 a] mod_less_divisor [of 16 b] by linarith+
  note m = this
  show "a < 256 \<Longrightarrow> sx1 a < 64" by (simp add: sx1_def less_mult_imp_div_less)
  show "sx2 a b < 64" if "b < 256"
  proof -
    have "b div 16 < 16" using that by (simp add: less_mult_imp_div_less)
    then show ?thesis using m(1) [of a] by (simp add: sx2_def)
  qed
  show "sx3 b c < 64" if "c < 256"
  proof -
    have "c div 64 < 4" using that by (simp add: less_mult_imp_div_less)
    then show ?thesis using m(2) [of b] by (simp add: sx3_def)
  qed
  show "sx4 c < 64" by (simp add: sx4_def)
qed

fun b64_encode :: "byte list \<Rightarrow> string" where
  "b64_encode [] = []"
| "b64_encode [a] = [b64_char (sx1 (unat a)), b64_char (sx2 (unat a) 0), CHR ''='', CHR ''='']"
| "b64_encode [a, b] =
     [b64_char (sx1 (unat a)), b64_char (sx2 (unat a) (unat b)), b64_char (sx3 (unat b) 0), CHR ''='']"
| "b64_encode (a # b # c # bs) =
     b64_char (sx1 (unat a)) # b64_char (sx2 (unat a) (unat b)) # b64_char (sx3 (unat b) (unat c))
     # b64_char (sx4 (unat c)) # b64_encode bs"

lemma length_b64_encode: "length (b64_encode bs) = 4 * ((length bs + 2) div 3)"
proof (induction bs rule: b64_encode.induct)
  case (4 a b c bs)
  have "(length bs + 5) div 3 = Suc ((length bs + 2) div 3)"
    using div_add_self2 [of 3 "length bs + 2"] by (simp add: algebra_simps)
  with 4 show ?case by (simp add: algebra_simps)
qed auto

section \<open>Decoding\<close>

text \<open>
  \<open>atob\<close> on text of full groups: each group of four characters gives three bytes, the last
  one, two or one when it is padded. \<open>None\<close>: a character outside the alphabet.
\<close>

fun atob_groups :: "string \<Rightarrow> byte list option" where
  "atob_groups [] = Some []"
| "atob_groups [p, q, r, s] =
     (case (b64_value p, b64_value q) of (Some x, Some y) \<Rightarrow>
        if r = CHR ''='' \<and> s = CHR ''='' then Some [word_of_nat (x * 4 + y div 16)]
        else (case b64_value r of None \<Rightarrow> None | Some z \<Rightarrow>
          if s = CHR ''='' then Some [word_of_nat (x * 4 + y div 16), word_of_nat (y mod 16 * 16 + z div 4)]
          else map_option (\<lambda>w. [word_of_nat (x * 4 + y div 16), word_of_nat (y mod 16 * 16 + z div 4),
                 word_of_nat (z mod 4 * 64 + w)]) (b64_value s))
      | _ \<Rightarrow> None)"
| "atob_groups (p # q # r # s # cs) =
     (case (b64_value p, b64_value q, b64_value r, b64_value s) of
        (Some x, Some y, Some z, Some w) \<Rightarrow>
          map_option (\<lambda>bs. word_of_nat (x * 4 + y div 16) # word_of_nat (y mod 16 * 16 + z div 4)
            # word_of_nat (z mod 4 * 64 + w) # bs) (atob_groups cs)
      | _ \<Rightarrow> None)"
| "atob_groups _ = None"

datatype base64_variant = Base64Standard | Base64Url

definition is_space :: "char \<Rightarrow> bool" where
  "is_space c = (let n = (of_char c :: nat) in (9 \<le> n \<and> n \<le> 13) \<or> n = 32 \<or> n = 160)"

definition b64_url_char :: "char \<Rightarrow> bool" where
  "b64_url_char c = (b64_value c \<noteq> None \<or> c = CHR ''-'' \<or> c = CHR ''_'')"

fun strip_padding :: "string \<Rightarrow> string" where
  "strip_padding s = rev (dropWhile (\<lambda>c. c = CHR ''='') (rev s))"

text \<open>\<open>/^[A-Za-z0-9+/_-]*={0,2}$/\<close>\<close>

definition b64_shape :: "string \<Rightarrow> bool" where
  "b64_shape s = (list_all b64_url_char (strip_padding s) \<and> length s \<le> length (strip_padding s) + 2)"

definition standard_char :: "char \<Rightarrow> char" where
  "standard_char c = (if c = CHR ''-'' then CHR ''+'' else if c = CHR ''_'' then CHR ''/'' else c)"

definition normalize_base64 :: "string \<Rightarrow> (string, string) result" where
  "normalize_base64 value =
     (let compact = filter (\<lambda>c. \<not> is_space c) value in
      if compact = [] \<or> \<not> b64_shape compact then Inl ''Invalid base64''
      else
        let unpadded = strip_padding compact in
        if length unpadded mod 4 = 1 then Inl ''Invalid base64 length''
        else Inr (map standard_char unpadded
               @ replicate ((4 - length unpadded mod 4) mod 4) (CHR ''='')))"

definition decode_base64 :: "string \<Rightarrow> base64_variant option \<Rightarrow> (string, byte list) result" where
  "decode_base64 value variant =
     (case normalize_base64 value of Inl e \<Rightarrow> Inl e | Inr normalized \<Rightarrow>
      if variant = Some Base64Standard \<and> (\<exists>c \<in> set value. c = CHR ''-'' \<or> c = CHR ''_'')
        then Inl ''Expected standard base64''
      else if variant = Some Base64Url \<and> (\<exists>c \<in> set value. c = CHR ''+'' \<or> c = CHR ''/'')
        then Inl ''Expected URL-safe base64''
      else (case atob_groups normalized of None \<Rightarrow> Inl ''InvalidCharacterError'' | Some bs \<Rightarrow> Inr bs))"

section \<open>Round trip\<close>

lemma byte_of_sextets:
  "unat (a :: byte) = x \<Longrightarrow> word_of_nat x = a"
  by auto

lemma sextets_back:
  assumes "a < 256" "b < 256" "c < 256"
  shows "sx1 a * 4 + sx2 a b div 16 = a"
    and "sx2 a b mod 16 * 16 + sx3 b c div 4 = b"
    and "sx3 b c mod 4 * 64 + sx4 c = c"
proof -
  have "b div 16 < 16" "c div 64 < 4" using assms by (simp_all add: less_mult_imp_div_less)
  then have "sx2 a b div 16 = a mod 4" "sx2 a b mod 16 = b div 16"
    "sx3 b c div 4 = b mod 16" "sx3 b c mod 4 = c div 64"
    by (simp_all add: sx2_def sx3_def)
  then show "sx1 a * 4 + sx2 a b div 16 = a"
    and "sx2 a b mod 16 * 16 + sx3 b c div 4 = b" and "sx3 b c mod 4 * 64 + sx4 c = c"
    by (simp_all add: sx1_def sx4_def)
qed

lemma unat_byte: "unat (a :: byte) < 256"
  using unsigned_less [of a] by simp

lemmas sx_back = sextets_back [OF unat_byte unat_byte unat_byte]
  sextets_back(1) [OF unat_byte, of 0 0, simplified]
  sextets_back(2) [OF unat_byte unat_byte, of 0, simplified]
lemmas sx_small = sx_bounds(1) [OF unat_byte] sx_bounds(2) [OF unat_byte] sx_bounds(3) [OF unat_byte]
  sx_bounds(2) [of 0, simplified] sx_bounds(3) [of 0, simplified] sx_bounds(4)

lemma b64_char_not_pad: "n < 64 \<Longrightarrow> b64_char n \<noteq> CHR ''=''"
proof
  assume n: "n < 64" and "b64_char n = CHR ''=''"
  then have "b64_value (b64_char n) = None" by (simp add: b64_value_def)
  with n show False by simp
qed


lemma atob_encode: "atob_groups (b64_encode bs) = Some bs"
proof (induction bs rule: b64_encode.induct)
  case (2 a)
  then show ?case by (simp add: sx_small sx_back del: of_nat_add of_nat_mult)
next
  case (3 a b)
  then show ?case by (simp add: sx_small sx_back b64_char_not_pad del: of_nat_add of_nat_mult)
next
  case (4 a b c bs)
  show ?case
  proof (cases "b64_encode bs")
    case Nil
    then have "bs = []" by (cases bs rule: b64_encode.cases) auto
    then show ?thesis by (simp add: sx_small sx_back b64_char_not_pad del: of_nat_add of_nat_mult)
  next
    case (Cons x xs)
    with 4 show ?thesis by (simp add: sx_small sx_back del: of_nat_add of_nat_mult)
  qed
qed simp

definition b64_plain :: "char \<Rightarrow> bool" where
  "b64_plain c \<longleftrightarrow> (\<exists>n < 64. c = b64_char n)"

lemma b64_plain_char [simp]: "n < 64 \<Longrightarrow> b64_plain (b64_char n)"
  by (auto simp: b64_plain_def)

lemma b64_plainD:
  assumes "b64_plain c"
  shows "b64_value c \<noteq> None" "\<not> is_space c" "c \<noteq> CHR ''=''" "c \<noteq> CHR ''-''" "c \<noteq> CHR ''_''"
proof -
  from assms obtain n where n: "n < 64" "c = b64_char n" by (auto simp: b64_plain_def)
  then show "b64_value c \<noteq> None" by simp
  then show "\<not> is_space c" "c \<noteq> CHR ''=''" "c \<noteq> CHR ''-''" "c \<noteq> CHR ''_''"
    by (auto simp: b64_value_def is_space_def Let_def split: if_splits)
qed

lemma b64_encode_shape:
  "\<exists>body k. b64_encode bs = body @ replicate k (CHR ''='') \<and> list_all b64_plain body
     \<and> k = (4 - length body mod 4) mod 4 \<and> length body mod 4 \<noteq> 1 \<and> (bs \<noteq> [] \<longrightarrow> body \<noteq> [])"
proof (induction bs rule: b64_encode.induct)
  case 1
  show ?case by (rule exI [of _ "[]"]) simp
next
  case (2 a)
  show ?case
    by (rule exI [of _ "[b64_char (sx1 (unat a)), b64_char (sx2 (unat a) 0)]"], rule exI [of _ 2])
      (simp add: sx_small numeral_2_eq_2)
next
  case (3 a b)
  show ?case
    by (rule exI [of _ "[b64_char (sx1 (unat a)), b64_char (sx2 (unat a) (unat b)), b64_char (sx3 (unat b) 0)]"],
        rule exI [of _ 1])
      (simp add: sx_small)
next
  case (4 a b c bs)
  then obtain body k where IH: "b64_encode bs = body @ replicate k (CHR ''='')" "list_all b64_plain body"
    "k = (4 - length body mod 4) mod 4" "length body mod 4 \<noteq> 1" by blast
  let ?h = "[b64_char (sx1 (unat a)), b64_char (sx2 (unat a) (unat b)), b64_char (sx3 (unat b) (unat c)),
     b64_char (sx4 (unat c))]"
  have "length (?h @ body) mod 4 = length body mod 4" by simp
  with IH show ?case
    by (intro exI [of _ "?h @ body"] exI [of _ k]) (simp add: sx_small)
qed

lemma strip_padding_append:
  "list_all b64_plain body \<Longrightarrow> strip_padding (body @ replicate k (CHR ''='')) = body"
proof -
  assume plain: "list_all b64_plain body"
  have "dropWhile (\<lambda>c. c = CHR ''='') (replicate k (CHR ''='') @ rev body) = rev body"
  proof (induction k)
    case 0
    show ?case
    proof (cases "rev body")
      case (Cons x xs)
      then have "x \<in> set body" by (metis list.set_intros(1) set_rev)
      with plain have "x \<noteq> CHR ''=''" by (auto simp: list_all_iff dest: b64_plainD)
      with Cons show ?thesis by simp
    qed simp
  qed simp
  then show ?thesis by simp
qed

lemma decode_encode_base64:
  assumes "bs \<noteq> []"
  shows "decode_base64 (b64_encode bs) (Some Base64Standard) = Inr bs"
proof -
  obtain body k where enc: "b64_encode bs = body @ replicate k (CHR ''='')" and plain: "list_all b64_plain body"
    and k: "k = (4 - length body mod 4) mod 4" and len: "length body mod 4 \<noteq> 1" and "body \<noteq> []"
    using b64_encode_shape [of bs] assms by blast
  have "b64_plain c \<or> c = CHR ''=''" if "c \<in> set (b64_encode bs)" for c
    using that plain by (auto simp: enc list_all_iff)
  then have chars: "\<forall>c \<in> set (b64_encode bs). \<not> is_space c \<and> c \<noteq> CHR ''-'' \<and> c \<noteq> CHR ''_''"
    using b64_plainD(2,4,5) by (force simp: is_space_def)
  then have compact: "filter (\<lambda>c. \<not> is_space c) (b64_encode bs) = b64_encode bs"
    by (simp add: filter_id_conv)
  have strip: "strip_padding (b64_encode bs) = body"
    using plain by (simp add: enc strip_padding_append del: strip_padding.simps)
  have "list_all b64_url_char body"
    using plain b64_plainD(1) by (auto simp: list_all_iff b64_url_char_def)
  moreover have "k \<le> 2"
  proof -
    have small: "(4 - m) mod 4 \<le> (2 :: nat)" if "m < 4" and "m \<noteq> 1" for m :: nat
    proof -
      have "m \<in> {0, 1, 2, 3}" using that by auto
      then show ?thesis using that by auto
    qed
    then show ?thesis unfolding k using len by (intro small) simp_all
  qed
  ultimately have "b64_shape (b64_encode bs)"
    unfolding b64_shape_def strip by (simp add: enc)
  moreover have "map standard_char body = body"
    using plain b64_plainD(4,5) by (intro map_idI) (auto simp: list_all_iff standard_char_def)
  ultimately have "normalize_base64 (b64_encode bs) = Inr (b64_encode bs)"
    using \<open>body \<noteq> []\<close> len
    by (simp add: normalize_base64_def compact strip Let_def del: strip_padding.simps)
      (simp add: enc k)
  then show ?thesis using chars by (auto simp: decode_base64_def atob_encode)
qed

end
