(* ===== verification/OwnerKeys.thy ===== *)
theory OwnerKeys
  imports Bytes
begin

text \<open>
  The textual Ed25519 public keys of \<open>pi-extension/src/pairing/crypto.ts\<close>: an Owner writes
  its key in the standard or the URL-safe Base64 alphabet, with or without padding, and the
  decoder accepts exactly the canonical spellings. Key generation, signing and hashing are
  calls of \<open>@noble/ed25519\<close> and \<open>node:crypto\<close> and not modelled. A decoder that throws is
  \<open>Inl\<close> of the message of its \<open>Ed25519PublicKeyError\<close>.
\<close>

section \<open>Decoding\<close>

definition ed25519_public_key_bytes :: nat where "ed25519_public_key_bytes = 32"

definition key_error :: "string \<Rightarrow> string \<Rightarrow> string" where
  "key_error fld message = fld @ '': '' @ message"

text \<open>\<open>[A-Za-z0-9+/]\<close> and \<open>[A-Za-z0-9_-]\<close>\<close>

definition standard_body_char :: "char \<Rightarrow> bool" where
  "standard_body_char c = (b64_value c \<noteq> None)"

definition url_body_char :: "char \<Rightarrow> bool" where
  "url_body_char c =
     ((b64_value c \<noteq> None \<and> c \<noteq> CHR ''+'' \<and> c \<noteq> CHR ''/'') \<or> c = CHR ''-'' \<or> c = CHR ''_'')"

text \<open>
  \<open>Buffer.from(text, "base64")\<close> never fails; it is called here on full groups of alphabet
  characters only, where it is the decoder of \<open>Bytes\<close> (\<open>decoded_text\<close> below).
\<close>

definition buffer_from_base64 :: "string \<Rightarrow> byte list" where
  "buffer_from_base64 text = (case atob_groups text of Some bs \<Rightarrow> bs | None \<Rightarrow> [])"

definition wrong_length :: "nat \<Rightarrow> string" where
  "wrong_length n =
     ''wrong length ('' @ digits_of n @ '', expected '' @ digits_of ed25519_public_key_bytes @ '')''"

definition decode_ed25519_public_key :: "string \<Rightarrow> string \<Rightarrow> (string, byte list) result" where
  "decode_ed25519_public_key raw fld =
     (let standard = list_ex (\<lambda>c. c = CHR ''+'' \<or> c = CHR ''/'') raw;
          url_safe = list_ex (\<lambda>c. c = CHR ''-'' \<or> c = CHR ''_'') raw;
          body = takeWhile (\<lambda>c. c \<noteq> CHR ''='') raw;
          padding = dropWhile (\<lambda>c. c \<noteq> CHR ''='') raw;
          required = (4 - length body mod 4) mod 4;
          normalized = map standard_char body;
          bytes = buffer_from_base64 (normalized @ replicate required (CHR ''=''));
          canonical = b64_encode bytes
      in if raw = [] then Inl (key_error fld ''invalid base64 encoding'')
         else if standard \<and> url_safe then Inl (key_error fld ''mixed base64 alphabets'')
         else if body = [] \<or> \<not> list_all (if url_safe then url_body_char else standard_body_char) body
           \<or> (padding \<noteq> [] \<and> padding \<noteq> ''='' \<and> padding \<noteq> ''=='')
           then Inl (key_error fld ''invalid base64 encoding'')
         else if required = 3 \<or> (padding \<noteq> [] \<and> length padding \<noteq> required)
           then Inl (key_error fld ''invalid base64 padding'')
         else if length bytes \<noteq> ed25519_public_key_bytes
           then Inl (key_error fld (wrong_length (length bytes)))
         else if normalized @ padding \<noteq> canonical \<and> normalized @ padding \<noteq> strip_padding canonical
           then Inl (key_error fld ''non-canonical base64 trailing bits'')
         else Inr bytes)"

definition encode_ed25519_public_key :: "byte list \<Rightarrow> string \<Rightarrow> (string, string) result" where
  "encode_ed25519_public_key bytes fld =
     (if length bytes \<noteq> ed25519_public_key_bytes then Inl (key_error fld (wrong_length (length bytes)))
      else Inr (b64_encode bytes))"

definition canonicalize_ed25519_public_key :: "string \<Rightarrow> string \<Rightarrow> (string, string) result" where
  "canonicalize_ed25519_public_key raw fld =
     (case decode_ed25519_public_key raw fld of Inl e \<Rightarrow> Inl e
      | Inr bytes \<Rightarrow> encode_ed25519_public_key bytes fld)"

section \<open>The spellings of a key\<close>

definition url_char :: "char \<Rightarrow> char" where
  "url_char c = (if c = CHR ''+'' then CHR ''-'' else if c = CHR ''/'' then CHR ''_'' else c)"

definition spellings :: "byte list \<Rightarrow> string list" where
  "spellings bytes =
     (let padded = b64_encode bytes; bare = strip_padding padded
      in [padded, bare, map url_char padded, map url_char bare])"

lemma standard_url_char: "b64_plain c \<Longrightarrow> standard_char (url_char c) = c"
  using b64_plainD [of c] by (auto simp: standard_char_def url_char_def)

lemma url_standard_char:
  "url_body_char c \<Longrightarrow> url_char (standard_char c) = c"
  by (auto simp: url_body_char_def standard_char_def url_char_def)

lemma standard_body_char_id: "standard_body_char c \<Longrightarrow> standard_char c = c"
  by (auto simp: standard_body_char_def standard_char_def b64_value_def split: if_splits)

lemma url_char_bodies:
  assumes "b64_plain c"
  shows "standard_body_char c" "url_body_char (url_char c)" "url_char c \<noteq> CHR ''=''"
    "url_char c \<noteq> CHR ''+''" "url_char c \<noteq> CHR ''/''"
  using b64_plainD [OF assms]
  by (auto simp: standard_body_char_def url_body_char_def url_char_def split: if_splits)

text \<open>Taking a text apart at its first padding character.\<close>

lemma body_of_padded:
  assumes "list_all (\<lambda>c. c \<noteq> CHR ''='') body"
  shows "takeWhile (\<lambda>c. c \<noteq> CHR ''='') (body @ replicate k (CHR ''='')) = body"
    and "dropWhile (\<lambda>c. c \<noteq> CHR ''='') (body @ replicate k (CHR ''='')) = replicate k (CHR ''='')"
  using assms by (induction body) (auto simp: dropWhile_replicate takeWhile_replicate)

text \<open>
  What the decoder makes of a body in one alphabet whose standard form is the unpadded
  encoding of the key, followed by all or none of its padding.
\<close>

lemma decode_body:
  assumes len: "length bytes = 32"
    and enc: "b64_encode bytes = plain @ replicate k (CHR ''='')" "k = (4 - length plain mod 4) mod 4"
      "k \<le> 2" "plain \<noteq> []" "list_all b64_plain plain"
    and body: "body = plain \<or> body = map url_char plain"
    and pad: "padding = [] \<or> padding = replicate k (CHR ''='')"
  shows "decode_ed25519_public_key (body @ padding) fld = Inr bytes"
proof -
  have chars: "b64_plain c" if "c \<in> set plain" for c using enc(5) that by (simp add: list_all_iff)
  have no_pad: "list_all (\<lambda>c. c \<noteq> CHR ''='') body"
    unfolding list_all_iff using body b64_plainD(3) [OF chars] url_char_bodies(3) [OF chars] by fastforce
  obtain j where j: "padding = replicate j (CHR ''='')" "j = 0 \<or> j = k" using pad by auto
  note parts = body_of_padded [OF no_pad, of j, folded j(1)]
  have norm: "map standard_char body = plain"
    using body standard_url_char [OF chars] standard_body_char_id [OF url_char_bodies(1) [OF chars]]
    by (auto simp: map_idI)
  have same_length: "length body = length plain" using body by auto
  have bytes: "buffer_from_base64 (plain @ replicate k (CHR ''='')) = bytes"
    using enc(1) by (simp add: buffer_from_base64_def atob_encode flip: enc(1))
  have strip: "strip_padding (plain @ replicate k (CHR ''='')) = plain"
    by (rule strip_padding_append [OF enc(5)])
  have mixed: "\<not> (list_ex (\<lambda>c. c = CHR ''+'' \<or> c = CHR ''/'') (body @ padding)
      \<and> list_ex (\<lambda>c. c = CHR ''-'' \<or> c = CHR ''_'') (body @ padding))"
    using body
  proof
    assume "body = plain"
    then show ?thesis
      unfolding list_ex_iff j(1) using b64_plainD(4,5) [OF chars] by fastforce
  next
    assume "body = map url_char plain"
    then show ?thesis
      unfolding list_ex_iff j(1) using url_char_bodies(4,5) [OF chars] by fastforce
  qed
  have alphabet: "list_all (if list_ex (\<lambda>c. c = CHR ''-'' \<or> c = CHR ''_'') (body @ padding)
      then url_body_char else standard_body_char) body"
    using body
  proof
    assume b: "body = plain"
    then have "\<not> list_ex (\<lambda>c. c = CHR ''-'' \<or> c = CHR ''_'') (body @ padding)"
      unfolding list_ex_iff j(1) using b64_plainD(4,5) [OF chars] by fastforce
    then show ?thesis using b url_char_bodies(1) [OF chars] by (auto simp: list_all_iff)
  next
    assume b: "body = map url_char plain"
    have "standard_body_char c \<or> c = CHR ''-'' \<or> c = CHR ''_''" if "c \<in> set body" for c
      using that b url_char_bodies(2) [OF chars] by (auto simp: url_body_char_def standard_body_char_def)
    then show ?thesis
      using b url_char_bodies(2) [OF chars] by (auto simp: list_all_iff list_ex_iff)
  qed
  have "j \<le> 2" using j(2) enc(3) by auto
  then have pads: "padding = [] \<or> padding = ''='' \<or> padding = ''==''"
    using j(1) by (cases j) (auto simp: numeral_2_eq_2 le_Suc_eq)
  have len': "padding = [] \<or> length padding = k" using j by auto
  have "body @ padding \<noteq> []" "body \<noteq> []" using same_length enc(4) by auto
  note ne = this
  have required: "k \<noteq> 3" using enc(3) by simp
  have spelled: "plain @ padding = b64_encode bytes \<or> plain @ padding = strip_padding (b64_encode bytes)"
    using pad enc(1) strip by (auto simp del: strip_padding.simps)
  have pad_ok: "\<not> (k = 3 \<or> (padding \<noteq> [] \<and> length padding \<noteq> k))"
    using required len' by auto
  have body_ok: "\<not> (body = [] \<or> \<not> list_all (if list_ex (\<lambda>c. c = CHR ''-'' \<or> c = CHR ''_'') (body @ padding)
      then url_body_char else standard_body_char) body \<or> (padding \<noteq> [] \<and> padding \<noteq> ''='' \<and> padding \<noteq> ''==''))"
    using alphabet pads ne(2) by blast
  show ?thesis
    unfolding decode_ed25519_public_key_def Let_def parts same_length enc(2) [symmetric] norm bytes
      ed25519_public_key_bytes_def
    unfolding if_not_P [OF ne(1)] if_not_P [OF mixed] if_not_P [OF body_ok] if_not_P [OF pad_ok]
    using len spelled by (simp del: strip_padding.simps)
qed

text \<open>The shape of the encoding of a key.\<close>

lemma key_encoding_shape:
  assumes "length bytes = 32"
  obtains plain k where "b64_encode bytes = plain @ replicate k (CHR ''='')"
    "k = (4 - length plain mod 4) mod 4" "k \<le> 2" "plain \<noteq> []" "list_all b64_plain plain"
proof -
  from assms have "bytes \<noteq> []" by auto
  with b64_encode_shape [of bytes] obtain plain k where s:
    "b64_encode bytes = plain @ replicate k (CHR ''='')" "list_all b64_plain plain"
    "k = (4 - length plain mod 4) mod 4" "length plain mod 4 \<noteq> 1" "plain \<noteq> []" by blast
  have "length plain mod 4 \<in> {0, 2, 3}" using s(4) by auto
  then have "k \<le> 2" unfolding s(3) by auto
  with s that show ?thesis by blast
qed

lemma decode_spelling:
  assumes "length bytes = 32" and "raw \<in> set (spellings bytes)"
  shows "decode_ed25519_public_key raw fld = Inr bytes"
proof -
  obtain plain k where s: "b64_encode bytes = plain @ replicate k (CHR ''='')"
    "k = (4 - length plain mod 4) mod 4" "k \<le> 2" "plain \<noteq> []" "list_all b64_plain plain"
    using key_encoding_shape [OF assms(1)] .
  have strip: "strip_padding (plain @ replicate k (CHR ''='')) = plain"
    by (rule strip_padding_append [OF s(5)])
  have url_pad: "map url_char (replicate k (CHR ''='')) = replicate k (CHR ''='')"
    by (simp add: url_char_def)
  note d = decode_body [OF assms(1) s, of _ _ fld]
  from assms(2) consider "raw = plain @ replicate k (CHR ''='')" | "raw = plain @ []"
    | "raw = map url_char plain @ replicate k (CHR ''='')" | "raw = map url_char plain @ []"
    unfolding spellings_def Let_def s(1) strip map_append url_pad by auto
  then show ?thesis using d by cases blast+
qed

lemma decoded_spelling:
  assumes "decode_ed25519_public_key raw fld = Inr bytes"
  shows "length bytes = 32 \<and> raw \<in> set (spellings bytes)"
proof -
  let ?body = "takeWhile (\<lambda>c. c \<noteq> CHR ''='') raw" and ?padding = "dropWhile (\<lambda>c. c \<noteq> CHR ''='') raw"
  let ?url = "list_ex (\<lambda>c. c = CHR ''-'' \<or> c = CHR ''_'') raw"
  have raw: "raw = ?body @ ?padding" by simp
  from assms have len: "length bytes = 32"
    and chars: "list_all (if ?url then url_body_char else standard_body_char) ?body"
    and pad: "?padding = [] \<or> ?padding = ''='' \<or> ?padding = ''==''"
    and norm: "map standard_char ?body @ ?padding = b64_encode bytes
      \<or> map standard_char ?body @ ?padding = strip_padding (b64_encode bytes)"
    by (auto simp: decode_ed25519_public_key_def Let_def ed25519_public_key_bytes_def
        simp del: strip_padding.simps split: if_split_asm)
  show ?thesis
  proof (cases ?url)
    case False
    then have "map standard_char ?body = ?body"
      using chars standard_body_char_id by (intro map_idI) (simp add: list_all_iff)
    with norm raw have "raw = b64_encode bytes \<or> raw = strip_padding (b64_encode bytes)" by simp
    with len show ?thesis by (auto simp: spellings_def Let_def simp del: strip_padding.simps)
  next
    case True
    then have "map url_char (map standard_char ?body) = ?body"
      using chars url_standard_char by (simp add: list_all_iff map_idI)
    moreover have "map url_char ?padding = ?padding"
      using pad by (elim disjE) (simp_all only: list.map url_char_def, simp_all)
    ultimately have "raw = map url_char (map standard_char ?body @ ?padding)"
      using raw unfolding map_append by metis
    with norm have "raw = map url_char (b64_encode bytes)
      \<or> raw = map url_char (strip_padding (b64_encode bytes))" by metis
    with len show ?thesis by (auto simp: spellings_def Let_def simp del: strip_padding.simps)
  qed
qed

lemma decode_key_iff:
  "decode_ed25519_public_key raw fld = Inr bytes \<longleftrightarrow> length bytes = 32 \<and> raw \<in> set (spellings bytes)"
  using decode_spelling decoded_spelling by blast

lemma canonicalize_iff:
  "canonicalize_ed25519_public_key raw fld = Inr c \<longleftrightarrow>
     (\<exists>bytes. length bytes = 32 \<and> raw \<in> set (spellings bytes) \<and> c = b64_encode bytes)"
proof
  assume "canonicalize_ed25519_public_key raw fld = Inr c"
  then obtain bytes where "decode_ed25519_public_key raw fld = Inr bytes" "c = b64_encode bytes"
    by (auto simp: canonicalize_ed25519_public_key_def encode_ed25519_public_key_def
        split: sum.splits if_splits)
  then show "\<exists>bytes. length bytes = 32 \<and> raw \<in> set (spellings bytes) \<and> c = b64_encode bytes"
    using decoded_spelling by blast
next
  assume "\<exists>bytes. length bytes = 32 \<and> raw \<in> set (spellings bytes) \<and> c = b64_encode bytes"
  then show "canonicalize_ed25519_public_key raw fld = Inr c"
    by (auto simp: canonicalize_ed25519_public_key_def encode_ed25519_public_key_def
        ed25519_public_key_bytes_def decode_spelling)
qed

lemma b64_encode_inj: "b64_encode a = b64_encode b \<Longrightarrow> a = b"
  using atob_encode by (metis option.inject)

text \<open>
  C8: the decoder accepts exactly four spellings of each 32-byte key (standard or URL-safe
  alphabet, padded or not), each back to the key; the canonical form is one of them, so it
  is its own canonical form, and two texts have the same canonical form exactly when they
  spell the same key.
\<close>

theorem key_spellings:
  "(decode_ed25519_public_key raw fld = Inr bytes \<longleftrightarrow>
      length bytes = 32 \<and> raw \<in> set (spellings bytes))
   \<and> (encode_ed25519_public_key bytes fld = Inr c \<longrightarrow>
        decode_ed25519_public_key c fld = Inr bytes \<and> canonicalize_ed25519_public_key c fld = Inr c)
   \<and> (decode_ed25519_public_key raw fld = Inr bytes \<longrightarrow>
        (canonicalize_ed25519_public_key raw' fld = canonicalize_ed25519_public_key raw fld
          \<longleftrightarrow> decode_ed25519_public_key raw' fld = Inr bytes))"
proof (intro conjI impI)
  show "decode_ed25519_public_key raw fld = Inr bytes \<longleftrightarrow>
      length bytes = 32 \<and> raw \<in> set (spellings bytes)" by (rule decode_key_iff)
next
  assume "encode_ed25519_public_key bytes fld = Inr c"
  then have "length bytes = 32" "c = b64_encode bytes"
    by (auto simp: encode_ed25519_public_key_def ed25519_public_key_bytes_def split: if_splits)
  then show "decode_ed25519_public_key c fld = Inr bytes" "canonicalize_ed25519_public_key c fld = Inr c"
    by (auto simp: decode_key_iff canonicalize_iff spellings_def Let_def)
next
  assume "decode_ed25519_public_key raw fld = Inr bytes"
  then have c: "canonicalize_ed25519_public_key raw fld = Inr (b64_encode bytes)"
    by (auto simp: decode_key_iff canonicalize_iff)
  show "canonicalize_ed25519_public_key raw' fld = canonicalize_ed25519_public_key raw fld
      \<longleftrightarrow> decode_ed25519_public_key raw' fld = Inr bytes"
    unfolding c by (auto simp: canonicalize_iff decode_key_iff dest: b64_encode_inj)
qed

definition demo_key :: "byte list" where
  "demo_key = 251 # 255 # replicate 30 7"

definition demo_key_text :: string where
  "demo_key_text = map url_char (strip_padding (b64_encode demo_key))"

theorem key_spellings_witness:
  "demo_key_text \<noteq> b64_encode demo_key
   \<and> decode_ed25519_public_key demo_key_text ''k'' = Inr demo_key
   \<and> decode_ed25519_public_key (b64_encode demo_key) ''k'' = Inr demo_key
   \<and> canonicalize_ed25519_public_key (b64_encode demo_key) ''k''
       = canonicalize_ed25519_public_key demo_key_text ''k''"
proof -
  have ne: "demo_key_text \<noteq> b64_encode demo_key" by code_simp
  have dec: "decode_ed25519_public_key demo_key_text ''k'' = Inr demo_key" by code_simp
  have enc: "encode_ed25519_public_key demo_key ''k'' = Inr (b64_encode demo_key)" by code_simp
  note k = key_spellings [of demo_key_text "''k''" demo_key "b64_encode demo_key" "b64_encode demo_key"]
  show ?thesis using ne k dec enc by blast
qed

end
