(* ===== verification/OwnerStorage.thy ===== *)
theory OwnerStorage
  imports OwnerKeys
begin

text \<open>
  \<open>pi-extension/src/pairing/owner_storage.ts\<close>: the list of paired Owners in
  \<open>~/.pi/remote/peers.json\<close> and the process-local tokens that say which write an Owner's slot
  stems from. Mutations run one after the other (\<open>_serializePeerMutation\<close>), so each is one
  step here; other processes change the file between two steps (\<open>SExternal\<close>).

  A file is what \<open>readFile\<close> and \<open>JSON.parse\<close> make of it. A token object is compared by
  identity, so it is a number that is never given twice. The outcome of \<open>mkdir\<close>, of the write
  and of \<open>canCommit\<close> are the environment of an operation; a write that fails may leave any
  file behind. An operation that throws is \<open>Inl\<close> of the message.
\<close>

section \<open>The file\<close>

datatype peers_file = NoFile | Unreadable string | NotJson string | Parsed json

record peer_record =
  pr_name :: string
  pr_epk :: string
  pr_paired_at :: string

definition peer_json :: "peer_record \<Rightarrow> json" where
  "peer_json r = JObj [(''name'', JStr (pr_name r)), (''remote_epk'', JStr (pr_epk r)),
     (''paired_at'', JStr (pr_paired_at r))]"

definition list_peers :: "peers_file \<Rightarrow> json list" where
  "list_peers f =
     (case f of Parsed p \<Rightarrow> (case field ''peers'' p of Some (JArr ps) \<Rightarrow> ps | _ \<Rightarrow> []) | _ \<Rightarrow> [])"

definition read_peer_container_strict :: "peers_file \<Rightarrow> (string, json list) result" where
  "read_peer_container_strict f =
     (case f of
        NoFile \<Rightarrow> Inr []
      | Unreadable e \<Rightarrow> Inl e
      | NotJson e \<Rightarrow> Inl e
      | Parsed JNull \<Rightarrow> Inl ''Cannot read properties of null (reading 'peers')''
      | Parsed p \<Rightarrow> (case field ''peers'' p of Some (JArr ps) \<Rightarrow> Inr ps
                   | _ \<Rightarrow> Inl ''Invalid peers.json container''))"

definition container :: "json list \<Rightarrow> peers_file" where
  "container peers = Parsed (JObj [(''peers'', JArr peers)])"

text \<open>\<open>!!peer && typeof peer === "object"\<close>, and the raw handle of an entry (\<open>None\<close>: undefined).\<close>

definition is_object :: "json \<Rightarrow> bool" where
  "is_object peer = (case peer of JObj _ \<Rightarrow> True | JArr _ \<Rightarrow> True | _ \<Rightarrow> False)"

definition has_epk :: "string \<Rightarrow> json \<Rightarrow> bool" where
  "has_epk epk peer = (is_object peer \<and> field ''remote_epk'' peer = Some (JStr epk))"

definition raw_owner :: "json \<Rightarrow> json option" where
  "raw_owner peer = (if is_object peer then field ''remote_epk'' peer else Some peer)"

fun find_index :: "('a \<Rightarrow> bool) \<Rightarrow> 'a list \<Rightarrow> nat option" where
  "find_index P [] = None"
| "find_index P (x # xs) = (if P x then Some 0 else map_option Suc (find_index P xs))"

section \<open>Slots and tokens\<close>

record owner_storage =
  os_file :: peers_file
  os_tokens :: "(string, nat) js_map"
  os_next :: nat

definition type_of :: "json option \<Rightarrow> string" where
  "type_of v = (case v of None \<Rightarrow> ''undefined'' | Some (JBool _) \<Rightarrow> ''boolean''
     | Some (JNum _) \<Rightarrow> ''number'' | Some (JStr _) \<Rightarrow> ''string'' | Some _ \<Rightarrow> ''object'')"

definition owner_slot_key :: "json option \<Rightarrow> string" where
  "owner_slot_key raw =
     (case raw of
        Some (JStr s) \<Rightarrow>
          (case canonicalize_ed25519_public_key s ''Owner record'' of
             Inr c \<Rightarrow> ''owner:'' @ c
           | Inl _ \<Rightarrow> ''raw:string:'' @ s)
      | _ \<Rightarrow> ''raw:quarantine:'' @ type_of raw)"

definition token_for_slot :: "string \<Rightarrow> owner_storage \<Rightarrow> owner_storage \<times> nat" where
  "token_for_slot slot st =
     (case jm_get (os_tokens st) slot of
        Some t \<Rightarrow> (st, t)
      | None \<Rightarrow> (st \<lparr> os_tokens := jm_set slot (os_next st) (os_tokens st), os_next := Suc (os_next st) \<rparr>,
                 os_next st))"

definition invalidate_owner_slot :: "json option \<Rightarrow> owner_storage \<Rightarrow> owner_storage \<times> nat" where
  "invalidate_owner_slot raw st =
     (st \<lparr> os_tokens := jm_set (owner_slot_key raw) (os_next st) (os_tokens st),
           os_next := Suc (os_next st) \<rparr>, os_next st)"

section \<open>Operations\<close>

datatype write_result = WriteOk | WriteThrows string peers_file

record fs_env =
  fe_mkdir :: "string option"
  fe_write :: write_result
  fe_can_commit :: "(unit, bool) result option"

record write_receipt =
  wr_record :: peer_record
  wr_token :: nat
  wr_previous :: "json option"

datatype storage_outcome =
    OcRemoved nat
  | OcRestored nat
  | OcStale
  | OcNotFound
  | OcNoAuthority

definition write_peers :: "fs_env \<Rightarrow> json list \<Rightarrow> owner_storage \<Rightarrow> owner_storage \<times> string option" where
  "write_peers env peers st =
     (case fe_write env of
        WriteOk \<Rightarrow> (st \<lparr> os_file := container peers \<rparr>, None)
      | WriteThrows e left \<Rightarrow> (st \<lparr> os_file := left \<rparr>, Some e))"

definition authorized :: "fs_env \<Rightarrow> bool" where
  "authorized env = (case fe_can_commit env of None \<Rightarrow> True | Some (Inl _) \<Rightarrow> False | Some (Inr b) \<Rightarrow> b)"

definition add_peer ::
  "peer_record \<Rightarrow> fs_env \<Rightarrow> owner_storage \<Rightarrow> owner_storage \<times> (string, write_receipt) result" where
  "add_peer r env st =
     (let peers = list_peers (os_file st);
          idx = find_index (has_epk (pr_epk r)) peers;
          peers' = (case idx of Some i \<Rightarrow> peers[i := peer_json r] | None \<Rightarrow> peers @ [peer_json r])
      in case fe_mkdir env of Some e \<Rightarrow> (st, Inl e) | None \<Rightarrow>
         (case write_peers env peers' st of
            (st1, Some e) \<Rightarrow> (st1, Inl e)
          | (st1, None) \<Rightarrow>
              (let (st2, t) = invalidate_owner_slot (Some (JStr (pr_epk r))) st1
               in (st2, Inr \<lparr> wr_record = r, wr_token = t,
                              wr_previous = map_option (\<lambda>i. peers ! i) idx \<rparr>))))"

text \<open>A \<open>Set\<close> of raw handles: objects are distinct by identity, other values by value.\<close>

definition same_value :: "json option \<Rightarrow> json option \<Rightarrow> bool" where
  "same_value a b = (a = b \<and> (case a of Some v \<Rightarrow> \<not> is_object v | None \<Rightarrow> True))"

definition js_set_add :: "json option list \<Rightarrow> json option \<Rightarrow> json option list" where
  "js_set_add seen v = (if list_ex (same_value v) seen then seen else seen @ [v])"

definition raw_owners :: "json list \<Rightarrow> json option list" where
  "raw_owners peers = foldl js_set_add [] (map raw_owner peers)"

definition list_owner_pubkeys :: "owner_storage \<Rightarrow> json option list" where
  "list_owner_pubkeys st = raw_owners (list_peers (os_file st))"

fun tokens_for :: "json option list \<Rightarrow> owner_storage \<Rightarrow> owner_storage \<times> (json option \<times> nat) list" where
  "tokens_for [] st = (st, [])"
| "tokens_for (raw # raws) st =
     (let (st1, t) = token_for_slot (owner_slot_key raw) st; (st2, rest) = tokens_for raws st1
      in (st2, (raw, t) # rest))"

definition snapshot_owner_pubkeys ::
  "owner_storage \<Rightarrow> owner_storage \<times> (string, (json option \<times> nat) list) result" where
  "snapshot_owner_pubkeys st =
     (case read_peer_container_strict (os_file st) of
        Inl e \<Rightarrow> (st, Inl e)
      | Inr peers \<Rightarrow> (let (st', snap) = tokens_for (raw_owners peers) st in (st', Inr snap)))"

definition conditional_remove_peer ::
  "string \<Rightarrow> nat \<Rightarrow> fs_env \<Rightarrow> owner_storage \<Rightarrow> owner_storage \<times> (string, storage_outcome) result" where
  "conditional_remove_peer epk expected env st =
     (let slot = owner_slot_key (Some (JStr epk)); (st1, t) = token_for_slot slot st
      in if t \<noteq> expected then (st1, Inr OcStale)
         else case read_peer_container_strict (os_file st1) of
           Inl e \<Rightarrow> (st1, Inl e)
         | Inr peers \<Rightarrow>
             (let filtered = filter (\<lambda>peer. \<not> has_epk epk peer) peers
              in if length filtered = length peers then (st1, Inr OcNotFound)
                 else case fe_mkdir env of Some e \<Rightarrow> (st1, Inl e) | None \<Rightarrow>
                   (let (st2, t2) = token_for_slot slot st1
                    in if t2 \<noteq> expected then (st2, Inr OcStale)
                       else if \<not> authorized env then (st2, Inr OcNoAuthority)
                       else case write_peers env filtered st2 of
                         (st3, Some e) \<Rightarrow> (st3, Inl e)
                       | (st3, None) \<Rightarrow>
                           (let (st4, n) = invalidate_owner_slot (Some (JStr epk)) st3
                            in (st4, Inr (OcRemoved n))))))"

definition conditional_rollback_peer ::
  "write_receipt \<Rightarrow> fs_env \<Rightarrow> owner_storage \<Rightarrow> owner_storage \<times> (string, storage_outcome) result" where
  "conditional_rollback_peer rc env st =
     (let raw = Some (JStr (pr_epk (wr_record rc))); slot = owner_slot_key raw;
          (st1, t) = token_for_slot slot st
      in if t \<noteq> wr_token rc then (st1, Inr OcStale)
         else case read_peer_container_strict (os_file st1) of
           Inl e \<Rightarrow> (st1, Inl e)
         | Inr peers \<Rightarrow>
             (case find_index (\<lambda>peer. stringify peer = stringify (peer_json (wr_record rc))) peers of
                None \<Rightarrow> (st1, Inr OcNotFound)
              | Some i \<Rightarrow>
                  (let next = (case wr_previous rc of Some p \<Rightarrow> peers[i := p]
                               | None \<Rightarrow> take i peers @ drop (Suc i) peers)
                   in case fe_mkdir env of Some e \<Rightarrow> (st1, Inl e) | None \<Rightarrow>
                     (let (st2, t2) = token_for_slot slot st1
                      in if t2 \<noteq> wr_token rc then (st2, Inr OcStale)
                         else if \<not> authorized env then (st2, Inr OcNoAuthority)
                         else case write_peers env next st2 of
                           (st3, Some e) \<Rightarrow> (st3, Inl e)
                         | (st3, None) \<Rightarrow>
                             (let (st4, n) = invalidate_owner_slot raw st3
                              in (st4, Inr (if wr_previous rc \<noteq> None then OcRestored n
                                            else OcRemoved n)))))))"

definition remove_peer ::
  "string \<Rightarrow> fs_env \<Rightarrow> owner_storage \<Rightarrow> owner_storage \<times> (string, bool) result" where
  "remove_peer epk env st =
     (let peers = list_peers (os_file st);
          filtered = filter (\<lambda>peer. \<not> has_epk epk peer) peers
      in if length filtered = length peers then (st, Inr False)
         else case fe_mkdir env of Some e \<Rightarrow> (st, Inl e) | None \<Rightarrow>
           if \<not> authorized env then (st, Inr False)
           else case write_peers env filtered st of
             (st1, Some e) \<Rightarrow> (st1, Inl e)
           | (st1, None) \<Rightarrow> (fst (invalidate_owner_slot (Some (JStr epk)) st1), Inr True))"

section \<open>The machine\<close>

datatype storage_input =
    SAdd peer_record fs_env
  | SSnapshot
  | SCondRemove string nat fs_env
  | SRollback write_receipt fs_env
  | SRemove string fs_env
  | SExternal peers_file

text \<open>One input: the state after it and whether it reports a successful write.\<close>

definition outcome_wrote :: "(string, storage_outcome) result \<Rightarrow> bool" where
  "outcome_wrote r = (case r of Inr (OcRemoved _) \<Rightarrow> True | Inr (OcRestored _) \<Rightarrow> True | _ \<Rightarrow> False)"

fun storage_do :: "owner_storage \<Rightarrow> storage_input \<Rightarrow> owner_storage \<times> bool" where
  "storage_do st (SAdd r env) = (let (st', a) = add_peer r env st in (st', \<not> isl a))"
| "storage_do st SSnapshot = (fst (snapshot_owner_pubkeys st), False)"
| "storage_do st (SCondRemove epk t env) =
     (let (st', a) = conditional_remove_peer epk t env st in (st', outcome_wrote a))"
| "storage_do st (SRollback rc env) =
     (let (st', a) = conditional_rollback_peer rc env st in (st', outcome_wrote a))"
| "storage_do st (SRemove epk env) = (let (st', a) = remove_peer epk env st in (st', a = Inr True))"
| "storage_do st (SExternal f) = (st \<lparr> os_file := f \<rparr>, False)"

definition storage_step :: "owner_storage \<Rightarrow> storage_input \<Rightarrow> owner_storage" where
  "storage_step st i = fst (storage_do st i)"

text \<open>The Owner handle that an input is about, and the slot it writes when it succeeds.\<close>

fun input_epk :: "storage_input \<Rightarrow> string option" where
  "input_epk (SAdd r _) = Some (pr_epk r)"
| "input_epk (SCondRemove epk _ _) = Some epk"
| "input_epk (SRollback rc _) = Some (pr_epk (wr_record rc))"
| "input_epk (SRemove epk _) = Some epk"
| "input_epk _ = None"

definition slot_of :: "string \<Rightarrow> string" where
  "slot_of epk = owner_slot_key (Some (JStr epk))"

definition writes_slot :: "owner_storage \<Rightarrow> storage_input \<Rightarrow> string \<Rightarrow> bool" where
  "writes_slot st i slot \<longleftrightarrow> snd (storage_do st i) \<and> map_option slot_of (input_epk i) = Some slot"

section \<open>The text of an entry\<close>

text \<open>
  A rollback looks for its entry by the text that \<open>JSON.stringify\<close> gives it. On parsed values
  (whose numbers print as numbers) that text belongs to one value only.
\<close>

definition number_ok :: "number \<Rightarrow> bool" where
  "number_ok n = (case n of NFrac s \<Rightarrow> s \<noteq> [] \<and> (hd s = CHR ''-'' \<or> is_digit (hd s)) | NInt _ \<Rightarrow> True
     | _ \<Rightarrow> False)"

fun parsed_json :: "json \<Rightarrow> bool" where
  "parsed_json (JNum n) = number_ok n"
| "parsed_json (JArr js) = list_all parsed_json js"
| "parsed_json (JObj ms) = list_all (\<lambda>(k, v). parsed_json v) ms"
| "parsed_json _ = True"

definition hex_value :: "char \<Rightarrow> nat" where
  "hex_value c = (let n = of_char c in if n < 58 then n - 48 else n - 87)"

lemma hex_value_digit: "n < 16 \<Longrightarrow> hex_value (hex_digit n) = n"
  by (auto simp: hex_value_def hex_digit_def Let_def)

text \<open>Reading one escaped character back.\<close>

definition unescape :: "string \<Rightarrow> char \<times> string" where
  "unescape s =
     (if hd s \<noteq> CHR 0x5C then (hd s, tl s)
      else if s ! 1 = CHR ''u'' then (char_of (16 * hex_value (s ! 4) + hex_value (s ! 5)), drop 6 s)
      else (if s ! 1 = CHR ''b'' then CHR 0x08 else if s ! 1 = CHR ''f'' then CHR 0x0C
            else if s ! 1 = CHR ''n'' then CHR 0x0A else if s ! 1 = CHR ''r'' then CHR 0x0D
            else if s ! 1 = CHR ''t'' then CHR 0x09 else s ! 1, drop 2 s))"

lemma char_eqI: "(of_char c :: nat) = of_char d \<Longrightarrow> c = d"
  by simp

lemma unescape_escape: "unescape (escape_char c @ xs) = (c, xs)"
proof -
  let ?n = "of_char c :: nat"
  consider "?n = 34" | "?n = 92" | "?n = 8" | "?n = 12" | "?n = 10" | "?n = 13" | "?n = 9"
    | "?n < 32" "?n \<noteq> 34" "?n \<noteq> 92" "?n \<noteq> 8" "?n \<noteq> 12" "?n \<noteq> 10" "?n \<noteq> 13" "?n \<noteq> 9"
    | "\<not> ?n < 32" "?n \<noteq> 34" "?n \<noteq> 92" by linarith
  then show ?thesis
  proof cases
    case 8
    then have esc: "escape_char c = [CHR 0x5C, CHR ''u'', CHR ''0'', CHR ''0'', hex_digit (?n div 16), hex_digit (?n mod 16)]"
      unfolding escape_char_def Let_def by simp
    have "?n div 16 < 16" "?n mod 16 < 16" using 8(1) by auto
    then have "char_of (16 * hex_value (hex_digit (?n div 16)) + hex_value (hex_digit (?n mod 16))) = c"
      by (simp add: hex_value_digit)
    then show ?thesis by (simp add: esc unescape_def)
  next
    case 9
    then have "escape_char c = [c]" unfolding escape_char_def Let_def by auto
    moreover have "c \<noteq> CHR 0x5C" using 9(3) by auto
    ultimately show ?thesis by (simp add: unescape_def)
  next
    case 1
    then have "c = CHR 0x22" by (intro char_eqI) simp
    then show ?thesis by (simp add: escape_char_def unescape_def)
  next
    case 2
    then have "c = CHR 0x5C" by (intro char_eqI) simp
    then show ?thesis by (simp add: escape_char_def unescape_def)
  next
    case 3
    then have "c = CHR 0x08" by (intro char_eqI) simp
    then show ?thesis by (simp add: escape_char_def unescape_def)
  next
    case 4
    then have "c = CHR 0x0C" by (intro char_eqI) simp
    then show ?thesis by (simp add: escape_char_def unescape_def)
  next
    case 5
    then have "c = CHR 0x0A" by (intro char_eqI) simp
    then show ?thesis by (simp add: escape_char_def unescape_def)
  next
    case 6
    then have "c = CHR 0x0D" by (intro char_eqI) simp
    then show ?thesis by (simp add: escape_char_def unescape_def)
  next
    case 7
    then have "c = CHR 0x09" by (intro char_eqI) simp
    then show ?thesis by (simp add: escape_char_def unescape_def)
  qed
qed

lemma escape_char_prefix: "escape_char c @ xs = escape_char d @ ys \<Longrightarrow> c = d \<and> xs = ys"
  by (metis unescape_escape prod.inject)

lemma escape_char_not_quote: "escape_char c @ xs \<noteq> CHR 0x22 # ys"
proof
  assume h: "escape_char c @ xs = CHR 0x22 # ys"
  then have "unescape (CHR 0x22 # ys) = (c, xs)" using unescape_escape [of c xs] by simp
  then have "c = CHR 0x22" by (simp add: unescape_def)
  with h show False by (simp add: escape_char_def)
qed

lemma quote_text_prefix:
  assumes "quote_text s @ xs = quote_text t @ ys"
  shows "s = t \<and> xs = ys"
proof -
  have "concat (map escape_char s) @ CHR 0x22 # xs = concat (map escape_char t) @ CHR 0x22 # ys
    \<Longrightarrow> s = t \<and> xs = ys" for s t
  proof (induction s arbitrary: t)
    case Nil
    show ?case
    proof (cases t)
      case (Cons d t')
      then show ?thesis using Nil escape_char_not_quote [of d "concat (map escape_char t') @ CHR 0x22 # ys" xs]
        by simp
    qed (use Nil in simp)
  next
    case (Cons c s)
    show ?case
    proof (cases t)
      case Nil
      then show ?thesis
        using Cons.prems escape_char_not_quote [of c "concat (map escape_char s) @ CHR 0x22 # xs" ys]
        by simp
    next
      case (Cons d t')
      with Cons.prems have eq: "escape_char c @ (concat (map escape_char s) @ CHR 0x22 # xs)
          = escape_char d @ (concat (map escape_char t') @ CHR 0x22 # ys)" by simp
      from escape_char_prefix [OF eq] Cons.IH [of t'] \<open>t = d # t'\<close> show ?thesis by blast
    qed
  qed
  note concat = this
  from assms have "concat (map escape_char s) @ CHR 0x22 # xs = concat (map escape_char t) @ CHR 0x22 # ys"
    unfolding quote_text_def append_Cons append_assoc append_Nil list.inject by blast
  then show ?thesis by (rule concat)
qed

text \<open>A value whose text begins like that of a string is that string.\<close>

lemma int_text_head: "\<exists>d ds. int_text i = d # ds \<and> d \<noteq> CHR 0x22 \<and> d \<noteq> CHR ''{''"
proof -
  have digit: "\<exists>d ds. digits_of n = d # ds \<and> d \<noteq> CHR 0x22 \<and> d \<noteq> CHR ''{''" for n
  proof (induction n rule: digits_of.induct)
    case (1 n)
    have "char_of (48 + n) \<noteq> CHR 0x22 \<and> char_of (48 + n) \<noteq> CHR ''{''" if "n < 10"
    proof -
      have "(of_char (char_of (48 + n)) :: nat) = 48 + n" using that by simp
      then show ?thesis using that by (auto dest: arg_cong [where f = "of_char :: char \<Rightarrow> nat"])
    qed
    with 1 show ?case by (subst (1) digits_of.simps) auto
  qed
  show ?thesis
  proof (cases "i < 0")
    case True
    then show ?thesis by (simp add: int_text_def)
  next
    case False
    then have "int_text i = digits_of (nat i)" by (simp add: int_text_def)
    with digit [of "nat i"] show ?thesis by metis
  qed
qed

lemma number_text_head:
  assumes "number_ok n"
  shows "\<exists>d ds. number_text n = d # ds \<and> d \<noteq> CHR 0x22 \<and> d \<noteq> CHR ''{''"
proof (cases n)
  case (NFrac s)
  with assms have "s \<noteq> []" "hd s \<noteq> CHR 0x22" "hd s \<noteq> CHR ''{''"
    by (auto simp: number_ok_def is_digit_def)
  then show ?thesis using NFrac by (cases s) auto
qed (use assms int_text_head in \<open>auto simp: number_ok_def\<close>)

lemma string_text_prefix:
  assumes "parsed_json v" and "stringify v @ xs = quote_text t @ ys"
  shows "v = JStr t \<and> xs = ys"
proof (cases v)
  case (JStr s)
  with assms(2) have "quote_text s @ xs = quote_text t @ ys" by (simp only: stringify.simps)
  from quote_text_prefix [OF this] JStr show ?thesis by blast
next
  case (JNum n)
  with assms number_text_head [of n] show ?thesis by (auto simp: quote_text_def)
qed (use assms in \<open>auto simp: quote_text_def split: if_splits\<close>)

definition member_text :: "string \<times> json \<Rightarrow> string" where
  "member_text m = quote_text (fst m) @ CHR '':'' # stringify (snd m)"

lemma comma_join_Cons: "comma_join (x # xs) = x @ (if xs = [] then [] else CHR '','' # comma_join xs)"
  by (cases xs) auto

lemma stringify_members: "stringify (JObj ms) = CHR ''{'' # comma_join (map member_text ms) @ ''}''"
proof -
  have "(\<lambda>(k, v). quote_text k @ CHR '':'' # stringify v) = member_text"
    by (auto simp: member_text_def)
  then show ?thesis by simp
qed

lemma string_members_text:
  assumes "list_all (\<lambda>m. parsed_json (snd m)) ms" and "list_all (\<lambda>m. \<exists>t. snd m = JStr t) ts"
    and "comma_join (map member_text ms) @ ''}'' = comma_join (map member_text ts) @ ''}''"
  shows "ms = ts"
  using assms
proof (induction ts arbitrary: ms)
  case Nil
  then show ?case by (cases ms) (auto simp: comma_join_Cons member_text_def quote_text_def)
next
  case (Cons m ts)
  from Cons.prems(2) obtain t where t: "snd m = JStr t" by auto
  show ?case
  proof (cases ms)
    case Nil
    with Cons.prems(3) show ?thesis by (simp add: comma_join_Cons member_text_def quote_text_def)
  next
    case ms: (Cons n ns)
    let ?rest = "\<lambda>xs. (if xs = [] then [] else CHR '','' # comma_join (map member_text xs)) @ ''}''"
    from Cons.prems(3) have "quote_text (fst n) @ (CHR '':'' # stringify (snd n) @ ?rest ns)
        = quote_text (fst m) @ (CHR '':'' # quote_text t @ ?rest ts)"
      unfolding ms list.map comma_join_Cons map_is_Nil_conv
      by (simp only: member_text_def [of n] member_text_def [of m] t stringify.simps append_assoc append_Cons)
    from quote_text_prefix [OF this] have key: "fst n = fst m"
      and vals: "stringify (snd n) @ ?rest ns = quote_text t @ ?rest ts" by simp_all
    have "parsed_json (snd n)" using Cons.prems(1) ms by simp
    from string_text_prefix [OF this vals] have val: "snd n = JStr t" and rest: "?rest ns = ?rest ts"
      by blast+
    have "ns = ts"
    proof (rule Cons.IH)
      show "list_all (\<lambda>m. parsed_json (snd m)) ns" using Cons.prems(1) ms by simp
      show "list_all (\<lambda>m. \<exists>t. snd m = JStr t) ts" using Cons.prems(2) by simp
      show "comma_join (map member_text ns) @ ''}'' = comma_join (map member_text ts) @ ''}''"
        using rest by (cases "ns = []"; cases "ts = []") auto
    qed
    with ms key val t show ?thesis by (simp add: prod_eq_iff)
  qed
qed

lemma entry_text:
  assumes "parsed_json p" and "stringify p = stringify (peer_json r)"
  shows "p = peer_json r"
proof -
  have brace: "stringify p = CHR ''{'' # comma_join (map member_text
      [(''name'', JStr (pr_name r)), (''remote_epk'', JStr (pr_epk r)), (''paired_at'', JStr (pr_paired_at r))]) @ ''}''"
    using assms(2) unfolding peer_json_def stringify_members .
  show ?thesis
  proof (cases p)
    case (JNum n)
    with brace number_text_head [of n] assms(1) show ?thesis by auto
  next
    case (JObj ms)
    have "ms = [(''name'', JStr (pr_name r)), (''remote_epk'', JStr (pr_epk r)), (''paired_at'', JStr (pr_paired_at r))]"
      by (rule string_members_text)
        (use assms(1) brace in \<open>simp_all only: JObj stringify_members list.inject\<close>,
          simp_all add: case_prod_unfold)
    with JObj show ?thesis by (simp add: peer_json_def)
  qed (use brace in \<open>auto simp: quote_text_def split: if_splits\<close>)
qed

section \<open>Looking for an entry\<close>

lemma find_index_Some:
  "find_index P xs = Some i \<longleftrightarrow> i < length xs \<and> P (xs ! i) \<and> (\<forall>j < i. \<not> P (xs ! j))"
proof (induction xs arbitrary: i)
  case (Cons x xs)
  show ?case
    by (cases i) (auto simp: Cons.IH All_less_Suc2)
qed simp

lemma find_index_None: "find_index P xs = None \<longleftrightarrow> (\<forall>x \<in> set xs. \<not> P x)"
  by (induction xs) auto

text \<open>The elements satisfying \<open>Q\<close>, when the first of them is at position \<open>i\<close>.\<close>

lemma filter_first:
  assumes "find_index Q xs = Some i"
  shows "filter Q xs = xs ! i # filter Q (drop (Suc i) xs)"
    and "Q y \<Longrightarrow> filter Q (xs[i := y]) = y # filter Q (drop (Suc i) xs)"
    and "filter Q (take i xs @ drop (Suc i) xs) = filter Q (drop (Suc i) xs)"
proof -
  from assms have i: "i < length xs" "Q (xs ! i)" "\<forall>j < i. \<not> Q (xs ! j)"
    by (simp_all add: find_index_Some)
  have pre: "filter Q (take i xs) = []"
    using i by (auto simp: filter_empty_conv in_set_conv_nth)
  show "filter Q xs = xs ! i # filter Q (drop (Suc i) xs)"
    using i(1,2) pre by (subst (1) id_take_nth_drop [OF i(1)]) simp
  show "Q y \<Longrightarrow> filter Q (xs[i := y]) = y # filter Q (drop (Suc i) xs)"
    using i(1) pre by (simp add: upd_conv_take_nth_drop)
  show "filter Q (take i xs @ drop (Suc i) xs) = filter Q (drop (Suc i) xs)"
    using pre by simp
qed

lemma filter_others:
  assumes "i < length xs" and "\<not> Q (xs ! i)"
  shows "\<not> Q y \<Longrightarrow> filter Q (xs[i := y]) = filter Q xs"
    and "filter Q (take i xs @ drop (Suc i) xs) = filter Q xs"
proof -
  have split: "filter Q xs = filter Q (take i xs) @ filter Q (drop (Suc i) xs)"
    using assms(2) by (subst (1) id_take_nth_drop [OF assms(1)]) simp
  then show "\<not> Q y \<Longrightarrow> filter Q (xs[i := y]) = filter Q xs"
    using assms by (simp add: upd_conv_take_nth_drop)
  show "filter Q (take i xs @ drop (Suc i) xs) = filter Q xs" by (simp add: split)
qed

section \<open>Provenance\<close>

text \<open>Every token of the table was given before \<open>os_next\<close>.\<close>

definition tokens_bounded :: "owner_storage \<Rightarrow> bool" where
  "tokens_bounded st \<longleftrightarrow> (\<forall>slot t. jm_get (os_tokens st) slot = Some t \<longrightarrow> t < os_next st)"

text \<open>
  What an operation does to the table: it may give new slots a token (\<open>keeps\<close>); one that
  writes an Owner's entry also renews the token of that slot (\<open>renews\<close>).
\<close>

definition keeps :: "owner_storage \<Rightarrow> owner_storage \<Rightarrow> bool" where
  "keeps st st' \<longleftrightarrow> os_next st \<le> os_next st' \<and> tokens_bounded st'
     \<and> (\<forall>s t. jm_get (os_tokens st') s = Some t \<longrightarrow> jm_get (os_tokens st) s = Some t \<or> os_next st \<le> t)
     \<and> (\<forall>s t. jm_get (os_tokens st) s = Some t \<longrightarrow> jm_get (os_tokens st') s = Some t)"

definition renews :: "string \<Rightarrow> owner_storage \<Rightarrow> owner_storage \<Rightarrow> bool" where
  "renews slot st st' \<longleftrightarrow> os_next st \<le> os_next st' \<and> tokens_bounded st'
     \<and> (\<forall>s t. jm_get (os_tokens st') s = Some t \<longrightarrow> jm_get (os_tokens st) s = Some t \<or> os_next st \<le> t)
     \<and> (\<exists>t. jm_get (os_tokens st') slot = Some t \<and> os_next st \<le> t)
     \<and> (\<forall>s t. s \<noteq> slot \<longrightarrow> jm_get (os_tokens st) s = Some t \<longrightarrow> jm_get (os_tokens st') s = Some t)"

lemma keeps_refl [simp, intro]: "tokens_bounded st \<Longrightarrow> keeps st st"
  by (simp add: keeps_def)

lemma keeps_trans [trans]: "keeps a b \<Longrightarrow> keeps b c \<Longrightarrow> keeps a c"
  by (fastforce simp: keeps_def)

lemma keeps_file: "keeps a (b \<lparr> os_file := f \<rparr>) \<longleftrightarrow> keeps a b"
  by (simp add: keeps_def tokens_bounded_def)

lemma keeps_renews: "keeps a b \<Longrightarrow> renews slot b c \<Longrightarrow> renews slot a c"
  by (fastforce simp: keeps_def renews_def)

lemma keeps_bounded: "keeps a b \<Longrightarrow> tokens_bounded b"
  by (simp add: keeps_def)

lemma token_for_slot_keeps: "tokens_bounded st \<Longrightarrow> keeps st (fst (token_for_slot slot st))"
  by (fastforce simp: token_for_slot_def keeps_def tokens_bounded_def split: option.splits)

lemma token_for_slot_file [simp]: "os_file (fst (token_for_slot slot st)) = os_file st"
  by (simp add: token_for_slot_def split: option.splits)

lemma token_for_slot_known:
  "jm_get (os_tokens st) slot = Some t \<Longrightarrow> token_for_slot slot st = (st, t)"
  by (simp add: token_for_slot_def)

lemma token_for_slot_get:
  "token_for_slot slot st = (st', t) \<Longrightarrow> jm_get (os_tokens st') slot = Some t"
  by (auto simp: token_for_slot_def split: option.splits)

lemma invalidate_renews:
  "tokens_bounded st \<Longrightarrow> renews (owner_slot_key raw) st (fst (invalidate_owner_slot raw st))"
  by (fastforce simp: invalidate_owner_slot_def renews_def tokens_bounded_def)

lemma tokens_for_keeps: "tokens_bounded st \<Longrightarrow> keeps st (fst (tokens_for raws st))"
proof (induction raws arbitrary: st)
  case (Cons raw raws)
  from token_for_slot_keeps [OF Cons.prems] have k: "keeps st (fst (token_for_slot (owner_slot_key raw) st))" .
  from keeps_trans [OF k Cons.IH [OF keeps_bounded [OF k]]] show ?case
    by (simp add: case_prod_beta Let_def)
qed simp

lemma write_peers_tokens [simp]:
  "os_tokens (fst (write_peers env ps st)) = os_tokens st" "os_next (fst (write_peers env ps st)) = os_next st"
  by (simp_all add: write_peers_def split: write_result.splits)

lemma write_peers_keeps: "tokens_bounded st \<Longrightarrow> keeps st (fst (write_peers env ps st))"
  by (simp add: keeps_def tokens_bounded_def)

lemma write_then_invalidate:
  assumes "tokens_bounded st" and "write_peers env ps st = (st1, e)"
  shows "keeps st st1" and "renews (owner_slot_key raw) st (fst (invalidate_owner_slot raw st1))"
proof -
  show k: "keeps st st1" using write_peers_keeps [OF assms(1), of env ps] assms(2) by simp
  show "renews (owner_slot_key raw) st (fst (invalidate_owner_slot raw st1))"
    by (rule keeps_renews [OF k invalidate_renews [OF keeps_bounded [OF k]]])
qed

text \<open>
  The shape of every operation: either it reports no write, and then the file is as it was
  unless its write failed; or it reports one, the slot has a new token, and the file is the
  container the operation computed.
\<close>

definition op_shape ::
  "string \<Rightarrow> fs_env \<Rightarrow> (json list \<Rightarrow> json list option) \<Rightarrow> json list \<Rightarrow> owner_storage \<Rightarrow> owner_storage \<Rightarrow> bool \<Rightarrow> bool" where
  "op_shape epk env f peers st st' wrote \<longleftrightarrow>
     (if wrote then renews (slot_of epk) st st' \<and> (\<exists>ps. f peers = Some ps \<and> os_file st' = container ps)
      else keeps st st' \<and> (fe_write env = WriteOk \<longrightarrow> os_file st' = os_file st))"

lemma write_file:
  "write_peers env ps st = (st1, None) \<Longrightarrow> os_file st1 = container ps"
  "write_peers env ps st = (st1, Some e) \<Longrightarrow> fe_write env \<noteq> WriteOk"
  by (auto simp: write_peers_def split: write_result.splits)

lemma invalidate_file [simp]: "os_file (fst (invalidate_owner_slot raw st)) = os_file st"
  by (simp add: invalidate_owner_slot_def)

definition added :: "peer_record \<Rightarrow> json list \<Rightarrow> json list" where
  "added r peers =
     (case find_index (has_epk (pr_epk r)) peers of Some i \<Rightarrow> peers[i := peer_json r] | None \<Rightarrow> peers @ [peer_json r])"

lemma add_peer_shape:
  assumes "tokens_bounded st" and "add_peer r env st = (st', a)"
  shows "op_shape (pr_epk r) env (\<lambda>ps. Some (added r ps)) (list_peers (os_file st)) st st' (\<not> isl a)"
proof (cases "fe_mkdir env")
  case None
  obtain st1 e where w: "write_peers env (added r (list_peers (os_file st))) st = (st1, e)"
    by (cases "write_peers env (added r (list_peers (os_file st))) st")
  note k = write_then_invalidate(1) [OF assms(1) w]
    write_then_invalidate(2) [OF assms(1) w, of "Some (JStr (pr_epk r))"]
  show ?thesis
    using assms(2) None w k write_file [of env "added r (list_peers (os_file st))" st st1]
    by (cases e) (auto simp: add_peer_def op_shape_def added_def slot_of_def case_prod_beta Let_def)
qed (use assms in \<open>auto simp: add_peer_def op_shape_def Let_def\<close>)

lemma remove_peer_shape:
  assumes "tokens_bounded st" and "remove_peer epk env st = (st', a)"
  shows "op_shape epk env (\<lambda>ps. Some (filter (\<lambda>p. \<not> has_epk epk p) ps)) (list_peers (os_file st)) st st'
    (a = Inr True)"
proof -
  let ?ps = "filter (\<lambda>p. \<not> has_epk epk p) (list_peers (os_file st))"
  obtain st1 e where w: "write_peers env ?ps st = (st1, e)" by (cases "write_peers env ?ps st")
  note k = write_then_invalidate(1) [OF assms(1) w]
    write_then_invalidate(2) [OF assms(1) w, of "Some (JStr epk)"]
  show ?thesis
    using assms w k write_file [of env ?ps st st1]
    by (cases e)
      (auto simp: remove_peer_def op_shape_def slot_of_def Let_def split: if_splits option.splits)
qed

lemma guarded_write:
  assumes "tokens_bounded st"
  shows "keeps st (fst (token_for_slot slot st))"
    and "write_peers env ps (fst (token_for_slot slot (fst (token_for_slot slot st)))) = (st3, e)
      \<Longrightarrow> keeps st st3 \<and> renews (owner_slot_key raw) st (fst (invalidate_owner_slot raw st3))"
    and "keeps st (fst (token_for_slot slot (fst (token_for_slot slot st))))"
proof -
  show k: "keeps st (fst (token_for_slot slot st))" by (rule token_for_slot_keeps [OF assms])
  show k2: "keeps st (fst (token_for_slot slot (fst (token_for_slot slot st))))"
    by (rule keeps_trans [OF k token_for_slot_keeps [OF keeps_bounded [OF k]]])
  show "keeps st st3 \<and> renews (owner_slot_key raw) st (fst (invalidate_owner_slot raw st3))"
    if w: "write_peers env ps (fst (token_for_slot slot (fst (token_for_slot slot st)))) = (st3, e)"
    using keeps_trans [OF k2] keeps_renews [OF k2]
      write_then_invalidate(1) [OF keeps_bounded [OF k2] w]
      write_then_invalidate(2) [OF keeps_bounded [OF k2] w, of raw] by blast
qed

lemma cond_remove_shape:
  assumes "tokens_bounded st" and "conditional_remove_peer epk t env st = (st', a)"
  shows "op_shape epk env (\<lambda>ps. Some (filter (\<lambda>p. \<not> has_epk epk p) ps)) (list_peers (os_file st)) st st'
    (outcome_wrote a)"
proof -
  let ?s = "owner_slot_key (Some (JStr epk))"
  let ?st1 = "fst (token_for_slot ?s st)" and ?f = "filter (\<lambda>p. \<not> has_epk epk p)"
  have strict: "read_peer_container_strict (os_file st) = Inr ps \<Longrightarrow> list_peers (os_file st) = ps" for ps
    by (auto simp: read_peer_container_strict_def list_peers_def split: peers_file.splits json.splits option.splits)
  obtain st3 e where w: "write_peers env (?f (list_peers (os_file st))) (fst (token_for_slot ?s ?st1)) = (st3, e)"
    by (cases "write_peers env (?f (list_peers (os_file st))) (fst (token_for_slot ?s ?st1))")
  note k = guarded_write(1,3) [OF assms(1), where slot = ?s] guarded_write(2) [OF assms(1) w, of "Some (JStr epk)"]
  show ?thesis
    using assms(2) w k strict write_file [of env "?f (list_peers (os_file st))" "fst (token_for_slot ?s ?st1)" st3]
    by (cases e)
      (auto simp: conditional_remove_peer_def op_shape_def slot_of_def case_prod_beta Let_def outcome_wrote_def
        split: if_splits option.splits sum.splits)
qed

definition rolled_back :: "write_receipt \<Rightarrow> json list \<Rightarrow> json list option" where
  "rolled_back rc peers =
     (case find_index (\<lambda>p. stringify p = stringify (peer_json (wr_record rc))) peers of
        None \<Rightarrow> None
      | Some i \<Rightarrow> Some (case wr_previous rc of Some p \<Rightarrow> peers[i := p]
                         | None \<Rightarrow> take i peers @ drop (Suc i) peers))"

lemma strict_peers: "read_peer_container_strict f = Inr ps \<Longrightarrow> list_peers f = ps"
  by (auto simp: read_peer_container_strict_def list_peers_def split: peers_file.splits json.splits option.splits)

lemma strict_container [simp]: "read_peer_container_strict (container ps) = Inr ps"
  by (simp add: read_peer_container_strict_def container_def field_def)

lemma list_container [simp]: "list_peers (container ps) = ps"
  by (simp add: list_peers_def container_def field_def)

lemma rollback_shape:
  assumes "tokens_bounded st" and "conditional_rollback_peer rc env st = (st', a)"
  shows "op_shape (pr_epk (wr_record rc)) env (rolled_back rc) (list_peers (os_file st)) st st' (outcome_wrote a)"
proof -
  let ?raw = "Some (JStr (pr_epk (wr_record rc)))"
  let ?s = "owner_slot_key ?raw" and ?ps = "list_peers (os_file st)"
  let ?st2 = "fst (token_for_slot ?s (fst (token_for_slot ?s st)))"
  note k = guarded_write(1,3) [OF assms(1), where slot = ?s]
  show ?thesis
  proof (cases "rolled_back rc ?ps")
    case None
    then show ?thesis
      using assms(2) k strict_peers [of "os_file st"]
      by (auto simp: conditional_rollback_peer_def rolled_back_def op_shape_def case_prod_beta Let_def
          outcome_wrote_def split: if_splits option.splits sum.splits)
  next
    case (Some ps')
    obtain st3 e where w: "write_peers env ps' ?st2 = (st3, e)" by (cases "write_peers env ps' ?st2")
    note k3 = guarded_write(2) [OF assms(1) w, of ?raw]
    show ?thesis
      using assms(2) Some w k k3 strict_peers [of "os_file st"] write_file [of env ps' ?st2 st3]
      by (cases e)
        (auto simp: conditional_rollback_peer_def rolled_back_def op_shape_def slot_of_def case_prod_beta
          Let_def outcome_wrote_def split: if_splits option.splits sum.splits)
  qed
qed

text \<open>One step of the machine.\<close>

fun input_env :: "storage_input \<Rightarrow> fs_env option" where
  "input_env (SAdd _ env) = Some env"
| "input_env (SCondRemove _ _ env) = Some env"
| "input_env (SRollback _ env) = Some env"
| "input_env (SRemove _ env) = Some env"
| "input_env _ = None"

fun input_effect :: "storage_input \<Rightarrow> json list \<Rightarrow> json list option" where
  "input_effect (SAdd r _) ps = Some (added r ps)"
| "input_effect (SCondRemove epk _ _) ps = Some (filter (\<lambda>p. \<not> has_epk epk p) ps)"
| "input_effect (SRemove epk _) ps = Some (filter (\<lambda>p. \<not> has_epk epk p) ps)"
| "input_effect (SRollback rc _) ps = rolled_back rc ps"
| "input_effect _ ps = Some ps"

lemma input_effect_eta [simp]:
  "input_effect (SAdd r e) = (\<lambda>ps. Some (added r ps))"
  "input_effect (SCondRemove epk t e) = (\<lambda>ps. Some (filter (\<lambda>p. \<not> has_epk epk p) ps))"
  "input_effect (SRemove epk e) = (\<lambda>ps. Some (filter (\<lambda>p. \<not> has_epk epk p) ps))"
  "input_effect (SRollback rc e) = rolled_back rc"
  by (rule ext, simp)+

lemma step_shape:
  assumes "tokens_bounded st" and "input_epk i = Some epk" and "input_env i = Some env"
  shows "op_shape epk env (input_effect i) (list_peers (os_file st)) st (storage_step st i) (snd (storage_do st i))"
proof (cases i)
  case (SAdd r env')
  obtain st' a where "add_peer r env' st = (st', a)" by (cases "add_peer r env' st")
  with add_peer_shape [OF assms(1) this] assms(2,3) SAdd show ?thesis by (simp add: storage_step_def)
next
  case (SCondRemove e t env')
  obtain st' a where "conditional_remove_peer e t env' st = (st', a)" by (cases "conditional_remove_peer e t env' st")
  with cond_remove_shape [OF assms(1) this] assms(2,3) SCondRemove show ?thesis by (simp add: storage_step_def)
next
  case (SRollback rc env')
  obtain st' a where "conditional_rollback_peer rc env' st = (st', a)" by (cases "conditional_rollback_peer rc env' st")
  with rollback_shape [OF assms(1) this] assms(2,3) SRollback show ?thesis by (simp add: storage_step_def)
next
  case (SRemove e env')
  obtain st' a where "remove_peer e env' st = (st', a)" by (cases "remove_peer e env' st")
  with remove_peer_shape [OF assms(1) this] assms(2,3) SRemove show ?thesis by (simp add: storage_step_def)
qed (use assms in simp_all)

lemma snapshot_keeps: "tokens_bounded st \<Longrightarrow> keeps st (fst (snapshot_owner_pubkeys st))"
  by (auto simp: snapshot_owner_pubkeys_def case_prod_beta Let_def tokens_for_keeps split: sum.splits)

lemma tokens_for_file [simp]: "os_file (fst (tokens_for raws st)) = os_file st"
  by (induction raws arbitrary: st) (simp_all add: case_prod_beta Let_def)

lemma snapshot_file [simp]: "os_file (fst (snapshot_owner_pubkeys st)) = os_file st"
  by (simp add: snapshot_owner_pubkeys_def case_prod_beta Let_def split: sum.splits)

lemma step_tokens:
  assumes "tokens_bounded st"
  shows "snd (storage_do st i) \<Longrightarrow> input_epk i = Some epk \<Longrightarrow> renews (slot_of epk) st (storage_step st i)"
    and "\<not> snd (storage_do st i) \<Longrightarrow> keeps st (storage_step st i)"
proof -
  have env: "input_epk i = Some e \<Longrightarrow> \<exists>env. input_env i = Some env" for e by (cases i) auto
  show "snd (storage_do st i) \<Longrightarrow> input_epk i = Some epk \<Longrightarrow> renews (slot_of epk) st (storage_step st i)"
    using step_shape [OF assms] env by (fastforce simp: op_shape_def)
  show "keeps st (storage_step st i)" if "\<not> snd (storage_do st i)"
  proof (cases "input_epk i")
    case (Some e)
    with step_shape [OF assms] env that show ?thesis by (fastforce simp: op_shape_def)
  next
    case None
    then show ?thesis
      using assms snapshot_keeps [OF assms] by (cases i) (auto simp: storage_step_def keeps_file)
  qed
qed

section \<open>Which writes a token has seen\<close>

primrec wrote_in :: "owner_storage \<Rightarrow> storage_input list \<Rightarrow> string \<Rightarrow> bool" where
  "wrote_in st [] slot = False"
| "wrote_in st (i # is) slot = (writes_slot st i slot \<or> wrote_in (storage_step st i) is slot)"

definition fresh_storage :: "peers_file \<Rightarrow> owner_storage" where
  "fresh_storage f = \<lparr> os_file = f, os_tokens = [], os_next = 0 \<rparr>"

lemma step_bounded: "tokens_bounded st \<Longrightarrow> tokens_bounded (storage_step st i)"
  and step_next: "tokens_bounded st \<Longrightarrow> os_next st \<le> os_next (storage_step st i)"
proof -
  assume b: "tokens_bounded st"
  have "snd (storage_do st i) \<Longrightarrow> \<exists>epk. input_epk i = Some epk" by (cases i) auto
  then have "keeps st (storage_step st i) \<or> (\<exists>epk. renews (slot_of epk) st (storage_step st i))"
    using step_tokens [OF b] by blast
  then show "tokens_bounded (storage_step st i)" "os_next st \<le> os_next (storage_step st i)"
    by (auto simp: keeps_def renews_def)
qed

interpretation storage: invariant_machine storage_step "\<lambda>_ _. True" tokens_bounded
  by unfold_locales (rule step_bounded)

lemma reached_bounded: "tokens_bounded (run storage_step (fresh_storage f) is)"
  by (rule storage.run_keeps) (simp_all add: trace_ok_all fresh_storage_def tokens_bounded_def)

lemma step_slot:
  assumes "tokens_bounded st"
  shows "writes_slot st i slot \<Longrightarrow> \<exists>t \<ge> os_next st. jm_get (os_tokens (storage_step st i)) slot = Some t"
    and "\<not> writes_slot st i slot \<Longrightarrow> jm_get (os_tokens st) slot = Some t
      \<Longrightarrow> jm_get (os_tokens (storage_step st i)) slot = Some t"
proof -
  show "\<exists>t \<ge> os_next st. jm_get (os_tokens (storage_step st i)) slot = Some t" if "writes_slot st i slot"
  proof -
    from that obtain epk where "snd (storage_do st i)" "input_epk i = Some epk" "slot = slot_of epk"
      by (auto simp: writes_slot_def)
    with step_tokens(1) [OF assms this(1,2)] show ?thesis by (auto simp: renews_def)
  qed
  assume h: "\<not> writes_slot st i slot" "jm_get (os_tokens st) slot = Some t"
  show "jm_get (os_tokens (storage_step st i)) slot = Some t"
  proof (cases "snd (storage_do st i)")
    case True
    then obtain epk where "input_epk i = Some epk" by (cases i) auto
    with h True step_tokens(1) [OF assms True this] show ?thesis
      by (auto simp: writes_slot_def renews_def)
  next
    case False
    with step_tokens(2) [OF assms this] h(2) show ?thesis by (simp add: keeps_def)
  qed
qed

lemma slot_unwritten:
  "tokens_bounded st \<Longrightarrow> \<not> wrote_in st is slot \<Longrightarrow> jm_get (os_tokens st) slot = Some t
    \<Longrightarrow> jm_get (os_tokens (run storage_step st is)) slot = Some t"
proof (induction "is" arbitrary: st)
  case (Cons i "is")
  then show ?case using step_slot(2) [OF Cons.prems(1)] step_bounded by simp
qed simp

lemma slot_written:
  "tokens_bounded st \<Longrightarrow> wrote_in st is slot
    \<Longrightarrow> \<exists>t \<ge> os_next st. jm_get (os_tokens (run storage_step st is)) slot = Some t"
proof (induction "is" arbitrary: st)
  case (Cons i "is")
  note b = step_bounded [OF Cons.prems(1), of i] and n = step_next [OF Cons.prems(1), of i]
  show ?case
  proof (cases "wrote_in (storage_step st i) is slot")
    case True
    from Cons.IH [OF b this] n show ?thesis by (auto intro: order_trans)
  next
    case False
    with Cons.prems(2) have "writes_slot st i slot" by simp
    from step_slot(1) [OF Cons.prems(1) this] obtain t where
      t: "t \<ge> os_next st" "jm_get (os_tokens (storage_step st i)) slot = Some t" by blast
    with slot_unwritten [OF b False t(2)] show ?thesis by auto
  qed
qed simp

text \<open>A slot that has no token gets one that was never given.\<close>

lemma new_token_fresh:
  assumes "tokens_bounded st" and "jm_get (os_tokens st) slot = None"
    and "jm_get (os_tokens (storage_step st i)) slot = Some t"
  shows "os_next st \<le> t"
proof -
  have "snd (storage_do st i) \<Longrightarrow> \<exists>epk. input_epk i = Some epk" by (cases i) auto
  then have "keeps st (storage_step st i) \<or> (\<exists>epk. renews (slot_of epk) st (storage_step st i))"
    using step_tokens [OF assms(1)] by blast
  with assms(2,3) show ?thesis by (fastforce simp: keeps_def renews_def)
qed

text \<open>The token of a slot after a run differs from the one before exactly when the slot was written.\<close>

lemma token_after:
  assumes "tokens_bounded st" and "jm_get (os_tokens st) slot = Some t"
  obtains t' where "jm_get (os_tokens (run storage_step st is)) slot = Some t'"
    "t' = t \<longleftrightarrow> \<not> wrote_in st is slot"
proof (cases "wrote_in st is slot")
  case True
  then obtain t' where "t' \<ge> os_next st" "jm_get (os_tokens (run storage_step st is)) slot = Some t'"
    using slot_written [OF assms(1)] by blast
  moreover have "t < os_next st" using assms by (simp add: tokens_bounded_def)
  ultimately show ?thesis using that True by force
next
  case False
  with slot_unwritten [OF assms(1) this assms(2)] that show ?thesis by blast
qed

lemma rollback_stale_iff:
  assumes "jm_get (os_tokens st) (slot_of (pr_epk (wr_record rc))) = Some t"
  shows "conditional_rollback_peer rc env st = (st, Inr OcStale) \<longleftrightarrow> t \<noteq> wr_token rc"
    and "snd (conditional_rollback_peer rc env st) = Inr OcStale \<longleftrightarrow> t \<noteq> wr_token rc"
  using token_for_slot_known [OF assms]
  by (auto simp: conditional_rollback_peer_def slot_of_def Let_def invalidate_owner_slot_def
      split: sum.splits option.splits if_splits prod.splits)

lemma remove_stale_iff:
  assumes "jm_get (os_tokens st) (slot_of epk) = Some t"
  shows "conditional_remove_peer epk t' env st = (st, Inr OcStale) \<longleftrightarrow> t \<noteq> t'"
    and "snd (conditional_remove_peer epk t' env st) = Inr OcStale \<longleftrightarrow> t \<noteq> t'"
  using token_for_slot_known [OF assms]
  by (auto simp: conditional_remove_peer_def slot_of_def Let_def invalidate_owner_slot_def
      split: sum.splits option.splits if_splits prod.splits)

lemma add_peer_receipt:
  assumes "tokens_bounded st" and "add_peer r env st = (st1, Inr rc)"
  shows "wr_record rc = r" "jm_get (os_tokens st1) (slot_of (pr_epk r)) = Some (wr_token rc)"
    "wr_previous rc = map_option (\<lambda>i. list_peers (os_file st) ! i)
       (find_index (has_epk (pr_epk r)) (list_peers (os_file st)))"
    "os_file st1 = container (added r (list_peers (os_file st)))" "tokens_bounded st1"
proof -
  from assms show "wr_record rc = r" "jm_get (os_tokens st1) (slot_of (pr_epk r)) = Some (wr_token rc)"
    "wr_previous rc = map_option (\<lambda>i. list_peers (os_file st) ! i)
       (find_index (has_epk (pr_epk r)) (list_peers (os_file st)))"
    by (auto simp: add_peer_def Let_def invalidate_owner_slot_def slot_of_def
        split: option.splits prod.splits)
  from add_peer_shape [OF assms] show "os_file st1 = container (added r (list_peers (os_file st)))"
    "tokens_bounded st1"
    by (auto simp: op_shape_def renews_def)
qed

lemma snapshot_token:
  assumes "tokens_bounded st" and "snapshot_owner_pubkeys st = (st1, Inr snap)" and "(raw, t) \<in> set snap"
  shows "jm_get (os_tokens st1) (owner_slot_key raw) = Some t" "tokens_bounded st1"
proof -
  have *: "jm_get (os_tokens st') (owner_slot_key raw) = Some t"
    if "tokens_bounded st" "tokens_for raws st = (st', snap)" "(raw, t) \<in> set snap" for raws st st' snap
    using that
  proof (induction raws arbitrary: st snap)
    case (Cons r raws)
    obtain st1 t1 where h: "token_for_slot (owner_slot_key r) st = (st1, t1)"
      by (cases "token_for_slot (owner_slot_key r) st")
    obtain rest where rest: "tokens_for raws st1 = (st', rest)" and snap: "snap = (r, t1) # rest"
      using Cons.prems(2) h by (auto simp: Let_def split: prod.splits)
    have b: "tokens_bounded st1"
      using keeps_bounded [OF token_for_slot_keeps [OF Cons.prems(1)], of "owner_slot_key r"] h by simp
    show ?case
    proof (cases "(raw, t) \<in> set rest")
      case True
      from Cons.IH [OF b rest this] show ?thesis .
    next
      case False
      with Cons.prems(3) snap have "raw = r" "t = t1" by auto
      with token_for_slot_get [OF h] tokens_for_keeps [OF b, of raws] rest show ?thesis
        by (simp add: keeps_def)
    qed
  qed simp
  from assms(2) obtain peers where "tokens_for (raw_owners peers) st = (st1, snap)"
    by (auto simp: snapshot_owner_pubkeys_def Let_def split: sum.splits prod.splits)
  from * [OF assms(1) this assms(3)] show "jm_get (os_tokens st1) (owner_slot_key raw) = Some t" .
  show "tokens_bounded st1" using keeps_bounded [OF snapshot_keeps [OF assms(1)]] assms(2) by simp
qed


section \<open>Compensation\<close>

text \<open>
  An input that writes without a failure of the file system, from receipts that \<open>addPeer\<close>
  gave: its previous record is an entry of the same Owner.
\<close>

definition calm :: "storage_input \<Rightarrow> bool" where
  "calm i =
     ((case input_env i of Some env \<Rightarrow> fe_write env = WriteOk | None \<Rightarrow> True)
      \<and> (case i of SExternal _ \<Rightarrow> False
         | SRollback rc _ \<Rightarrow> (case wr_previous rc of None \<Rightarrow> True
             | Some p \<Rightarrow> has_epk (pr_epk (wr_record rc)) p \<and> parsed_json p)
         | _ \<Rightarrow> True))"

definition own :: "string \<Rightarrow> json list \<Rightarrow> json list" where
  "own epk peers = filter (has_epk epk) peers"

definition foreign :: "string \<Rightarrow> json list \<Rightarrow> json list" where
  "foreign epk peers = filter (\<lambda>p. \<not> has_epk epk p) peers"

lemma has_epk_peer_json [simp]: "has_epk epk (peer_json r) \<longleftrightarrow> pr_epk r = epk"
  by (auto simp: has_epk_def peer_json_def is_object_def field_def)

lemma has_epk_unique: "has_epk a p \<Longrightarrow> has_epk b p \<Longrightarrow> a = b"
  by (simp add: has_epk_def)

lemma parsed_peer_json [simp]: "parsed_json (peer_json r)"
  by (simp add: peer_json_def)

lemma effect_parsed:
  assumes "calm i" and "list_all parsed_json ps" and "input_effect i ps = Some ps'"
  shows "list_all parsed_json ps'"
proof (cases i)
  case (SAdd r env)
  with assms show ?thesis
    by (auto simp: added_def list_all_iff split: option.splits dest!: set_update_subset_insert [THEN subsetD])
next
  case (SRollback rc env)
  with assms show ?thesis
    by (auto simp: rolled_back_def calm_def list_all_iff split: option.splits
        dest!: set_update_subset_insert [THEN subsetD] in_set_takeD in_set_dropD)
qed (use assms in \<open>auto simp: list_all_iff\<close>)

lemma text_index:
  assumes "list_all parsed_json ps"
  shows "find_index (\<lambda>p. stringify p = stringify (peer_json r)) ps = find_index (\<lambda>p. p = peer_json r) ps"
  using assms by (induction ps) (auto dest: entry_text)

lemma own_filter_other: "e \<noteq> epk \<Longrightarrow> own epk (filter (\<lambda>p. \<not> has_epk e p) ps) = own epk ps"
  by (induction ps) (auto simp: own_def dest: has_epk_unique)

lemma effect_own:
  assumes "calm i" and "list_all parsed_json ps" and "input_effect i ps = Some ps'"
    and "input_epk i = Some epk'" and "epk' \<noteq> epk"
  shows "own epk ps' = own epk ps"
proof (cases i)
  case (SAdd r env)
  show ?thesis
  proof (cases "find_index (has_epk (pr_epk r)) ps")
    case None
    with SAdd assms show ?thesis by (auto simp: added_def own_def)
  next
    case (Some j)
    then have "j < length ps" "\<not> has_epk epk (ps ! j)"
      using SAdd assms(4,5) has_epk_unique by (auto simp: find_index_Some)
    from filter_others(1) [where Q = "has_epk epk", OF this] Some SAdd assms show ?thesis by (auto simp: added_def own_def)
  qed
next
  case (SRollback rc env)
  from assms(3) SRollback obtain j where j: "find_index (\<lambda>p. p = peer_json (wr_record rc)) ps = Some j"
    and ps': "ps' = (case wr_previous rc of Some p \<Rightarrow> ps[j := p] | None \<Rightarrow> take j ps @ drop (Suc j) ps)"
    by (auto simp: rolled_back_def text_index [OF assms(2)] split: option.splits)
  then have "j < length ps" "\<not> has_epk epk (ps ! j)"
    using SRollback assms(4,5) by (auto simp: find_index_Some)
  note f = filter_others [where Q = "has_epk epk", OF this]
  show ?thesis
  proof (cases "wr_previous rc")
    case None
    with f(2) ps' show ?thesis by (simp add: own_def)
  next
    case (Some p)
    with assms(1,4,5) SRollback have "\<not> has_epk epk p" by (auto simp: calm_def dest: has_epk_unique)
    with f(1) Some ps' show ?thesis by (simp add: own_def)
  qed
qed (use assms own_filter_other in auto)

lemma calm_step:
  assumes "tokens_bounded st" and "calm i" and "list_all parsed_json (list_peers (os_file st))"
  shows "list_all parsed_json (list_peers (os_file (storage_step st i)))"
    and "os_file st = container ps \<Longrightarrow> \<exists>ps'. os_file (storage_step st i) = container ps'"
    and "\<not> writes_slot st i (slot_of epk)
      \<Longrightarrow> own epk (list_peers (os_file (storage_step st i))) = own epk (list_peers (os_file st))"
proof -
  let ?ps = "list_peers (os_file st)"
  consider (quiet) "os_file (storage_step st i) = os_file st"
    | (wrote) ps' e where "snd (storage_do st i)" "input_effect i ?ps = Some ps'"
        "os_file (storage_step st i) = container ps'" "input_epk i = Some e"
  proof (cases "input_epk i")
    case None
    with assms(2) show ?thesis by (cases i) (auto simp: calm_def storage_step_def intro: that(1))
  next
    case (Some e)
    moreover from Some obtain env where env: "input_env i = Some env" by (cases i) auto
    moreover have "fe_write env = WriteOk" using assms(2) env by (simp add: calm_def)
    ultimately show ?thesis
      using step_shape [OF assms(1) Some env] that
      by (cases "snd (storage_do st i)") (auto simp: op_shape_def)
  qed
  then have "list_all parsed_json (list_peers (os_file (storage_step st i)))
    \<and> (os_file st = container ps \<longrightarrow> (\<exists>ps'. os_file (storage_step st i) = container ps'))
    \<and> (\<not> writes_slot st i (slot_of epk) \<longrightarrow>
        own epk (list_peers (os_file (storage_step st i))) = own epk (list_peers (os_file st)))"
  proof cases
    case quiet
    with assms(3) show ?thesis by auto
  next
    case (wrote ps' e)
    have "e \<noteq> epk" if "\<not> writes_slot st i (slot_of epk)"
      using that wrote(1,4) by (auto simp: writes_slot_def)
    with wrote effect_parsed [OF assms(2,3) wrote(2)] effect_own [OF assms(2,3) wrote(2,4)]
    show ?thesis by auto
  qed
  then show "list_all parsed_json (list_peers (os_file (storage_step st i)))"
    and "os_file st = container ps \<Longrightarrow> \<exists>ps'. os_file (storage_step st i) = container ps'"
    and "\<not> writes_slot st i (slot_of epk)
      \<Longrightarrow> own epk (list_peers (os_file (storage_step st i))) = own epk (list_peers (os_file st))"
    by blast+
qed

lemma calm_run:
  "tokens_bounded st \<Longrightarrow> list_all calm is \<Longrightarrow> list_all parsed_json (list_peers (os_file st))
    \<Longrightarrow> os_file st = container ps \<Longrightarrow> \<not> wrote_in st is (slot_of epk)
    \<Longrightarrow> \<exists>ps'. os_file (run storage_step st is) = container ps' \<and> list_all parsed_json ps'
          \<and> own epk ps' = own epk ps"
proof (induction "is" arbitrary: st ps)
  case (Cons i "is")
  have i: "calm i" "\<not> writes_slot st i (slot_of epk)" using Cons.prems by simp_all
  note step = calm_step [OF Cons.prems(1) i(1) Cons.prems(3)]
  from step(2) [OF Cons.prems(4)] obtain ps1 where ps1: "os_file (storage_step st i) = container ps1" by blast
  from Cons.IH [OF step_bounded [OF Cons.prems(1)] _ step(1) ps1] Cons.prems
  obtain ps' where "os_file (run storage_step st (i # is)) = container ps'" "list_all parsed_json ps'"
    "own epk ps' = own epk ps1" by auto
  moreover have "own epk ps1 = own epk ps" using step(3) [OF i(2)] ps1 Cons.prems(4) by simp
  ultimately show ?case by auto
qed auto

lemma parsed_added: "list_all parsed_json ps \<Longrightarrow> list_all parsed_json (added r ps)"
  by (rule effect_parsed [where i = "SAdd r \<lparr> fe_mkdir = None, fe_write = WriteOk, fe_can_commit = None \<rparr>"])
    (simp_all add: calm_def)

text \<open>A demonstration: one Owner pairs again, another one in between.\<close>

definition ok_env :: fs_env where
  "ok_env = \<lparr> fe_mkdir = None, fe_write = WriteOk, fe_can_commit = None \<rparr>"

definition demo_peer :: "string \<Rightarrow> string \<Rightarrow> peer_record" where
  "demo_peer name epk = \<lparr> pr_name = name, pr_epk = epk, pr_paired_at = ''2026-01-01'' \<rparr>"

definition demo_storage :: owner_storage where
  "demo_storage = fresh_storage (container [peer_json (demo_peer ''old'' ''k1''), JNull])"

definition demo_add :: "owner_storage \<times> (string, write_receipt) result" where
  "demo_add = add_peer (demo_peer ''phone'' ''k1'') ok_env demo_storage"

definition demo_receipt :: write_receipt where
  "demo_receipt = \<lparr> wr_record = demo_peer ''phone'' ''k1'', wr_token = 0,
     wr_previous = Some (peer_json (demo_peer ''old'' ''k1'')) \<rparr>"

definition demo_other :: "storage_input list" where
  "demo_other = [SAdd (demo_peer ''tablet'' ''other'') ok_env, SRemove ''nobody'' ok_env]"

definition demo_same :: "storage_input list" where
  "demo_same = [SAdd (demo_peer ''again'' ''k1'') ok_env]"

lemma demo_added: "demo_add = (fst demo_add, Inr demo_receipt)"
proof -
  have "snd demo_add = Inr demo_receipt"
    by (simp add: demo_add_def demo_storage_def fresh_storage_def demo_receipt_def add_peer_def demo_peer_def
        has_epk_peer_json peer_json_def has_epk_def is_object_def field_def ok_env_def write_peers_def
        invalidate_owner_slot_def Let_def list_container)
  then show ?thesis by (metis prod.collapse)
qed

text \<open>What a rollback makes of the entries of its Owner and of those of the others.\<close>

lemma rolled_back_own:
  assumes "list_all parsed_json ps" and "wr_record rc = r" and "own (pr_epk r) ps = peer_json r # rest"
    and "\<And>p. wr_previous rc = Some p \<Longrightarrow> has_epk (pr_epk r) p"
  obtains ps' where "rolled_back rc ps = Some ps'" "foreign (pr_epk r) ps' = foreign (pr_epk r) ps"
    "own (pr_epk r) ps' = (case wr_previous rc of Some p \<Rightarrow> p # rest | None \<Rightarrow> rest)"
proof -
  let ?P = "has_epk (pr_epk r)"
  have "peer_json r \<in> set (own (pr_epk r) ps)" using assms(3) by simp
  then have mem: "peer_json r \<in> set ps" by (simp add: own_def)
  then obtain j where j: "find_index (\<lambda>p. p = peer_json r) ps = Some j"
    by (cases "find_index (\<lambda>p. p = peer_json r) ps") (auto simp: find_index_None)
  obtain i where i: "find_index ?P ps = Some i"
    using mem by (cases "find_index ?P ps") (auto simp: find_index_None)
  from filter_first(1) [OF i] assms(3) have "ps ! i = peer_json r" and rest: "filter ?P (drop (Suc i) ps) = rest"
    by (simp_all add: own_def)
  moreover from j have "ps ! j = peer_json r" by (simp add: find_index_Some)
  ultimately have "\<not> j < i" "\<not> i < j" using i j by (auto simp: find_index_Some)
  then have "j = i" by simp
  with j have rb: "rolled_back rc ps = Some (case wr_previous rc of Some p \<Rightarrow> ps[i := p]
      | None \<Rightarrow> take i ps @ drop (Suc i) ps)"
    by (simp add: rolled_back_def assms(2) text_index [OF assms(1)])
  have at: "i < length ps" "\<not> \<not> ?P (ps ! i)" using i by (simp_all add: find_index_Some)
  note others = filter_others [where Q = "\<lambda>p. \<not> ?P p", OF at]
  show thesis
  proof (cases "wr_previous rc")
    case None
    with rb others(2) filter_first(3) [OF i] rest that show thesis by (simp add: own_def foreign_def)
  next
    case (Some p)
    with rb others(1) [of p] filter_first(2) [OF i assms(4), of p] rest assms(4) [OF Some] that
    show thesis by (simp add: own_def foreign_def)
  qed
qed

lemma added_own:
  assumes "wr_previous rc = map_option (\<lambda>i. ps ! i) (find_index (has_epk (pr_epk r)) ps)"
  obtains rest where "own (pr_epk r) (added r ps) = peer_json r # rest"
    "own (pr_epk r) ps = (case wr_previous rc of Some p \<Rightarrow> p # rest | None \<Rightarrow> rest)"
    "\<And>p. wr_previous rc = Some p \<Longrightarrow> has_epk (pr_epk r) p"
proof (cases "find_index (has_epk (pr_epk r)) ps")
  case None
  then have "own (pr_epk r) ps = []" by (auto simp: own_def find_index_None filter_empty_conv)
  with None assms that [of "[]"] show thesis by (simp add: added_def own_def)
next
  case (Some i)
  then have "has_epk (pr_epk r) (ps ! i)" by (simp add: find_index_Some)
  with Some assms filter_first(1,2) [OF Some] that show thesis by (simp add: added_def own_def)
qed

text \<open>
  C7: compensation. A pairing that is rolled back leaves the entries of that Owner as they
  were before it (an overwritten record is restored, a new one removed) and the entries of
  every other Owner as the operations in between left them, when no later write of the same
  Owner came in between and the file system serves the calls.
\<close>

theorem rollback_compensates:
  assumes "st = run storage_step (fresh_storage f) before"
    and "list_all parsed_json (list_peers (os_file st))"
    and "add_peer r env st = (st1, Inr rc)"
    and "list_all calm between" and "\<not> wrote_in st1 between (slot_of (pr_epk r))"
    and "st2 = run storage_step st1 between"
    and "authorized env'" and "fe_mkdir env' = None" and "fe_write env' = WriteOk"
  shows "\<exists>st3 oc. conditional_rollback_peer rc env' st2 = (st3, Inr oc)
    \<and> (case wr_previous rc of Some _ \<Rightarrow> (\<exists>n. oc = OcRestored n) | None \<Rightarrow> (\<exists>n. oc = OcRemoved n))
    \<and> own (pr_epk r) (list_peers (os_file st3)) = own (pr_epk r) (list_peers (os_file st))
    \<and> foreign (pr_epk r) (list_peers (os_file st3)) = foreign (pr_epk r) (list_peers (os_file st2))"
proof -
  let ?ps = "list_peers (os_file st)"
  have b: "tokens_bounded st" unfolding assms(1) by (rule reached_bounded)
  note rec = add_peer_receipt [OF b assms(3)]
  obtain rest where own1: "own (pr_epk r) (added r ?ps) = peer_json r # rest"
    and own0: "own (pr_epk r) ?ps = (case wr_previous rc of Some p \<Rightarrow> p # rest | None \<Rightarrow> rest)"
    and prev: "\<And>p. wr_previous rc = Some p \<Longrightarrow> has_epk (pr_epk r) p"
    using added_own [OF rec(3)] by blast
  obtain ps2 where f2: "os_file st2 = container ps2" "list_all parsed_json ps2"
    and own2: "own (pr_epk r) ps2 = peer_json r # rest"
    using calm_run [OF rec(5) assms(4) _ rec(4) assms(5)] parsed_added [OF assms(2)] own1 assms(6) rec(4)
    by auto
  obtain ps3 where rb: "rolled_back rc ps2 = Some ps3" "foreign (pr_epk r) ps3 = foreign (pr_epk r) ps2"
    "own (pr_epk r) ps3 = own (pr_epk r) ?ps"
    using rolled_back_own [OF f2(2) rec(1) own2 prev] own0 by metis
  have tok: "jm_get (os_tokens st2) (slot_of (pr_epk r)) = Some (wr_token rc)"
    using slot_unwritten [OF rec(5) assms(5) rec(2)] assms(6) by simp
  then have "token_for_slot (owner_slot_key (Some (JStr (pr_epk r)))) st2 = (st2, wr_token rc)"
    using token_for_slot_known by (simp add: slot_of_def)
  with rb(1) f2(1) assms(7-9) rec(1)
  have "\<exists>st3 oc. conditional_rollback_peer rc env' st2 = (st3, Inr oc)
      \<and> (case wr_previous rc of Some _ \<Rightarrow> (\<exists>n. oc = OcRestored n) | None \<Rightarrow> (\<exists>n. oc = OcRemoved n))
      \<and> os_file st3 = container ps3"
    by (cases "wr_previous rc")
      (auto simp: conditional_rollback_peer_def rolled_back_def Let_def write_peers_def invalidate_owner_slot_def
        split: option.splits)
  with rb(2,3) f2(1) show ?thesis by auto
qed


theorem rollback_compensates_witness:
  "\<exists>st3. conditional_rollback_peer demo_receipt ok_env (run storage_step (fst demo_add) demo_other)
       = (st3, Inr (OcRestored 2))
     \<and> own ''k1'' (list_peers (os_file st3)) = [peer_json (demo_peer ''old'' ''k1'')]"
proof -
  note p = rollback_compensates [of demo_storage "container [peer_json (demo_peer ''old'' ''k1''), JNull]"
      "[]" "demo_peer ''phone'' ''k1''" ok_env "fst demo_add" demo_receipt demo_other
      "run storage_step (fst demo_add) demo_other" ok_env]
  have "\<exists>st3 oc. conditional_rollback_peer demo_receipt ok_env (run storage_step (fst demo_add) demo_other)
       = (st3, Inr oc)
     \<and> own ''k1'' (list_peers (os_file st3)) = own ''k1'' (list_peers (os_file demo_storage))"
  proof -
    have "demo_storage = run storage_step (fresh_storage (container
      [peer_json (demo_peer ''old'' ''k1''), JNull])) []" by (simp add: demo_storage_def)
    moreover have "list_all parsed_json (list_peers (os_file demo_storage))" by code_simp
    moreover have "add_peer (demo_peer ''phone'' ''k1'') ok_env demo_storage = (fst demo_add, Inr demo_receipt)"
      using demo_added by (simp add: demo_add_def)
    moreover have "list_all calm demo_other" by code_simp
    moreover have "\<not> wrote_in (fst demo_add) demo_other (slot_of (pr_epk (demo_peer ''phone'' ''k1'')))"
      by code_simp
    moreover have "authorized ok_env" "fe_mkdir ok_env = None" "fe_write ok_env = WriteOk"
      by (simp_all add: authorized_def ok_env_def)
    ultimately show ?thesis using p by (simp add: demo_peer_def) blast
  qed
  moreover have "snd (conditional_rollback_peer demo_receipt ok_env (run storage_step (fst demo_add) demo_other))
      = Inr (OcRestored 2)" by code_simp
  moreover have "own ''k1'' (list_peers (os_file demo_storage)) = [peer_json (demo_peer ''old'' ''k1'')]"
    by code_simp
  ultimately show ?thesis by (metis snd_conv)
qed

section \<open>A file that cannot be read\<close>

text \<open>
  \<open>addPeer\<close> and \<open>removePeer\<close> read with \<open>listPeers\<close>, which takes a file it cannot read for an
  empty one: a pairing then replaces the whole file, where every other mutation refuses.
\<close>

lemma add_peer_replaces_unreadable:
  assumes "list_peers (os_file st) = []" and "fe_mkdir env = None" and "fe_write env = WriteOk"
  shows "os_file (fst (add_peer r env st)) = container [peer_json r]"
    and "read_peer_container_strict (os_file st) = Inl e
      \<Longrightarrow> os_file (fst (conditional_remove_peer epk t env st)) = os_file st
        \<and> os_file (fst (conditional_rollback_peer rc env st)) = os_file st"
  using assms
  by (auto simp: add_peer_def write_peers_def invalidate_owner_slot_def Let_def case_prod_beta
      conditional_remove_peer_def conditional_rollback_peer_def)

end
