(* ===== verification/PairingCoordinator.thy ===== *)
theory PairingCoordinator
  imports QrSession OwnerStorage
begin

text \<open>
  \<open>PairingCoordinator\<close> of \<open>pi-extension/src/runtime/pairing_coordinator.ts\<close>, on the QR session
  (\<open>QrSession\<close>), the owner storage (\<open>OwnerStorage\<close>) and the bindings of
  \<open>pi-extension/src/index.ts\<close> that it is wired to there.

  \<open>run\<close> is asynchronous: between two \<open>await\<close>s anything else may happen. Each of its stretches
  between awaits is one event of the machine, named with the identity of its attempt, and
  \<open>phase\<close> is the await at which the attempt stands. The other events are requests, retries of
  requests that waited for a running attempt, changes of the Relay and of the bindings, the other
  users of the QR session and of the storage. Objects compared by identity (Relay clients,
  bindings, attempts) are numbers. Answers of the environment (clock readings, file system,
  \<open>updateEndpoint\<close>, \<open>buildPairOk\<close>) are part of the event that receives them.
\<close>

section \<open>State\<close>

record pair_request =
  pq_id :: string
  pq_token :: string
  pq_device :: string

record attempt =
  pa_ref :: nat
  pa_key :: string
  pa_owner :: string
  pa_relay :: nat
  pa_binding :: nat
  pa_reservation :: reservation
  pa_frame :: pair_request

datatype phase =
    PhAdd
  | PhAdded "(string, write_receipt) result"
  | PhAcl write_receipt
  | PhRollback write_receipt bool
  | PhRefresh bool

text \<open>What was sent: on the channel of a binding, or on a channel made for one answer.\<close>

datatype sent = SentOn nat json | SentOnce nat string json

record waiter =
  wt_attempt :: nat
  wt_relay :: nat
  wt_owner :: string
  wt_frame :: pair_request

record pairing =
  pg_qr :: "json qr_session"
  pg_store :: owner_storage
  pg_attempts :: "(string, attempt) js_map"
  pg_tasks :: "(attempt \<times> phase) list"
  pg_waiters :: "waiter list"
  pg_resolved :: "nat list"
  pg_relay :: "nat option"
  pg_bindings :: "(string, nat) js_map"
  pg_sent :: "sent list"
  pg_next :: nat

section \<open>The dependencies in index.ts\<close>

definition is_relay_current :: "pairing \<Rightarrow> nat \<Rightarrow> bool" where
  "is_relay_current st relay = (pg_relay st = Some relay)"

definition active_binding :: "pairing \<Rightarrow> string \<Rightarrow> nat option" where
  "active_binding st owner = jm_get (pg_bindings st) owner"

definition detach_owner :: "string \<Rightarrow> pairing \<Rightarrow> pairing" where
  "detach_owner owner st = st \<lparr> pg_bindings := jm_delete owner (pg_bindings st) \<rparr>"

text \<open>\<open>attachOwner\<close>: a new binding, when the session manager is known (\<open>ready\<close>).\<close>

definition attach_owner :: "string \<Rightarrow> bool \<Rightarrow> pairing \<Rightarrow> pairing \<times> nat option" where
  "attach_owner owner ready st =
     (let st1 = detach_owner owner st
      in if \<not> ready then (st1, None)
         else (st1 \<lparr> pg_bindings := jm_set owner (pg_next st1) (pg_bindings st1), pg_next := Suc (pg_next st1) \<rparr>,
               Some (pg_next st1)))"

section \<open>Requests\<close>

definition attempt_key :: "string \<Rightarrow> string \<Rightarrow> string" where
  "attempt_key owner request = owner @ CHR 0x00 # request"

definition pair_error :: "pair_request \<Rightarrow> string \<Rightarrow> string \<Rightarrow> json" where
  "pair_error frame code message =
     JObj [(''protocol_version'', JNum (NInt 2)), (''type'', JStr ''pair_error''),
           (''in_reply_to'', JStr (pq_id frame)), (''code'', JStr code), (''message'', JStr message)]"

definition send :: "sent \<Rightarrow> pairing \<Rightarrow> pairing" where
  "send m st = st \<lparr> pg_sent := pg_sent st @ [m] \<rparr>"

definition reject_code :: "json reserve_result \<Rightarrow> string option" where
  "reject_code r =
     (case r of ResExpired \<Rightarrow> Some ''token_expired'' | ResConsumed \<Rightarrow> Some ''token_consumed''
      | ResUnknown \<Rightarrow> Some ''token_unknown'' | _ \<Rightarrow> None)"

definition reject :: "nat \<Rightarrow> string \<Rightarrow> pair_request \<Rightarrow> string \<Rightarrow> pairing \<Rightarrow> pairing" where
  "reject relay owner frame code st =
     send (SentOnce relay owner (pair_error frame code
       (if code = ''token_consumed'' then ''Pairing token is already in use''
        else ''Pairing token is invalid or expired''))) st"

definition release :: "reservation \<Rightarrow> pairing \<Rightarrow> pairing" where
  "release rv st = st \<lparr> pg_qr := fst (release_token (pg_qr st) rv) \<rparr>"

text \<open>The answer to a committed reservation, on the binding of the Owner or on a new one.\<close>

definition replay_completion :: "string \<Rightarrow> bool \<Rightarrow> json \<Rightarrow> pairing \<Rightarrow> pairing" where
  "replay_completion owner ready completion st =
     (case active_binding st owner of
        Some b \<Rightarrow> send (SentOn b completion) st
      | None \<Rightarrow>
          (case attach_owner owner ready st of
             (st1, Some b) \<Rightarrow> send (SentOn b completion) st1
           | (st1, None) \<Rightarrow> st1))"

definition start_attempt ::
  "nat \<Rightarrow> string \<Rightarrow> pair_request \<Rightarrow> bool \<Rightarrow> reservation \<Rightarrow> pairing \<Rightarrow> pairing" where
  "start_attempt relay owner frame ready rv st =
     (case attach_owner owner ready st of
        (st1, None) \<Rightarrow> release rv st1
      | (st1, Some b) \<Rightarrow>
          (let a = \<lparr> pa_ref = pg_next st1, pa_key = attempt_key owner (pq_id frame), pa_owner = owner,
                     pa_relay = relay, pa_binding = b, pa_reservation = rv, pa_frame = frame \<rparr>
           in st1 \<lparr> pg_attempts := jm_set (pa_key a) a (pg_attempts st1), pg_tasks := pg_tasks st1 @ [(a, PhAdd)],
                    pg_next := Suc (pg_next st1) \<rparr>))"

definition pairing_handle :: "nat \<Rightarrow> string \<Rightarrow> pair_request \<Rightarrow> int \<Rightarrow> bool \<Rightarrow> pairing \<Rightarrow> pairing" where
  "pairing_handle relay owner frame now ready st =
     (if \<not> is_relay_current st relay then st
      else case jm_get (pg_attempts st) (attempt_key owner (pq_id frame)) of
        Some pending \<Rightarrow>
          st \<lparr> pg_waiters := pg_waiters st @ [\<lparr> wt_attempt = pa_ref pending, wt_relay = relay,
                                               wt_owner = owner, wt_frame = frame \<rparr>] \<rparr>
      | None \<Rightarrow>
          (let (qr, r) = reserve_token (pg_qr st) (pq_token frame) owner (pq_id frame) now;
               st1 = st \<lparr> pg_qr := qr \<rparr>
           in case reject_code r of
                Some code \<Rightarrow> reject relay owner frame code st1
              | None \<Rightarrow>
                  (case r of
                     ResCommitted (Some completion) \<Rightarrow> replay_completion owner ready completion st1
                   | ResReserved rv \<Rightarrow> start_attempt relay owner frame ready rv st1
                   | _ \<Rightarrow> st1)))"

section \<open>Running an attempt\<close>

definition lifecycle_is_current :: "pairing \<Rightarrow> attempt \<Rightarrow> bool" where
  "lifecycle_is_current st a =
     (is_relay_current st (pa_relay a) \<and> active_binding st (pa_owner a) = Some (pa_binding a))"

definition can_commit :: "pairing \<Rightarrow> attempt \<Rightarrow> int \<Rightarrow> bool" where
  "can_commit st a now =
     (lifecycle_is_current st a \<and> is_reservation_current (pg_qr st) (pa_reservation a) now)"

definition set_phase :: "attempt \<Rightarrow> phase \<Rightarrow> pairing \<Rightarrow> pairing" where
  "set_phase a ph st =
     st \<lparr> pg_tasks := map (\<lambda>t. if pa_ref (fst t) = pa_ref a then (fst t, ph) else t) (pg_tasks st) \<rparr>"

text \<open>The \<open>finally\<close> block.\<close>

definition finish :: "attempt \<Rightarrow> json option \<Rightarrow> pairing \<Rightarrow> pairing" where
  "finish a completion st =
     (let st1 = (if completion = None then release (pa_reservation a) st else st)
      in st1 \<lparr> pg_attempts :=
                 (case jm_get (pg_attempts st1) (pa_key a) of
                    Some b \<Rightarrow> if pa_ref b = pa_ref a then jm_delete (pa_key a) (pg_attempts st1)
                              else pg_attempts st1
                  | None \<Rightarrow> pg_attempts st1),
               pg_resolved := pa_ref a # pg_resolved st1,
               pg_tasks := filter (\<lambda>t. pa_ref (fst t) \<noteq> pa_ref a) (pg_tasks st1) \<rparr>)"

text \<open>The end of the \<open>catch\<close> block.\<close>

definition caught :: "attempt \<Rightarrow> pairing \<Rightarrow> pairing" where
  "caught a st =
     finish a None
       (if lifecycle_is_current st a
        then send (SentOn (pa_binding a) (pair_error (pa_frame a) ''internal_error'' ''Failed to persist pairing'')) st
        else st)"

text \<open>\<open>addPeer\<close> runs.\<close>

definition task_store :: "attempt \<Rightarrow> string \<Rightarrow> fs_env \<Rightarrow> pairing \<Rightarrow> pairing" where
  "task_store a date env st =
     (let (store, res) = add_peer \<lparr> pr_name = pq_device (pa_frame a), pr_epk = pa_owner a, pr_paired_at = date \<rparr>
                           env (pg_store st)
      in set_phase a (PhAdded res) (st \<lparr> pg_store := store \<rparr>))"

text \<open>After \<open>await this.deps.addPeer\<close>, up to the call of \<open>updateEndpoint\<close> or \<open>rollbackPeer\<close>.\<close>

definition task_added :: "attempt \<Rightarrow> (string, write_receipt) result \<Rightarrow> int \<Rightarrow> pairing \<Rightarrow> pairing" where
  "task_added a res now st =
     (case res of
        Inl _ \<Rightarrow> caught a st
      | Inr rc \<Rightarrow> set_phase a (if can_commit st a now then PhAcl rc else PhRollback rc False) st)"

record acl_answer =
  aa_sent :: "(unit, bool) result"
  aa_check :: int
  aa_pair_ok :: "json option"
  aa_commit :: int

text \<open>After \<open>await this.deps.updateEndpoint\<close>.\<close>

definition task_acl :: "attempt \<Rightarrow> write_receipt \<Rightarrow> acl_answer \<Rightarrow> pairing \<Rightarrow> pairing" where
  "task_acl a rc ans st =
     (case aa_sent ans of
        Inl _ \<Rightarrow> set_phase a (PhRollback rc True) st
      | Inr acl \<Rightarrow>
          if \<not> acl \<or> \<not> can_commit st a (aa_check ans) then set_phase a (PhRollback rc False) st
          else case aa_pair_ok ans of
            None \<Rightarrow> set_phase a (PhRollback rc True) st
          | Some pair_ok \<Rightarrow>
              (let (qr, done) = commit_token (pg_qr st) (pa_reservation a) pair_ok (aa_commit ans)
               in if \<not> done then set_phase a (PhRollback rc False) (st \<lparr> pg_qr := qr \<rparr>)
                  else finish a (Some pair_ok) (send (SentOn (pa_binding a) pair_ok) (st \<lparr> pg_qr := qr \<rparr>))))"

definition task_rollback :: "attempt \<Rightarrow> write_receipt \<Rightarrow> bool \<Rightarrow> fs_env \<Rightarrow> pairing \<Rightarrow> pairing" where
  "task_rollback a rc c env st =
     set_phase a (PhRefresh c)
       (st \<lparr> pg_store := fst (conditional_rollback_peer rc (env \<lparr> fe_can_commit := None \<rparr>) (pg_store st)) \<rparr>)"

definition task_refresh :: "attempt \<Rightarrow> bool \<Rightarrow> pairing \<Rightarrow> pairing" where
  "task_refresh a c st = (if c then caught a st else finish a None st)"

definition abandon_one :: "pairing \<Rightarrow> attempt \<Rightarrow> pairing" where
  "abandon_one st a =
     (if lifecycle_is_current st a then st
      else (release (pa_reservation a) st)
             \<lparr> pg_attempts := jm_delete (pa_key a) (pg_attempts st), pg_resolved := pa_ref a # pg_resolved st \<rparr>)"

definition abandon_inactive :: "pairing \<Rightarrow> pairing" where
  "abandon_inactive st = foldl abandon_one st (jm_values (pg_attempts st))"

section \<open>The machine\<close>

record task_answer =
  ta_date :: string
  ta_env :: fs_env
  ta_now :: int
  ta_acl :: acl_answer

datatype pairing_event =
    PvRequest nat string pair_request int bool
  | PvRetry nat int bool
  | PvTask nat task_answer
  | PvAbandon
  | PvRelay "nat option"
  | PvAttach string bool
  | PvDetach string
  | PvIssue string int int
  | PvConsume string int
  | PvClear
  | PvStorage storage_input

text \<open>The await of one attempt resolves.\<close>

definition task_step :: "attempt \<Rightarrow> phase \<Rightarrow> task_answer \<Rightarrow> pairing \<Rightarrow> pairing" where
  "task_step a ph ans st =
     (case ph of
        PhAdd \<Rightarrow> task_store a (ta_date ans) (ta_env ans) st
      | PhAdded res \<Rightarrow> task_added a res (ta_now ans) st
      | PhAcl rc \<Rightarrow> task_acl a rc (ta_acl ans) st
      | PhRollback rc c \<Rightarrow> task_rollback a rc c (ta_env ans) st
      | PhRefresh c \<Rightarrow> task_refresh a c st)"

definition task_of :: "nat \<Rightarrow> pairing \<Rightarrow> (attempt \<times> phase) option" where
  "task_of ref st = find (\<lambda>t. pa_ref (fst t) = ref) (pg_tasks st)"

fun pairing_step :: "pairing \<Rightarrow> pairing_event \<Rightarrow> pairing" where
  "pairing_step st (PvRequest relay owner frame now ready) = pairing_handle relay owner frame now ready st"
| "pairing_step st (PvRetry n now ready) =
     (if n < length (pg_waiters st) \<and> List.member (pg_resolved st) (wt_attempt (pg_waiters st ! n))
      then let w = pg_waiters st ! n in
        pairing_handle (wt_relay w) (wt_owner w) (wt_frame w) now ready
          (st \<lparr> pg_waiters := take n (pg_waiters st) @ drop (Suc n) (pg_waiters st) \<rparr>)
      else st)"
| "pairing_step st (PvTask ref ans) =
     (case task_of ref st of Some (a, ph) \<Rightarrow> task_step a ph ans st | None \<Rightarrow> st)"
| "pairing_step st PvAbandon = abandon_inactive st"
| "pairing_step st (PvRelay r) = st \<lparr> pg_relay := r \<rparr>"
| "pairing_step st (PvAttach owner ready) = fst (attach_owner owner ready st)"
| "pairing_step st (PvDetach owner) = detach_owner owner st"
| "pairing_step st (PvIssue token now ttl) = st \<lparr> pg_qr := fst (issue_token (pg_qr st) token now ttl) \<rparr>"
| "pairing_step st (PvConsume token now) = st \<lparr> pg_qr := fst (consume_token (pg_qr st) token now) \<rparr>"
| "pairing_step st PvClear = st \<lparr> pg_qr := qr_clear (pg_qr st) \<rparr>"
| "pairing_step st (PvStorage i) = st \<lparr> pg_store := storage_step (pg_store st) i \<rparr>"

definition new_pairing :: "peers_file \<Rightarrow> pairing" where
  "new_pairing f = \<lparr> pg_qr = qr_init, pg_store = fresh_storage f, pg_attempts = [], pg_tasks = [],
     pg_waiters = [], pg_resolved = [], pg_relay = None, pg_bindings = [], pg_sent = [], pg_next = 0 \<rparr>"

section \<open>What holds of the QR session\<close>

text \<open>How the operations change the reservation that is held.\<close>

definition is_held :: "'c qr_session \<Rightarrow> reservation \<Rightarrow> bool" where
  "is_held qs rv \<longleftrightarrow> held qs rv \<noteq> None"

lemma held_release: "is_held (fst (release_token qs rv)) rv' \<Longrightarrow> is_held qs rv' \<and> rv' \<noteq> rv"
  by (auto simp: release_token_def is_held_def held_def split: option.splits if_splits)

lemma held_reserve:
  assumes "reserve_token qs token owner request now = (qs', r)" and "is_held qs' rv"
  shows "is_held qs rv \<or> r = ResReserved rv"
proof (cases "qs_active qs")
  case (Some act)
  with assms show ?thesis
    by (cases "at_reservation act")
      (auto simp: reserve_token_def is_held_def held_def Let_def split: if_splits option.splits)
qed (use assms in \<open>simp add: reserve_token_def\<close>)

lemma reserve_owner:
  assumes "reserve_token qs token owner request now = (qs', ResReserved rv)" and "qr_inv qs"
  shows "rv_owner rv = owner \<and> rv_request rv = request \<and> rv_token rv = token"
proof (cases "qs_active qs")
  case (Some act)
  with assms show ?thesis
    by (cases "at_reservation act")
      (auto simp: reserve_token_def fresh_reservation_def qr_inv_def Let_def split: if_splits option.splits)
qed (use assms in \<open>simp add: reserve_token_def\<close>)

lemma held_commit:
  "commit_token qs rv c now = (qs', True) \<Longrightarrow> \<not> is_held qs' rv'"
  "commit_token qs rv c now = (qs', False) \<Longrightarrow> qs' = qs"
  by (auto simp: commit_token_def is_held_def held_def split: option.splits if_splits)

lemma held_consume: "is_held (fst (consume_token qs token now)) rv \<Longrightarrow> is_held qs rv"
  by (auto simp: consume_token_def is_held_def held_def split: option.splits if_splits)

lemma held_issue: "\<not> is_held (fst (issue_token qs token now ttl)) rv"
  by (simp add: issue_token_def is_held_def held_def)

lemma held_clear: "\<not> is_held (qr_clear qs) rv"
  by (simp add: qr_clear_def is_held_def held_def)

section \<open>The invariant\<close>

text \<open>
  Every entry of the attempts map is the entry of a running task; a reservation that is held
  is held by an entry, so finishing the task frees it; a request that waits waits for an
  entry or for an attempt that has finished.
\<close>

definition attempts_of :: "pairing \<Rightarrow> attempt list" where
  "attempts_of st = map fst (pg_tasks st)"

definition tasks_ok :: "pairing \<Rightarrow> bool" where
  "tasks_ok st \<longleftrightarrow> distinct (map pa_ref (attempts_of st))
     \<and> (\<forall>a \<in> set (attempts_of st). pa_ref a < pg_next st)"

definition attempts_ok :: "pairing \<Rightarrow> bool" where
  "attempts_ok st \<longleftrightarrow> jm_ok (pg_attempts st)
     \<and> (\<forall>k a. jm_get (pg_attempts st) k = Some a \<longrightarrow> k = pa_key a \<and> a \<in> set (attempts_of st))"

definition reserved_ok :: "pairing \<Rightarrow> bool" where
  "reserved_ok st \<longleftrightarrow> (\<forall>rv. is_held (pg_qr st) rv \<longrightarrow>
     (\<exists>k a. jm_get (pg_attempts st) k = Some a \<and> pa_reservation a = rv))"

definition waiters_ok :: "pairing \<Rightarrow> bool" where
  "waiters_ok st \<longleftrightarrow> (\<forall>w \<in> set (pg_waiters st). wt_attempt w \<in> set (pg_resolved st)
     \<or> (\<exists>k a. jm_get (pg_attempts st) k = Some a \<and> pa_ref a = wt_attempt w))"

definition pairing_inv :: "pairing \<Rightarrow> bool" where
  "pairing_inv st \<longleftrightarrow> qr_inv (pg_qr st) \<and> tasks_ok st \<and> attempts_ok st \<and> reserved_ok st \<and> waiters_ok st"

lemmas pairing_inv_defs = attempts_of_def pairing_inv_def tasks_ok_def attempts_ok_def reserved_ok_def waiters_ok_def

lemma pairing_invD:
  assumes "pairing_inv st"
  shows "qr_inv (pg_qr st)" "distinct (map pa_ref (attempts_of st))"
    "a \<in> set (attempts_of st) \<Longrightarrow> pa_ref a < pg_next st"
    "jm_ok (pg_attempts st)" "jm_get (pg_attempts st) k = Some a \<Longrightarrow> k = pa_key a \<and> a \<in> set (attempts_of st)"
  using assms unfolding pairing_inv_def tasks_ok_def attempts_ok_def by auto

text \<open>The parts of the state that the invariant does not read.\<close>

lemma inv_unread [simp]:
  "pairing_inv (st \<lparr> pg_store := x \<rparr>) = pairing_inv st"
  "pairing_inv (st \<lparr> pg_relay := r \<rparr>) = pairing_inv st"
  "pairing_inv (st \<lparr> pg_bindings := b \<rparr>) = pairing_inv st"
  "pairing_inv (st \<lparr> pg_sent := m \<rparr>) = pairing_inv st"
  by (simp_all add: pairing_inv_defs)

lemma inv_send [simp]: "pairing_inv (send m st) = pairing_inv st"
  by (simp add: send_def)

lemma inv_next: "pairing_inv st \<Longrightarrow> pg_next st \<le> n \<Longrightarrow> pairing_inv (st \<lparr> pg_next := n \<rparr>)"
  by (fastforce simp: pairing_inv_defs)

lemma inv_attach: "pairing_inv st \<Longrightarrow> pairing_inv (fst (attach_owner owner ready st))"
  by (auto simp: attach_owner_def detach_owner_def Let_def intro: inv_next)

lemma inv_set_phase:
  assumes "pairing_inv st"
  shows "pairing_inv (set_phase a ph st)"
proof -
  have "attempts_of (set_phase a ph st) = attempts_of st"
    by (simp add: attempts_of_def set_phase_def)
  moreover have "pg_qr (set_phase a ph st) = pg_qr st" "pg_attempts (set_phase a ph st) = pg_attempts st"
    "pg_waiters (set_phase a ph st) = pg_waiters st" "pg_resolved (set_phase a ph st) = pg_resolved st"
    "pg_next (set_phase a ph st) = pg_next st" by (simp_all add: set_phase_def)
  ultimately show ?thesis
    using assms unfolding pairing_inv_def tasks_ok_def attempts_ok_def reserved_ok_def waiters_ok_def by simp
qed

lemma inv_qr:
  assumes "pairing_inv st" and "qr_inv qr" and "\<And>rv. is_held qr rv \<Longrightarrow> is_held (pg_qr st) rv"
  shows "pairing_inv (st \<lparr> pg_qr := qr \<rparr>)"
  using assms by (auto simp: pairing_inv_defs)

lemma inv_release: "pairing_inv st \<Longrightarrow> pairing_inv (release rv st)"
  unfolding release_def
  by (rule inv_qr) (auto simp: pairing_inv_def release_token_inv dest: held_release)

text \<open>An attempt leaves the map (and, when it finishes, the tasks) after its reservation was freed.\<close>

lemma inv_leave:
  assumes inv: "pairing_inv st" and task: "a \<in> set (attempts_of st)"
    and free: "\<not> is_held (pg_qr st) (pa_reservation a)"
  shows "jm_get (pg_attempts st) (pa_key a) = Some a \<Longrightarrow>
      pairing_inv (st \<lparr> pg_attempts := jm_delete (pa_key a) (pg_attempts st), pg_resolved := pa_ref a # pg_resolved st \<rparr>)"
proof -
  assume own: "jm_get (pg_attempts st) (pa_key a) = Some a"
  have "\<exists>k a'. jm_get (jm_delete (pa_key a) (pg_attempts st)) k = Some a' \<and> pa_reservation a' = rv"
    if h: "is_held (pg_qr st) rv" for rv
  proof -
    from inv h obtain k a' where a': "jm_get (pg_attempts st) k = Some a'" "pa_reservation a' = rv"
      by (auto simp: pairing_inv_defs)
    with h free own have "k \<noteq> pa_key a" by auto
    with a' show ?thesis by auto
  qed
  moreover have "\<forall>w \<in> set (pg_waiters st). wt_attempt w \<in> set (pa_ref a # pg_resolved st)
      \<or> (\<exists>k a'. jm_get (jm_delete (pa_key a) (pg_attempts st)) k = Some a' \<and> pa_ref a' = wt_attempt w)"
  proof
    fix w assume "w \<in> set (pg_waiters st)"
    with inv consider "wt_attempt w \<in> set (pg_resolved st)"
      | k a' where "jm_get (pg_attempts st) k = Some a'" "pa_ref a' = wt_attempt w"
      by (auto simp: pairing_inv_defs)
    then show "wt_attempt w \<in> set (pa_ref a # pg_resolved st)
      \<or> (\<exists>k a'. jm_get (jm_delete (pa_key a) (pg_attempts st)) k = Some a' \<and> pa_ref a' = wt_attempt w)"
    proof cases
      case (2 k a')
      with own show ?thesis by (cases "k = pa_key a") auto
    qed simp
  qed
  ultimately show ?thesis
    using inv by (auto simp: pairing_inv_defs)
qed

lemma inv_resolved: "pairing_inv st \<Longrightarrow> pairing_inv (st \<lparr> pg_resolved := r # pg_resolved st \<rparr>)"
  unfolding pairing_inv_defs by auto

lemma inv_drop_task:
  assumes "pairing_inv st" and "\<And>k b. jm_get (pg_attempts st) k = Some b \<Longrightarrow> pa_ref b \<noteq> ref"
  shows "pairing_inv (st \<lparr> pg_tasks := filter (\<lambda>t. pa_ref (fst t) \<noteq> ref) (pg_tasks st) \<rparr>)"
proof -
  have "attempts_of (st \<lparr> pg_tasks := filter (\<lambda>t. pa_ref (fst t) \<noteq> ref) (pg_tasks st) \<rparr>)
      = filter (\<lambda>a. pa_ref a \<noteq> ref) (attempts_of st)"
    by (simp add: attempts_of_def filter_map comp_def)
  then show ?thesis
    using assms unfolding pairing_inv_def tasks_ok_def attempts_ok_def reserved_ok_def waiters_ok_def
    by (auto simp: distinct_map_filter)
qed

lemma same_attempt:
  assumes "pairing_inv st" and "a \<in> set (attempts_of st)" and "b \<in> set (attempts_of st)" and "pa_ref a = pa_ref b"
  shows "a = b"
  using pairing_invD(2) [OF assms(1)] assms(2-4) by (auto simp: distinct_map dest: inj_onD)

lemma attempts_of_release [simp]: "attempts_of (release rv st) = attempts_of st"
  by (simp add: attempts_of_def release_def)

lemma not_held_release: "\<not> is_held (pg_qr (release rv st)) rv"
  using held_release [of "pg_qr st" rv rv] by (auto simp: release_def)

lemma inv_finish:
  assumes inv: "pairing_inv st" and task: "a \<in> set (attempts_of st)"
    and free: "c \<noteq> None \<Longrightarrow> \<not> is_held (pg_qr st) (pa_reservation a)"
  shows "pairing_inv (finish a c st)"
proof -
  define st1 where "st1 = (if c = None then release (pa_reservation a) st else st)"
  have inv1: "pairing_inv st1" using inv by (simp add: st1_def inv_release)
  have task1: "a \<in> set (attempts_of st1)" using task by (simp add: st1_def)
  have free1: "\<not> is_held (pg_qr st1) (pa_reservation a)"
    using free not_held_release by (simp add: st1_def)
  define own where "own \<longleftrightarrow> jm_get (pg_attempts st1) (pa_key a) = Some a"
  define st2 where "st2 = st1 \<lparr> pg_attempts := (if own then jm_delete (pa_key a) (pg_attempts st1) else pg_attempts st1),
      pg_resolved := pa_ref a # pg_resolved st1 \<rparr>"
  have entry: "b = a" if "jm_get (pg_attempts st1) k = Some b" "pa_ref b = pa_ref a" for k b
    using same_attempt [OF inv1 _ task1] pairing_invD(5) [OF inv1 that(1)] that(2) by blast
  then have choice: "(case jm_get (pg_attempts st1) (pa_key a) of
        Some b \<Rightarrow> if pa_ref b = pa_ref a then jm_delete (pa_key a) (pg_attempts st1) else pg_attempts st1
      | None \<Rightarrow> pg_attempts st1) = (if own then jm_delete (pa_key a) (pg_attempts st1) else pg_attempts st1)"
    by (auto simp: own_def split: option.splits)
  have inv2: "pairing_inv st2"
    using inv_leave [OF inv1 task1 free1] inv_resolved [OF inv1] by (simp add: st2_def own_def)
  have gone: "pa_ref b \<noteq> pa_ref a" if "jm_get (pg_attempts st2) k = Some b" for k b
  proof
    assume same: "pa_ref b = pa_ref a"
    have "jm_get (pg_attempts st1) k = Some b" using that by (auto simp: st2_def split: if_splits)
    with entry same have "b = a" "jm_get (pg_attempts st1) k = Some a" by blast+
    moreover then have "k = pa_key a" using pairing_invD(5) [OF inv1] by blast
    ultimately show False using that by (auto simp: st2_def own_def split: if_splits)
  qed
  have "finish a c st = st2 \<lparr> pg_tasks := filter (\<lambda>t. pa_ref (fst t) \<noteq> pa_ref a) (pg_tasks st2) \<rparr>"
    by (simp add: finish_def Let_def choice flip: st1_def) (simp add: st2_def)
  with inv_drop_task [OF inv2 gone] show ?thesis by simp
qed

lemma inv_finish_None: "pairing_inv st \<Longrightarrow> a \<in> set (attempts_of st) \<Longrightarrow> pairing_inv (finish a None st)"
  by (rule inv_finish) simp_all

lemma inv_finish_Some:
  "pairing_inv st \<Longrightarrow> a \<in> set (attempts_of st) \<Longrightarrow> \<not> is_held (pg_qr st) (pa_reservation a)
    \<Longrightarrow> pairing_inv (finish a (Some c) st)"
  by (rule inv_finish) simp_all

lemma attempts_of_send [simp]: "attempts_of (send m st) = attempts_of st"
  by (simp add: attempts_of_def send_def)

lemma qr_send [simp]: "pg_qr (send m st) = pg_qr st"
  by (simp add: send_def)

lemma inv_caught: "pairing_inv st \<Longrightarrow> a \<in> set (attempts_of st) \<Longrightarrow> pairing_inv (caught a st)"
  by (simp add: caught_def inv_finish_None)

lemma task_of_SomeD: "task_of ref st = Some (a, ph) \<Longrightarrow> (a, ph) \<in> set (pg_tasks st) \<and> pa_ref a = ref"
  by (auto simp: task_of_def dest: find_SomeD)

lemma inv_task_acl:
  assumes "pairing_inv st" and "a \<in> set (attempts_of st)"
  shows "pairing_inv (task_acl a rc ans st)"
proof -
  have commit: "pairing_inv (st \<lparr> pg_qr := qr \<rparr>) \<and> (done \<longrightarrow> \<not> is_held qr rv)"
    if "commit_token (pg_qr st) (pa_reservation a) p now = (qr, done)" for p now qr "done" rv
  proof -
    have "qr_inv qr"
      using commit_token_inv [of "pg_qr st" "pa_reservation a" p now] assms(1) that by (simp add: pairing_inv_def)
    moreover have "\<not> is_held qr rv'" if "done" for rv'
      using held_commit(1) \<open>commit_token _ _ _ _ = _\<close> that by simp
    moreover have "qr = pg_qr st" if "\<not> done"
      using held_commit(2) \<open>commit_token _ _ _ _ = _\<close> that by simp
    ultimately show ?thesis using inv_qr [OF assms(1), of qr] by metis
  qed
  have "attempts_of (st \<lparr> pg_qr := q \<rparr>) = attempts_of st" for q by (simp add: attempts_of_def)
  with assms commit show ?thesis
    by (auto simp: task_acl_def Let_def inv_set_phase inv_finish_Some split: sum.splits option.splits prod.splits)
qed

lemma inv_task:
  assumes "pairing_inv st" and "(a, ph) \<in> set (pg_tasks st)"
  shows "pairing_inv (task_step a ph ans st)"
proof -
  have a: "a \<in> set (attempts_of st)" using assms(2) by (force simp: attempts_of_def)
  show ?thesis
    using assms(1) a
    by (cases ph)
      (auto simp: task_step_def task_store_def task_added_def task_rollback_def task_refresh_def case_prod_beta Let_def
        inv_set_phase inv_caught inv_finish_None inv_task_acl split: sum.splits)
qed

lemma inv_abandon_one:
  assumes "pairing_inv st" and "jm_get (pg_attempts st) (pa_key a) = Some a"
  shows "pairing_inv (abandon_one st a)"
proof -
  have a: "a \<in> set (attempts_of st)" using pairing_invD(5) [OF assms] by blast
  have "pg_attempts (release rv st) = pg_attempts st" "pg_resolved (release rv st) = pg_resolved st" for rv
    by (simp_all add: release_def)
  with inv_leave [OF inv_release [OF assms(1)], of a "pa_reservation a"] a assms not_held_release
  show ?thesis by (simp add: abandon_one_def)
qed

lemma abandon_one_others:
  "k \<noteq> pa_key a \<Longrightarrow> jm_get (pg_attempts (abandon_one st a)) k = jm_get (pg_attempts st) k"
  by (simp add: abandon_one_def release_def)

lemma inv_abandon:
  assumes "pairing_inv st"
  shows "pairing_inv (abandon_inactive st)"
proof -
  have "pairing_inv (foldl abandon_one st as)"
    if "pairing_inv st" "\<forall>a \<in> set as. jm_get (pg_attempts st) (pa_key a) = Some a" "distinct (map pa_key as)"
    for as and st :: pairing
    using that
  proof (induction as arbitrary: st)
    case (Cons a as)
    have "jm_get (pg_attempts (abandon_one st a)) (pa_key b) = Some b" if "b \<in> set as" for b
    proof -
      have "pa_key b \<noteq> pa_key a" using imageI [OF that, of pa_key] Cons.prems(3) by auto
      with that Cons.prems(2) show ?thesis by (simp add: abandon_one_others)
    qed
    with Cons.IH [of "abandon_one st a"] inv_abandon_one Cons.prems show ?case by simp
  qed simp
  moreover have "\<forall>a \<in> set (jm_values (pg_attempts st)). jm_get (pg_attempts st) (pa_key a) = Some a"
  proof
    fix a assume "a \<in> set (jm_values (pg_attempts st))"
    then obtain k where "(k, a) \<in> set (pg_attempts st)" by (auto simp: jm_values_def)
    then have "jm_get (pg_attempts st) k = Some a"
      using pairing_invD(4) [OF assms] by (simp add: jm_get_Some_iff)
    with pairing_invD(5) [OF assms this] show "jm_get (pg_attempts st) (pa_key a) = Some a" by simp
  qed
  moreover have "distinct (map pa_key (jm_values (pg_attempts st)))"
  proof -
    have "map pa_key (jm_values (pg_attempts st)) = map fst (pg_attempts st)"
    proof -
      have "pa_key (snd kv) = fst kv" if "kv \<in> set (pg_attempts st)" for kv
        using that pairing_invD(4,5) [OF assms] jm_get_Some_iff
        by (metis prod.collapse)
      then show ?thesis by (simp add: jm_values_def)
    qed
    then show ?thesis using pairing_invD(4) [OF assms] by (simp add: jm_ok_def)
  qed
  ultimately show ?thesis using assms by (simp add: abandon_inactive_def)
qed

lemma inv_replay: "pairing_inv st \<Longrightarrow> pairing_inv (replay_completion owner ready c st)"
  using inv_attach [of st owner ready]
  by (auto simp: replay_completion_def split: option.splits prod.splits)

text \<open>A new attempt takes over the reservation that was just granted.\<close>

lemma inv_start:
  assumes inv: "pairing_inv (st \<lparr> pg_qr := qr_old \<rparr>)" and qr: "qr_inv (pg_qr st)"
    and granted: "\<And>rv'. is_held (pg_qr st) rv' \<Longrightarrow> is_held qr_old rv' \<or> rv' = rv"
    and free: "jm_get (pg_attempts st) (attempt_key owner (pq_id frame)) = None"
  shows "pairing_inv (start_attempt relay owner frame ready rv st)"
proof -
  define st1 where "st1 = fst (attach_owner owner ready st)"
  have unread: "pg_qr st1 = pg_qr st" "pg_attempts st1 = pg_attempts st" "pg_tasks st1 = pg_tasks st"
    "pg_waiters st1 = pg_waiters st" "pg_resolved st1 = pg_resolved st" "pg_next st \<le> pg_next st1"
    by (auto simp: st1_def attach_owner_def detach_owner_def Let_def)
  have old: "is_held (pg_qr st) rv' \<Longrightarrow> rv' \<noteq> rv
      \<Longrightarrow> \<exists>k a. jm_get (pg_attempts st) k = Some a \<and> pa_reservation a = rv'" for rv'
    using granted [of rv'] inv unfolding pairing_inv_def reserved_ok_def by auto
  note base = inv [unfolded pairing_inv_def tasks_ok_def attempts_ok_def reserved_ok_def waiters_ok_def attempts_of_def]
  show ?thesis
  proof (cases "snd (attach_owner owner ready st)")
    case None
    then have "start_attempt relay owner frame ready rv st = release rv st1"
      by (simp add: start_attempt_def st1_def case_prod_beta)
    moreover have "pairing_inv (release rv st1)"
      using base unread old held_release [of "pg_qr st" rv] release_token_inv [OF qr, of rv]
      unfolding pairing_inv_def tasks_ok_def attempts_ok_def reserved_ok_def waiters_ok_def attempts_of_def
      by (auto simp: release_def)
    ultimately show ?thesis by simp
  next
    case (Some b)
    define a where "a = \<lparr> pa_ref = pg_next st1, pa_key = attempt_key owner (pq_id frame), pa_owner = owner,
        pa_relay = relay, pa_binding = b, pa_reservation = rv, pa_frame = frame \<rparr>"
    define st2 where "st2 = st1 \<lparr> pg_attempts := jm_set (pa_key a) a (pg_attempts st1),
        pg_tasks := pg_tasks st1 @ [(a, PhAdd)], pg_next := Suc (pg_next st1) \<rparr>"
    have st2: "start_attempt relay owner frame ready rv st = st2"
      using Some by (simp add: start_attempt_def st1_def st2_def a_def case_prod_beta Let_def)
    have key: "pa_key a = attempt_key owner (pq_id frame)" "pa_reservation a = rv" "pa_ref a = pg_next st1"
      by (simp_all add: a_def)
    have "tasks_ok st2"
      using base unread(3,6) key(3) by (fastforce simp: tasks_ok_def st2_def attempts_of_def)
    moreover have "attempts_ok st2"
      using base unread key by (auto simp: attempts_ok_def st2_def attempts_of_def)
    moreover have "reserved_ok st2"
    proof -
      have "\<exists>k a'. jm_get (pg_attempts st2) k = Some a' \<and> pa_reservation a' = rv'"
        if "is_held (pg_qr st) rv'" for rv'
      proof (cases "rv' = rv")
        case True
        have "jm_get (pg_attempts st2) (pa_key a) = Some a" by (simp add: st2_def)
        with key(2) True show ?thesis by blast
      next
        case False
        from old [OF that False] obtain k a' where "jm_get (pg_attempts st) k = Some a'" "pa_reservation a' = rv'"
          by blast
        moreover from this free key(1) have "k \<noteq> pa_key a" by auto
        ultimately have "jm_get (pg_attempts st2) k = Some a'" using unread(2) by (simp add: st2_def)
        with \<open>pa_reservation a' = rv'\<close> show ?thesis by blast
      qed
      then show ?thesis using unread(1) by (simp add: reserved_ok_def st2_def)
    qed
    moreover have "waiters_ok st2"
    proof -
      have "wt_attempt w \<in> set (pg_resolved st) \<or> (\<exists>k a'. jm_get (pg_attempts st2) k = Some a' \<and> pa_ref a' = wt_attempt w)"
        if w: "w \<in> set (pg_waiters st)" for w
      proof -
        from base w have "wt_attempt w \<in> set (pg_resolved st)
          \<or> (\<exists>k a'. jm_get (pg_attempts st) k = Some a' \<and> pa_ref a' = wt_attempt w)" by simp
        then show ?thesis
        proof
          assume "\<exists>k a'. jm_get (pg_attempts st) k = Some a' \<and> pa_ref a' = wt_attempt w"
          then obtain k a' where k: "jm_get (pg_attempts st) k = Some a'" "pa_ref a' = wt_attempt w" by blast
          with free key(1) have "k \<noteq> pa_key a" by auto
          then have "jm_get (pg_attempts st2) k = Some a'" using k(1) unread(2) by (simp add: st2_def)
          with k(2) show ?thesis by blast
        qed simp
      qed
      then show ?thesis using unread(4,5) by (simp add: waiters_ok_def st2_def)
    qed
    moreover have "qr_inv (pg_qr st2)" using qr unread(1) by (simp add: st2_def)
    ultimately show ?thesis unfolding st2 by (simp add: pairing_inv_def)
  qed
qed

lemma inv_handle:
  assumes inv: "pairing_inv st"
  shows "pairing_inv (pairing_handle relay owner frame now ready st)"
proof (cases "is_relay_current st relay")
  case True
  show ?thesis
  proof (cases "jm_get (pg_attempts st) (attempt_key owner (pq_id frame))")
    case (Some a)
    have "pairing_inv (st \<lparr> pg_waiters := pg_waiters st @ [\<lparr> wt_attempt = pa_ref a, wt_relay = relay,
        wt_owner = owner, wt_frame = frame \<rparr>] \<rparr>)"
      using inv Some unfolding pairing_inv_defs by auto
    with Some True show ?thesis by (simp add: pairing_handle_def)
  next
    case None
    obtain qr r where r: "reserve_token (pg_qr st) (pq_token frame) owner (pq_id frame) now = (qr, r)"
      by (cases "reserve_token (pg_qr st) (pq_token frame) owner (pq_id frame) now")
    have qr: "qr_inv qr" using reserve_token_inv [of "pg_qr st"] inv r by (metis fst_conv pairing_inv_def)
    have step: "is_held qr rv \<Longrightarrow> is_held (pg_qr st) rv \<or> r = ResReserved rv" for rv
      using held_reserve [OF r] by blast
    have other: "pairing_inv (st \<lparr> pg_qr := qr \<rparr>)" if "\<And>rv. r \<noteq> ResReserved rv"
      using inv_qr [OF inv qr] step that by blast
    show ?thesis
    proof (cases "\<exists>rv. r = ResReserved rv")
      case True
      then obtain rv where rv: "r = ResReserved rv" by blast
      have "pairing_inv (start_attempt relay owner frame ready rv (st \<lparr> pg_qr := qr \<rparr>))"
        by (rule inv_start [where qr_old = "pg_qr st"]) (use inv qr step rv None in auto)
      with \<open>is_relay_current st relay\<close> None r rv show ?thesis
        by (simp add: pairing_handle_def reject_code_def)
    next
      case False
      then have "pairing_inv (st \<lparr> pg_qr := qr \<rparr>)" using other by blast
      with \<open>is_relay_current st relay\<close> None r False show ?thesis
        by (auto simp: pairing_handle_def reject_code_def reject_def Let_def inv_replay split: reserve_result.splits option.splits)
    qed
  qed
qed (use inv in \<open>simp add: pairing_handle_def\<close>)

lemma inv_step:
  assumes inv: "pairing_inv st"
  shows "pairing_inv (pairing_step st e)"
proof (cases e)
  case (PvRetry n now ready)
  have "pairing_inv (st \<lparr> pg_waiters := take n (pg_waiters st) @ drop (Suc n) (pg_waiters st) \<rparr>)"
    using inv unfolding pairing_inv_defs by (auto dest: in_set_takeD in_set_dropD)
  with PvRetry inv show ?thesis by (simp add: inv_handle Let_def)
next
  case (PvTask ref ans)
  with inv show ?thesis by (auto simp: inv_task split: option.splits dest: task_of_SomeD)
next
  case (PvIssue t now ttl)
  have "qr_inv (fst (issue_token (pg_qr st) t now ttl))" by (simp add: issue_token_def qr_inv_def)
  have "pairing_inv (st \<lparr> pg_qr := fst (issue_token (pg_qr st) t now ttl) \<rparr>)"
    by (rule inv_qr [OF inv \<open>qr_inv _\<close>]) (simp add: held_issue)
  with PvIssue show ?thesis by simp
next
  case (PvConsume t now)
  with inv show ?thesis
    using inv_qr [OF inv, of "fst (consume_token (pg_qr st) t now)"] held_consume [of "pg_qr st" t now]
      consume_token_inv [of "pg_qr st" t now] by (simp add: pairing_inv_def)
next
  case PvClear
  have "qr_inv (qr_clear (pg_qr st))" by (simp add: qr_clear_def qr_inv_def)
  have "pairing_inv (st \<lparr> pg_qr := qr_clear (pg_qr st) \<rparr>)"
    by (rule inv_qr [OF inv \<open>qr_inv _\<close>]) (simp add: held_clear)
  with PvClear show ?thesis by simp
qed (use inv in \<open>auto simp: inv_handle inv_abandon inv_attach detach_owner_def\<close>)

interpretation pairing: invariant_machine pairing_step "\<lambda>_ _. True" pairing_inv
  by unfold_locales (rule inv_step)

lemma new_pairing_inv: "pairing_inv (new_pairing f)"
  by (simp add: pairing_inv_defs new_pairing_def qr_inv_init)
    (simp add: is_held_def held_def qr_init_def)

lemma reached_pairing: "pairing_inv (run pairing_step (new_pairing f) es)"
  by (rule pairing.run_keeps) (simp_all add: new_pairing_inv trace_ok_all)

section \<open>The life of an attempt\<close>

fun phase_rank :: "phase \<Rightarrow> nat" where
  "phase_rank PhAdd = 5"
| "phase_rank (PhAdded _) = 4"
| "phase_rank (PhAcl _) = 3"
| "phase_rank (PhRollback _ _) = 2"
| "phase_rank (PhRefresh _) = 1"

lemma task_of_set_phase:
  "task_of ref (set_phase a ph st) =
     map_option (\<lambda>(b, p). (b, if pa_ref b = pa_ref a then ph else p)) (task_of ref st)"
proof -
  have "find (\<lambda>t. pa_ref (fst t) = ref) (map (\<lambda>t. if pa_ref (fst t) = pa_ref a then (fst t, ph) else t) ts)
      = map_option (\<lambda>(b, p). (b, if pa_ref b = pa_ref a then ph else p)) (find (\<lambda>t. pa_ref (fst t) = ref) ts)" for ts
    by (induction ts) auto
  then show ?thesis by (simp add: task_of_def set_phase_def)
qed

lemma task_of_finish:
  "task_of ref (finish a c st) = (if ref = pa_ref a then None else task_of ref st)"
proof -
  have "find (\<lambda>t. pa_ref (fst t) = ref) (filter (\<lambda>t. pa_ref (fst t) \<noteq> pa_ref a) ts)
      = (if ref = pa_ref a then None else find (\<lambda>t. pa_ref (fst t) = ref) ts)" for ts :: "(attempt \<times> phase) list"
    by (induction ts) auto
  then show ?thesis by (simp add: task_of_def finish_def release_def Let_def)
qed

lemma task_of_send [simp]: "task_of ref (send m st) = task_of ref st"
  by (simp add: task_of_def send_def)

lemma task_of_tasks: "pg_tasks st = pg_tasks st' \<Longrightarrow> task_of ref st = task_of ref st'"
  by (simp add: task_of_def)

lemma finish_resolved: "set (pg_resolved (finish a c st)) = insert (pa_ref a) (set (pg_resolved st))"
  by (simp add: finish_def release_def Let_def)

lemma finish_next [simp]: "pg_next (finish a c st) = pg_next st" "pg_next (set_phase a ph st) = pg_next st"
  "pg_next (send m st) = pg_next st" "pg_resolved (send m st) = pg_resolved st"
  "pg_resolved (set_phase a ph st) = pg_resolved st"
  by (simp_all add: finish_def release_def set_phase_def send_def Let_def)

text \<open>A stretch of an attempt brings it to a later phase, or ends it; it leaves the others alone.\<close>

lemma task_step_progress:
  assumes "task_of ref st = Some (a, ph)"
  shows "(\<exists>ph'. phase_rank ph' < phase_rank ph \<and> task_of ref (task_step a ph ans st) = Some (a, ph'))
    \<or> (task_of ref (task_step a ph ans st) = None \<and> ref \<in> set (pg_resolved (task_step a ph ans st)))"
proof -
  have ref: "pa_ref a = ref" using task_of_SomeD [OF assms] by simp
  have store: "task_of r (st \<lparr> pg_store := x \<rparr>) = task_of r st" "task_of r (st \<lparr> pg_qr := q \<rparr>) = task_of r st"
    for r x q by (simp_all add: task_of_def)
  show ?thesis
    using assms ref
    by (cases ph)
      (auto simp: task_step_def task_store_def task_added_def task_acl_def task_rollback_def task_refresh_def
        caught_def case_prod_beta Let_def task_of_set_phase task_of_finish store finish_resolved
        split: sum.splits option.splits if_splits)
qed

lemma task_step_others:
  assumes "pa_ref a \<noteq> ref"
  shows "task_of ref (task_step a ph ans st) = task_of ref st"
    and "set (pg_resolved st) \<subseteq> set (pg_resolved (task_step a ph ans st))"
    and "pg_next (task_step a ph ans st) = pg_next st"
proof -
  have store: "task_of r (st \<lparr> pg_store := x \<rparr>) = task_of r st" "task_of r (st \<lparr> pg_qr := q \<rparr>) = task_of r st"
    for r x q by (simp_all add: task_of_def)
  have id: "map_option (\<lambda>(b, p). (b, if pa_ref b = pa_ref a then x else p)) (task_of ref st) = task_of ref st" for x
    using assms task_of_SomeD [of ref st] by (cases "task_of ref st") auto
  show "task_of ref (task_step a ph ans st) = task_of ref st"
    and "set (pg_resolved st) \<subseteq> set (pg_resolved (task_step a ph ans st))"
    and "pg_next (task_step a ph ans st) = pg_next st"
    using assms
    by (cases ph;
        auto simp: task_step_def task_store_def task_added_def task_acl_def task_rollback_def task_refresh_def
        caught_def case_prod_beta Let_def task_of_set_phase task_of_finish store finish_resolved id
        split: sum.splits option.splits)+
qed

lemma resolved_mono_task: "set (pg_resolved st) \<subseteq> set (pg_resolved (task_step a ph ans st))"
  and next_task: "pg_next (task_step a ph ans st) = pg_next st"
  using task_step_others(2,3) [of a "Suc (pa_ref a)"] by simp_all

text \<open>What a request or any other event but a task's own does to the tasks.\<close>

definition extends :: "pairing \<Rightarrow> pairing \<Rightarrow> bool" where
  "extends st st' \<longleftrightarrow> pg_next st \<le> pg_next st' \<and> set (pg_resolved st) \<subseteq> set (pg_resolved st')
     \<and> (\<exists>new. pg_tasks st' = pg_tasks st @ new \<and> (\<forall>t \<in> set new. pg_next st \<le> pa_ref (fst t)))"

lemma extends_same:
  "pg_next st \<le> pg_next st' \<Longrightarrow> set (pg_resolved st) \<subseteq> set (pg_resolved st') \<Longrightarrow> pg_tasks st' = pg_tasks st
    \<Longrightarrow> extends st st'"
  by (simp add: extends_def)

lemma attach_fields [simp]:
  "pg_tasks (fst (attach_owner owner ready st)) = pg_tasks st"
  "pg_resolved (fst (attach_owner owner ready st)) = pg_resolved st"
  "pg_next st \<le> pg_next (fst (attach_owner owner ready st))"
  by (simp_all add: attach_owner_def detach_owner_def Let_def)

lemma extends_handle: "extends st (pairing_handle relay owner frame now ready st)"
proof -
  have start: "extends st (start_attempt relay owner frame ready rv (st \<lparr> pg_qr := qr \<rparr>))" for rv qr
    using attach_fields(3) [of "st \<lparr> pg_qr := qr \<rparr>" owner ready]
    by (auto simp: start_attempt_def extends_def release_def case_prod_beta Let_def split: option.splits)
  have replay: "extends st (replay_completion owner ready c (st \<lparr> pg_qr := qr \<rparr>))" for c qr
    using attach_fields(3) [of "st \<lparr> pg_qr := qr \<rparr>" owner ready]
    by (auto simp: replay_completion_def send_def case_prod_beta intro!: extends_same split: option.splits)
  show ?thesis
    using start replay
    by (auto simp: pairing_handle_def case_prod_beta Let_def reject_def send_def extends_same
        split: option.splits reserve_result.splits)
qed

lemma extends_step:
  assumes "\<And>ref ans. e \<noteq> PvTask ref ans"
  shows "extends st (pairing_step st e)"
proof (cases e)
  case (PvRetry n now ready)
  have "extends st s" if "extends (st \<lparr> pg_waiters := w \<rparr>) s" for w s using that by (simp add: extends_def)
  from this [OF extends_handle] PvRetry show ?thesis by (auto simp: Let_def intro: extends_same)
next
  case PvAbandon
  have "pg_tasks (foldl abandon_one st as) = pg_tasks st \<and> pg_next (foldl abandon_one st as) = pg_next st
      \<and> set (pg_resolved st) \<subseteq> set (pg_resolved (foldl abandon_one st as))" for as and st :: pairing
    by (induction as arbitrary: st) (fastforce simp: abandon_one_def release_def)+
  then show ?thesis unfolding PvAbandon pairing_step.simps abandon_inactive_def
    by (intro extends_same) simp_all
qed (use assms extends_handle in \<open>auto simp: detach_owner_def intro: extends_same\<close>)

lemma extends_task_of:
  assumes "extends st st'"
  shows "task_of ref st = Some t \<Longrightarrow> task_of ref st' = Some t"
    and "task_of ref st = None \<Longrightarrow> ref < pg_next st \<Longrightarrow> task_of ref st' = None"
proof -
  from assms obtain new where new: "pg_tasks st' = pg_tasks st @ new" "\<forall>t \<in> set new. pg_next st \<le> pa_ref (fst t)"
    by (auto simp: extends_def)
  have app: "find P (xs @ ys) = (case find P xs of None \<Rightarrow> find P ys | Some x \<Rightarrow> Some x)" for P and xs ys :: "'a list"
    by (induction xs) auto
  show "task_of ref st = Some t \<Longrightarrow> task_of ref st' = Some t"
    by (simp add: task_of_def new(1) app)
  assume none: "task_of ref st = None" and "ref < pg_next st"
  with new(2) have "find (\<lambda>t. pa_ref (fst t) = ref) new = None" by (auto simp: find_None_iff)
  with none show "task_of ref st' = None" by (simp add: task_of_def new(1) app)
qed

lemma gone_stays:
  assumes "task_of ref st = None" and "ref < pg_next st" and "ref \<in> set (pg_resolved st)"
  shows "task_of ref (run pairing_step st es) = None \<and> ref \<in> set (pg_resolved (run pairing_step st es))"
  using assms
proof (induction es arbitrary: st)
  case (Cons e es)
  have "task_of ref (pairing_step st e) = None \<and> ref < pg_next (pairing_step st e)
      \<and> ref \<in> set (pg_resolved (pairing_step st e))"
  proof (cases "\<exists>r ans. e = PvTask r ans")
    case True
    then obtain r ans where e: "e = PvTask r ans" by blast
    show ?thesis
    proof (cases "task_of r st")
      case None
      with e Cons.prems show ?thesis by simp
    next
      case (Some t)
      obtain a ph where t: "t = (a, ph)" by (cases t)
      with Some Cons.prems(1) task_of_SomeD [of r st a ph] have "pa_ref a \<noteq> ref" by auto
      from task_step_others [OF this, where ph = ph and ans = ans and st = st] e Some t Cons.prems show ?thesis by auto
    qed
  next
    case False
    then have "extends st (pairing_step st e)" using extends_step by blast
    with extends_task_of(2) [OF this Cons.prems(1,2)] Cons.prems show ?thesis by (auto simp: extends_def)
  qed
  with Cons.IH show ?case by simp
qed simp

definition task_events :: "nat \<Rightarrow> pairing_event list \<Rightarrow> nat" where
  "task_events ref es = length (filter (\<lambda>e. case e of PvTask r _ \<Rightarrow> r = ref | _ \<Rightarrow> False) es)"

lemma attempt_progress:
  assumes "pairing_inv st" and "task_of ref st = Some (a, ph)" and "phase_rank ph \<le> task_events ref es"
  shows "task_of ref (run pairing_step st es) = None \<and> ref \<in> set (pg_resolved (run pairing_step st es))"
  using assms
proof (induction es arbitrary: st ph)
  case Nil
  have "0 < phase_rank ph" by (cases ph) auto
  with Nil.prems(3) show ?case by (simp add: task_events_def)
next
  case (Cons e es)
  have a: "a \<in> set (attempts_of st)" "pa_ref a = ref"
    using task_of_SomeD [OF Cons.prems(2)] by (force simp: attempts_of_def)+
  have lt: "ref < pg_next st" using pairing_invD(3) [OF Cons.prems(1) a(1)] a(2) by simp
  have inv: "pairing_inv (pairing_step st e)" by (rule inv_step [OF Cons.prems(1)])
  show ?case
  proof (cases "\<exists>ans. e = PvTask ref ans")
    case True
    then obtain ans where e: "e = PvTask ref ans" by blast
    then have step: "pairing_step st e = task_step a ph ans st" using Cons.prems(2) by simp
    have count: "task_events ref (e # es) = Suc (task_events ref es)" using e by (simp add: task_events_def)
    from task_step_progress [OF Cons.prems(2), of ans] show ?thesis
    proof (elim disjE exE conjE)
      fix ph' assume "phase_rank ph' < phase_rank ph" "task_of ref (task_step a ph ans st) = Some (a, ph')"
      with Cons.IH [OF inv, of ph'] Cons.prems(3) count step show ?thesis by simp
    next
      assume "task_of ref (task_step a ph ans st) = None" "ref \<in> set (pg_resolved (task_step a ph ans st))"
      with gone_stays [of ref "pairing_step st e" es] lt step next_task show ?thesis by simp
    qed
  next
    case False
    have "task_of ref (pairing_step st e) = Some (a, ph)"
    proof (cases "\<exists>r ans. e = PvTask r ans")
      case True
      then obtain r ans where e: "e = PvTask r ans" by blast
      with False have "r \<noteq> ref" by blast
      show ?thesis
      proof (cases "task_of r st")
        case (Some t)
        obtain b p where t: "t = (b, p)" by (cases t)
        with Some task_of_SomeD [of r st b p] \<open>r \<noteq> ref\<close> have "pa_ref b \<noteq> ref" by auto
        from task_step_others(1) [OF this, where ph = p and ans = ans and st = st] e Some t Cons.prems(2) show ?thesis by simp
      qed (use e Cons.prems(2) in simp)
    next
      case False
      then have "extends st (pairing_step st e)" using extends_step by blast
      from extends_task_of(1) [OF this Cons.prems(2)] show ?thesis .
    qed
    moreover have "task_events ref (e # es) = task_events ref es"
      using False by (auto simp: task_events_def split: pairing_event.splits)
    ultimately show ?thesis using Cons.IH [OF inv] Cons.prems(3) by simp
  qed
qed

section \<open>The stored records\<close>

text \<open>
  What an attempt knows of its write: the record is its Owner's, and as long as the token of
  the slot is that of the receipt, the record is in the file. It holds when the file system
  serves the writes (\<open>calm_event\<close>).
\<close>

definition receipt_ok :: "owner_storage \<Rightarrow> attempt \<Rightarrow> write_receipt \<Rightarrow> bool" where
  "receipt_ok store a rc \<longleftrightarrow>
     pr_epk (wr_record rc) = pa_owner a \<and> pr_name (wr_record rc) = pq_device (pa_frame a)
     \<and> wr_token rc < os_next store
     \<and> (\<forall>p. wr_previous rc = Some p \<longrightarrow> has_epk (pa_owner a) p \<and> parsed_json p)
     \<and> (jm_get (os_tokens store) (slot_of (pa_owner a)) = Some (wr_token rc)
          \<longrightarrow> peer_json (wr_record rc) \<in> set (list_peers (os_file store)))"

definition matches :: "attempt \<Rightarrow> bool" where
  "matches a \<longleftrightarrow> rv_owner (pa_reservation a) = pa_owner a \<and> rv_request (pa_reservation a) = pq_id (pa_frame a)
     \<and> rv_token (pa_reservation a) = pq_token (pa_frame a)"

fun phase_ok :: "owner_storage \<Rightarrow> attempt \<Rightarrow> phase \<Rightarrow> bool" where
  "phase_ok store a (PhAdded (Inr rc)) = receipt_ok store a rc"
| "phase_ok store a (PhAcl rc) = receipt_ok store a rc"
| "phase_ok store a (PhRollback rc c) = receipt_ok store a rc"
| "phase_ok store a _ = True"

definition store_ok :: "owner_storage \<Rightarrow> bool" where
  "store_ok store \<longleftrightarrow> tokens_bounded store \<and> list_all parsed_json (list_peers (os_file store))"

definition stored_inv :: "pairing \<Rightarrow> bool" where
  "stored_inv st \<longleftrightarrow> pairing_inv st \<and> store_ok (pg_store st)
     \<and> (\<forall>(a, ph) \<in> set (pg_tasks st). matches a \<and> phase_ok (pg_store st) a ph)"

fun calm_event :: "pairing_event \<Rightarrow> bool" where
  "calm_event (PvStorage i) = calm i"
| "calm_event (PvTask ref ans) = (fe_write (ta_env ans) = WriteOk)"
| "calm_event _ = True"

lemma receipt_step:
  assumes "store_ok store" and "calm i" and "receipt_ok store a rc"
  shows "receipt_ok (storage_step store i) a rc"
proof -
  let ?slot = "slot_of (pa_owner a)"
  have b: "tokens_bounded store" and parsed: "list_all parsed_json (list_peers (os_file store))"
    using assms(1) by (simp_all add: store_ok_def)
  have lt: "wr_token rc < os_next store" using assms(3) by (simp add: receipt_ok_def)
  have "peer_json (wr_record rc) \<in> set (list_peers (os_file (storage_step store i)))"
    if now: "jm_get (os_tokens (storage_step store i)) ?slot = Some (wr_token rc)"
  proof -
    have quiet: "\<not> writes_slot store i ?slot"
    proof
      assume "writes_slot store i ?slot"
      from step_slot(1) [OF b this] now lt show False by auto
    qed
    have before: "jm_get (os_tokens store) ?slot = Some (wr_token rc)"
    proof (cases "jm_get (os_tokens store) ?slot")
      case None
      with new_token_fresh [OF b, of ?slot i] now lt show ?thesis by auto
    next
      case (Some t)
      from step_slot(2) [OF b quiet this] now Some show ?thesis by simp
    qed
    have epk: "pr_epk (wr_record rc) = pa_owner a" using assms(3) by (simp add: receipt_ok_def)
    with before assms(3) have "peer_json (wr_record rc) \<in> set (own (pa_owner a) (list_peers (os_file store)))"
      by (simp add: receipt_ok_def own_def)
    then have "peer_json (wr_record rc) \<in> set (own (pa_owner a) (list_peers (os_file (storage_step store i))))"
      using calm_step(3) [OF b assms(2) parsed quiet] by simp
    then show ?thesis by (simp add: own_def)
  qed
  then show ?thesis
    using assms(3) step_next [OF b, of i] by (auto simp: receipt_ok_def)
qed

lemma store_step: "store_ok store \<Longrightarrow> calm i \<Longrightarrow> store_ok (storage_step store i)"
  using calm_step(1) step_bounded by (simp add: store_ok_def)

lemma phase_step: "store_ok store \<Longrightarrow> calm i \<Longrightarrow> phase_ok store a ph \<Longrightarrow> phase_ok (storage_step store i) a ph"
  using receipt_step by (cases "(store, a, ph)" rule: phase_ok.cases) auto

lemma add_receipt_ok:
  assumes ok: "store_ok store" and add: "add_peer r env store = (store', Inr rc)"
    and r: "pr_epk r = pa_owner a" "pr_name r = pq_device (pa_frame a)"
  shows "receipt_ok store' a rc"
proof -
  have b: "tokens_bounded store" and parsed: "list_all parsed_json (list_peers (os_file store))"
    using ok by (simp_all add: store_ok_def)
  note rec = add_peer_receipt [OF b add]
  have "peer_json r \<in> set (added r (list_peers (os_file store)))"
    by (auto simp: added_def find_index_Some set_update_memI split: option.splits)
  moreover have "has_epk (pa_owner a) p \<and> parsed_json p" if "wr_previous rc = Some p" for p
  proof -
    from that rec(3) obtain i where i: "find_index (has_epk (pr_epk r)) (list_peers (os_file store)) = Some i"
      "p = list_peers (os_file store) ! i" by auto
    then have "has_epk (pr_epk r) p" "p \<in> set (list_peers (os_file store))" by (auto simp: find_index_Some)
    with parsed r show ?thesis by (auto simp: list_all_iff)
  qed
  ultimately show ?thesis
    using rec r by (auto simp: receipt_ok_def tokens_bounded_def)
qed

text \<open>Stretches of an attempt that leave the store alone, and the ones that are an operation on it.\<close>

lemma stored_set_phase:
  assumes "stored_inv st" and "a \<in> set (attempts_of st)" and "phase_ok (pg_store st) a ph"
  shows "stored_inv (set_phase a ph st)"
proof -
  have "b = a" if "(b, p) \<in> set (pg_tasks st)" "pa_ref b = pa_ref a" for b p
    using same_attempt [of st b a] assms(1,2) that by (force simp: stored_inv_def attempts_of_def)
  then show ?thesis
    using assms inv_set_phase [of st a ph]
    by (fastforce simp: stored_inv_def set_phase_def split: if_splits)
qed

lemma stored_finish:
  assumes "stored_inv st" and "pairing_inv (finish a c st)"
  shows "stored_inv (finish a c st)"
  using assms by (auto simp: stored_inv_def finish_def release_def Let_def)

lemma stored_unread:
  assumes "stored_inv st" and "pairing_inv st'" and "pg_tasks st' = pg_tasks st" and "pg_store st' = pg_store st"
  shows "stored_inv st'"
  using assms by (simp add: stored_inv_def)

lemma stored_store_step:
  assumes "stored_inv st" and "calm i"
  shows "stored_inv (st \<lparr> pg_store := storage_step (pg_store st) i \<rparr>)"
  using assms store_step phase_step by (fastforce simp: stored_inv_def)

lemma stored_caught:
  assumes "stored_inv st" and "a \<in> set (attempts_of st)"
  shows "stored_inv (caught a st)"
proof -
  have "stored_inv (send m st)" for m
    using assms(1) by (rule stored_unread) (use assms(1) in \<open>simp_all add: stored_inv_def send_def\<close>)
  moreover have "pairing_inv st" using assms(1) by (simp add: stored_inv_def)
  ultimately show ?thesis
    using assms by (auto simp: caught_def intro!: stored_finish inv_finish_None)
qed

lemma stored_task:
  assumes inv: "stored_inv st" and t: "(a, ph) \<in> set (pg_tasks st)" and calm: "fe_write (ta_env ans) = WriteOk"
  shows "stored_inv (task_step a ph ans st)"
proof -
  have a: "a \<in> set (attempts_of st)" using t by (force simp: attempts_of_def)
  have ok: "phase_ok (pg_store st) a ph" "matches a" using inv t by (auto simp: stored_inv_def)
  have p: "pairing_inv st" using inv by (simp add: stored_inv_def)
  have p': "pairing_inv (task_step a ph ans st)" by (rule inv_task [OF p t])
  show ?thesis
  proof (cases ph)
    case PhAdd
    let ?r = "\<lparr> pr_name = pq_device (pa_frame a), pr_epk = pa_owner a, pr_paired_at = ta_date ans \<rparr>"
    let ?i = "SAdd ?r (ta_env ans)"
    let ?st = "st \<lparr> pg_store := storage_step (pg_store st) ?i \<rparr>"
    obtain store res where add: "add_peer ?r (ta_env ans) (pg_store st) = (store, res)"
      by (cases "add_peer ?r (ta_env ans) (pg_store st)")
    have store: "storage_step (pg_store st) ?i = store" by (simp add: storage_step_def add)
    have "stored_inv ?st" by (rule stored_store_step [OF inv]) (simp add: calm_def calm)
    moreover have "phase_ok (pg_store ?st) a (PhAdded res)"
      using add_receipt_ok [of "pg_store st" ?r "ta_env ans" store] add inv store
      by (cases res) (auto simp: stored_inv_def)
    moreover have "a \<in> set (attempts_of ?st)" using a by (simp add: attempts_of_def)
    ultimately have "stored_inv (set_phase a (PhAdded res) ?st)" by (intro stored_set_phase)
    then show ?thesis by (simp add: PhAdd task_step_def task_store_def add store)
  next
    case (PhAdded res)
    with inv a ok show ?thesis
      by (cases res) (auto simp: task_step_def task_added_def stored_caught intro!: stored_set_phase)
  next
    case (PhAcl rc)
    have commit: "stored_inv (st \<lparr> pg_qr := qr \<rparr>)"
      if "commit_token (pg_qr st) (pa_reservation a) x now = (qr, False)" for qr x now
      using held_commit(2) [OF that] inv by simp
    have sent: "stored_inv (finish a (Some x) (send m (st \<lparr> pg_qr := qr \<rparr>)))"
      if "pairing_inv (finish a (Some x) (send m (st \<lparr> pg_qr := qr \<rparr>)))" for x m qr
      using inv that by (auto simp: stored_inv_def finish_def send_def Let_def)
    have same: "attempts_of (st \<lparr> pg_qr := q \<rparr>) = attempts_of st" for q by (simp add: attempts_of_def)
    from p' inv a ok commit sent show ?thesis
      by (auto simp: PhAcl task_step_def task_acl_def Let_def same intro!: stored_set_phase
          split: sum.splits option.splits prod.splits if_splits)
  next
    case (PhRollback rc c)
    let ?env = "ta_env ans \<lparr> fe_can_commit := None \<rparr>"
    let ?i = "SRollback rc ?env"
    let ?st = "st \<lparr> pg_store := storage_step (pg_store st) ?i \<rparr>"
    have "calm ?i" using ok calm by (auto simp: PhRollback receipt_ok_def calm_def split: option.splits)
    with inv have "stored_inv ?st" by (rule stored_store_step)
    moreover have "a \<in> set (attempts_of ?st)" using a by (simp add: attempts_of_def)
    ultimately have "stored_inv (set_phase a (PhRefresh c) ?st)" by (intro stored_set_phase) simp_all
    then show ?thesis by (simp add: PhRollback task_step_def task_rollback_def storage_step_def case_prod_beta)
  next
    case (PhRefresh c)
    with inv a p show ?thesis
      by (auto simp: task_step_def task_refresh_def stored_caught intro!: stored_finish inv_finish_None)
  qed
qed

lemma attach_store [simp]: "pg_store (fst (attach_owner owner ready st)) = pg_store st"
  by (simp add: attach_owner_def detach_owner_def Let_def)

lemma handle_tasks:
  assumes "qr_inv (pg_qr st)"
  shows "pg_store (pairing_handle relay owner frame now ready st) = pg_store st"
    and "pg_tasks (pairing_handle relay owner frame now ready st) = pg_tasks st
      \<or> (\<exists>a. matches a \<and> pg_tasks (pairing_handle relay owner frame now ready st) = pg_tasks st @ [(a, PhAdd)])"
proof -
  have start: "pg_store (start_attempt relay owner frame ready rv s) = pg_store s
      \<and> (pg_tasks (start_attempt relay owner frame ready rv s) = pg_tasks s
         \<or> (\<exists>a. pa_reservation a = rv \<and> pa_owner a = owner \<and> pa_frame a = frame
              \<and> pg_tasks (start_attempt relay owner frame ready rv s) = pg_tasks s @ [(a, PhAdd)]))" for rv s
    by (auto simp: start_attempt_def release_def case_prod_beta Let_def split: option.splits)
  have replay: "pg_store (replay_completion owner ready c s) = pg_store s
      \<and> pg_tasks (replay_completion owner ready c s) = pg_tasks s" for c s
    by (auto simp: replay_completion_def send_def case_prod_beta split: option.splits)
  have m: "matches a" if "reserve_token (pg_qr st) (pq_token frame) owner (pq_id frame) now = (qr, ResReserved rv)"
    "pa_reservation a = rv" "pa_owner a = owner" "pa_frame a = frame" for a qr rv
    using reserve_owner [OF that(1) assms] that(2-4) by (simp add: matches_def)
  show "pg_store (pairing_handle relay owner frame now ready st) = pg_store st"
    using start replay
    by (auto simp: pairing_handle_def case_prod_beta Let_def reject_def send_def
        split: option.splits reserve_result.splits)
  show "pg_tasks (pairing_handle relay owner frame now ready st) = pg_tasks st
      \<or> (\<exists>a. matches a \<and> pg_tasks (pairing_handle relay owner frame now ready st) = pg_tasks st @ [(a, PhAdd)])"
  proof (cases "reserve_token (pg_qr st) (pq_token frame) owner (pq_id frame) now")
    case (Pair qr r)
    show ?thesis
    proof (cases "\<exists>rv. r = ResReserved rv")
      case True
      then obtain rv where rv: "r = ResReserved rv" by blast
      let ?s = "start_attempt relay owner frame ready rv (st \<lparr> pg_qr := qr \<rparr>)"
      have "pg_tasks ?s = pg_tasks st \<or> (\<exists>a. matches a \<and> pg_tasks ?s = pg_tasks st @ [(a, PhAdd)])"
        using start [of rv "st \<lparr> pg_qr := qr \<rparr>"] m [OF Pair [unfolded rv]] by auto
      moreover have "pg_tasks (pairing_handle relay owner frame now ready st) \<in> {pg_tasks st, pg_tasks ?s}"
        by (simp add: pairing_handle_def Pair rv reject_code_def split: option.splits)
      ultimately show ?thesis by auto
    next
      case False
      with replay Pair show ?thesis
        by (auto simp: pairing_handle_def reject_code_def reject_def send_def Let_def
            split: option.splits reserve_result.splits)
    qed
  qed
qed

lemma stored_handle:
  assumes "stored_inv st"
  shows "stored_inv (pairing_handle relay owner frame now ready st)"
proof -
  have p: "pairing_inv st" "qr_inv (pg_qr st)" using assms by (simp_all add: stored_inv_def pairing_inv_def)
  let ?s = "pairing_handle relay owner frame now ready st"
  have store: "pg_store ?s = pg_store st" by (rule handle_tasks(1) [OF p(2)])
  have inv: "pairing_inv ?s" by (rule inv_handle [OF p(1)])
  from handle_tasks(2) [OF p(2), of relay owner frame now ready] show ?thesis
  proof (elim disjE exE conjE)
    assume "pg_tasks ?s = pg_tasks st"
    with assms inv store show ?thesis by (intro stored_unread [OF assms])
  next
    fix a assume "matches a" "pg_tasks ?s = pg_tasks st @ [(a, PhAdd)]"
    with assms inv store show ?thesis by (simp add: stored_inv_def)
  qed
qed

lemma stored_step:
  assumes "stored_inv st" and "calm_event e"
  shows "stored_inv (pairing_step st e)"
proof -
  have p: "pairing_inv (pairing_step st e)" using assms(1) inv_step by (simp add: stored_inv_def)
  show ?thesis
  proof (cases e)
    case (PvRequest relay owner frame now ready)
    with assms stored_handle show ?thesis by simp
  next
    case (PvRetry n now ready)
    have "stored_inv (st \<lparr> pg_waiters := take n (pg_waiters st) @ drop (Suc n) (pg_waiters st) \<rparr>)"
    proof (rule stored_unread [OF assms(1)])
      show "pairing_inv (st \<lparr> pg_waiters := take n (pg_waiters st) @ drop (Suc n) (pg_waiters st) \<rparr>)"
        using assms(1) unfolding stored_inv_def pairing_inv_defs by (auto dest: in_set_takeD in_set_dropD)
    qed simp_all
    with PvRetry assms(1) stored_handle show ?thesis by (simp add: Let_def)
  next
    case (PvTask ref ans)
    with assms stored_task show ?thesis by (auto split: option.splits dest!: task_of_SomeD)
  next
    case (PvStorage i)
    with assms stored_store_step show ?thesis by simp
  next
    case PvAbandon
    have "pg_tasks (foldl abandon_one st as) = pg_tasks st \<and> pg_store (foldl abandon_one st as) = pg_store st"
      for as and st :: pairing
      by (induction as arbitrary: st) (simp_all add: abandon_one_def release_def)
    with PvAbandon p assms(1) show ?thesis by (intro stored_unread [OF assms(1)]) (simp_all add: abandon_inactive_def)
  qed (use p in \<open>auto intro!: stored_unread [OF assms(1)] simp: detach_owner_def\<close>)
qed

interpretation stored: invariant_machine pairing_step "\<lambda>_. calm_event" stored_inv
  by unfold_locales (rule stored_step)

lemma calm_trace: "list_all calm_event es \<Longrightarrow> trace_ok pairing_step (\<lambda>_. calm_event) st es"
  by (induction es arbitrary: st) auto

lemma reached_stored:
  assumes "list_all parsed_json (list_peers f)" and "list_all calm_event es"
  shows "stored_inv (run pairing_step (new_pairing f) es)"
proof (rule stored.run_keeps)
  show "stored_inv (new_pairing f)"
    using assms(1) new_pairing_inv
    by (simp add: stored_inv_def store_ok_def new_pairing_def fresh_storage_def tokens_bounded_def)
qed (rule calm_trace [OF assms(2)])

section \<open>What is sent\<close>

definition is_pair_error :: "json \<Rightarrow> bool" where
  "is_pair_error frame = (str_field ''type'' frame = Some ''pair_error'')"

lemma pair_error_is [simp]: "is_pair_error (pair_error frame code message)"
  by (simp add: is_pair_error_def pair_error_def str_field_def field_def)

lemma reserve_committed:
  assumes "reserve_token qs token owner request now = (qs', ResCommitted (Some c))"
  shows "qs' = qs \<and> committed qs token owner request c"
proof (cases "qs_active qs")
  case (Some act)
  with assms show ?thesis
    by (cases "at_reservation act") (auto simp: reserve_token_def committed_def Let_def split: if_splits)
qed (use assms in \<open>simp add: reserve_token_def\<close>)

lemma replay_sent:
  assumes "pg_sent (replay_completion owner ready c st) = pg_sent st @ [SentOn b frame]"
  shows "frame = c \<and> active_binding (replay_completion owner ready c st) owner = Some b
    \<and> pg_qr (replay_completion owner ready c st) = pg_qr st"
  using assms
  by (auto simp: replay_completion_def attach_owner_def detach_owner_def send_def active_binding_def Let_def
      split: option.splits if_splits)

lemma start_sent: "pg_sent (start_attempt relay owner frame ready rv st) = pg_sent st"
  by (auto simp: start_attempt_def release_def attach_owner_def detach_owner_def case_prod_beta Let_def)

lemma handle_sent:
  assumes sent: "pg_sent (pairing_handle relay owner frame now ready st) = pg_sent st @ [SentOn b reply]"
  shows "committed (pg_qr st) (pq_token frame) owner (pq_id frame) reply
    \<and> pg_qr (pairing_handle relay owner frame now ready st) = pg_qr st
    \<and> active_binding (pairing_handle relay owner frame now ready st) owner = Some b"
proof -
  obtain qr r where r: "reserve_token (pg_qr st) (pq_token frame) owner (pq_id frame) now = (qr, r)"
    by (cases "reserve_token (pg_qr st) (pq_token frame) owner (pq_id frame) now")
  let ?s = "\<lambda>c. replay_completion owner ready c (st \<lparr> pg_qr := qr \<rparr>)"
  from sent obtain c where c: "r = ResCommitted (Some c)"
    "pairing_handle relay owner frame now ready st = ?s c"
    by (auto simp: pairing_handle_def r reject_code_def reject_def send_def start_sent Let_def
        split: if_splits option.splits reserve_result.splits)
  from reserve_committed [OF r [unfolded c(1)]] have qr: "qr = pg_qr st"
    and com: "committed (pg_qr st) (pq_token frame) owner (pq_id frame) c" by auto
  from replay_sent [of owner ready c "st \<lparr> pg_qr := qr \<rparr>" b reply] sent c(2) qr com show ?thesis by auto
qed

lemma abandon_sent: "pg_sent (foldl abandon_one st as) = pg_sent st"
  by (induction as arbitrary: st) (simp_all add: abandon_one_def release_def)

lemma finish_fields [simp]:
  "pg_sent (finish a c st) = pg_sent st" "pg_bindings (finish a c st) = pg_bindings st"
  "pg_store (finish a c st) = pg_store st" "pg_qr (finish a (Some x) st) = pg_qr st"
  "pg_sent (set_phase a ph st) = pg_sent st"
  by (simp_all add: finish_def release_def set_phase_def Let_def)

lemma task_sent:
  assumes sent: "pg_sent (task_step a ph ans st) = pg_sent st @ [SentOn b frame]" and ok: "\<not> is_pair_error frame"
  obtains rc qr where "ph = PhAcl rc" "aa_sent (ta_acl ans) = Inr True" "b = pa_binding a"
    "can_commit st a (aa_check (ta_acl ans))"
    "commit_token (pg_qr st) (pa_reservation a) frame (aa_commit (ta_acl ans)) = (qr, True)"
    "pg_qr (task_step a ph ans st) = qr" "pg_bindings (task_step a ph ans st) = pg_bindings st"
    "pg_store (task_step a ph ans st) = pg_store st"
proof -
  have "\<not> (m = pair_error fr co me \<and> frame = m)" for m fr co me using ok by auto
  with assms that show thesis
    by (cases ph)
      (auto simp: task_step_def task_store_def task_added_def task_acl_def task_rollback_def task_refresh_def
        caught_def send_def Let_def split: sum.splits option.splits prod.splits if_splits)
qed

section \<open>A demonstration\<close>

definition demo_frame :: pair_request where
  "demo_frame = \<lparr> pq_id = ''r1'', pq_token = ''tok'', pq_device = ''phone'' \<rparr>"

definition demo_answer :: "string \<Rightarrow> bool \<Rightarrow> task_answer" where
  "demo_answer date acl = \<lparr> ta_date = date, ta_env = ok_env, ta_now = 30,
     ta_acl = \<lparr> aa_sent = Inr acl, aa_check = 40, aa_pair_ok = Some (JObj [(''type'', JStr ''pair_ok'')]),
                aa_commit = 50 \<rparr> \<rparr>"

text \<open>One request that reaches the await of the ACL; its attempt is number 1.\<close>

definition demo_started :: "pairing_event list" where
  "demo_started = [PvRelay (Some 1), PvIssue ''tok'' 0 60000, PvRequest 1 ''k1'' demo_frame 10 True]"

definition demo_pending :: "pairing_event list" where
  "demo_pending = demo_started @ [PvTask 1 (demo_answer ''d1'' True), PvTask 1 (demo_answer ''d1'' True)]"

definition demo_reserve_rv :: reservation where
  "demo_reserve_rv = \<lparr> rv_ref = 0, rv_token = ''tok'', rv_owner = ''k1'', rv_request = ''r1'' \<rparr>"

text \<open>
  The Relay reconnects while the first attempt waits for its \<open>addPeer\<close>: the attempt is given up,
  the retry of the request starts another (number 3), and both writes run before the first
  attempt's rollback. That rollback is stale; the second attempt's ACL is refused and its rollback
  restores the record it overwrote.
\<close>

definition demo_race :: "pairing_event list" where
  "demo_race = demo_started
     @ [PvRelay (Some 2), PvAbandon, PvRequest 2 ''k1'' demo_frame 20 True]
     @ [PvTask 1 (demo_answer ''d1'' False), PvTask 3 (demo_answer ''d2'' False)]
     @ replicate 3 (PvTask 1 (demo_answer ''d1'' False))
     @ replicate 4 (PvTask 3 (demo_answer ''d2'' False))"

lemma abandoned_write_survives:
  "pg_tasks (run pairing_step (new_pairing NoFile) demo_race) = []
   \<and> pg_sent (run pairing_step (new_pairing NoFile) demo_race) = []
   \<and> list_peers (os_file (pg_store (run pairing_step (new_pairing NoFile) demo_race)))
       = [peer_json \<lparr> pr_name = ''phone'', pr_epk = ''k1'', pr_paired_at = ''d1'' \<rparr>]"
  by code_simp

section \<open>Properties\<close>


text \<open>
  C10: a pairing attempt ends. Once its awaits have resolved five times (storage, resumption, ACL,
  rollback, refresh), whatever they answered and whatever happened in between, the attempt has
  finished, it is in no map any more and the requests that wait for it can go on.
\<close>

theorem attempt_ends:
  assumes "st = run pairing_step (new_pairing f) before" and "task_of ref st = Some (a, ph)"
    and "5 \<le> task_events ref es" and "st' = run pairing_step st es"
  shows "task_of ref st' = None \<and> List.member (pg_resolved st') ref
    \<and> \<not> list_ex (\<lambda>b. pa_ref b = ref) (jm_values (pg_attempts st'))"
proof -
  have inv: "pairing_inv st" unfolding assms(1) by (rule reached_pairing)
  have "phase_rank ph \<le> 5" by (cases ph) simp_all
  with attempt_progress [OF inv assms(2), of es] assms(3,4)
  have gone: "task_of ref st' = None" "ref \<in> set (pg_resolved st')" by auto
  have inv': "pairing_inv st'" unfolding assms(4)
    by (rule pairing.run_keeps [OF inv]) (simp add: trace_ok_all)
  have "pa_ref b \<noteq> ref" if "b \<in> set (jm_values (pg_attempts st'))" for b
  proof -
    from that obtain k where "(k, b) \<in> set (pg_attempts st')" by (auto simp: jm_values_def)
    then have "jm_get (pg_attempts st') k = Some b"
      using pairing_invD(4) [OF inv'] by (simp add: jm_get_Some_iff)
    then have "b \<in> set (attempts_of st')" using pairing_invD(5) [OF inv'] by blast
    with gone(1) show ?thesis by (auto simp: task_of_def find_None_iff attempts_of_def)
  qed
  with gone show ?thesis by (auto simp: list_ex_iff)
qed

text \<open>
  C11: no pairing gets stuck. A token whose reservation is held is held by an attempt that is
  still running; when no attempt runs, the map of attempts is empty, no reservation is held (so
  the next request can reserve the token), and every waiting request can go on.
\<close>

theorem pairing_never_stuck:
  assumes "st = run pairing_step (new_pairing f) es"
  shows "(held (pg_qr st) rv \<noteq> None \<longrightarrow>
        list_ex (\<lambda>t. pa_reservation (fst t) = rv \<and> jm_get (pg_attempts st) (pa_key (fst t)) = Some (fst t))
          (pg_tasks st))
    \<and> (pg_tasks st = [] \<longrightarrow> pg_attempts st = [] \<and> held (pg_qr st) rv = None
        \<and> list_all (\<lambda>w. List.member (pg_resolved st) (wt_attempt w)) (pg_waiters st))"
proof -
  have inv: "pairing_inv st" unfolding assms by (rule reached_pairing)
  have held: "\<exists>t \<in> set (pg_tasks st). pa_reservation (fst t) = rv
      \<and> jm_get (pg_attempts st) (pa_key (fst t)) = Some (fst t)" if h: "held (pg_qr st) rv \<noteq> None" for rv
  proof -
    from inv h have "\<exists>k a. jm_get (pg_attempts st) k = Some a \<and> pa_reservation a = rv"
      unfolding pairing_inv_def reserved_ok_def is_held_def by blast
    then obtain k a where a: "jm_get (pg_attempts st) k = Some a" "pa_reservation a = rv" by blast
    with pairing_invD(5) [OF inv a(1)] show ?thesis by (force simp: attempts_of_def)
  qed
  have empty: "pg_attempts st = []" if "pg_tasks st = []"
  proof (rule ccontr)
    assume "pg_attempts st \<noteq> []"
    then obtain k a where "(k, a) \<in> set (pg_attempts st)" by (cases "pg_attempts st") auto
    then have "jm_get (pg_attempts st) k = Some a"
      using pairing_invD(4) [OF inv] by (simp add: jm_get_Some_iff)
    with pairing_invD(5) [OF inv this] that show False by (simp add: attempts_of_def)
  qed
  have "\<forall>w \<in> set (pg_waiters st). wt_attempt w \<in> set (pg_resolved st)" if "pg_tasks st = []"
    using inv empty [OF that] unfolding pairing_inv_def waiters_ok_def by auto
  moreover have "held (pg_qr st) rv = None" if "pg_tasks st = []"
    by (rule ccontr) (use held [of rv] that in simp)
  ultimately show ?thesis using held [of rv] empty by (auto simp: list_ex_iff list_all_iff)
qed


theorem attempt_ends_witness:
  "task_of 1 (run pairing_step (run pairing_step (new_pairing NoFile) demo_started)
     (replicate 5 (PvTask 1 (demo_answer ''d1'' False)))) = None"
proof -
  have "\<exists>a ph. task_of 1 (run pairing_step (new_pairing NoFile) demo_started) = Some (a, ph)"
  proof (cases "task_of 1 (run pairing_step (new_pairing NoFile) demo_started)")
    case None
    moreover have "task_of 1 (run pairing_step (new_pairing NoFile) demo_started) \<noteq> None" by code_simp
    ultimately show ?thesis by simp
  qed auto
  then obtain a ph where "task_of 1 (run pairing_step (new_pairing NoFile) demo_started) = Some (a, ph)" by blast
  from attempt_ends [OF refl this, of "replicate 5 (PvTask 1 (demo_answer ''d1'' False))"]
  show ?thesis by (simp add: task_events_def)
qed

theorem pairing_never_stuck_witness:
  "held (pg_qr (run pairing_step (new_pairing NoFile) demo_race)) demo_reserve_rv = None
   \<and> held (pg_qr (run pairing_step (new_pairing NoFile) demo_started)) demo_reserve_rv \<noteq> None"
proof -
  have "pg_tasks (run pairing_step (new_pairing NoFile) demo_race) = []"
    using abandoned_write_survives by blast
  with pairing_never_stuck [OF refl, of NoFile demo_race demo_reserve_rv]
  have "held (pg_qr (run pairing_step (new_pairing NoFile) demo_race)) demo_reserve_rv = None" by blast
  moreover have "held (pg_qr (run pairing_step (new_pairing NoFile) demo_started)) demo_reserve_rv \<noteq> None" by code_simp
  ultimately show ?thesis by blast
qed

end
