(* ===== verification/KeyStore.thy ===== *)
theory KeyStore
  imports OwnerStorage
begin

text \<open>
  The long-term identity of the host: \<open>getOrCreateEd25519Keypair\<close> of
  \<open>pi-extension/src/pairing/storage.ts\<close> with the keyring, the identity file and the fallbacks
  between them.

  The keyring is third-party code. Its entries are part of the state; each operation works,
  fails, or takes effect and still reports a failure (the timeout of \<open>_withTimeout\<close>), as the
  environment says, in the order in which the operations are called. The binding of the keyring
  is loaded once; a failure to load it is remembered. What \<open>Buffer.from(value, "base64")\<close> makes
  of a value, the generated keys, the platform and the outcomes of the file system are the
  environment of a call. A stored text is what \<open>JSON.parse\<close> makes of it.
\<close>

section \<open>State\<close>

record keypair =
  kp_public :: "byte list"
  kp_secret :: "byte list"

datatype stored = EmptyText | BadText | JsonText json

datatype binding = NotLoaded | Loaded | LoadFailed string

record keystore =
  ks_new :: "stored option"
  ks_old :: "stored option"
  ks_file :: "stored option"
  ks_binding :: binding

datatype op_outcome = OpWorks | OpFails string | OpFailsAfter string

record key_env =
  ke_ops :: "nat \<Rightarrow> op_outcome"
  ke_import :: "string option"
  ke_buffer :: "json option \<Rightarrow> (string, byte list) result"
  ke_fresh :: "nat \<Rightarrow> keypair"
  ke_file_reads :: "nat \<Rightarrow> bool"
  ke_file_write :: "(string \<times> stored option) option"
  ke_attempts :: nat
  ke_expected_override :: "bool option"
  ke_core_keyring :: bool
  ke_allow_file :: "string option"
  ke_peers :: peers_file

datatype identity_error =
    KeyringUnavailable string
  | PairedIdentityMissing nat string
  | IdentityWriteFailed string

section \<open>Texts of a key pair\<close>

definition serialize :: "keypair \<Rightarrow> stored" where
  "serialize kp = JsonText (JObj [(''pk'', JStr (b64_encode (kp_public kp))), (''sk'', JStr (b64_encode (kp_secret kp)))])"

definition deserialize :: "key_env \<Rightarrow> stored \<Rightarrow> (string, keypair) result" where
  "deserialize env s =
     (case s of
        JsonText JNull \<Rightarrow> Inl ''Cannot read properties of null (reading 'pk')''
      | JsonText j \<Rightarrow>
          (case ke_buffer env (field ''pk'' j) of Inl e \<Rightarrow> Inl e
           | Inr pk \<Rightarrow> (case ke_buffer env (field ''sk'' j) of Inl e \<Rightarrow> Inl e
               | Inr sk \<Rightarrow> Inr \<lparr> kp_public = pk, kp_secret = sk \<rparr>))
      | _ \<Rightarrow> Inl ''SyntaxError'')"

definition entry_text_of :: "stored option \<Rightarrow> stored option" where
  "entry_text_of s = (case s of Some EmptyText \<Rightarrow> None | _ \<Rightarrow> s)"

section \<open>The keyring backend\<close>

text \<open>
  \<open>n\<close> counts the operations that reached the keyring. The result of an operation is the state,
  the count and what it returns or throws.
\<close>

definition load_async_entry :: "key_env \<Rightarrow> keystore \<Rightarrow> keystore \<times> string option" where
  "load_async_entry env st =
     (case ks_binding st of
        Loaded \<Rightarrow> (st, None)
      | LoadFailed e \<Rightarrow> (st, Some e)
      | NotLoaded \<Rightarrow>
          (case ke_import env of
             None \<Rightarrow> (st \<lparr> ks_binding := Loaded \<rparr>, None)
           | Some e \<Rightarrow> (st \<lparr> ks_binding := LoadFailed e \<rparr>, Some e)))"

definition keyring_read ::
  "key_env \<Rightarrow> bool \<Rightarrow> keystore \<times> nat \<Rightarrow> (keystore \<times> nat) \<times> (string, stored option) result" where
  "keyring_read env new s =
     (case load_async_entry env (fst s) of
        (st, Some e) \<Rightarrow> ((st, snd s), Inl e)
      | (st, None) \<Rightarrow>
          ((st, Suc (snd s)),
           case ke_ops env (snd s) of
             OpWorks \<Rightarrow> Inr (if new then ks_new st else ks_old st)
           | OpFails e \<Rightarrow> Inl e
           | OpFailsAfter e \<Rightarrow> Inl e))"

definition keyring_write ::
  "key_env \<Rightarrow> stored \<Rightarrow> keystore \<times> nat \<Rightarrow> (keystore \<times> nat) \<times> (string, unit) result" where
  "keyring_write env v s =
     (case load_async_entry env (fst s) of
        (st, Some e) \<Rightarrow> ((st, snd s), Inl e)
      | (st, None) \<Rightarrow>
          (case ke_ops env (snd s) of
             OpWorks \<Rightarrow> ((st \<lparr> ks_new := Some v \<rparr>, Suc (snd s)), Inr ())
           | OpFails e \<Rightarrow> ((st, Suc (snd s)), Inl e)
           | OpFailsAfter e \<Rightarrow> ((st \<lparr> ks_new := Some v \<rparr>, Suc (snd s)), Inl e)))"

text \<open>\<open>delete\<close> never throws; its answer is not used.\<close>

definition keyring_delete :: "key_env \<Rightarrow> keystore \<times> nat \<Rightarrow> keystore \<times> nat" where
  "keyring_delete env s =
     (case load_async_entry env (fst s) of
        (st, Some e) \<Rightarrow> (st, snd s)
      | (st, None) \<Rightarrow>
          (case ke_ops env (snd s) of
             OpFails e \<Rightarrow> (st, Suc (snd s))
           | _ \<Rightarrow> (st \<lparr> ks_old := None \<rparr>, Suc (snd s))))"

definition keyring_expected_available :: "key_env \<Rightarrow> keystore \<Rightarrow> bool" where
  "keyring_expected_available env st =
     (case ke_expected_override env of
        Some b \<Rightarrow> b
      | None \<Rightarrow> (case ks_binding st of LoadFailed _ \<Rightarrow> False | _ \<Rightarrow> ke_core_keyring env))"

section \<open>The identity file\<close>

definition read_keypair_from_file :: "key_env \<Rightarrow> nat \<Rightarrow> keystore \<Rightarrow> keypair option" where
  "read_keypair_from_file env n st =
     (if \<not> ke_file_reads env n then None
      else case ks_file st of None \<Rightarrow> None | Some s \<Rightarrow> ok_of (deserialize env s))"

definition write_keypair_to_file :: "key_env \<Rightarrow> keypair \<Rightarrow> keystore \<Rightarrow> keystore \<times> string option" where
  "write_keypair_to_file env kp st =
     (case ke_file_write env of
        None \<Rightarrow> (st \<lparr> ks_file := Some (serialize kp) \<rparr>, None)
      | Some (e, left) \<Rightarrow> (st \<lparr> ks_file := left \<rparr>, Some e))"

section \<open>Getting the identity\<close>

text \<open>One round of the loop over the keyring.\<close>

definition keyring_round ::
  "key_env \<Rightarrow> keypair \<Rightarrow> keystore \<times> nat \<Rightarrow> (keystore \<times> nat) \<times> (string, keypair) result" where
  "keyring_round env fresh s =
     (case keyring_read env True s of
        (s1, Inl e) \<Rightarrow> (s1, Inl e)
      | (s1, Inr existing) \<Rightarrow>
          (case entry_text_of existing of
             Some v \<Rightarrow> (s1, deserialize env v)
           | None \<Rightarrow>
               (case keyring_read env False s1 of
                  (s2, Inl e) \<Rightarrow> (s2, Inl e)
                | (s2, Inr legacy) \<Rightarrow>
                    (case entry_text_of legacy of
                       Some v \<Rightarrow>
                         (case deserialize env v of
                            Inl e \<Rightarrow> (s2, Inl e)
                          | Inr kp \<Rightarrow>
                              (case keyring_write env v s2 of
                                 (s3, Inl e) \<Rightarrow> (s3, Inl e)
                               | (s3, Inr _) \<Rightarrow> (keyring_delete env s3, Inr kp)))
                     | None \<Rightarrow>
                         (case keyring_write env (serialize fresh) s2 of
                            (s3, Inl e) \<Rightarrow> (s3, Inl e)
                          | (s3, Inr _) \<Rightarrow> (s3, Inr fresh))))))"

text \<open>The rounds that remain; \<open>k\<close> rounds were made. \<open>Inl\<close>: the last failure.\<close>

fun keyring_rounds ::
  "key_env \<Rightarrow> nat \<Rightarrow> nat \<Rightarrow> string \<Rightarrow> keystore \<times> nat \<Rightarrow> (keystore \<times> nat) \<times> (string, keypair) result" where
  "keyring_rounds env 0 k e s = (s, Inl e)"
| "keyring_rounds env (Suc n) k e s =
     (case keyring_round env (ke_fresh env k) s of
        (s', Inr kp) \<Rightarrow> (s', Inr kp)
      | (s', Inl e') \<Rightarrow> keyring_rounds env n (Suc k) e' s')"

definition get_or_create_keypair ::
  "key_env \<Rightarrow> keystore \<Rightarrow> keystore \<times> (identity_error, keypair) result" where
  "get_or_create_keypair env st =
     (case read_keypair_from_file env 0 st of
        Some kp \<Rightarrow> (st, Inr kp)
      | None \<Rightarrow>
          (case keyring_rounds env (ke_attempts env) 0 ''undefined'' (st, 0) of
             ((st1, _), Inr kp) \<Rightarrow> (st1, Inr kp)
           | ((st1, _), Inl e) \<Rightarrow>
               (case read_keypair_from_file env 1 st1 of
                  Some kp \<Rightarrow> (st1, Inr kp)
                | None \<Rightarrow>
                    (let force = (ke_allow_file env = Some ''1'')
                     in if keyring_expected_available env st1 \<and> \<not> force
                          then (st1, Inl (KeyringUnavailable e))
                        else if \<not> force \<and> list_peers (ke_peers env) \<noteq> []
                          then (st1, Inl (PairedIdentityMissing (length (list_peers (ke_peers env))) e))
                        else let fresh = ke_fresh env (ke_attempts env)
                          in case write_keypair_to_file env fresh st1 of
                            (st2, None) \<Rightarrow> (st2, Inr fresh)
                          | (st2, Some e) \<Rightarrow> (st2, Inl (IdentityWriteFailed e))))))"

section \<open>What a call does to the stored identities\<close>

text \<open>
  An entry of the new service stays; a legacy entry is copied, and deleted only after that; a
  generated key goes into the keyring only where both entries are missing.
\<close>

definition keyring_kept :: "key_env \<Rightarrow> keystore \<Rightarrow> keystore \<Rightarrow> bool" where
  "keyring_kept env st st' \<longleftrightarrow>
     (case entry_text_of (ks_new st) of
        Some v \<Rightarrow> ks_new st' = ks_new st \<and> ks_old st' = ks_old st
      | None \<Rightarrow>
          (case entry_text_of (ks_old st) of
             Some v \<Rightarrow> (ks_new st' = ks_new st \<and> ks_old st' = ks_old st)
                 \<or> (ks_new st' = Some v \<and> (ks_old st' = ks_old st \<or> ks_old st' = None))
           | None \<Rightarrow> ks_old st' = ks_old st
               \<and> (ks_new st' = ks_new st \<or> (\<exists>k. ks_new st' = Some (serialize (ke_fresh env k))))))"

lemma entry_text_of_serialize [simp]: "entry_text_of (Some (serialize kp)) = Some (serialize kp)"
  by (simp add: entry_text_of_def serialize_def)

lemma entry_text_of_truthy [simp]: "entry_text_of s = Some v \<Longrightarrow> entry_text_of (Some v) = Some v"
  by (auto simp: entry_text_of_def split: option.splits stored.splits)

lemma entry_text_of_SomeD: "entry_text_of s = Some v \<Longrightarrow> s = Some v"
  by (auto simp: entry_text_of_def split: option.splits stored.splits)

lemma kept_refl: "keyring_kept env st st"
  by (simp add: keyring_kept_def split: option.splits)

lemma kept_trans:
  assumes ab: "keyring_kept env a b" and bc: "keyring_kept env b c"
  shows "keyring_kept env a c"
proof (cases "entry_text_of (ks_new a)")
  case (Some v)
  with ab bc show ?thesis by (simp add: keyring_kept_def)
next
  case new: None
  show ?thesis
  proof (cases "entry_text_of (ks_old a)")
    case (Some v)
    from ab new Some consider "ks_new b = ks_new a" "ks_old b = ks_old a"
      | "ks_new b = Some v" "ks_old b = ks_old a \<or> ks_old b = None" by (auto simp: keyring_kept_def)
    then show ?thesis
    proof cases
      case 1
      from bc show ?thesis unfolding keyring_kept_def 1 .
    next
      case 2
      with bc entry_text_of_truthy [OF Some] have "ks_new c = Some v" "ks_old c = ks_old b"
        by (simp_all add: keyring_kept_def)
      with 2 new Some show ?thesis by (simp add: keyring_kept_def)
    qed
  next
    case None
    from ab new None consider "ks_new b = ks_new a" "ks_old b = ks_old a"
      | k where "ks_new b = Some (serialize (ke_fresh env k))" "ks_old b = ks_old a"
      by (auto simp: keyring_kept_def)
    then show ?thesis
    proof cases
      case 1
      from bc show ?thesis unfolding keyring_kept_def 1 .
    next
      case (2 k)
      with bc have "ks_new c = ks_new b" "ks_old c = ks_old b" by (simp_all add: keyring_kept_def)
      with 2 new None show ?thesis by (auto simp: keyring_kept_def)
    qed
  qed
qed

lemma kept_fields:
  assumes "ks_new c = ks_new b" and "ks_old c = ks_old b"
  shows "keyring_kept env a c = keyring_kept env a b"
  by (simp only: keyring_kept_def assms)

lemma load_fields:
  assumes "load_async_entry env st = (st', e)"
  shows "ks_new st' = ks_new st" "ks_old st' = ks_old st" "ks_file st' = ks_file st"
    "e = None \<longleftrightarrow> ks_binding st' = Loaded"
  using assms by (auto simp: load_async_entry_def split: binding.splits option.splits)

lemma read_shape:
  assumes "keyring_read env new (st, n) = ((st', n'), r)"
  shows "ks_new st' = ks_new st" "ks_old st' = ks_old st" "ks_file st' = ks_file st"
    "r = Inr v \<Longrightarrow> v = (if new then ks_new st else ks_old st) \<and> ks_binding st' = Loaded"
proof -
  obtain st1 e where l: "load_async_entry env st = (st1, e)" by (cases "load_async_entry env st")
  from assms l load_fields [OF l] show "ks_new st' = ks_new st" "ks_old st' = ks_old st" "ks_file st' = ks_file st"
    "r = Inr v \<Longrightarrow> v = (if new then ks_new st else ks_old st) \<and> ks_binding st' = Loaded"
    by (cases e; auto simp: keyring_read_def split: op_outcome.splits)+
qed

lemma write_shape:
  assumes "keyring_write env v (st, n) = ((st', n'), r)"
  shows "ks_old st' = ks_old st" "ks_file st' = ks_file st" "ks_new st' = ks_new st \<or> ks_new st' = Some v"
    "r = Inr u \<Longrightarrow> ks_new st' = Some v \<and> ks_binding st' = Loaded"
proof -
  obtain st1 e where l: "load_async_entry env st = (st1, e)" by (cases "load_async_entry env st")
  from assms l load_fields [OF l] show "ks_old st' = ks_old st" "ks_file st' = ks_file st"
    "ks_new st' = ks_new st \<or> ks_new st' = Some v" "r = Inr u \<Longrightarrow> ks_new st' = Some v \<and> ks_binding st' = Loaded"
    by (cases e; auto simp: keyring_write_def split: op_outcome.splits)+
qed

lemma delete_shape:
  assumes "keyring_delete env (st, n) = (st', n')"
  shows "ks_new st' = ks_new st" "ks_file st' = ks_file st" "ks_old st' = ks_old st \<or> ks_old st' = None"
    "ks_binding st = Loaded \<Longrightarrow> ks_binding st' = Loaded"
proof -
  obtain st1 e where l: "load_async_entry env st = (st1, e)" by (cases "load_async_entry env st")
  have "ks_binding st = Loaded \<Longrightarrow> e = None" using l by (auto simp: load_async_entry_def)
  with assms l load_fields [OF l] show "ks_new st' = ks_new st" "ks_file st' = ks_file st"
    "ks_old st' = ks_old st \<or> ks_old st' = None" "ks_binding st = Loaded \<Longrightarrow> ks_binding st' = Loaded"
    by (cases e; auto simp: keyring_delete_def split: op_outcome.splits)+
qed

text \<open>The documented round trip of \<open>Buffer\<close>: what it encodes in Base64 it decodes.\<close>

definition buffer_ok :: "key_env \<Rightarrow> bool" where
  "buffer_ok env \<longleftrightarrow> (\<forall>bs. ke_buffer env (Some (JStr (b64_encode bs))) = Inr bs)"

lemma deserialize_serialize: "buffer_ok env \<Longrightarrow> deserialize env (serialize kp) = Inr kp"
  by (simp add: buffer_ok_def deserialize_def serialize_def field_def)

lemma round_shape:
  assumes round: "keyring_round env fresh (st, n) = ((st', n'), r)" and fresh: "fresh = ke_fresh env k"
  shows "ks_file st' = ks_file st" "keyring_kept env st st'"
    "r = Inr kp \<Longrightarrow> ks_binding st' = Loaded \<and> (\<exists>v. entry_text_of (ks_new st') = Some v
        \<and> (deserialize env v = Inr kp
           \<or> (v = serialize fresh \<and> kp = fresh \<and> entry_text_of (ks_new st) = None \<and> entry_text_of (ks_old st) = None)))"
proof -
  obtain st1 n1 r1 where r1: "keyring_read env True (st, n) = ((st1, n1), r1)" by (metis prod.collapse)
  note s1 = read_shape [OF r1]
  obtain st2 n2 r2 where r2: "keyring_read env False (st1, n1) = ((st2, n2), r2)" by (metis prod.collapse)
  note s2 = read_shape [OF r2]
  obtain st3 n3 r3 where r3: "keyring_write env (serialize fresh) (st2, n2) = ((st3, n3), r3)" by (metis prod.collapse)
  note s3 = write_shape [OF r3]
  have "ks_file st' = ks_file st \<and> keyring_kept env st st' \<and> (r = Inr kp \<longrightarrow> ks_binding st' = Loaded
      \<and> (\<exists>v. entry_text_of (ks_new st') = Some v \<and> (deserialize env v = Inr kp
           \<or> (v = serialize fresh \<and> kp = fresh \<and> entry_text_of (ks_new st) = None \<and> entry_text_of (ks_old st) = None))))"
  proof (cases r1)
    case (Inl e)
    with round r1 s1 show ?thesis by (auto simp: keyring_round_def keyring_kept_def split: option.splits)
  next
    case ex: (Inr existing)
    show ?thesis
    proof (cases "entry_text_of existing")
      case (Some v)
      with round r1 s1 ex show ?thesis by (auto simp: keyring_round_def keyring_kept_def split: option.splits)
    next
      case none: None
      show ?thesis
      proof (cases r2)
        case (Inl e)
        with round r1 r2 s1 s2 ex none show ?thesis
          by (auto simp: keyring_round_def keyring_kept_def split: option.splits)
      next
        case leg: (Inr legacy)
        show ?thesis
        proof (cases "entry_text_of legacy")
          case None
          with round r1 r2 r3 s1 s2 s3 ex none leg fresh show ?thesis
            by (auto simp: keyring_round_def keyring_kept_def split: sum.splits option.splits)
        next
          case (Some v)
          obtain st4 n4 r4 where r4: "keyring_write env v (st2, n2) = ((st4, n4), r4)" by (metis prod.collapse)
          note s4 = write_shape [OF r4]
          obtain st5 n5 where r5: "keyring_delete env (st4, n4) = (st5, n5)" by (metis prod.collapse)
          note s5 = delete_shape [OF r5]
          from Some round r1 r2 r4 r5 s1 s2 s4 s5 ex none leg show ?thesis
            by (auto simp: keyring_round_def keyring_kept_def split: sum.splits option.splits)
        qed
      qed
    qed
  qed
  then show "ks_file st' = ks_file st" "keyring_kept env st st'"
    "r = Inr kp \<Longrightarrow> ks_binding st' = Loaded \<and> (\<exists>v. entry_text_of (ks_new st') = Some v
        \<and> (deserialize env v = Inr kp
           \<or> (v = serialize fresh \<and> kp = fresh \<and> entry_text_of (ks_new st) = None \<and> entry_text_of (ks_old st) = None)))"
    by blast+
qed

lemma rounds_shape:
  "keyring_rounds env m k e (st, n) = ((st', n'), r) \<Longrightarrow>
     ks_file st' = ks_file st \<and> keyring_kept env st st'
     \<and> (\<forall>kp. r = Inr kp \<longrightarrow> ks_binding st' = Loaded \<and> (\<exists>v. entry_text_of (ks_new st') = Some v
          \<and> (deserialize env v = Inr kp \<or> v = serialize kp)))"
proof (induction m arbitrary: k e st n)
  case 0
  then show ?case by (auto simp: kept_refl)
next
  case (Suc m)
  obtain st1 n1 r1 where r1: "keyring_round env (ke_fresh env k) (st, n) = ((st1, n1), r1)" by (metis prod.collapse)
  note s1 = round_shape [OF r1 refl]
  show ?case
  proof (cases r1)
    case (Inl e')
    with Suc.prems r1 have "keyring_rounds env m (Suc k) e' (st1, n1) = ((st', n'), r)" by simp
    from Suc.IH [OF this] s1(1,2) show ?thesis by (auto intro: kept_trans)
  next
    case (Inr kp)
    with Suc.prems r1 have "st' = st1" "r = Inr kp" by simp_all
    with s1(1,2) s1(3) [OF Inr] show ?thesis by auto
  qed
qed

section \<open>Properties\<close>

lemma deserialize_same:
  assumes "ke_buffer env' = ke_buffer env"
  shows "deserialize env' = deserialize env"
  by (rule ext) (unfold deserialize_def assms, rule refl)

lemma file_reads_same:
  "ks_file st' = ks_file st \<Longrightarrow> ke_buffer env' = ke_buffer env \<Longrightarrow> ke_file_reads env' n \<Longrightarrow> ke_file_reads env m
    \<Longrightarrow> read_keypair_from_file env' n st' = read_keypair_from_file env m st"
  using deserialize_same [of env' env] by (cases "ks_file st") (simp_all add: read_keypair_from_file_def)

text \<open>The ways in which a call can end.\<close>

lemma get_or_create_cases:
  assumes "get_or_create_keypair env st = (st', r)" and "read_keypair_from_file env 0 st = None"
  obtains (keyring) kp where "r = Inr kp" "ks_file st' = ks_file st" "keyring_kept env st st'"
      "ks_binding st' = Loaded" "\<exists>v. entry_text_of (ks_new st') = Some v \<and> (deserialize env v = Inr kp \<or> v = serialize kp)"
  | (found) kp where "r = Inr kp" "ks_file st' = ks_file st" "keyring_kept env st st'"
      "read_keypair_from_file env 1 st' = Some kp"
  | (refused) e where "r = Inl e" "ks_file st' = ks_file st" "keyring_kept env st st'"
  | (minted) "keyring_kept env st st'" "ke_allow_file env = Some ''1'' \<or> list_peers (ke_peers env) = []"
      "ke_allow_file env = Some ''1'' \<or> \<not> keyring_expected_available env st'"
      "\<forall>kp. r = Inr kp \<longrightarrow> ks_file st' = Some (serialize kp)"
proof -
  obtain st1 n1 r1 where rounds: "keyring_rounds env (ke_attempts env) 0 ''undefined'' (st, 0) = ((st1, n1), r1)"
    by (metis prod.collapse)
  note k = rounds_shape [OF rounds]
  show thesis
  proof (cases r1)
    case (Inr kp)
    with assms rounds have "st' = st1" "r = Inr kp" by (simp_all add: get_or_create_keypair_def)
    with k Inr keyring show thesis by blast
  next
    case (Inl e)
    show thesis
    proof (cases "read_keypair_from_file env 1 st1")
      case (Some kp)
      with assms rounds Inl have "st' = st1" "r = Inr kp" by (simp_all add: get_or_create_keypair_def)
      with k Some found show thesis by blast
    next
      case None
      let ?force = "ke_allow_file env = Some ''1''"
      show thesis
      proof (cases "(keyring_expected_available env st1 \<and> \<not> ?force) \<or> (\<not> ?force \<and> list_peers (ke_peers env) \<noteq> [])")
        case True
        with assms rounds Inl None obtain e' where "st' = st1" "r = Inl e'"
          by (auto simp: get_or_create_keypair_def Let_def split: if_splits)
        with k refused show thesis by blast
      next
        case False
        obtain st2 e2 where w: "write_keypair_to_file env (ke_fresh env (ke_attempts env)) st1 = (st2, e2)"
          by (cases "write_keypair_to_file env (ke_fresh env (ke_attempts env)) st1")
        have st2: "ks_new st2 = ks_new st1" "ks_old st2 = ks_old st1" "ks_binding st2 = ks_binding st1"
          "e2 = None \<Longrightarrow> ks_file st2 = Some (serialize (ke_fresh env (ke_attempts env)))"
          using w by (auto simp: write_keypair_to_file_def split: option.splits)
        from assms rounds Inl None False w have "st' = st2"
          "r = (case e2 of None \<Rightarrow> Inr (ke_fresh env (ke_attempts env)) | Some e \<Rightarrow> Inl (IdentityWriteFailed e))"
          by (auto simp: get_or_create_keypair_def Let_def split: option.splits)
        moreover have "keyring_kept env st st2" using k kept_fields [OF st2(1,2)] by blast
        moreover have "keyring_expected_available env st2 = keyring_expected_available env st1"
          by (simp only: keyring_expected_available_def st2(3))
        ultimately show thesis using False st2(4) minted by (cases e2) auto
      qed
    qed
  qed
qed


text \<open>
  The identity is stable. Whatever way a call found its key pair, the next call returns the
  same one, also after a restart of the process, if the keyring serves its first read.
\<close>

theorem identity_stable:
  assumes "get_or_create_keypair env st = (st', Inr kp)"
    and "buffer_ok env" and "ke_buffer env' = ke_buffer env"
    and "ke_file_reads env = (\<lambda>_. True)" and "ke_file_reads env' = (\<lambda>_. True)"
    and "0 < ke_attempts env'" and "ke_ops env' 0 = OpWorks"
    and "b = ks_binding st' \<or> (b = NotLoaded \<and> ke_import env' = None)"
  shows "get_or_create_keypair env' (st' \<lparr> ks_binding := b \<rparr>) = (st' \<lparr> ks_binding := b \<rparr>, Inr kp)
    \<or> get_or_create_keypair env' (st' \<lparr> ks_binding := b \<rparr>) = (st' \<lparr> ks_binding := Loaded \<rparr>, Inr kp)"
proof -
  let ?st = "st' \<lparr> ks_binding := b \<rparr>"
  have same: "deserialize env' = deserialize env"
    by (rule deserialize_same [OF assms(3)])
  have again: ?thesis if "read_keypair_from_file env' 0 ?st = Some kp"
    using that by (simp add: get_or_create_keypair_def)
  show ?thesis
  proof (cases "read_keypair_from_file env 0 st")
    case (Some kp')
    with assms(1) have "st' = st" "kp' = kp" by (simp_all add: get_or_create_keypair_def)
    with Some assms(3-5) file_reads_same [of ?st st env' env 0 0] show ?thesis by (intro again) simp
  next
    case None
    from assms(1) None show ?thesis
    proof (cases rule: get_or_create_cases)
      case (keyring kp')
      then have kp: "kp' = kp" by simp
      from keyring(5) obtain v where v: "entry_text_of (ks_new st') = Some v"
        "deserialize env v = Inr kp \<or> v = serialize kp" by (auto simp: kp)
      then have des: "deserialize env' v = Inr kp" using deserialize_serialize [OF assms(2)] same by auto
      have no_file: "read_keypair_from_file env' 0 ?st = None"
        using file_reads_same [of ?st st env' env 0 0] keyring(2) None assms(3-5) by simp
      have load: "load_async_entry env' ?st = (st' \<lparr> ks_binding := Loaded \<rparr>, None)"
        using assms(8) keyring(4) by (auto simp: load_async_entry_def)
      obtain m where m: "ke_attempts env' = Suc m" using assms(6) by (cases "ke_attempts env'") auto
      have "keyring_rounds env' (ke_attempts env') 0 ''undefined'' (?st, 0)
          = ((st' \<lparr> ks_binding := Loaded \<rparr>, 1), Inr kp)"
        using load v(1) des assms(7)
        by (simp add: m keyring_round_def keyring_read_def)
      with no_file show ?thesis by (simp add: get_or_create_keypair_def)
    next
      case (found kp')
      with file_reads_same [of ?st st' env' env 0 1] assms(3-5) show ?thesis by (intro again) simp
    next
      case (refused e)
      then show ?thesis by simp
    next
      case minted
      then have "ks_file st' = Some (serialize kp)" by blast
      then have "read_keypair_from_file env' 0 ?st = Some kp"
        using assms(5) deserialize_serialize [OF assms(2)] same by (simp add: read_keypair_from_file_def)
      then show ?thesis by (rule again)
    qed
  qed
qed

text \<open>A machine without a keyring, and one with a legacy entry whose first write times out.\<close>

definition demo_buffer :: "json option \<Rightarrow> (string, byte list) result" where
  "demo_buffer v = (case v of Some (JStr s) \<Rightarrow> Inr (buffer_from_base64 s) | _ \<Rightarrow> Inl ''TypeError'')"

definition demo_pair :: "nat \<Rightarrow> keypair" where
  "demo_pair n = \<lparr> kp_public = [of_nat n], kp_secret = [7] \<rparr>"

definition demo_key_env :: "(nat \<Rightarrow> op_outcome) \<Rightarrow> key_env" where
  "demo_key_env ops = \<lparr> ke_ops = ops, ke_import = None, ke_buffer = demo_buffer, ke_fresh = demo_pair,
     ke_file_reads = (\<lambda>_. True), ke_file_write = None, ke_attempts = 3, ke_expected_override = None,
     ke_core_keyring = False, ke_allow_file = None, ke_peers = NoFile \<rparr>"

definition demo_headless :: keystore where
  "demo_headless = \<lparr> ks_new = None, ks_old = None, ks_file = None, ks_binding = NotLoaded \<rparr>"

definition demo_legacy :: keystore where
  "demo_legacy = \<lparr> ks_new = None, ks_old = Some (serialize (demo_pair 5)), ks_file = None, ks_binding = NotLoaded \<rparr>"

lemma demo_buffer_ok: "buffer_ok (demo_key_env ops)"
  by (simp add: buffer_ok_def demo_key_env_def demo_buffer_def buffer_from_base64_def atob_encode)


theorem identity_stable_witness:
  "snd (get_or_create_keypair (demo_key_env (\<lambda>_. OpWorks))
     (fst (get_or_create_keypair (demo_key_env (\<lambda>_. OpFails ''no D-Bus'')) demo_headless))) = Inr (demo_pair 3)"
proof -
  let ?first = "get_or_create_keypair (demo_key_env (\<lambda>_. OpFails ''no D-Bus'')) demo_headless"
  have "snd ?first = Inr (demo_pair 3)" by code_simp
  then have "?first = (fst ?first, Inr (demo_pair 3))" by (metis prod.collapse)
  from identity_stable [OF this demo_buffer_ok, of "demo_key_env (\<lambda>_. OpWorks)" "ks_binding (fst ?first)"]
  show ?thesis by (auto simp: demo_key_env_def)
qed

end
