(* ===== verification/RelayLifecycle.thy ===== *)
theory RelayLifecycle
  imports Prelude
begin

text \<open>
  \<open>RelayLifecycle\<close> of \<open>pi-extension/src/runtime/relay_lifecycle.ts\<close>: starting, losing and
  regaining the connection to the Relay.

  \<open>startInitial\<close> and \<open>reconnect\<close> are asynchronous. A \<open>relay_task\<close> is one of them at one of its
  awaits, with the local variables it needs after it; the event that resolves the await runs the
  code up to the next one. Events of different tasks, the timer, closes of the connection and
  calls of \<open>start\<close> and \<open>stop\<close> interleave. Clients and key pairs are compared by identity, so they
  are numbers. \<open>rl_log\<close> lists the calls of the dependencies that the outside sees; \<open>EfDescribe\<close> is the
  notification that \<open>describeConnection\<close> words, \<open>EfUnavailable\<close> the warning with the error's text.
\<close>

section \<open>State\<close>

datatype remote_state = RemoteIdle | RemoteStarted

datatype connectivity = ConnConnected | ConnReconnecting | ConnDisconnected

datatype relay_task =
    TkIdentity nat
  | TkOptions bool nat string nat
  | TkConnect bool nat string nat nat

datatype relay_effect =
    EfNotify string
  | EfDescribe string
  | EfUnavailable
  | EfState
  | EfConnected nat bool
  | EfDisconnected
  | EfClose nat

record reconnect_timer =
  rt_url :: string
  rt_generation :: nat
  rt_delay :: int

record lifecycle =
  rl_active :: "nat option"
  rl_pending :: "nat option"
  rl_url :: "string option"
  rl_identity :: "nat option"
  rl_initial :: "nat option"
  rl_done :: "nat list"
  rl_timer :: "reconnect_timer option"
  rl_attempt :: nat
  rl_generation :: nat
  rl_disposed :: bool
  rl_state :: remote_state
  rl_closed :: "nat list"
  rl_clients :: nat
  rl_tasks :: "relay_task list"
  rl_log :: "relay_effect list"

definition reconnect_backoffs_ms :: "int list" where
  "reconnect_backoffs_ms = [1000, 2000, 5000, 10000, 30000]"

definition new_lifecycle :: lifecycle where
  "new_lifecycle = \<lparr> rl_active = None, rl_pending = None, rl_url = None, rl_identity = None,
     rl_initial = None, rl_done = [], rl_timer = None, rl_attempt = 0, rl_generation = 0,
     rl_disposed = False, rl_state = RemoteIdle, rl_closed = [], rl_clients = 0, rl_tasks = [], rl_log = [] \<rparr>"

definition log_effect :: "relay_effect \<Rightarrow> lifecycle \<Rightarrow> lifecycle" where
  "log_effect e st = st \<lparr> rl_log := rl_log st @ [e] \<rparr>"

fun task_generation :: "relay_task \<Rightarrow> nat" where
  "task_generation (TkIdentity g) = g"
| "task_generation (TkOptions i g url key) = g"
| "task_generation (TkConnect i g url key c) = g"

fun is_initial :: "relay_task \<Rightarrow> bool" where
  "is_initial (TkIdentity g) = True"
| "is_initial (TkOptions i g url key) = i"
| "is_initial (TkConnect i g url key c) = i"

section \<open>Queries\<close>

definition relay_status :: "(nat \<Rightarrow> bool) \<Rightarrow> lifecycle \<Rightarrow> connectivity" where
  "relay_status is_open st =
     (if rl_state st = RemoteIdle then ConnDisconnected
      else case rl_active st of
        Some r \<Rightarrow> if is_open r then ConnConnected else ConnReconnecting
      | None \<Rightarrow> ConnReconnecting)"

definition relay_is_current :: "lifecycle \<Rightarrow> nat \<Rightarrow> bool" where
  "relay_is_current st candidate =
     (\<not> rl_disposed st \<and> rl_state st = RemoteStarted \<and> rl_active st = Some candidate)"

definition is_operation_current :: "lifecycle \<Rightarrow> nat \<Rightarrow> bool" where
  "is_operation_current st expected = (\<not> rl_disposed st \<and> rl_generation st = expected)"

definition is_reconnect_current :: "lifecycle \<Rightarrow> nat \<Rightarrow> bool" where
  "is_reconnect_current st expected = (rl_state st = RemoteStarted \<and> is_operation_current st expected)"

section \<open>Candidates and the timer\<close>

definition close_candidate_once :: "nat \<Rightarrow> lifecycle \<Rightarrow> lifecycle" where
  "close_candidate_once c st =
     (if List.member (rl_closed st) c then st
      else log_effect (EfClose c) (st \<lparr> rl_closed := c # rl_closed st \<rparr>))"

definition clear_candidate :: "nat \<Rightarrow> lifecycle \<Rightarrow> lifecycle" where
  "clear_candidate c st =
     (if rl_pending st \<noteq> Some c then st else close_candidate_once c (st \<lparr> rl_pending := None \<rparr>))"

definition schedule_reconnect :: "string \<Rightarrow> lifecycle \<Rightarrow> lifecycle" where
  "schedule_reconnect url st =
     (if rl_identity st = None \<or> rl_disposed st \<or> rl_state st \<noteq> RemoteStarted then st
      else
        let g = Suc (rl_generation st);
            delay = reconnect_backoffs_ms ! min (rl_attempt st) (length reconnect_backoffs_ms - 1)
        in st \<lparr> rl_generation := g, rl_attempt := Suc (rl_attempt st),
                rl_timer := Some \<lparr> rt_url = url, rt_generation = g, rt_delay = delay \<rparr> \<rparr>)"

definition handle_connection_failure :: "nat \<Rightarrow> string \<Rightarrow> lifecycle \<Rightarrow> lifecycle" where
  "handle_connection_failure expected url st =
     (if \<not> is_reconnect_current st expected then st
      else schedule_reconnect url
        (log_effect EfState (log_effect EfUnavailable st)))"

text \<open>The same for a reconnect: it does not notify.\<close>

definition retry_reconnect :: "nat \<Rightarrow> string \<Rightarrow> lifecycle \<Rightarrow> lifecycle" where
  "retry_reconnect expected url st =
     (if is_reconnect_current st expected then schedule_reconnect url (log_effect EfState st) else st)"

definition connection_failed :: "bool \<Rightarrow> nat \<Rightarrow> string \<Rightarrow> lifecycle \<Rightarrow> lifecycle" where
  "connection_failed initial expected url st =
     (if initial then handle_connection_failure expected url st else retry_reconnect expected url st)"

definition on_relay_close :: "nat \<Rightarrow> lifecycle \<Rightarrow> lifecycle" where
  "on_relay_close closed st =
     (if rl_active st \<noteq> Some closed \<or> rl_state st = RemoteIdle then st
      else
        let st1 = log_effect EfState (log_effect EfDisconnected (st \<lparr> rl_active := None \<rparr>))
        in case rl_url st1 of Some url \<Rightarrow> if url = [] then st1 else schedule_reconnect url st1 | None \<Rightarrow> st1)"

section \<open>Starting, connecting, stopping\<close>

definition end_task :: "relay_task \<Rightarrow> lifecycle \<Rightarrow> lifecycle" where
  "end_task t st =
     st \<lparr> rl_tasks := filter (\<lambda>u. task_generation u \<noteq> task_generation t) (rl_tasks st),
          rl_done := (if is_initial t then task_generation t # rl_done st else rl_done st) \<rparr>"

definition set_task :: "relay_task \<Rightarrow> lifecycle \<Rightarrow> lifecycle" where
  "set_task t st =
     st \<lparr> rl_tasks := map (\<lambda>u. if task_generation u = task_generation t then t else u) (rl_tasks st) \<rparr>"

text \<open>\<open>start\<close>, up to the await of the identity in \<open>startInitial\<close>.\<close>

definition start_relay :: "(nat \<Rightarrow> bool) \<Rightarrow> lifecycle \<Rightarrow> lifecycle" where
  "start_relay is_open st =
     (case rl_initial st of
        Some _ \<Rightarrow> st
      | None \<Rightarrow>
          if rl_state st \<noteq> RemoteIdle then
            log_effect (EfNotify (if relay_status is_open st = ConnReconnecting
              then ''[remote-pi] Relay is reconnecting in background.'' else ''[remote-pi] Already connected.'')) st
          else
            let g = Suc (rl_generation st)
            in st \<lparr> rl_generation := g, rl_tasks := rl_tasks st @ [TkIdentity g], rl_initial := Some g \<rparr>)"

text \<open>The promise of the initial attempt has settled.\<close>

definition clear_initial_attempt :: "lifecycle \<Rightarrow> lifecycle" where
  "clear_initial_attempt st =
     (case rl_initial st of
        Some g \<Rightarrow> if List.member (rl_done st) g then st \<lparr> rl_initial := None \<rparr> else st
      | None \<Rightarrow> st)"

text \<open>After \<open>await loadIdentity\<close>: the key pair and the URL that is resolved then, or an error.\<close>

definition identity_loaded :: "nat \<Rightarrow> (unit, nat \<times> string) result \<Rightarrow> lifecycle \<Rightarrow> lifecycle" where
  "identity_loaded g answer st =
     (case answer of
        Inl _ \<Rightarrow> end_task (TkIdentity g) st
      | Inr (key, url) \<Rightarrow>
          if \<not> is_operation_current st g then end_task (TkIdentity g) st
          else set_task (TkOptions True g url key)
            (log_effect (EfDescribe url) (log_effect EfState
              (st \<lparr> rl_identity := Some key, rl_url := Some url, rl_state := RemoteStarted \<rparr>))))"

text \<open>After \<open>await buildConnectOptions\<close>.\<close>

definition options_built :: "bool \<Rightarrow> nat \<Rightarrow> string \<Rightarrow> nat \<Rightarrow> bool \<Rightarrow> lifecycle \<Rightarrow> lifecycle" where
  "options_built initial g url key ok st =
     (let t = TkOptions initial g url key
      in if \<not> ok then end_task t (connection_failed initial g url st)
         else if \<not> is_reconnect_current st g \<or> (\<not> initial \<and> rl_identity st \<noteq> Some key) then end_task t st
         else let c = rl_clients st
           in set_task (TkConnect initial g url key c) (st \<lparr> rl_clients := Suc c, rl_pending := Some c \<rparr>))"

text \<open>After \<open>await candidate.connect\<close>.\<close>

definition connect_settled :: "bool \<Rightarrow> nat \<Rightarrow> string \<Rightarrow> nat \<Rightarrow> nat \<Rightarrow> bool \<Rightarrow> lifecycle \<Rightarrow> lifecycle" where
  "connect_settled initial g url key c ok st =
     (let t = TkConnect initial g url key c
      in if \<not> ok then end_task t (connection_failed initial g url (clear_candidate c st))
         else if \<not> is_reconnect_current st g \<or> rl_pending st \<noteq> Some c then end_task t (close_candidate_once c st)
         else end_task t (log_effect EfState (log_effect (EfConnected c initial)
                (st \<lparr> rl_pending := None, rl_active := Some c, rl_attempt := 0 \<rparr>))))"

definition timer_fires :: "lifecycle \<Rightarrow> lifecycle" where
  "timer_fires st =
     (case rl_timer st of
        None \<Rightarrow> st
      | Some t \<Rightarrow>
          (let st1 = st \<lparr> rl_timer := None \<rparr>
           in case rl_identity st1 of
                Some key \<Rightarrow>
                  if is_reconnect_current st1 (rt_generation t)
                  then st1 \<lparr> rl_tasks := rl_tasks st1 @ [TkOptions False (rt_generation t) (rt_url t) key] \<rparr>
                  else st1
              | None \<Rightarrow> st1))"

definition stop_relay :: "lifecycle \<Rightarrow> lifecycle" where
  "stop_relay st =
     (let st1 = st \<lparr> rl_generation := Suc (rl_generation st), rl_timer := None, rl_attempt := 0,
                     rl_active := None, rl_pending := None, rl_url := None, rl_initial := None,
                     rl_state := RemoteIdle \<rparr>;
          st2 = (case rl_active st of Some a \<Rightarrow> close_candidate_once a st1 | None \<Rightarrow> st1);
          st3 = (case rl_pending st of
                   Some p \<Rightarrow> if rl_active st = Some p then st2 else close_candidate_once p st2
                 | None \<Rightarrow> st2)
      in log_effect EfState (log_effect EfDisconnected st3))"

definition set_disposed :: "bool \<Rightarrow> lifecycle \<Rightarrow> lifecycle" where
  "set_disposed b st = st \<lparr> rl_disposed := b \<rparr>"

section \<open>The machine\<close>

text \<open>
  \<open>LcShutdown\<close> is the handler of \<open>session_shutdown\<close> in index.ts: it disposes and stops in one go.
\<close>

datatype relay_event =
    LcStart "nat \<Rightarrow> bool"
  | LcSettle
  | LcIdentity nat "(unit, nat \<times> string) result"
  | LcOptions nat bool
  | LcConnect nat bool
  | LcTimer
  | LcClose nat
  | LcStop
  | LcShutdown

definition relay_task_of :: "nat \<Rightarrow> lifecycle \<Rightarrow> relay_task option" where
  "relay_task_of g st = find (\<lambda>t. task_generation t = g) (rl_tasks st)"

fun relay_step :: "lifecycle \<Rightarrow> relay_event \<Rightarrow> lifecycle" where
  "relay_step st (LcStart is_open) = start_relay is_open st"
| "relay_step st LcSettle = clear_initial_attempt st"
| "relay_step st (LcIdentity g answer) =
     (case relay_task_of g st of Some (TkIdentity _) \<Rightarrow> identity_loaded g answer st | _ \<Rightarrow> st)"
| "relay_step st (LcOptions g ok) =
     (case relay_task_of g st of Some (TkOptions i _ url key) \<Rightarrow> options_built i g url key ok st | _ \<Rightarrow> st)"
| "relay_step st (LcConnect g ok) =
     (case relay_task_of g st of Some (TkConnect i _ url key c) \<Rightarrow> connect_settled i g url key c ok st | _ \<Rightarrow> st)"
| "relay_step st LcTimer = timer_fires st"
| "relay_step st (LcClose c) = on_relay_close c st"
| "relay_step st LcStop = stop_relay st"
| "relay_step st LcShutdown = stop_relay (set_disposed True st)"

section \<open>The invariant\<close>

fun task_clients :: "relay_task \<Rightarrow> nat list" where
  "task_clients (TkIdentity g) = []"
| "task_clients (TkOptions i g url key) = []"
| "task_clients (TkConnect i g url key c) = [c]"

fun closes_of :: "relay_effect list \<Rightarrow> nat list" where
  "closes_of [] = []"
| "closes_of (EfClose c # es) = c # closes_of es"
| "closes_of (_ # es) = closes_of es"

lemma closes_of_append [simp]: "closes_of (xs @ ys) = closes_of xs @ closes_of ys"
  by (induction xs rule: closes_of.induct) auto

text \<open>What the task of the current generation relies on; every other task is a leftover.\<close>

fun task_fits :: "lifecycle \<Rightarrow> relay_task \<Rightarrow> bool" where
  "task_fits st (TkIdentity g) = (rl_state st = RemoteIdle \<and> rl_pending st = None)"
| "task_fits st (TkOptions i g url key) =
     (rl_state st = RemoteStarted \<and> url \<noteq> [] \<and> rl_identity st = Some key \<and> rl_pending st = None)"
| "task_fits st (TkConnect i g url key c) =
     (rl_state st = RemoteStarted \<and> url \<noteq> [] \<and> rl_identity st = Some key \<and> rl_pending st = Some c)"

definition current_tasks :: "lifecycle \<Rightarrow> relay_task list" where
  "current_tasks st = filter (\<lambda>t. task_generation t = rl_generation st) (rl_tasks st)"

definition generations_ok :: "lifecycle \<Rightarrow> bool" where
  "generations_ok st \<longleftrightarrow> distinct (map task_generation (rl_tasks st))
     \<and> (\<forall>t \<in> set (rl_tasks st). task_generation t \<le> rl_generation st)"

text \<open>
  While started, exactly one of these drives the lifecycle: the connection, the timer, or a task
  of the current generation.
\<close>

datatype driver = DrConnection nat | DrTimer reconnect_timer | DrTask relay_task | DrNone

fun driven_by :: "driver \<Rightarrow> lifecycle \<Rightarrow> bool" where
  "driven_by (DrConnection c) st \<longleftrightarrow>
     rl_active st = Some c \<and> rl_timer st = None \<and> current_tasks st = []
     \<and> rl_state st = RemoteStarted \<and> rl_pending st = None"
| "driven_by (DrTimer t) st \<longleftrightarrow>
     rl_active st = None \<and> rl_timer st = Some t \<and> current_tasks st = []
     \<and> rl_state st = RemoteStarted \<and> rl_pending st = None
     \<and> rt_generation t = rl_generation st \<and> rt_url t \<noteq> [] \<and> 1000 \<le> rt_delay t \<and> rt_delay t \<le> 30000"
| "driven_by (DrTask t) st \<longleftrightarrow>
     rl_active st = None \<and> rl_timer st = None \<and> current_tasks st = [t] \<and> task_fits st t"
| "driven_by DrNone st \<longleftrightarrow>
     rl_active st = None \<and> rl_timer st = None \<and> current_tasks st = []
     \<and> rl_state st = RemoteIdle \<and> rl_pending st = None"

definition driver_ok :: "lifecycle \<Rightarrow> bool" where
  "driver_ok st \<longleftrightarrow> (\<exists>d. driven_by d st)"

definition started_ok :: "lifecycle \<Rightarrow> bool" where
  "started_ok st \<longleftrightarrow> (rl_state st = RemoteStarted \<longrightarrow>
     \<not> rl_disposed st \<and> rl_identity st \<noteq> None \<and> (\<exists>url. rl_url st = Some url \<and> url \<noteq> []))"

text \<open>
  The clients: a task's client is no other task's and is the pending one, unless it has been
  closed; clients in use are not closed, and no client is closed twice.
\<close>

definition task_clients_ok :: "lifecycle \<Rightarrow> bool" where
  "task_clients_ok st \<longleftrightarrow> distinct (concat (map task_clients (rl_tasks st)))
     \<and> (\<forall>t \<in> set (rl_tasks st). \<forall>c \<in> set (task_clients t).
          c < rl_clients st \<and> rl_active st \<noteq> Some c \<and> (rl_pending st = Some c \<or> c \<in> set (rl_closed st)))"

definition clients_ok :: "lifecycle \<Rightarrow> bool" where
  "clients_ok st \<longleftrightarrow>
     (\<forall>c. rl_active st = Some c \<or> rl_pending st = Some c \<longrightarrow> c < rl_clients st \<and> c \<notin> set (rl_closed st))
     \<and> (\<forall>c \<in> set (rl_closed st). c < rl_clients st)
     \<and> distinct (rl_closed st) \<and> closes_of (rl_log st) = rev (rl_closed st)"

definition life_inv :: "lifecycle \<Rightarrow> bool" where
  "life_inv st \<longleftrightarrow> generations_ok st \<and> driver_ok st \<and> started_ok st \<and> task_clients_ok st \<and> clients_ok st"

lemmas life_defs = life_inv_def generations_ok_def started_ok_def task_clients_ok_def clients_ok_def

lemma driver_okI: "driven_by d st \<Longrightarrow> driver_ok st"
  by (auto simp: driver_ok_def)

lemma life_inv_new: "life_inv new_lifecycle"
proof -
  have "driver_ok new_lifecycle"
    by (rule driver_okI [of DrNone]) (simp add: new_lifecycle_def current_tasks_def)
  then show ?thesis by (simp add: life_defs) (simp add: new_lifecycle_def)
qed

lemma backoff_bounds:
  "1000 \<le> reconnect_backoffs_ms ! min n (length reconnect_backoffs_ms - 1)"
  "reconnect_backoffs_ms ! min n (length reconnect_backoffs_ms - 1) \<le> 30000"
proof -
  have "reconnect_backoffs_ms ! min n (length reconnect_backoffs_ms - 1) \<in> set reconnect_backoffs_ms"
    by (rule nth_mem) (simp add: reconnect_backoffs_ms_def)
  then show "1000 \<le> reconnect_backoffs_ms ! min n (length reconnect_backoffs_ms - 1)"
    "reconnect_backoffs_ms ! min n (length reconnect_backoffs_ms - 1) \<le> 30000"
    by (auto simp: reconnect_backoffs_ms_def)
qed

subsection \<open>Effects that close nothing\<close>

lemma task_fits_cong:
  "rl_state st' = rl_state st \<Longrightarrow> rl_identity st' = rl_identity st \<Longrightarrow> rl_pending st' = rl_pending st
   \<Longrightarrow> task_fits st' t = task_fits st t"
  by (cases t) auto

lemma driven_by_cong:
  assumes "rl_state st' = rl_state st" "rl_identity st' = rl_identity st" "rl_pending st' = rl_pending st"
    "rl_active st' = rl_active st" "rl_timer st' = rl_timer st" "rl_generation st' = rl_generation st"
    "current_tasks st' = current_tasks st"
  shows "driven_by d st' = driven_by d st"
  using assms by (cases d) (simp_all add: task_fits_cong [of st' st])

lemma fields_log [simp]:
  "rl_active (log_effect e st) = rl_active st" "rl_pending (log_effect e st) = rl_pending st"
  "rl_url (log_effect e st) = rl_url st" "rl_identity (log_effect e st) = rl_identity st"
  "rl_initial (log_effect e st) = rl_initial st" "rl_done (log_effect e st) = rl_done st"
  "rl_timer (log_effect e st) = rl_timer st" "rl_generation (log_effect e st) = rl_generation st"
  "rl_disposed (log_effect e st) = rl_disposed st" "rl_state (log_effect e st) = rl_state st"
  "rl_tasks (log_effect e st) = rl_tasks st" "rl_attempt (log_effect e st) = rl_attempt st"
  "rl_clients (log_effect e st) = rl_clients st" "rl_closed (log_effect e st) = rl_closed st"
  "rl_log (log_effect e st) = rl_log st @ [e]" "current_tasks (log_effect e st) = current_tasks st"
  by (simp_all add: log_effect_def current_tasks_def)

lemma driver_log [simp]: "driven_by d (log_effect e st) = driven_by d st"
  by (rule driven_by_cong) simp_all

lemma driver_ok_log [simp]: "driver_ok (log_effect e st) = driver_ok st"
  by (simp add: driver_ok_def)

lemma life_inv_log: "closes_of [e] = [] \<Longrightarrow> life_inv (log_effect e st) = life_inv st"
  by (simp add: life_defs)

lemma life_inv_logged [simp]:
  "life_inv (log_effect (EfNotify m) st) = life_inv st" "life_inv (log_effect (EfDescribe m) st) = life_inv st"
  "life_inv (log_effect EfUnavailable st) = life_inv st" "life_inv (log_effect EfState st) = life_inv st"
  "life_inv (log_effect (EfConnected c i) st) = life_inv st" "life_inv (log_effect EfDisconnected st) = life_inv st"
  by (simp_all add: life_inv_log)

subsection \<open>Leftover tasks\<close>

lemma end_task_fields [simp]:
  "rl_active (end_task t st) = rl_active st" "rl_pending (end_task t st) = rl_pending st"
  "rl_url (end_task t st) = rl_url st" "rl_identity (end_task t st) = rl_identity st"
  "rl_timer (end_task t st) = rl_timer st" "rl_generation (end_task t st) = rl_generation st"
  "rl_disposed (end_task t st) = rl_disposed st" "rl_state (end_task t st) = rl_state st"
  "rl_clients (end_task t st) = rl_clients st" "rl_closed (end_task t st) = rl_closed st"
  "rl_log (end_task t st) = rl_log st" "rl_attempt (end_task t st) = rl_attempt st"
  "rl_initial (end_task t st) = rl_initial st"
  "rl_tasks (end_task t st) = filter (\<lambda>u. task_generation u \<noteq> task_generation t) (rl_tasks st)"
  by (simp_all add: end_task_def)

lemma current_end_task:
  "current_tasks (end_task t st) = filter (\<lambda>u. task_generation u \<noteq> task_generation t) (current_tasks st)"
  by (simp add: current_tasks_def conj_commute)

lemma distinct_concat_filter:
  "distinct (concat (map f xs)) \<Longrightarrow> distinct (concat (map f (filter P xs)))"
  by (induction xs) auto

lemma end_task_rest:
  "generations_ok st \<Longrightarrow> generations_ok (end_task t st)"
  "task_clients_ok st \<Longrightarrow> task_clients_ok (end_task t st)"
  "clients_ok (end_task t st) = clients_ok st" "started_ok (end_task t st) = started_ok st"
  by (auto simp: generations_ok_def task_clients_ok_def clients_ok_def started_ok_def
      distinct_map_filter distinct_concat_filter)

lemma current_end_leftover [simp]:
  "task_generation t \<noteq> rl_generation st \<Longrightarrow> current_tasks (end_task t st) = current_tasks st"
  by (auto simp: current_tasks_def intro: filter_cong)

lemma end_leftover:
  assumes "life_inv st" and "task_generation t \<noteq> rl_generation st"
  shows "life_inv (end_task t st)"
proof -
  from assms(1) obtain d where "driven_by d st" by (auto simp: life_inv_def driver_ok_def)
  then have "driven_by d (end_task t st)" using assms(2) by (simp add: driven_by_cong [of "end_task t st" st])
  with assms(1) show ?thesis by (simp add: life_inv_def end_task_rest driver_okI)
qed

lemma current_task_drives:
  assumes "life_inv st" and "t \<in> set (rl_tasks st)" and "task_generation t = rl_generation st"
  shows "driven_by (DrTask t) st"
proof -
  from assms(1) obtain d where d: "driven_by d st" by (auto simp: life_inv_def driver_ok_def)
  from assms(2, 3) have "t \<in> set (current_tasks st)" by (simp add: current_tasks_def)
  with d show ?thesis by (cases d) auto
qed

lemma relay_task_ofD: "relay_task_of g st = Some t \<Longrightarrow> t \<in> set (rl_tasks st) \<and> task_generation t = g"
  by (auto simp: relay_task_of_def dest: find_SomeD)

subsection \<open>Closing clients\<close>

lemma close_fields [simp]:
  "rl_active (close_candidate_once c st) = rl_active st" "rl_pending (close_candidate_once c st) = rl_pending st"
  "rl_url (close_candidate_once c st) = rl_url st" "rl_identity (close_candidate_once c st) = rl_identity st"
  "rl_timer (close_candidate_once c st) = rl_timer st" "rl_initial (close_candidate_once c st) = rl_initial st"
  "rl_generation (close_candidate_once c st) = rl_generation st" "rl_state (close_candidate_once c st) = rl_state st"
  "rl_disposed (close_candidate_once c st) = rl_disposed st" "rl_tasks (close_candidate_once c st) = rl_tasks st"
  "rl_clients (close_candidate_once c st) = rl_clients st" "rl_attempt (close_candidate_once c st) = rl_attempt st"
  "set (rl_closed (close_candidate_once c st)) = insert c (set (rl_closed st))"
  "current_tasks (close_candidate_once c st) = current_tasks st"
  by (auto simp: close_candidate_once_def List.member_iff current_tasks_def)

lemma driver_close [simp]: "driven_by d (close_candidate_once c st) = driven_by d st"
  by (rule driven_by_cong) simp_all

lemma close_rest:
  "generations_ok (close_candidate_once c st) = generations_ok st"
  "driver_ok (close_candidate_once c st) = driver_ok st"
  "started_ok (close_candidate_once c st) = started_ok st"
  "task_clients_ok st \<Longrightarrow> task_clients_ok (close_candidate_once c st)"
  by (auto simp: generations_ok_def driver_ok_def started_ok_def task_clients_ok_def)

lemma close_clients_ok:
  assumes "clients_ok st" and "c < rl_clients st" and "rl_active st \<noteq> Some c" and "rl_pending st \<noteq> Some c"
  shows "clients_ok (close_candidate_once c st)"
proof (cases "List.member (rl_closed st) c")
  case True
  with assms(1) show ?thesis by (simp add: close_candidate_once_def)
next
  case False
  have "rl_closed (close_candidate_once c st) = c # rl_closed st"
    "rl_log (close_candidate_once c st) = rl_log st @ [EfClose c]"
    using False by (simp_all add: close_candidate_once_def)
  with assms False show ?thesis by (auto simp: clients_ok_def List.member_iff)
qed

lemma close_keeps:
  assumes "life_inv st" and "c < rl_clients st" and "rl_active st \<noteq> Some c" and "rl_pending st \<noteq> Some c"
  shows "life_inv (close_candidate_once c st)"
  using assms by (simp add: life_inv_def close_rest close_clients_ok)

subsection \<open>Losing the connection\<close>

text \<open>
  \<open>scheduleReconnect\<close> makes every task a leftover and the timer the driver, whatever drove before.
\<close>

lemma schedule_fields [simp]:
  "rl_active (schedule_reconnect url st) = rl_active st" "rl_pending (schedule_reconnect url st) = rl_pending st"
  "rl_tasks (schedule_reconnect url st) = rl_tasks st" "rl_state (schedule_reconnect url st) = rl_state st"
  "rl_disposed (schedule_reconnect url st) = rl_disposed st" "rl_identity (schedule_reconnect url st) = rl_identity st"
  "rl_url (schedule_reconnect url st) = rl_url st" "rl_closed (schedule_reconnect url st) = rl_closed st"
  "rl_clients (schedule_reconnect url st) = rl_clients st" "rl_log (schedule_reconnect url st) = rl_log st"
  by (simp_all add: schedule_reconnect_def Let_def)

lemma schedule_started:
  assumes "rl_state st = RemoteStarted" and "started_ok st"
  shows "rl_generation (schedule_reconnect url st) = Suc (rl_generation st)"
    and "rl_timer (schedule_reconnect url st) = Some \<lparr> rt_url = url, rt_generation = Suc (rl_generation st),
      rt_delay = reconnect_backoffs_ms ! min (rl_attempt st) (length reconnect_backoffs_ms - 1) \<rparr>"
  using assms by (auto simp: schedule_reconnect_def Let_def started_ok_def)

lemma no_current_above: "generations_ok st \<Longrightarrow> rl_generation st < g
  \<Longrightarrow> rl_tasks st' = rl_tasks st \<Longrightarrow> rl_generation st' = g \<Longrightarrow> current_tasks st' = []"
  by (auto simp: current_tasks_def generations_ok_def filter_empty_conv)

lemma schedule_keeps:
  assumes ok: "generations_ok st" "started_ok st" "task_clients_ok st" "clients_ok st"
    and state: "rl_state st = RemoteStarted" "rl_active st = None" "rl_pending st = None" and url: "url \<noteq> []"
  shows "life_inv (schedule_reconnect url st)"
proof -
  let ?st = "schedule_reconnect url st"
  note timer = schedule_started [OF state(1) ok(2), of url]
  have "current_tasks ?st = []"
    by (rule no_current_above [OF ok(1), of "Suc (rl_generation st)"]) (simp_all add: timer)
  then have "driver_ok ?st"
    using state url timer backoff_bounds [of "rl_attempt st"]
    by (intro driver_okI [of "DrTimer (the (rl_timer ?st))"]) simp
  moreover have "generations_ok ?st" using ok(1) timer by (auto simp: generations_ok_def le_Suc_eq)
  moreover have "started_ok ?st" "task_clients_ok ?st" "clients_ok ?st"
    using ok by (simp_all add: started_ok_def task_clients_ok_def clients_ok_def)
  ultimately show ?thesis by (simp add: life_inv_def)
qed

lemma schedule_moves_on:
  "rl_state st = RemoteStarted \<Longrightarrow> started_ok st \<Longrightarrow> rl_generation st < rl_generation (schedule_reconnect url st)"
  by (simp add: schedule_started)

lemma rest_log [simp]:
  "generations_ok (log_effect e st) = generations_ok st" "started_ok (log_effect e st) = started_ok st"
  "task_clients_ok (log_effect e st) = task_clients_ok st"
  "closes_of [e] = [] \<Longrightarrow> clients_ok (log_effect e st) = clients_ok st"
  by (simp_all add: generations_ok_def started_ok_def task_clients_ok_def clients_ok_def)

lemma connection_failed_keeps:
  assumes "generations_ok st" "started_ok st" "task_clients_ok st" "clients_ok st"
    and "rl_active st = None" "rl_pending st = None" "url \<noteq> []" and "is_reconnect_current st g"
  shows "life_inv (connection_failed i g url st)"
    and "g < rl_generation (connection_failed i g url st)"
proof -
  from assms(8) have "rl_state st = RemoteStarted" "rl_generation st = g"
    by (auto simp: is_reconnect_current_def is_operation_current_def)
  with assms show "life_inv (connection_failed i g url st)" "g < rl_generation (connection_failed i g url st)"
    by (auto simp: connection_failed_def handle_connection_failure_def retry_reconnect_def schedule_started
        intro!: schedule_keeps)
qed

lemma connection_failed_leftover: "\<not> is_reconnect_current st g \<Longrightarrow> connection_failed i g url st = st"
  by (simp add: connection_failed_def handle_connection_failure_def retry_reconnect_def)

lemma close_event_keeps:
  assumes "life_inv st"
  shows "life_inv (on_relay_close c st)"
proof (cases "rl_active st = Some c \<and> rl_state st \<noteq> RemoteIdle")
  case False
  with assms show ?thesis by (auto simp: on_relay_close_def)
next
  case True
  let ?st = "log_effect EfState (log_effect EfDisconnected (st \<lparr> rl_active := None \<rparr>))"
  from True have started: "rl_state st = RemoteStarted" by (cases "rl_state st") auto
  with assms obtain url where url: "rl_url st = Some url" "url \<noteq> []" by (auto simp: life_inv_def started_ok_def)
  from assms obtain d where "driven_by d st" by (auto simp: life_inv_def driver_ok_def)
  with True have "rl_pending st = None" by (cases d) auto
  moreover have "generations_ok ?st" "started_ok ?st" "task_clients_ok ?st" "clients_ok ?st"
    using assms by (auto simp: life_defs)
  ultimately have "life_inv (schedule_reconnect url ?st)" using started url by (intro schedule_keeps) auto
  with True url show ?thesis by (simp add: on_relay_close_def Let_def)
qed

subsection \<open>The continuations\<close>

lemma current_only: "driven_by (DrTask t) st \<Longrightarrow> task_generation u = task_generation t
  \<Longrightarrow> current_tasks (end_task u st) = []"
  by (cases t) (auto simp: current_end_task)

lemma reconnect_current_iff:
  "life_inv st \<Longrightarrow> rl_state st = RemoteStarted \<Longrightarrow> is_reconnect_current st g \<longleftrightarrow> rl_generation st = g"
  by (auto simp: is_reconnect_current_def is_operation_current_def life_inv_def started_ok_def)

lemma reconnect_currentD: "is_reconnect_current st g \<Longrightarrow> rl_generation st = g \<and> rl_state st = RemoteStarted"
  by (simp add: is_reconnect_current_def is_operation_current_def)

lemma set_task_fields [simp]:
  "rl_active (set_task t st) = rl_active st" "rl_pending (set_task t st) = rl_pending st"
  "rl_url (set_task t st) = rl_url st" "rl_identity (set_task t st) = rl_identity st"
  "rl_timer (set_task t st) = rl_timer st" "rl_generation (set_task t st) = rl_generation st"
  "rl_disposed (set_task t st) = rl_disposed st" "rl_state (set_task t st) = rl_state st"
  "rl_clients (set_task t st) = rl_clients st" "rl_closed (set_task t st) = rl_closed st"
  "rl_log (set_task t st) = rl_log st" "rl_attempt (set_task t st) = rl_attempt st"
  by (simp_all add: set_task_def)

lemma set_task_generations: "map task_generation (rl_tasks (set_task t st)) = map task_generation (rl_tasks st)"
  by (simp add: set_task_def)

lemma generations_ok_alt: "generations_ok st \<longleftrightarrow> distinct (map task_generation (rl_tasks st))
    \<and> (\<forall>g \<in> set (map task_generation (rl_tasks st)). g \<le> rl_generation st)"
  by (simp add: generations_ok_def)

lemma set_task_generations_ok: "generations_ok (set_task t st) = generations_ok st"
  by (simp only: generations_ok_alt set_task_generations) simp

lemma current_set_task:
  "task_generation t = rl_generation st \<Longrightarrow> current_tasks st = [u] \<Longrightarrow> current_tasks (set_task t st) = [t]"
proof -
  assume g: "task_generation t = rl_generation st" and u: "current_tasks st = [u]"
  have "current_tasks (set_task t st)
      = map (\<lambda>u. if task_generation u = rl_generation st then t else u) (current_tasks st)"
    using g by (simp add: current_tasks_def set_task_def filter_map comp_def if_distrib cong: if_cong)
  moreover have "task_generation u = rl_generation st"
  proof -
    from u have "u \<in> set (current_tasks st)" by simp
    then show ?thesis by (simp add: current_tasks_def)
  qed
  ultimately show ?thesis using u by simp
qed

lemma map_other: "k \<notin> g ` set xs \<Longrightarrow> map (\<lambda>v. if g v = k then u else v) xs = xs"
  by (induction xs) auto

lemma set_task_split:
  assumes "t \<in> set (rl_tasks st)" and "generations_ok st" and "task_generation u = task_generation t"
  obtains xs ys where "rl_tasks st = xs @ t # ys" and "rl_tasks (set_task u st) = xs @ u # ys"
proof -
  from assms(1) obtain xs ys where tasks: "rl_tasks st = xs @ t # ys" by (auto simp: in_set_conv_decomp)
  from assms(2) tasks have "task_generation t \<notin> set (map task_generation xs)"
    "task_generation t \<notin> set (map task_generation ys)"
    by (simp_all add: generations_ok_def)
  then have "map (\<lambda>v. if task_generation v = task_generation u then u else v) xs = xs"
    "map (\<lambda>v. if task_generation v = task_generation u then u else v) ys = ys"
    using assms(3) by (simp_all add: map_other)
  then have "rl_tasks (set_task u st) = xs @ u # ys"
    using assms(3) by (simp add: set_task_def tasks)
  with tasks show ?thesis by (rule that)
qed

text \<open>The identity has arrived.\<close>

lemma identity_keeps:
  assumes inv: "life_inv st" and task: "TkIdentity g \<in> set (rl_tasks st)"
    and url: "\<And>key url. answer = Inr (key, url) \<Longrightarrow> url \<noteq> []"
  shows "life_inv (identity_loaded g answer st)"
proof -
  let ?t = "TkIdentity g"
  have ended: "life_inv (end_task ?t st)"
  proof (cases "rl_generation st = g")
    case False
    with end_leftover [OF inv, of ?t] show ?thesis by simp
  next
    case True
    then have "driven_by (DrTask ?t) st" by (intro current_task_drives [OF inv task]) simp
    then have "driver_ok (end_task ?t st)"
      using current_only [of ?t st ?t] by (intro driver_okI [of DrNone]) simp
    with inv show ?thesis by (simp add: life_inv_def end_task_rest)
  qed
  show ?thesis
  proof (cases "\<exists>key url. answer = Inr (key, url) \<and> is_operation_current st g")
    case False
    with ended show ?thesis by (auto simp: identity_loaded_def split: sum.splits)
  next
    case True
    then obtain key u where a: "answer = Inr (key, u)" and cur: "is_operation_current st g" by blast
    from cur have g: "rl_generation st = g" and live: "\<not> rl_disposed st"
      by (auto simp: is_operation_current_def)
    from g have d: "driven_by (DrTask ?t) st" by (intro current_task_drives [OF inv task]) simp
    let ?st1 = "log_effect (EfDescribe u) (log_effect EfState
              (st \<lparr> rl_identity := Some key, rl_url := Some u, rl_state := RemoteStarted \<rparr>))"
    let ?st = "set_task (TkOptions True g u key) ?st1"
    from d have "current_tasks ?st1 = [?t]" by (simp add: current_tasks_def)
    then have "current_tasks ?st = [TkOptions True g u key]"
      using g by (intro current_set_task) simp_all
    then have "driver_ok ?st" using d url [OF a] by (intro driver_okI [of "DrTask (TkOptions True g u key)"]) simp
    moreover have "generations_ok ?st"
      using inv by (simp add: set_task_generations_ok) (simp add: life_inv_def generations_ok_def)
    moreover have "started_ok ?st" using live url [OF a] by (simp add: started_ok_def)
    moreover have "task_clients_ok ?st"
    proof -
      obtain xs ys where "rl_tasks st = xs @ ?t # ys" "rl_tasks ?st = xs @ TkOptions True g u key # ys"
        using set_task_split [of ?t ?st1 "TkOptions True g u key"] inv task
        by (auto simp: life_inv_def generations_ok_def)
      with inv show ?thesis by (auto simp: life_inv_def task_clients_ok_def)
    qed
    ultimately have "life_inv ?st" using inv by (simp add: life_inv_def clients_ok_def)
    then show ?thesis using a cur by (simp add: identity_loaded_def)
  qed
qed

text \<open>The options are there: a candidate is created, unless the task is a leftover.\<close>

lemma options_keeps:
  assumes inv: "life_inv st" and task: "TkOptions i g url key \<in> set (rl_tasks st)"
  shows "life_inv (options_built i g url key ok st)"
proof (cases "is_reconnect_current st g")
  case False
  let ?t = "TkOptions i g url key"
  have left: "rl_generation st \<noteq> g"
  proof
    assume g: "rl_generation st = g"
    then have "driven_by (DrTask ?t) st" by (intro current_task_drives [OF inv task]) simp
    with g False inv show False by (simp add: reconnect_current_iff)
  qed
  with end_leftover [OF inv, of ?t] have "life_inv (end_task ?t st)" by simp
  with False show ?thesis by (simp add: options_built_def Let_def connection_failed_leftover)
next
  case True
  let ?t = "TkOptions i g url key"
  from True have g: "rl_generation st = g" by (simp add: reconnect_currentD)
  then have d: "driven_by (DrTask ?t) st" by (intro current_task_drives [OF inv task]) simp
  show ?thesis
  proof (cases ok)
    case False
    have "life_inv (connection_failed i g url st)" "g < rl_generation (connection_failed i g url st)"
      using inv d True by (intro connection_failed_keeps; simp add: life_inv_def)+
    then have "life_inv (end_task ?t (connection_failed i g url st))" by (intro end_leftover) simp_all
    with False show ?thesis by (simp add: options_built_def Let_def)
  next
    case ok: True
    let ?c = "rl_clients st"
    let ?u = "TkConnect i g url key ?c"
    let ?st1 = "st \<lparr> rl_clients := Suc ?c, rl_pending := Some ?c \<rparr>"
    let ?st = "set_task ?u ?st1"
    from d have "current_tasks ?st1 = [?t]" by (simp add: current_tasks_def)
    then have "current_tasks ?st = [?u]" using g by (intro current_set_task) simp_all
    then have "driver_ok ?st" using d by (intro driver_okI [of "DrTask ?u"]) simp
    moreover have "generations_ok ?st"
      using inv by (simp add: set_task_generations_ok) (simp add: life_inv_def generations_ok_def)
    moreover have "started_ok ?st" using inv by (simp add: life_inv_def started_ok_def)
    moreover have "task_clients_ok ?st"
    proof -
      obtain xs ys where split: "rl_tasks st = xs @ ?t # ys" "rl_tasks ?st = xs @ ?u # ys"
        using set_task_split [of ?t ?st1 ?u] inv task by (auto simp: life_inv_def generations_ok_def)
      have "\<And>c t. t \<in> set (rl_tasks st) \<Longrightarrow> c \<in> set (task_clients t) \<Longrightarrow> c \<in> set (rl_closed st) \<and> c < ?c"
        using inv d by (auto simp: life_inv_def task_clients_ok_def)
      with inv d split show ?thesis by (auto simp: life_inv_def task_clients_ok_def less_Suc_eq)
    qed
    moreover have "clients_ok ?st" using inv d by (auto simp: life_inv_def clients_ok_def less_Suc_eq)
    ultimately have "life_inv ?st" by (simp add: life_inv_def)
    with ok True d show ?thesis by (simp add: options_built_def Let_def)
  qed
qed

text \<open>The connection attempt has settled.\<close>

lemma clear_candidate_keeps:
  assumes "generations_ok st" "started_ok st" "task_clients_ok st" "clients_ok st"
    and "rl_pending st = Some c" and "rl_active st = None"
  shows "generations_ok (clear_candidate c st)" "started_ok (clear_candidate c st)"
    "task_clients_ok (clear_candidate c st)" "clients_ok (clear_candidate c st)"
    "rl_pending (clear_candidate c st) = None" "rl_active (clear_candidate c st) = None"
    "rl_generation (clear_candidate c st) = rl_generation st" "rl_tasks (clear_candidate c st) = rl_tasks st"
    "is_reconnect_current (clear_candidate c st) g = is_reconnect_current st g"
proof -
  let ?st = "st \<lparr> rl_pending := None \<rparr>"
  have clear: "clear_candidate c st = close_candidate_once c ?st" using assms(5) by (simp add: clear_candidate_def)
  have "clients_ok ?st" "c < rl_clients ?st" using assms by (simp_all add: clients_ok_def)
  then show "clients_ok (clear_candidate c st)" using assms(6) unfolding clear by (intro close_clients_ok) simp_all
  show "task_clients_ok (clear_candidate c st)"
    using assms(3, 5) unfolding clear by (auto simp: task_clients_ok_def)
  show "generations_ok (clear_candidate c st)" "started_ok (clear_candidate c st)"
    using assms(1, 2) unfolding clear by (simp_all add: generations_ok_def started_ok_def)
  show "rl_pending (clear_candidate c st) = None" "rl_active (clear_candidate c st) = None"
    "rl_generation (clear_candidate c st) = rl_generation st" "rl_tasks (clear_candidate c st) = rl_tasks st"
    "is_reconnect_current (clear_candidate c st) g = is_reconnect_current st g"
    using assms(6) unfolding clear by (simp_all add: is_reconnect_current_def is_operation_current_def)
qed

lemma distinct_concat_owner:
  "distinct (concat (map f xs)) \<Longrightarrow> a \<in> set xs \<Longrightarrow> b \<in> set xs \<Longrightarrow> c \<in> set (f a) \<Longrightarrow> c \<in> set (f b) \<Longrightarrow> a = b"
  by (induction xs) auto

lemma leftover_not_pending:
  assumes inv: "life_inv st" and task: "u \<in> set (rl_tasks st)" "c \<in> set (task_clients u)"
    and left: "task_generation u \<noteq> rl_generation st"
  shows "rl_pending st \<noteq> Some c"
proof
  assume p: "rl_pending st = Some c"
  from inv obtain d where "driven_by d st" by (auto simp: life_inv_def driver_ok_def)
  with p obtain t where t: "current_tasks st = [t]" "task_fits st t" by (cases d) auto
  with p have "c \<in> set (task_clients t)" by (cases t) auto
  moreover from t(1) have "t \<in> set (current_tasks st)" by simp
  then have "t \<in> set (rl_tasks st)" "task_generation t = rl_generation st" by (auto simp: current_tasks_def)
  ultimately show False using inv task left distinct_concat_owner [of task_clients "rl_tasks st" u t c]
    by (auto simp: life_inv_def task_clients_ok_def)
qed

lemma connect_keeps:
  assumes inv: "life_inv st" and task: "TkConnect i g url key c \<in> set (rl_tasks st)"
  shows "life_inv (connect_settled i g url key c ok st)"
proof (cases "is_reconnect_current st g")
  case False
  let ?t = "TkConnect i g url key c"
  have left: "rl_generation st \<noteq> g"
  proof
    assume g: "rl_generation st = g"
    then have "driven_by (DrTask ?t) st" by (intro current_task_drives [OF inv task]) simp
    with g False inv show False by (simp add: reconnect_current_iff)
  qed
  have pending: "rl_pending st \<noteq> Some c" using left by (intro leftover_not_pending [OF inv task]) auto
  from inv task have c: "c < rl_clients st" "rl_active st \<noteq> Some c"
    by (auto simp: life_inv_def task_clients_ok_def)
  show ?thesis
  proof (cases ok)
    case True
    have "life_inv (end_task ?t (close_candidate_once c st))"
      using close_keeps [OF inv c pending] left by (intro end_leftover) simp_all
    with True False show ?thesis by (simp add: connect_settled_def Let_def)
  next
    case failed: False
    with pending False have "connect_settled i g url key c ok st = end_task ?t st"
      by (simp add: connect_settled_def clear_candidate_def connection_failed_leftover)
    with end_leftover [OF inv, of ?t] left show ?thesis by simp
  qed
next
  case True
  let ?t = "TkConnect i g url key c"
  from True have g: "rl_generation st = g" by (simp add: reconnect_currentD)
  then have d: "driven_by (DrTask ?t) st" by (intro current_task_drives [OF inv task]) simp
  then have fits: "rl_pending st = Some c" "rl_active st = None" "url \<noteq> []" "rl_state st = RemoteStarted" by auto
  show ?thesis
  proof (cases ok)
    case False
    have parts: "generations_ok st" "started_ok st" "task_clients_ok st" "clients_ok st"
      using inv by (simp_all add: life_inv_def)
    note cleared = clear_candidate_keeps [OF parts fits(1, 2)]
    have "life_inv (connection_failed i g url (clear_candidate c st))"
      "g < rl_generation (connection_failed i g url (clear_candidate c st))"
      using cleared True fits(3) by (intro connection_failed_keeps; simp)+
    then have "life_inv (end_task ?t (connection_failed i g url (clear_candidate c st)))"
      by (intro end_leftover) simp_all
    with False show ?thesis by (simp add: connect_settled_def Let_def)
  next
    case ok: True
    let ?st1 = "st \<lparr> rl_pending := None, rl_active := Some c, rl_attempt := 0 \<rparr>"
    let ?st2 = "log_effect EfState (log_effect (EfConnected c i) ?st1)"
    let ?st = "end_task ?t ?st2"
    have "current_tasks ?st = []"
      using d g by (simp add: current_end_task) (simp add: current_tasks_def)
    then have "driver_ok ?st" using d by (intro driver_okI [of "DrConnection c"]) simp
    moreover have "generations_ok ?st"
      using inv by (intro end_task_rest) (simp add: life_inv_def generations_ok_def)
    moreover have "started_ok ?st" using inv by (simp add: life_inv_def started_ok_def)
    moreover have "task_clients_ok ?st"
    proof -
      have "v \<in> set (rl_tasks st) \<Longrightarrow> task_generation v \<noteq> g \<Longrightarrow> e \<in> set (task_clients v)
        \<Longrightarrow> e \<noteq> c \<and> e \<in> set (rl_closed st)" for v e
      proof -
        assume v: "v \<in> set (rl_tasks st)" "task_generation v \<noteq> g" "e \<in> set (task_clients v)"
        with g have "rl_pending st \<noteq> Some e" by (intro leftover_not_pending [OF inv]) auto
        with v inv fits(1) show "e \<noteq> c \<and> e \<in> set (rl_closed st)" by (auto simp: life_inv_def task_clients_ok_def)
      qed
      with inv show ?thesis by (auto simp: life_inv_def task_clients_ok_def distinct_concat_filter)
    qed
    moreover have "clients_ok ?st" using inv fits by (auto simp: life_inv_def clients_ok_def)
    ultimately have "life_inv ?st" by (simp add: life_inv_def)
    with ok True fits show ?thesis by (simp add: connect_settled_def Let_def)
  qed
qed

text \<open>The timer, and the calls from outside.\<close>

lemma timer_keeps:
  assumes inv: "life_inv st"
  shows "life_inv (timer_fires st)"
proof (cases "rl_timer st")
  case None
  with inv show ?thesis by (simp add: timer_fires_def)
next
  case (Some t)
  from inv obtain d where "driven_by d st" by (auto simp: life_inv_def driver_ok_def)
  with Some have d: "driven_by (DrTimer t) st" by (cases d) auto
  then have started: "rl_state st = RemoteStarted" by simp
  with inv obtain key where key: "rl_identity st = Some key" "\<not> rl_disposed st"
    by (auto simp: life_inv_def started_ok_def)
  let ?u = "TkOptions False (rt_generation t) (rt_url t) key"
  let ?st = "st \<lparr> rl_timer := None, rl_tasks := rl_tasks st @ [?u] \<rparr>"
  have fires: "timer_fires st = ?st"
    using Some key d by (simp add: timer_fires_def Let_def is_reconnect_current_def is_operation_current_def)
  have none: "\<forall>v \<in> set (rl_tasks st). task_generation v \<noteq> rl_generation st"
    using d by (simp add: current_tasks_def filter_empty_conv)
  have "current_tasks ?st = [?u]" using d by (simp add: current_tasks_def)
  then have "driver_ok ?st" using d key by (intro driver_okI [of "DrTask ?u"]) simp
  moreover have "generations_ok ?st" using inv d none by (auto simp: life_inv_def generations_ok_def)
  moreover have "started_ok ?st" "task_clients_ok ?st" "clients_ok ?st"
    using inv by (auto simp: life_inv_def started_ok_def task_clients_ok_def clients_ok_def)
  ultimately show ?thesis unfolding fires by (simp add: life_inv_def)
qed

lemma start_keeps:
  assumes inv: "life_inv st"
  shows "life_inv (start_relay is_open st)"
proof (cases "rl_initial st = None \<and> rl_state st = RemoteIdle")
  case False
  with inv show ?thesis by (auto simp: start_relay_def split: option.splits)
next
  case True
  let ?g = "Suc (rl_generation st)"
  let ?st = "st \<lparr> rl_generation := ?g, rl_tasks := rl_tasks st @ [TkIdentity ?g], rl_initial := Some ?g \<rparr>"
  from inv obtain d where "driven_by d st" by (auto simp: life_inv_def driver_ok_def)
  with True have idle: "rl_active st = None \<and> rl_timer st = None \<and> rl_pending st = None"
  proof (cases d)
    case (DrTask t)
    with \<open>driven_by d st\<close> True show ?thesis by (cases t) auto
  qed auto
  have old: "\<forall>t \<in> set (rl_tasks st). task_generation t \<le> rl_generation st"
    using inv by (simp add: life_inv_def generations_ok_def)
  then have "current_tasks ?st = [TkIdentity ?g]"
    by (auto simp: current_tasks_def filter_empty_conv)
  then have "driver_ok ?st" using True idle by (intro driver_okI [of "DrTask (TkIdentity ?g)"]) simp
  moreover have "generations_ok ?st" using inv old by (force simp: life_inv_def generations_ok_def)
  moreover have "started_ok ?st" "task_clients_ok ?st" "clients_ok ?st"
    using inv by (auto simp: life_inv_def started_ok_def task_clients_ok_def clients_ok_def)
  ultimately show ?thesis using True by (simp add: start_relay_def Let_def life_inv_def)
qed

lemma settle_keeps: "life_inv st \<Longrightarrow> life_inv (clear_initial_attempt st)"
proof -
  assume inv: "life_inv st"
  have "life_inv (st \<lparr> rl_initial := None \<rparr>)"
  proof -
    have "driver_ok (st \<lparr> rl_initial := None \<rparr>)"
      using inv by (simp add: life_inv_def driver_ok_def driven_by_cong [of "st \<lparr> rl_initial := None \<rparr>" st] current_tasks_def)
    with inv show ?thesis by (simp add: life_defs)
  qed
  with inv show ?thesis by (simp add: clear_initial_attempt_def split: option.split)
qed

text \<open>Stopping needs neither a driver nor that the lifecycle has not been disposed.\<close>

definition stopped :: "lifecycle \<Rightarrow> lifecycle" where
  "stopped st = st \<lparr> rl_generation := Suc (rl_generation st), rl_timer := None, rl_attempt := 0,
     rl_active := None, rl_pending := None, rl_url := None, rl_initial := None, rl_state := RemoteIdle \<rparr>"

definition close_opt :: "nat option \<Rightarrow> lifecycle \<Rightarrow> lifecycle" where
  "close_opt c st = (case c of Some a \<Rightarrow> close_candidate_once a st | None \<Rightarrow> st)"

lemma close_opt_fields [simp]:
  "rl_active (close_opt c st) = rl_active st" "rl_pending (close_opt c st) = rl_pending st"
  "rl_timer (close_opt c st) = rl_timer st" "rl_generation (close_opt c st) = rl_generation st"
  "rl_state (close_opt c st) = rl_state st" "rl_tasks (close_opt c st) = rl_tasks st"
  "rl_clients (close_opt c st) = rl_clients st"
  "set (rl_closed (close_opt c st)) = set (rl_closed st) \<union> set_option c"
  by (auto simp: close_opt_def split: option.split)

lemma close_opt_clients_ok:
  assumes "clients_ok st" and "rl_active st = None" and "rl_pending st = None"
    and "\<And>a. c = Some a \<Longrightarrow> a < rl_clients st"
  shows "clients_ok (close_opt c st)"
  using assms by (auto simp: close_opt_def intro!: close_clients_ok split: option.split)

lemma stop_relay_eq:
  "stop_relay st = log_effect EfState (log_effect EfDisconnected
     (close_opt (if rl_pending st = rl_active st then None else rl_pending st) (close_opt (rl_active st) (stopped st))))"
  by (auto simp: stop_relay_def stopped_def close_opt_def Let_def split: option.split)

lemma stop_keeps:
  assumes gens: "generations_ok st" and tasks: "task_clients_ok st" and clients: "clients_ok st"
  shows "life_inv (stop_relay st)"
proof -
  let ?p = "if rl_pending st = rl_active st then None else rl_pending st"
  let ?st = "close_opt ?p (close_opt (rl_active st) (stopped st))"
  have closed: "set (rl_closed ?st) = set (rl_closed st) \<union> set_option (rl_active st) \<union> set_option (rl_pending st)"
    by (auto simp: stopped_def)
  have "current_tasks ?st = []"
    by (rule no_current_above [OF gens, of "Suc (rl_generation st)"]) (simp_all add: stopped_def)
  then have "driver_ok ?st" by (intro driver_okI [of DrNone]) (simp add: stopped_def)
  moreover have "generations_ok ?st" using gens by (auto simp: generations_ok_def stopped_def)
  moreover have "started_ok ?st" by (simp add: started_ok_def stopped_def)
  moreover have "task_clients_ok ?st"
    using tasks closed unfolding task_clients_ok_def by (auto simp: stopped_def)
  moreover have "clients_ok ?st"
    using clients by (intro close_opt_clients_ok) (auto simp: clients_ok_def stopped_def split: if_splits)
  ultimately show ?thesis unfolding stop_relay_eq by (simp add: life_inv_def)
qed

section \<open>Every run keeps the invariant\<close>

text \<open>\<open>resolveRelayUrl\<close> never answers an empty URL: it falls back to a default one.\<close>

fun lifecycle_adm :: "lifecycle \<Rightarrow> relay_event \<Rightarrow> bool" where
  "lifecycle_adm st (LcIdentity g answer) = (case answer of Inr (key, url) \<Rightarrow> url \<noteq> [] | Inl _ \<Rightarrow> True)"
| "lifecycle_adm st _ = True"

lemma relay_step_keeps:
  assumes inv: "life_inv st" and adm: "lifecycle_adm st e"
  shows "life_inv (relay_step st e)"
proof (cases e)
  case (LcIdentity g answer)
  show ?thesis
  proof (cases "\<exists>h. relay_task_of g st = Some (TkIdentity h)")
    case True
    then have "TkIdentity g \<in> set (rl_tasks st)" "\<exists>h. relay_task_of g st = Some (TkIdentity h)"
      by (auto dest: relay_task_ofD)
    moreover have "\<And>key url. answer = Inr (key, url) \<Longrightarrow> url \<noteq> []" using adm LcIdentity by auto
    ultimately show ?thesis using identity_keeps [OF inv, of g answer] LcIdentity by auto
  next
    case False
    with inv LcIdentity show ?thesis by (auto split: option.split relay_task.split)
  qed
next
  case (LcOptions g ok)
  show ?thesis
  proof (cases "\<exists>i h url key. relay_task_of g st = Some (TkOptions i h url key)")
    case True
    then obtain i h url key where t: "relay_task_of g st = Some (TkOptions i h url key)" by blast
    then have "TkOptions i g url key \<in> set (rl_tasks st)" by (auto dest: relay_task_ofD)
    from options_keeps [OF inv this] LcOptions t show ?thesis by simp
  next
    case False
    with inv LcOptions show ?thesis by (auto split: option.split relay_task.split)
  qed
next
  case (LcConnect g ok)
  show ?thesis
  proof (cases "\<exists>i h url key c. relay_task_of g st = Some (TkConnect i h url key c)")
    case True
    then obtain i h url key c where t: "relay_task_of g st = Some (TkConnect i h url key c)" by blast
    then have "TkConnect i g url key c \<in> set (rl_tasks st)" by (auto dest: relay_task_ofD)
    from connect_keeps [OF inv this] LcConnect t show ?thesis by simp
  next
    case False
    with inv LcConnect show ?thesis by (auto split: option.split relay_task.split)
  qed
next
  case LcStop
  from inv have "generations_ok st" "task_clients_ok st" "clients_ok st" by (simp_all add: life_inv_def)
  with LcStop show ?thesis by (simp add: stop_keeps)
next
  case LcShutdown
  from inv have "generations_ok (set_disposed True st)" "task_clients_ok (set_disposed True st)"
    "clients_ok (set_disposed True st)"
    by (simp_all add: life_inv_def generations_ok_def task_clients_ok_def clients_ok_def set_disposed_def)
  with LcShutdown show ?thesis by (simp add: stop_keeps)
qed (use inv in \<open>simp_all add: start_keeps settle_keeps timer_keeps close_event_keeps\<close>)

interpretation relay: invariant_machine relay_step lifecycle_adm life_inv
  by unfold_locales (rule relay_step_keeps)

section \<open>What the lifecycle promises\<close>

subsection \<open>A started lifecycle always finds its way back\<close>

lemma find_current:
  "current_tasks st = [t] \<Longrightarrow> relay_task_of (rl_generation st) st = Some t"
proof -
  assume "current_tasks st = [t]"
  moreover have "find P xs = (case filter P xs of [] \<Rightarrow> None | x # _ \<Rightarrow> Some x)" for P and xs :: "relay_task list"
    by (induction xs) auto
  ultimately show ?thesis by (simp add: relay_task_of_def current_tasks_def)
qed

lemma connect_recovers:
  assumes "driven_by (DrTask (TkConnect i g url key c)) st" and "rl_generation st = g" and "is_reconnect_current st g"
  shows "rl_active (relay_step st (LcConnect g True)) = Some c"
  using assms find_current [of st "TkConnect i g url key c"] by (simp add: connect_settled_def Let_def)

lemma options_recovers:
  assumes "driven_by (DrTask (TkOptions i g url key)) st" and "rl_generation st = g" and "is_reconnect_current st g"
  shows "driven_by (DrTask (TkConnect i g url key (rl_clients st))) (relay_step st (LcOptions g True))"
    and "rl_generation (relay_step st (LcOptions g True)) = g"
    and "is_reconnect_current (relay_step st (LcOptions g True)) g"
proof -
  let ?u = "TkConnect i g url key (rl_clients st)"
  let ?st1 = "st \<lparr> rl_clients := Suc (rl_clients st), rl_pending := Some (rl_clients st) \<rparr>"
  have step: "relay_step st (LcOptions g True) = set_task ?u ?st1"
    using assms find_current [of st "TkOptions i g url key"] by (simp add: options_built_def Let_def)
  have "current_tasks ?st1 = [TkOptions i g url key]" using assms(1) by (simp add: current_tasks_def)
  then have "current_tasks (set_task ?u ?st1) = [?u]" using assms(2) by (intro current_set_task) simp_all
  then show "driven_by (DrTask ?u) (relay_step st (LcOptions g True))" using assms(1) unfolding step by simp
  show "rl_generation (relay_step st (LcOptions g True)) = g" "is_reconnect_current (relay_step st (LcOptions g True)) g"
    using assms(2, 3) unfolding step by (simp_all add: is_reconnect_current_def is_operation_current_def)
qed

text \<open>
  The three answers that bring a connection about. Where the lifecycle has got past one of them,
  it is no event.
\<close>

definition recovery :: "lifecycle \<Rightarrow> relay_event list" where
  "recovery st = [LcTimer, LcOptions (rl_generation st) True, LcConnect (rl_generation st) True]"

lemma recovery_from_options:
  assumes "driven_by (DrTask (TkOptions i g url key)) st" and "rl_generation st = g" and "is_reconnect_current st g"
  shows "rl_active (run relay_step st [LcOptions g True, LcConnect g True]) = Some (rl_clients st)"
  using connect_recovers [OF options_recovers [OF assms]] by simp

lemma recovery_connects:
  assumes inv: "life_inv st" and started: "rl_state st = RemoteStarted" and lost: "rl_active st = None"
  shows "rl_active (run relay_step st (recovery st)) \<noteq> None"
proof -
  let ?g = "rl_generation st"
  from inv started have cur: "is_reconnect_current st ?g" by (simp add: reconnect_current_iff)
  from inv obtain d where d: "driven_by d st" by (auto simp: life_inv_def driver_ok_def)
  show ?thesis
  proof (cases d)
    case (DrTimer t)
    from inv started obtain key where key: "rl_identity st = Some key" by (auto simp: life_inv_def started_ok_def)
    let ?st = "timer_fires st"
    from d DrTimer key cur have st: "?st = st \<lparr> rl_timer := None, rl_tasks := rl_tasks st @ [TkOptions False ?g (rt_url t) key] \<rparr>"
      by (simp add: timer_fires_def Let_def is_reconnect_current_def is_operation_current_def)
    have "current_tasks ?st = [TkOptions False ?g (rt_url t) key]"
      using d DrTimer unfolding st by (simp add: current_tasks_def)
    then have "driven_by (DrTask (TkOptions False ?g (rt_url t) key)) ?st"
      using d DrTimer key started unfolding st by simp
    moreover have "rl_generation ?st = ?g" "is_reconnect_current ?st ?g"
      using cur unfolding st by (simp_all add: is_reconnect_current_def is_operation_current_def)
    ultimately show ?thesis using recovery_from_options [of False ?g "rt_url t" key ?st]
      by (simp add: recovery_def)
  next
    case (DrTask t)
    with d have "rl_timer st = None" and only: "current_tasks st = [t]" by auto
    then have timer: "timer_fires st = st" by (simp add: timer_fires_def)
    from only have "t \<in> set (current_tasks st)" by simp
    then have g: "task_generation t = ?g" by (simp add: current_tasks_def)
    show ?thesis
    proof (cases t)
      case (TkIdentity h)
      with d DrTask started show ?thesis by simp
    next
      case (TkOptions i h url key)
      with g d DrTask recovery_from_options [of i ?g url key st] cur timer show ?thesis by (simp add: recovery_def)
    next
      case (TkConnect i h url key c)
      with g d DrTask have dc: "driven_by (DrTask (TkConnect i ?g url key c)) st" by simp
      have "relay_step st (LcOptions ?g True) = st"
        using find_current [OF only] TkConnect by simp
      then have "run relay_step st (recovery st) = relay_step st (LcConnect ?g True)"
        by (simp add: recovery_def timer)
      with connect_recovers [OF dc refl cur] show ?thesis by simp
    qed
  qed (use d started lost in simp_all)
qed

text \<open>
  C13: the connection is never given up. After any run, a started lifecycle that has no connection
  has a timer running, of one to thirty seconds, or an attempt of its current generation under
  way; and three events, the timer, the options and a successful connect, give it a connection
  again, whatever stale attempts, closes and restarts lie behind it.
\<close>

theorem reconnect_never_lost:
  assumes "trace_ok relay_step lifecycle_adm new_lifecycle es"
    and "st = run relay_step new_lifecycle es"
    and "rl_state st = RemoteStarted" and "rl_active st = None"
  shows "((\<exists>t. rl_timer st = Some t \<and> rt_generation t = rl_generation st \<and> 1000 \<le> rt_delay t \<and> rt_delay t \<le> 30000)
        \<or> (\<exists>t \<in> set (rl_tasks st). task_generation t = rl_generation st))
      \<and> rl_active (run relay_step st (recovery st)) \<noteq> None"
proof -
  have inv: "life_inv st" using relay.run_keeps [OF life_inv_new assms(1)] assms(2) by simp
  then obtain d where d: "driven_by d st" by (auto simp: life_inv_def driver_ok_def)
  have "(\<exists>t. rl_timer st = Some t \<and> rt_generation t = rl_generation st \<and> 1000 \<le> rt_delay t \<and> rt_delay t \<le> 30000)
      \<or> current_tasks st \<noteq> []"
    using d assms(3, 4) by (cases d) auto
  with recovery_connects [OF inv assms(3, 4)] show ?thesis by (auto simp: current_tasks_def filter_empty_conv)
qed

definition lost_run :: "relay_event list" where
  "lost_run = [LcStart (\<lambda>_. True), LcIdentity 1 (Inr (7, ''https://relay'')), LcOptions 1 True, LcConnect 1 True,
     LcSettle, LcClose 0, LcTimer, LcOptions 2 False]"

lemma reconnect_never_lost_witness:
  "rl_timer (run relay_step new_lifecycle lost_run)
      = Some \<lparr> rt_url = ''https://relay'', rt_generation = 3, rt_delay = 2000 \<rparr>
   \<and> rl_active (run relay_step (run relay_step new_lifecycle lost_run)
        (recovery (run relay_step new_lifecycle lost_run))) \<noteq> None"
proof -
  have ok: "trace_ok relay_step lifecycle_adm new_lifecycle lost_run" by code_simp
  have st: "rl_state (run relay_step new_lifecycle lost_run) = RemoteStarted"
    "rl_active (run relay_step new_lifecycle lost_run) = None" by code_simp+
  have "rl_timer (run relay_step new_lifecycle lost_run)
      = Some \<lparr> rt_url = ''https://relay'', rt_generation = 3, rt_delay = 2000 \<rparr>" by code_simp
  with reconnect_never_lost [OF ok refl st] show ?thesis by blast
qed

subsection \<open>No connection is leaked\<close>

text \<open>Every client is in use, has been closed, or was closed by the Relay.\<close>

definition accounted :: "nat set \<Rightarrow> lifecycle \<Rightarrow> bool" where
  "accounted gone st \<longleftrightarrow> (\<forall>c < rl_clients st.
     rl_active st = Some c \<or> rl_pending st = Some c \<or> c \<in> set (rl_closed st) \<or> c \<in> gone)"

fun closed_by :: "relay_event \<Rightarrow> nat set" where
  "closed_by (LcClose c) = {c}"
| "closed_by _ = {}"

lemma accounted_mono: "accounted gone st \<Longrightarrow> gone \<subseteq> gone' \<Longrightarrow> accounted gone' st"
  by (auto simp: accounted_def)

lemma accounted_same:
  "rl_active st' = rl_active st \<Longrightarrow> rl_pending st' = rl_pending st \<Longrightarrow> rl_clients st' = rl_clients st
   \<Longrightarrow> set (rl_closed st) \<subseteq> set (rl_closed st') \<Longrightarrow> accounted gone st \<Longrightarrow> accounted gone st'"
  by (auto simp: accounted_def)

lemma accounted_cleared: "accounted gone st \<Longrightarrow> accounted gone (clear_candidate c st)"
  by (auto simp: accounted_def clear_candidate_def)

lemma accounted_failed [simp]: "accounted gone (connection_failed i g url st) = accounted gone st"
  by (auto simp: accounted_def connection_failed_def handle_connection_failure_def retry_reconnect_def)

lemma accounted_ended [simp]: "accounted gone (end_task t st) = accounted gone st"
  by (auto simp: accounted_def)

lemma accounted_logged [simp]: "accounted gone (log_effect e st) = accounted gone st"
  by (auto simp: accounted_def)

lemma accounted_closed: "accounted gone st \<Longrightarrow> accounted gone (close_candidate_once c st)"
  by (auto simp: accounted_def)

lemma accounted_stop: "accounted gone st \<Longrightarrow> accounted gone (stop_relay st)"
  unfolding stop_relay_eq by (auto simp: accounted_def stopped_def)

lemma accounted_connected:
  assumes inv: "life_inv st" and task: "TkConnect i g url key c \<in> set (rl_tasks st)" and acc: "accounted gone st"
  shows "accounted gone (connect_settled i g url key c ok st)"
proof (cases "ok \<and> is_reconnect_current st g \<and> rl_pending st = Some c")
  case False
  with acc show ?thesis by (auto simp: connect_settled_def Let_def accounted_closed accounted_cleared)
next
  case True
  then have "driven_by (DrTask (TkConnect i g url key c)) st"
    by (intro current_task_drives [OF inv task]) (auto dest: reconnect_currentD)
  with True acc show ?thesis by (auto simp: connect_settled_def Let_def accounted_def)
qed

lemma accounted_options:
  assumes inv: "life_inv st" and task: "TkOptions i g url key \<in> set (rl_tasks st)" and acc: "accounted gone st"
  shows "accounted gone (options_built i g url key ok st)"
proof (cases "ok \<and> is_reconnect_current st g")
  case False
  with acc show ?thesis by (auto simp: options_built_def Let_def)
next
  case True
  then have "driven_by (DrTask (TkOptions i g url key)) st"
    by (intro current_task_drives [OF inv task]) (auto dest: reconnect_currentD)
  with True acc show ?thesis by (auto simp: options_built_def Let_def accounted_def less_Suc_eq)
qed

lemma accounted_close_event: "accounted gone st \<Longrightarrow> accounted (insert c gone) (on_relay_close c st)"
  by (auto simp: on_relay_close_def Let_def accounted_def split: option.split)

lemma accounted_step:
  assumes inv: "life_inv st" and acc: "accounted gone st"
  shows "accounted (gone \<union> closed_by e) (relay_step st e)"
proof (cases e)
  case (LcStart is_open)
  from acc show ?thesis unfolding LcStart
    by (simp add: start_relay_def Let_def split: option.split) (simp add: accounted_def)
next
  case LcSettle
  from acc show ?thesis unfolding LcSettle
    by (simp add: clear_initial_attempt_def split: option.split) (simp add: accounted_def)
next
  case (LcIdentity g answer)
  from acc show ?thesis unfolding LcIdentity
    by (auto simp: identity_loaded_def accounted_def split: option.split relay_task.split sum.split)
next
  case (LcOptions g ok)
  show ?thesis
  proof (cases "\<exists>i h url key. relay_task_of g st = Some (TkOptions i h url key)")
    case True
    then obtain i h url key where t: "relay_task_of g st = Some (TkOptions i h url key)" by blast
    then have "TkOptions i g url key \<in> set (rl_tasks st)" by (auto dest: relay_task_ofD)
    from accounted_options [OF inv this acc] LcOptions t show ?thesis by simp
  next
    case False
    with acc LcOptions show ?thesis by (auto split: option.split relay_task.split)
  qed
next
  case (LcConnect g ok)
  show ?thesis
  proof (cases "\<exists>i h url key c. relay_task_of g st = Some (TkConnect i h url key c)")
    case True
    then obtain i h url key c where t: "relay_task_of g st = Some (TkConnect i h url key c)" by blast
    then have "TkConnect i g url key c \<in> set (rl_tasks st)" by (auto dest: relay_task_ofD)
    from accounted_connected [OF inv this acc] LcConnect t show ?thesis by simp
  next
    case False
    with acc LcConnect show ?thesis by (auto split: option.split relay_task.split)
  qed
next
  case LcTimer
  from acc show ?thesis unfolding LcTimer
    by (auto simp: timer_fires_def Let_def accounted_def split: option.split)
next
  case (LcClose c)
  with accounted_close_event [OF acc] show ?thesis by simp
next
  case LcStop
  with accounted_stop [OF acc] show ?thesis by simp
next
  case LcShutdown
  from acc have "accounted gone (set_disposed True st)" by (simp add: accounted_def set_disposed_def)
  with LcShutdown accounted_stop show ?thesis by simp
qed

lemma accounted_run:
  "life_inv st \<Longrightarrow> accounted gone st \<Longrightarrow> trace_ok relay_step lifecycle_adm st es
   \<Longrightarrow> accounted (gone \<union> \<Union> (closed_by ` set es)) (run relay_step st es)"
proof (induction es arbitrary: st gone)
  case (Cons e es)
  then have "life_inv (relay_step st e)" "accounted (gone \<union> closed_by e) (relay_step st e)"
    by (auto intro: relay_step_keeps accounted_step)
  with Cons.IH [of "relay_step st e" "gone \<union> closed_by e"] Cons.prems show ?case by (simp add: Un_assoc)
qed simp

lemma closed_by_run: "c \<in> \<Union> (closed_by ` set es) \<longleftrightarrow> LcClose c \<in> set es"
proof -
  have "c \<in> closed_by e \<longleftrightarrow> e = LcClose c" for e by (cases e) auto
  then show ?thesis by auto
qed

lemma closes_of_set: "c \<in> set (closes_of es) \<longleftrightarrow> EfClose c \<in> set es"
  by (induction es rule: closes_of.induct) auto

lemma closes_of_count: "count_list es (EfClose c) = count_list (closes_of es) c"
  by (induction es rule: closes_of.induct) auto

lemma distinct_count: "distinct xs \<Longrightarrow> count_list xs c \<le> 1"
  by (induction xs) (auto simp: count_list_0_iff)

text \<open>
  C14: no connection is leaked and none is closed twice. After any run, every client the lifecycle
  has created is the active one, the one being connected, one that it has closed, or one whose
  close the Relay reported; it calls close on a client at most once, and never on the one in use.
  So after a stop nothing stays open.
\<close>

theorem clients_accounted:
  assumes "trace_ok relay_step lifecycle_adm new_lifecycle es"
    and "st = run relay_step new_lifecycle es" and "c < rl_clients st"
  shows "(rl_active st = Some c \<or> rl_pending st = Some c \<or> EfClose c \<in> set (rl_log st) \<or> LcClose c \<in> set es)
      \<and> count_list (rl_log st) (EfClose c) \<le> 1
      \<and> (rl_active st = Some c \<or> rl_pending st = Some c \<longrightarrow> EfClose c \<notin> set (rl_log st))
      \<and> rl_active (stop_relay st) = None \<and> rl_pending (stop_relay st) = None"
proof -
  have inv: "life_inv st" using relay.run_keeps [OF life_inv_new assms(1)] assms(2) by simp
  then have closes: "closes_of (rl_log st) = rev (rl_closed st)" "distinct (rl_closed st)"
    and used: "rl_active st = Some c \<or> rl_pending st = Some c \<Longrightarrow> c \<notin> set (rl_closed st)"
    by (auto simp: life_inv_def clients_ok_def)
  have "accounted {} new_lifecycle" by (simp add: accounted_def new_lifecycle_def)
  from accounted_run [OF life_inv_new this assms(1)]
  have acc: "rl_active st = Some c \<or> rl_pending st = Some c \<or> c \<in> set (rl_closed st) \<or> LcClose c \<in> set es"
    using assms(2, 3) by (auto simp: accounted_def simp flip: closed_by_run)
  have log: "EfClose c \<in> set (rl_log st) \<longleftrightarrow> c \<in> set (rl_closed st)"
    using closes(1) by (simp flip: closes_of_set)
  have "count_list (rl_closed st) c \<le> 1" using closes(2) by (rule distinct_count)
  then have "count_list (rl_log st) (EfClose c) \<le> 1" using closes(1) by (simp add: closes_of_count)
  with acc log used show ?thesis by (auto simp: stop_relay_eq stopped_def)
qed

text \<open>A stop while the first connection is being set up: its late success is closed, once.\<close>

definition stopped_run :: "relay_event list" where
  "stopped_run = [LcStart (\<lambda>_. True), LcIdentity 1 (Inr (7, ''https://relay'')), LcOptions 1 True, LcStop,
     LcStart (\<lambda>_. True), LcConnect 1 True]"

lemma clients_accounted_witness:
  "rl_log (run relay_step new_lifecycle stopped_run)
      = [EfState, EfDescribe ''https://relay'', EfClose 0, EfDisconnected, EfState]
   \<and> rl_active (run relay_step new_lifecycle stopped_run) = None
   \<and> count_list (rl_log (run relay_step new_lifecycle stopped_run)) (EfClose 0) \<le> 1"
proof -
  have ok: "trace_ok relay_step lifecycle_adm new_lifecycle stopped_run" by code_simp
  have c: "0 < rl_clients (run relay_step new_lifecycle stopped_run)" by code_simp
  have "rl_log (run relay_step new_lifecycle stopped_run)
      = [EfState, EfDescribe ''https://relay'', EfClose 0, EfDisconnected, EfState]
    \<and> rl_active (run relay_step new_lifecycle stopped_run) = None" by code_simp
  with clients_accounted [OF ok refl c] show ?thesis by blast
qed

end
