(* ===== verification/SessionState.thy ===== *)
theory SessionState
  imports Json
begin

text \<open>
  \<open>pi-extension/src/protocol/v2/session_state.ts\<close>: the channels that completed the
  \<open>session_hello\<close> handshake and the idempotency records of user messages, a bounded map
  with a time to live. Every reading of the clock is an argument of the operation, in the
  order in which the code reads it.
\<close>

section \<open>State\<close>

datatype idem_status = Received | Queued | Accepted | Committed | UnknownDelivery

record channel_state =
  ch_sender :: string
  ch_channel :: string
  ch_ready :: bool
  ch_last_seen :: int

record idem_request =
  rq_sender :: string
  rq_client :: string
  rq_payload :: json

record idem_record =
  ir_key :: string
  ir_generation :: string
  ir_sender :: string
  ir_client :: string
  ir_fingerprint :: string
  ir_status :: idem_status
  ir_message_id :: "string option"
  ir_group_id :: "string option"
  ir_touched :: int

datatype begin_result =
    BeginNew idem_record
  | BeginReplay idem_record
  | BeginConflict idem_record

record session_state =
  ss_generation :: string
  ss_max :: nat
  ss_ttl :: int
  ss_channels :: "(string, channel_state) js_map"
  ss_records :: "(string, idem_record) js_map"

section \<open>Fingerprints\<close>

text \<open>\<open>canonicalize\<close>: object keys sorted by code units, non-finite numbers as \<open>null\<close>.\<close>

fun canonicalize :: "json \<Rightarrow> json" where
  "canonicalize JNull = JNull"
| "canonicalize (JBool b) = JBool b"
| "canonicalize (JStr s) = JStr s"
| "canonicalize (JNum n) = (if finite_number n then JNum n else JNull)"
| "canonicalize (JArr js) = JArr (map canonicalize js)"
| "canonicalize (JObj ms) =
     JObj (enumerate_members (sort_key fst (map (\<lambda>(k, v). (k, canonicalize v)) ms)))"

text \<open>\<open>sha256\<close> is the digest of \<open>node:crypto\<close>, in hexadecimal.\<close>

definition fingerprint_payload :: "(string \<Rightarrow> string) \<Rightarrow> json \<Rightarrow> string" where
  "fingerprint_payload sha256 v = sha256 (stringify (canonicalize v))"

section \<open>Operations\<close>

definition nul :: char where
  "nul = CHR 0x00"

definition record_key :: "session_state \<Rightarrow> string \<Rightarrow> string \<Rightarrow> string" where
  "record_key st sender client = ss_generation st @ nul # sender @ nul # client"

definition channel_key :: "string \<Rightarrow> string \<Rightarrow> string" where
  "channel_key sender channel = sender @ nul # channel"

definition valid_id :: "string \<Rightarrow> bool" where
  "valid_id v \<longleftrightarrow> v \<noteq> [] \<and> length v \<le> 256"

definition assert_id :: "string \<Rightarrow> string \<Rightarrow> (string, unit) result" where
  "assert_id v name = (if v = [] \<or> 256 < length v then Inl (name @ '' is invalid'') else Inr ())"

definition new_session_state ::
  "string \<Rightarrow> int option \<Rightarrow> int option \<Rightarrow> (string, session_state) result" where
  "new_session_state generation max_entries ttl_ms =
     (if generation = [] then Inl ''generation is required''
      else Inr \<lparr> ss_generation = generation,
                 ss_max = nat (max 1 (case max_entries of None \<Rightarrow> 512 | Some n \<Rightarrow> n)),
                 ss_ttl = max 1 (case ttl_ms of None \<Rightarrow> 600000 | Some n \<Rightarrow> n),
                 ss_channels = [], ss_records = [] \<rparr>)"

definition set_generation ::
  "session_state \<Rightarrow> string \<Rightarrow> session_state \<times> (string, unit) result" where
  "set_generation st generation =
     (if generation = [] then (st, Inl ''generation is required'')
      else if generation = ss_generation st then (st, Inr ())
      else (st\<lparr>ss_generation := generation, ss_records := []\<rparr>, Inr ()))"

definition hello ::
  "session_state \<Rightarrow> string \<Rightarrow> string \<Rightarrow> int \<Rightarrow> session_state \<times> (string, channel_state) result" where
  "hello st sender channel now =
     (case assert_id sender ''senderRef'' of Inl e \<Rightarrow> (st, Inl e) | Inr _ \<Rightarrow>
      (case assert_id channel ''channelId'' of Inl e \<Rightarrow> (st, Inl e) | Inr _ \<Rightarrow>
       let ch = \<lparr> ch_sender = sender, ch_channel = channel, ch_ready = True, ch_last_seen = now \<rparr> in
       (st\<lparr>ss_channels := jm_set (channel_key sender channel) ch (ss_channels st)\<rparr>, Inr ch)))"

definition get_channel :: "session_state \<Rightarrow> string \<Rightarrow> string \<Rightarrow> channel_state option" where
  "get_channel st sender channel = jm_get (ss_channels st) (channel_key sender channel)"

definition touch ::
  "session_state \<Rightarrow> string \<Rightarrow> string \<Rightarrow> int \<Rightarrow> session_state \<times> channel_state option" where
  "touch st sender channel now =
     (case get_channel st sender channel of
        None \<Rightarrow> (st, None)
      | Some cur \<Rightarrow>
          let ch = cur\<lparr>ch_last_seen := now\<rparr> in
          (st\<lparr>ss_channels := jm_set (channel_key sender channel) ch (ss_channels st)\<rparr>, Some ch))"

definition remove_channel :: "session_state \<Rightarrow> string \<Rightarrow> string \<Rightarrow> session_state" where
  "remove_channel st sender channel =
     st\<lparr>ss_channels := jm_delete (channel_key sender channel) (ss_channels st)\<rparr>"

definition remove_owner :: "session_state \<Rightarrow> string \<Rightarrow> session_state" where
  "remove_owner st sender =
     st\<lparr>ss_channels := filter (\<lambda>(k, c). ch_sender c \<noteq> sender) (ss_channels st),
        ss_records := filter (\<lambda>(k, r). ir_sender r \<noteq> sender) (ss_records st)\<rparr>"

text \<open>\<open>pruneCapacity\<close>: while there are too many records, the oldest goes.\<close>

fun prune_capacity :: "nat \<Rightarrow> (string, idem_record) js_map \<Rightarrow> (string, idem_record) js_map" where
  "prune_capacity n [] = []"
| "prune_capacity n (r # rs) = (if n < length (r # rs) then prune_capacity n rs else r # rs)"

definition expire :: "int \<Rightarrow> int \<Rightarrow> (string, idem_record) js_map \<Rightarrow> (string, idem_record) js_map" where
  "expire ttl now rs = filter (\<lambda>(k, r). \<not> ttl \<le> now - ir_touched r) rs"

definition prune :: "session_state \<Rightarrow> int \<Rightarrow> session_state" where
  "prune st now =
     st\<lparr>ss_records := prune_capacity (ss_max st) (expire (ss_ttl st) now (ss_records st))\<rparr>"

definition begin_request ::
  "(string \<Rightarrow> string) \<Rightarrow> session_state \<Rightarrow> idem_request \<Rightarrow> int \<Rightarrow> int
     \<Rightarrow> session_state \<times> (string, begin_result) result" where
  "begin_request sha256 st0 rq t0 t1 =
     (let st = prune st0 t0 in
      case assert_id (rq_sender rq) ''senderRef'' of Inl e \<Rightarrow> (st, Inl e) | Inr _ \<Rightarrow>
      (case assert_id (rq_client rq) ''clientRequestId'' of Inl e \<Rightarrow> (st, Inl e) | Inr _ \<Rightarrow>
       let key = record_key st (rq_sender rq) (rq_client rq);
           fp = fingerprint_payload sha256 (rq_payload rq) in
       (case jm_get (ss_records st) key of
          Some existing \<Rightarrow>
            let r = existing\<lparr>ir_touched := t1\<rparr> in
            (st\<lparr>ss_records := jm_set key r (jm_delete key (ss_records st))\<rparr>,
             Inr (if ir_fingerprint r = fp then BeginReplay r else BeginConflict r))
        | None \<Rightarrow>
            let r = \<lparr> ir_key = key, ir_generation = ss_generation st, ir_sender = rq_sender rq,
                      ir_client = rq_client rq, ir_fingerprint = fp, ir_status = Received,
                      ir_message_id = None, ir_group_id = None, ir_touched = t1 \<rparr> in
            (st\<lparr>ss_records := prune_capacity (ss_max st) (jm_set key r (ss_records st))\<rparr>,
             Inr (BeginNew r)))))"

definition override :: "'a option \<Rightarrow> 'a option \<Rightarrow> 'a option" where
  "override new old = (case new of None \<Rightarrow> old | Some v \<Rightarrow> Some v)"

definition update_record ::
  "session_state \<Rightarrow> string \<Rightarrow> idem_status \<Rightarrow> string option \<Rightarrow> string option \<Rightarrow> int \<Rightarrow> int
     \<Rightarrow> session_state \<times> idem_record option" where
  "update_record st0 key status message_id group_id t0 t1 =
     (let st = prune st0 t0 in
      case jm_get (ss_records st) key of
        None \<Rightarrow> (st, None)
      | Some old \<Rightarrow>
          let r = old\<lparr>ir_status := status, ir_message_id := override message_id (ir_message_id old),
                      ir_group_id := override group_id (ir_group_id old), ir_touched := t1\<rparr> in
          (st\<lparr>ss_records := jm_set key r (jm_delete key (ss_records st))\<rparr>, Some r))"

definition remember_unknown_delivery ::
  "session_state \<Rightarrow> string \<Rightarrow> int \<Rightarrow> int \<Rightarrow> session_state \<times> idem_record option" where
  "remember_unknown_delivery st key t0 t1 = update_record st key UnknownDelivery None None t0 t1"

definition get_record :: "session_state \<Rightarrow> string \<Rightarrow> int \<Rightarrow> session_state \<times> idem_record option" where
  "get_record st0 key now = (let st = prune st0 now in (st, jm_get (ss_records st) key))"

definition forget :: "session_state \<Rightarrow> string \<Rightarrow> session_state \<times> bool" where
  "forget st key =
     (st\<lparr>ss_records := jm_delete key (ss_records st)\<rparr>, jm_has (ss_records st) key)"

definition snapshot ::
  "session_state \<Rightarrow> int \<Rightarrow> session_state \<times> (channel_state list \<times> idem_record list)" where
  "snapshot st0 now =
     (let st = prune st0 now in (st, (jm_values (ss_channels st), jm_values (ss_records st))))"


section \<open>Pruning\<close>

lemma prune_capacity_drop: "prune_capacity n rs = drop (length rs - n) rs"
  by (induction n rs rule: prune_capacity.induct) (auto simp: Suc_diff_le)

lemma prune_capacity_id: "length rs \<le> n \<Longrightarrow> prune_capacity n rs = rs"
  by (simp add: prune_capacity_drop)

lemma length_prune_capacity: "length (prune_capacity n rs) \<le> n"
  by (simp add: prune_capacity_drop)

lemma length_expire: "length (expire ttl now rs) \<le> length rs"
  by (simp add: expire_def)

lemma set_prune_capacity: "set (prune_capacity n rs) \<subseteq> set rs"
  by (auto simp: prune_capacity_drop dest: in_set_dropD)

lemma set_expire: "set (expire ttl now rs) \<subseteq> set rs"
  by (auto simp: expire_def)

lemma set_prune: "set (ss_records (prune st now)) \<subseteq> set (ss_records st)"
  using set_prune_capacity set_expire by (fastforce simp: prune_def)

lemma prune_simps [simp]:
  "ss_generation (prune st now) = ss_generation st"
  "ss_max (prune st now) = ss_max st"
  "ss_ttl (prune st now) = ss_ttl st"
  "ss_channels (prune st now) = ss_channels st"
  by (simp_all add: prune_def)

lemma record_key_prune [simp]: "record_key (prune st now) = record_key st"
  by (simp add: record_key_def fun_eq_iff)

section \<open>The machine and its invariant\<close>

text \<open>The inputs are the public operations, each with its clock readings.\<close>

datatype session_input =
    InSetGeneration string
  | InHello string string int
  | InTouch string string int
  | InRemoveChannel string string
  | InRemoveOwner string
  | InBegin idem_request int int
  | InUpdate string idem_status "string option" "string option" int int
  | InGetRecord string int
  | InForget string
  | InSnapshot int

fun session_step :: "(string \<Rightarrow> string) \<Rightarrow> session_state \<Rightarrow> session_input \<Rightarrow> session_state" where
  "session_step sha st (InSetGeneration g) = fst (set_generation st g)"
| "session_step sha st (InHello s c t) = fst (hello st s c t)"
| "session_step sha st (InTouch s c t) = fst (touch st s c t)"
| "session_step sha st (InRemoveChannel s c) = remove_channel st s c"
| "session_step sha st (InRemoveOwner s) = remove_owner st s"
| "session_step sha st (InBegin rq t0 t1) = fst (begin_request sha st rq t0 t1)"
| "session_step sha st (InUpdate k s m g t0 t1) = fst (update_record st k s m g t0 t1)"
| "session_step sha st (InGetRecord k t) = fst (get_record st k t)"
| "session_step sha st (InForget k) = fst (forget st k)"
| "session_step sha st (InSnapshot t) = fst (snapshot st t)"

text \<open>The clock does not go back: no record was touched after the present reading.\<close>

definition clock_ok :: "session_state \<Rightarrow> int \<Rightarrow> int \<Rightarrow> bool" where
  "clock_ok st t0 t1 \<longleftrightarrow> (\<forall>(k, r) \<in> set (ss_records st). ir_touched r \<le> t0) \<and> t0 \<le> t1"

fun session_adm :: "session_state \<Rightarrow> session_input \<Rightarrow> bool" where
  "session_adm st (InBegin rq t0 t1) = clock_ok st t0 t1"
| "session_adm st (InUpdate k s m g t0 t1) = clock_ok st t0 t1"
| "session_adm st _ = True"

definition record_wf :: "string \<Rightarrow> string \<times> idem_record \<Rightarrow> bool" where
  "record_wf gen kr \<longleftrightarrow>
     (let (k, r) = kr in
      k = ir_key r \<and> ir_generation r = gen \<and> valid_id (ir_sender r) \<and> valid_id (ir_client r)
      \<and> k = gen @ nul # ir_sender r @ nul # ir_client r)"

definition channel_wf :: "string \<times> channel_state \<Rightarrow> bool" where
  "channel_wf kc \<longleftrightarrow>
     (let (k, c) = kc in
      k = channel_key (ch_sender c) (ch_channel c) \<and> ch_ready c
      \<and> valid_id (ch_sender c) \<and> valid_id (ch_channel c))"

definition lru_sorted :: "(string, idem_record) js_map \<Rightarrow> bool" where
  "lru_sorted rs \<longleftrightarrow> sorted (map (ir_touched \<circ> snd) rs)"

definition session_inv :: "session_state \<Rightarrow> bool" where
  "session_inv st \<longleftrightarrow>
     ss_generation st \<noteq> [] \<and> 0 < ss_max st \<and> 0 < ss_ttl st
     \<and> jm_ok (ss_channels st) \<and> (\<forall>kc \<in> set (ss_channels st). channel_wf kc)
     \<and> jm_ok (ss_records st) \<and> (\<forall>kr \<in> set (ss_records st). record_wf (ss_generation st) kr)
     \<and> length (ss_records st) \<le> ss_max st
     \<and> lru_sorted (ss_records st)"

lemma session_inv_new: "new_session_state g me ttl = Inr st \<Longrightarrow> session_inv st"
  by (auto simp: new_session_state_def session_inv_def lru_sorted_def split: if_splits)

lemma lru_sorted_filter: "lru_sorted rs \<Longrightarrow> lru_sorted (filter P rs)"
  unfolding lru_sorted_def by (rule sorted_map_filter)

lemma lru_sorted_drop: "lru_sorted rs \<Longrightarrow> lru_sorted (drop n rs)"
  unfolding lru_sorted_def by (rule sorted_map_drop)

lemma lru_sorted_delete: "lru_sorted rs \<Longrightarrow> lru_sorted (jm_delete k rs)"
  unfolding jm_delete_def by (rule lru_sorted_filter)

lemma lru_sorted_append:
  "lru_sorted rs \<Longrightarrow> \<forall>(k, r) \<in> set rs. ir_touched r \<le> ir_touched r' \<Longrightarrow> lru_sorted (rs @ [(k', r')])"
  by (auto simp: lru_sorted_def sorted_append split: prod.splits)

text \<open>
  The record part of the invariant on its own; each of the ways in which an operation
  rewrites the map (filter, cut, remove, append at the end) keeps it.
\<close>

definition records_inv :: "string \<Rightarrow> nat \<Rightarrow> (string, idem_record) js_map \<Rightarrow> bool" where
  "records_inv gen n rs \<longleftrightarrow>
     jm_ok rs \<and> (\<forall>kr \<in> set rs. record_wf gen kr) \<and> length rs \<le> n \<and> lru_sorted rs"

lemma records_inv_Nil: "records_inv gen n []"
  by (simp add: records_inv_def lru_sorted_def)

lemma records_inv_filter: "records_inv gen n rs \<Longrightarrow> records_inv gen n (filter P rs)"
  by (auto simp: records_inv_def jm_ok_filter lru_sorted_filter intro: le_trans [OF length_filter_le])

lemma records_inv_prune_capacity:
  "records_inv gen m rs \<Longrightarrow> records_inv gen n (prune_capacity n rs)"
  by (auto simp: records_inv_def prune_capacity_drop jm_ok_drop lru_sorted_drop dest: in_set_dropD)

lemma records_inv_move_to_end:
  assumes inv: "records_inv gen n rs" and wf: "record_wf gen (k, r)"
    and t: "\<forall>(k, r') \<in> set rs. ir_touched r' \<le> ir_touched r"
    and len: "length (jm_delete k rs) < n"
  shows "records_inv gen n (jm_set k r (jm_delete k rs))"
proof -
  let ?d = "jm_delete k rs"
  have "k \<notin> fst ` set ?d" by (simp add: jm_delete_keys)
  then have eq: "jm_set k r ?d = ?d @ [(k, r)]" by (rule jm_set_absent)
  have "lru_sorted (?d @ [(k, r)])"
    using inv t by (intro lru_sorted_append) (auto simp: records_inv_def lru_sorted_delete jm_delete_entries)
  moreover have "jm_ok (jm_set k r ?d)"
    using inv by (simp add: records_inv_def)
  ultimately show ?thesis
    using inv wf len by (auto simp: records_inv_def eq jm_delete_entries)
qed

lemma session_inv_alt:
  "session_inv st \<longleftrightarrow>
     ss_generation st \<noteq> [] \<and> 0 < ss_max st \<and> 0 < ss_ttl st
     \<and> jm_ok (ss_channels st) \<and> (\<forall>kc \<in> set (ss_channels st). channel_wf kc)
     \<and> records_inv (ss_generation st) (ss_max st) (ss_records st)"
  by (auto simp: session_inv_def records_inv_def)

lemma session_inv_prune: "session_inv st \<Longrightarrow> session_inv (prune st now)"
  by (auto simp: session_inv_alt prune_def expire_def
      intro: records_inv_prune_capacity records_inv_filter)

lemma clock_ok_prune: "clock_ok st t0 t1 \<Longrightarrow> clock_ok (prune st t0) t0 t1"
  using set_prune by (fastforce simp: clock_ok_def)

lemma jm_delete_present_shorter:
  "jm_get m k = Some v \<Longrightarrow> length (jm_delete k m) < length m"
proof -
  assume "jm_get m k = Some v"
  then have "(k, v) \<in> set m" by (rule jm_get_SomeD)
  then show ?thesis unfolding jm_delete_def by (rule length_filter_less) simp
qed

lemma session_inv_move_to_end:
  assumes inv: "session_inv st" and got: "jm_get (ss_records st) k = Some old"
    and clk: "clock_ok st t0 t1"
    and same: "ir_key r = ir_key old" "ir_generation r = ir_generation old"
      "ir_sender r = ir_sender old" "ir_client r = ir_client old" "ir_touched r = t1"
  shows "session_inv (st\<lparr>ss_records := jm_set k r (jm_delete k (ss_records st))\<rparr>)"
proof -
  from got have mem: "(k, old) \<in> set (ss_records st)" by (rule jm_get_SomeD)
  with inv same have wf: "record_wf (ss_generation st) (k, r)"
    by (auto simp: session_inv_def record_wf_def)
  have "length (jm_delete k (ss_records st)) < ss_max st"
    using jm_delete_present_shorter [OF got] inv by (simp add: session_inv_def)
  moreover have "\<forall>(k, r') \<in> set (ss_records st). ir_touched r' \<le> ir_touched r"
    using clk same(5) by (fastforce simp: clock_ok_def)
  ultimately have "records_inv (ss_generation st) (ss_max st)
      (jm_set k r (jm_delete k (ss_records st)))"
    using inv wf by (intro records_inv_move_to_end) (auto simp: session_inv_alt)
  with inv show ?thesis by (simp add: session_inv_alt)
qed

lemma session_inv_insert:
  assumes inv: "session_inv st" and new: "jm_get (ss_records st) k = None"
    and wf: "record_wf (ss_generation st) (k, r)" and clk: "clock_ok st t0 (ir_touched r)"
  shows "session_inv (st\<lparr>ss_records := prune_capacity (ss_max st) (jm_set k r (ss_records st))\<rparr>)"
proof -
  let ?rs = "ss_records st"
  from new have absent: "k \<notin> fst ` set ?rs" by (simp add: jm_get_None_iff)
  have "records_inv (ss_generation st) (Suc (ss_max st)) ?rs"
    using inv by (auto simp: session_inv_alt records_inv_def)
  moreover have "\<forall>(k, r') \<in> set ?rs. ir_touched r' \<le> ir_touched r"
    using clk by (fastforce simp: clock_ok_def)
  moreover have "length (jm_delete k ?rs) < Suc (ss_max st)"
    using inv jm_length_delete [of k ?rs] by (simp add: session_inv_def)
  ultimately have "records_inv (ss_generation st) (Suc (ss_max st)) (jm_set k r (jm_delete k ?rs))"
    using wf by (intro records_inv_move_to_end)
  then have "records_inv (ss_generation st) (ss_max st) (prune_capacity (ss_max st) (jm_set k r ?rs))"
    using absent by (simp add: jm_delete_absent records_inv_prune_capacity)
  with inv show ?thesis by (simp add: session_inv_alt)
qed

lemma assert_id_Inr: "assert_id v n = Inr u \<longleftrightarrow> valid_id v"
  by (auto simp: assert_id_def valid_id_def)

lemma assert_id_cases: "(\<exists>e. assert_id v n = Inl e \<and> \<not> valid_id v) \<or> (assert_id v n = Inr () \<and> valid_id v)"
  by (auto simp: assert_id_def valid_id_def)

section \<open>What each operation does\<close>

lemma begin_request_existing:
  assumes "valid_id (rq_sender rq)" and "valid_id (rq_client rq)"
    and "jm_get (ss_records (prune st t0)) (record_key st (rq_sender rq) (rq_client rq)) = Some old"
  shows "begin_request sha st rq t0 t1 =
    (let key = record_key st (rq_sender rq) (rq_client rq); r = old\<lparr>ir_touched := t1\<rparr>;
         st' = prune st t0 in
     (st'\<lparr>ss_records := jm_set key r (jm_delete key (ss_records st'))\<rparr>,
      Inr (if ir_fingerprint old = fingerprint_payload sha (rq_payload rq)
           then BeginReplay r else BeginConflict r)))"
  using assms by (simp add: begin_request_def assert_id_def valid_id_def Let_def)

lemma begin_request_fresh:
  assumes "valid_id (rq_sender rq)" and "valid_id (rq_client rq)"
    and "jm_get (ss_records (prune st t0)) (record_key st (rq_sender rq) (rq_client rq)) = None"
  shows "begin_request sha st rq t0 t1 =
    (let key = record_key st (rq_sender rq) (rq_client rq); st' = prune st t0;
         r = \<lparr> ir_key = key, ir_generation = ss_generation st, ir_sender = rq_sender rq,
               ir_client = rq_client rq, ir_fingerprint = fingerprint_payload sha (rq_payload rq),
               ir_status = Received, ir_message_id = None, ir_group_id = None, ir_touched = t1 \<rparr> in
     (st'\<lparr>ss_records := prune_capacity (ss_max st) (jm_set key r (ss_records st'))\<rparr>, Inr (BeginNew r)))"
  using assms by (simp add: begin_request_def assert_id_def valid_id_def Let_def)

lemma begin_request_invalid:
  assumes "\<not> valid_id (rq_sender rq) \<or> \<not> valid_id (rq_client rq)"
  shows "\<exists>e. begin_request sha st rq t0 t1 = (prune st t0, Inl e)"
  using assms by (auto simp: begin_request_def assert_id_def valid_id_def Let_def)

lemma begin_request_inv:
  assumes inv: "session_inv st" and clk: "clock_ok st t0 t1"
  shows "session_inv (fst (begin_request sha st rq t0 t1))"
proof (cases "valid_id (rq_sender rq) \<and> valid_id (rq_client rq)")
  case False
  then obtain e where "begin_request sha st rq t0 t1 = (prune st t0, Inl e)"
    using begin_request_invalid by blast
  then show ?thesis using inv by (simp add: session_inv_prune)
next
  case True
  let ?key = "record_key st (rq_sender rq) (rq_client rq)"
  have inv': "session_inv (prune st t0)" using inv by (rule session_inv_prune)
  have clk': "clock_ok (prune st t0) t0 t1" using clk by (rule clock_ok_prune)
  show ?thesis
  proof (cases "jm_get (ss_records (prune st t0)) ?key")
    case None
    then show ?thesis
      using True inv' clk' by (simp add: begin_request_fresh Let_def)
        (rule session_inv_insert [of "prune st t0", simplified],
          auto simp: record_wf_def record_key_def)
  next
    case (Some old)
    then show ?thesis
      using True inv' clk' by (simp add: begin_request_existing Let_def)
        (rule session_inv_move_to_end [of "prune st t0" _ old], auto)
  qed
qed

lemma update_record_inv:
  assumes inv: "session_inv st" and clk: "clock_ok st t0 t1"
  shows "session_inv (fst (update_record st k s m g t0 t1))"
proof (cases "jm_get (ss_records (prune st t0)) k")
  case None
  then show ?thesis using inv by (simp add: update_record_def Let_def session_inv_prune)
next
  case (Some old)
  have "session_inv (prune st t0)" "clock_ok (prune st t0) t0 t1"
    using inv clk by (auto intro: session_inv_prune clock_ok_prune)
  with Some show ?thesis
    by (simp add: update_record_def Let_def)
      (rule session_inv_move_to_end [of "prune st t0" _ old], auto)
qed

lemma channels_inv_set:
  "session_inv st \<Longrightarrow> channel_wf (k, c) \<Longrightarrow> session_inv (st\<lparr>ss_channels := jm_set k c (ss_channels st)\<rparr>)"
  by (auto simp: session_inv_def dest!: jm_set_entries)

lemma channels_inv_filter:
  "session_inv st \<Longrightarrow> session_inv (st\<lparr>ss_channels := filter P (ss_channels st)\<rparr>)"
  by (auto simp: session_inv_def jm_ok_filter)

lemma records_inv_state_filter:
  "session_inv st \<Longrightarrow> session_inv (st\<lparr>ss_records := filter P (ss_records st)\<rparr>)"
  by (auto simp: session_inv_alt records_inv_filter)

lemma hello_inv: "session_inv st \<Longrightarrow> session_inv (fst (hello st s c t))"
  by (auto simp: hello_def Let_def channel_wf_def valid_id_def assert_id_def
      intro!: channels_inv_set split: sum.splits)

lemma touch_inv: "session_inv st \<Longrightarrow> session_inv (fst (touch st s c t))"
proof (cases "get_channel st s c")
  case (Some cur)
  assume inv: "session_inv st"
  from Some have "(channel_key s c, cur) \<in> set (ss_channels st)"
    by (simp add: get_channel_def jm_get_SomeD)
  with inv have "channel_wf (channel_key s c, cur\<lparr>ch_last_seen := t\<rparr>)"
    by (auto simp: session_inv_def channel_wf_def)
  with inv Some show ?thesis by (simp add: touch_def Let_def channels_inv_set)
qed (simp add: touch_def)

lemma remove_owner_inv: "session_inv st \<Longrightarrow> session_inv (remove_owner st s)"
proof -
  assume "session_inv st"
  then have "session_inv (st\<lparr>ss_channels := filter (\<lambda>(k, c). ch_sender c \<noteq> s) (ss_channels st)\<rparr>)"
    by (rule channels_inv_filter)
  from records_inv_state_filter [OF this, of "\<lambda>(k, r). ir_sender r \<noteq> s"]
  show ?thesis by (simp add: remove_owner_def)
qed

lemma session_step_inv:
  "session_inv st \<Longrightarrow> session_adm st i \<Longrightarrow> session_inv (session_step sha st i)"
proof (cases i)
  case (InSetGeneration g)
  then show "session_inv st \<Longrightarrow> ?thesis"
    by (auto simp: set_generation_def session_inv_alt records_inv_Nil)
next
  case (InForget k)
  then show "session_inv st \<Longrightarrow> ?thesis"
    by (simp add: forget_def jm_delete_def records_inv_state_filter)
next
  case (InRemoveChannel s c)
  then show "session_inv st \<Longrightarrow> ?thesis"
    by (simp add: remove_channel_def jm_delete_def channels_inv_filter)
qed (auto simp: get_record_def snapshot_def Let_def
    intro: hello_inv touch_inv remove_owner_inv begin_request_inv update_record_inv session_inv_prune)

interpretation session: invariant_machine "session_step sha" session_adm session_inv for sha
  by unfold_locales (rule session_step_inv)

section \<open>Retention of a record\<close>

text \<open>
  \<open>behind k Q n rs\<close>: the map holds a record under \<open>k\<close> that satisfies \<open>Q\<close>, and at most \<open>n\<close>
  records are younger. The operations move other records behind it, one at a time, and
  \<open>prune_capacity\<close> only takes from the front.
\<close>

definition behind ::
  "string \<Rightarrow> (idem_record \<Rightarrow> bool) \<Rightarrow> nat \<Rightarrow> (string, idem_record) js_map \<Rightarrow> bool" where
  "behind k Q n rs \<longleftrightarrow> (\<exists>pre r post. rs = pre @ (k, r) # post \<and> Q r \<and> length post \<le> n)"

lemma behind_mono: "behind k Q n rs \<Longrightarrow> n \<le> m \<Longrightarrow> behind k Q m rs"
  by (fastforce simp: behind_def)

lemma behind_filter:
  assumes "behind k Q n rs" and "\<And>r. Q r \<Longrightarrow> P (k, r)"
  shows "behind k Q n (filter P rs)"
proof -
  from assms(1) obtain pre r post where "rs = pre @ (k, r) # post" "Q r" "length post \<le> n"
    by (auto simp: behind_def)
  then have "filter P rs = filter P pre @ (k, r) # filter P post \<and> Q r \<and> length (filter P post) \<le> n"
    using assms(2) by (auto intro: le_trans [OF length_filter_le])
  then show ?thesis unfolding behind_def by blast
qed

lemma behind_prune_capacity:
  assumes "behind k Q n rs" and "n < m"
  shows "behind k Q n (prune_capacity m rs)"
proof -
  from assms(1) obtain pre r post where rs: "rs = pre @ (k, r) # post" and "Q r" "length post \<le> n"
    by (auto simp: behind_def)
  moreover have "length rs - m \<le> length pre" using rs \<open>length post \<le> n\<close> \<open>n < m\<close> by simp
  ultimately have "prune_capacity m rs = drop (length rs - m) pre @ (k, r) # post"
    by (simp add: prune_capacity_drop)
  with \<open>Q r\<close> \<open>length post \<le> n\<close> show ?thesis unfolding behind_def by blast
qed

lemma behindI: "rs = pre @ (k, r) # post \<Longrightarrow> Q r \<Longrightarrow> length post \<le> n \<Longrightarrow> behind k Q n rs"
  by (auto simp: behind_def)

lemma behind_append: "behind k Q n rs \<Longrightarrow> behind k Q (Suc n) (rs @ [kv])"
proof -
  assume "behind k Q n rs"
  then obtain pre r post where "rs = pre @ (k, r) # post" "Q r" "length post \<le> n"
    by (auto simp: behind_def)
  then show ?thesis by (intro behindI [of _ pre k r "post @ [kv]"]) auto
qed

lemma behind_last: "Q r \<Longrightarrow> behind k Q n (rs @ [(k, r)])"
  by (rule behindI [of _ rs k r "[]"]) auto

lemma jm_move_to_end: "jm_set k r (jm_delete k rs) = jm_delete k rs @ [(k, r)]"
  by (simp add: jm_set_absent jm_delete_keys)

lemma behind_move_other:
  "behind k Q n rs \<Longrightarrow> k' \<noteq> k \<Longrightarrow> behind k Q (Suc n) (jm_set k' r (jm_delete k' rs))"
  unfolding jm_move_to_end by (intro behind_append) (auto simp: jm_delete_def intro: behind_filter)

lemma behind_move_same: "Q r \<Longrightarrow> behind k Q n (jm_set k r (jm_delete k rs))"
  unfolding jm_move_to_end by (rule behind_last)

lemma behind_get: "behind k Q n rs \<Longrightarrow> jm_ok rs \<Longrightarrow> \<exists>r. jm_get rs k = Some r \<and> Q r"
  by (auto simp: behind_def jm_get_Some_iff)

text \<open>
  \<open>keeps gen sender k tref ttl\<close>: the inputs that do not drop the record of \<open>sender\<close> under \<open>k\<close>
  on purpose and arrive within its time to live; \<open>displaces k\<close>: those that may put one more
  record behind it.
\<close>

fun keeps :: "string \<Rightarrow> string \<Rightarrow> string \<Rightarrow> int \<Rightarrow> int \<Rightarrow> session_input \<Rightarrow> bool" where
  "keeps gen sender k tref ttl (InSetGeneration g) = (g = gen \<or> g = [])"
| "keeps gen sender k tref ttl (InRemoveOwner s) = (s \<noteq> sender)"
| "keeps gen sender k tref ttl (InForget k') = (k' \<noteq> k)"
| "keeps gen sender k tref ttl (InBegin rq t0 t1) = (t0 - tref < ttl)"
| "keeps gen sender k tref ttl (InUpdate k' s m g t0 t1) = (t0 - tref < ttl)"
| "keeps gen sender k tref ttl (InGetRecord k' t) = (t - tref < ttl)"
| "keeps gen sender k tref ttl (InSnapshot t) = (t - tref < ttl)"
| "keeps gen sender k tref ttl _ = True"

fun displaces :: "string \<Rightarrow> string \<Rightarrow> session_input \<Rightarrow> bool" where
  "displaces gen k (InBegin rq t0 t1) = (gen @ nul # rq_sender rq @ nul # rq_client rq \<noteq> k)"
| "displaces gen k (InUpdate k' s m g t0 t1) = (k' \<noteq> k)"
| "displaces gen k _ = False"

definition original :: "string \<Rightarrow> string \<Rightarrow> int \<Rightarrow> idem_record \<Rightarrow> bool" where
  "original fp sender tref r \<longleftrightarrow>
     ir_fingerprint r = fp \<and> ir_sender r = sender \<and> tref \<le> ir_touched r"

lemma behind_prune:
  assumes "behind k (original fp s tref) n (ss_records st)" and "t - tref < ss_ttl st" and "n < ss_max st"
  shows "behind k (original fp s tref) n (ss_records (prune st t))"
proof -
  have "behind k (original fp s tref) n (expire (ss_ttl st) t (ss_records st))"
    unfolding expire_def using assms(1,2) by (intro behind_filter) (auto simp: original_def)
  then show ?thesis using assms(3) by (simp add: prune_def behind_prune_capacity)
qed

lemma behind_begin:
  assumes beh: "behind k (original fp s tref) n (ss_records st)"
    and t: "t0 - tref < ss_ttl st" and n: "Suc n < ss_max st \<or> (n < ss_max st \<and> \<not> displaces (ss_generation st) k (InBegin rq t0 t1))"
    and clk: "clock_ok st t0 t1" and ok: "session_inv st"
  shows "behind k (original fp s tref)
    (if displaces (ss_generation st) k (InBegin rq t0 t1) then Suc n else n)
    (ss_records (fst (begin_request sha st rq t0 t1)))"
proof (cases "valid_id (rq_sender rq) \<and> valid_id (rq_client rq)")
  case False
  then obtain e where "begin_request sha st rq t0 t1 = (prune st t0, Inl e)"
    using begin_request_invalid by blast
  then show ?thesis
    using behind_prune [OF beh t] n by (auto intro: behind_mono)
next
  case True
  let ?key = "record_key st (rq_sender rq) (rq_client rq)"
  let ?d = "displaces (ss_generation st) k (InBegin rq t0 t1)"
  have d: "?d \<longleftrightarrow> ?key \<noteq> k" by (simp add: record_key_def)
  have beh': "behind k (original fp s tref) n (ss_records (prune st t0))"
    using behind_prune [OF beh t] n by auto
  have ok': "jm_ok (ss_records (prune st t0))"
    using session_inv_prune [OF ok] by (simp add: session_inv_def)
  obtain cur where cur: "jm_get (ss_records (prune st t0)) k = Some cur" "original fp s tref cur"
    using behind_get [OF beh' ok'] by blast
  have "ir_touched cur \<le> t1"
    using clock_ok_prune [OF clk] jm_get_SomeD [OF cur(1)] by (fastforce simp: clock_ok_def)
  then have touched: "original fp s tref (cur\<lparr>ir_touched := t1\<rparr>)"
    using cur(2) by (auto simp: original_def)
  show ?thesis
  proof (cases "jm_get (ss_records (prune st t0)) ?key")
    case None
    with cur(1) have kd: "?key \<noteq> k" by auto
    with d n have "Suc n < ss_max st" by auto
    then show ?thesis
      using True None kd d beh'
      by (auto simp: begin_request_fresh Let_def jm_get_None_iff jm_set_absent
          intro!: behind_prune_capacity behind_append)
  next
    case (Some old)
    show ?thesis
    proof (cases "?key = k")
      case True': True
      with Some cur have "old = cur" by simp
      then show ?thesis
        using True Some True' d touched
        by (simp add: begin_request_existing Let_def behind_move_same)
    next
      case False
      then show ?thesis
        using True Some d beh' by (simp add: begin_request_existing Let_def behind_move_other)
    qed
  qed
qed

lemma behind_update:
  assumes beh: "behind k (original fp s tref) n (ss_records st)"
    and t: "t0 - tref < ss_ttl st" and n: "n < ss_max st"
    and clk: "clock_ok st t0 t1" and ok: "session_inv st"
  shows "behind k (original fp s tref) (if k' \<noteq> k then Suc n else n)
    (ss_records (fst (update_record st k' status m g t0 t1)))"
proof (cases "jm_get (ss_records (prune st t0)) k'")
  case None
  then show ?thesis
    using behind_prune [OF beh t n] by (auto simp: update_record_def Let_def intro: behind_mono)
next
  case (Some old)
  have beh': "behind k (original fp s tref) n (ss_records (prune st t0))"
    by (rule behind_prune [OF beh t n])
  show ?thesis
  proof (cases "k' = k")
    case False
    then show ?thesis
      using Some beh' by (simp add: update_record_def Let_def behind_move_other)
  next
    case True
    have ok': "jm_ok (ss_records (prune st t0))"
      using session_inv_prune [OF ok] by (simp add: session_inv_def)
    from behind_get [OF beh' ok'] Some True have "original fp s tref old" by auto
    moreover have "ir_touched old \<le> t1"
      using clock_ok_prune [OF clk] jm_get_SomeD [OF Some] by (fastforce simp: clock_ok_def)
    ultimately show ?thesis
      using True Some by (simp add: update_record_def Let_def original_def behind_move_same)
  qed
qed

lemma behind_step:
  assumes beh: "behind k (original fp s tref) n (ss_records st)"
    and keep: "keeps (ss_generation st) s k tref (ss_ttl st) i"
    and n: "n + (if displaces (ss_generation st) k i then 1 else 0) < ss_max st"
    and adm: "session_adm st i" and ok: "session_inv st"
  shows "behind k (original fp s tref) (n + (if displaces (ss_generation st) k i then 1 else 0))
    (ss_records (session_step sha st i))"
proof (cases i)
  case (InSetGeneration g)
  then show ?thesis using beh keep by (auto simp: set_generation_def)
next
  case (InHello s c t)
  then show ?thesis using beh by (auto simp: hello_def Let_def split: sum.splits)
next
  case (InTouch s c t)
  then show ?thesis using beh by (auto simp: touch_def Let_def split: option.splits)
next
  case (InRemoveChannel s c)
  then show ?thesis using beh by (simp add: remove_channel_def)
next
  case (InRemoveOwner s')
  then show ?thesis
    using beh keep by (auto simp: remove_owner_def original_def intro!: behind_filter)
next
  case (InBegin rq t0 t1)
  then show ?thesis
    using behind_begin [of k fp s tref n st t0 rq t1 sha] assms by (auto split: if_splits)
next
  case (InUpdate k' st' m g t0 t1)
  then show ?thesis
    using behind_update [of k fp s tref n st t0 t1 k' st' m g] assms by (auto split: if_splits)
next
  case (InGetRecord k' t)
  then show ?thesis using behind_prune [OF beh] keep n by (simp add: get_record_def Let_def)
next
  case (InForget k')
  then show ?thesis
    using beh keep by (auto simp: forget_def jm_delete_def intro!: behind_filter)
next
  case (InSnapshot t)
  then show ?thesis using behind_prune [OF beh] keep n by (simp add: snapshot_def Let_def)
qed

lemma session_step_const:
  "ss_max (session_step sha st i) = ss_max st"
  "ss_ttl (session_step sha st i) = ss_ttl st"
  by (cases i; simp add: set_generation_def hello_def touch_def remove_channel_def remove_owner_def
      begin_request_def update_record_def get_record_def forget_def snapshot_def Let_def
      split: sum.splits option.splits)+

lemma session_step_generation:
  "keeps (ss_generation st) s k tref ttl i \<Longrightarrow> ss_generation (session_step sha st i) = ss_generation st"
  by (cases i; simp add: set_generation_def hello_def touch_def remove_channel_def remove_owner_def
      begin_request_def update_record_def get_record_def forget_def snapshot_def Let_def
      split: sum.splits option.splits)
    auto

lemma behind_run:
  assumes "behind k (original fp s tref) n (ss_records st)"
    and "\<forall>i \<in> set is. keeps (ss_generation st) s k tref (ss_ttl st) i"
    and "n + length (filter (displaces (ss_generation st) k) is) < ss_max st"
    and "trace_ok (session_step sha) session_adm st is" and "session_inv st"
  shows "behind k (original fp s tref) (ss_max st - 1) (ss_records (run (session_step sha) st is))
    \<and> ss_generation (run (session_step sha) st is) = ss_generation st
    \<and> ss_ttl (run (session_step sha) st is) = ss_ttl st
    \<and> ss_max (run (session_step sha) st is) = ss_max st"
  using assms
proof (induction "is" arbitrary: n st)
  case Nil
  then show ?case by (auto intro: behind_mono)
next
  case (Cons i "is")
  let ?d = "if displaces (ss_generation st) k i then 1 else 0 :: nat"
  let ?st = "session_step sha st i"
  have keep: "keeps (ss_generation st) s k tref (ss_ttl st) i" using Cons.prems(2) by simp
  have "behind k (original fp s tref) (n + ?d) (ss_records ?st)"
    using Cons.prems keep by (intro behind_step) (auto split: if_splits)
  moreover have "session_inv ?st" using Cons.prems by (auto intro: session_step_inv)
  moreover note kept = session_step_const [of sha st i] session_step_generation [OF keep, of sha]
  ultimately show ?case
    using Cons.IH [of "n + ?d" ?st] Cons.prems(2-4) by (auto simp: kept split: if_splits)
qed

section \<open>Clock readings in order\<close>

text \<open>
  A client of the store that reads its clock in order satisfies the condition on the inputs:
  the readings of a sequence of operations, none before the last use of a record.
\<close>

fun op_times :: "session_input \<Rightarrow> int list" where
  "op_times (InBegin rq t0 t1) = [t0, t1]"
| "op_times (InUpdate k s m g t0 t1) = [t0, t1]"
| "op_times _ = []"

definition touched_by :: "session_state \<Rightarrow> int \<Rightarrow> bool" where
  "touched_by st t = (\<forall>(k, r) \<in> set (ss_records st). ir_touched r \<le> t)"

lemma touched_by_mono: "touched_by st t \<Longrightarrow> t \<le> t' \<Longrightarrow> touched_by st t'"
  by (fastforce simp: touched_by_def)

lemma touched_by_subset: "touched_by st t \<Longrightarrow> set (ss_records st') \<subseteq> set (ss_records st) \<Longrightarrow> touched_by st' t"
  by (fastforce simp: touched_by_def)

lemma touched_by_move:
  assumes "touched_by st t" and "ir_touched r \<le> t" and "set (ss_records st') \<subseteq> set (jm_set k r rs)"
    and "set rs \<subseteq> set (ss_records st)"
  shows "touched_by st' t"
  using assms jm_set_entries [of _ _ k r rs] by (fastforce simp: touched_by_def)

lemma touched_by_begin:
  assumes "touched_by st t0" and "t0 \<le> t1"
  shows "touched_by (fst (begin_request sha st rq t0 t1)) t1"
proof (cases "valid_id (rq_sender rq) \<and> valid_id (rq_client rq)")
  case False
  then obtain e where "begin_request sha st rq t0 t1 = (prune st t0, Inl e)"
    using begin_request_invalid by blast
  then show ?thesis
    using touched_by_subset [OF assms(1) set_prune] assms(2) by (auto intro: touched_by_mono)
next
  case True
  let ?key = "record_key st (rq_sender rq) (rq_client rq)"
  have now: "touched_by (prune st t0) t1"
    using touched_by_subset [OF assms(1) set_prune] assms(2) by (rule touched_by_mono)
  show ?thesis
  proof (cases "jm_get (ss_records (prune st t0)) ?key")
    case (Some old)
    with True show ?thesis
      by (auto simp: begin_request_existing Let_def jm_delete_def intro!: touched_by_move [OF now])
  next
    case None
    with True now show ?thesis
      by (auto simp: begin_request_fresh Let_def touched_by_def
          dest!: subsetD [OF set_prune_capacity] jm_set_entries)
  qed
qed

lemma touched_by_update:
  assumes "touched_by st t0" and "t0 \<le> t1"
  shows "touched_by (fst (update_record st k s m g t0 t1)) t1"
proof -
  have now: "touched_by (prune st t0) t1"
    using touched_by_subset [OF assms(1) set_prune] assms(2) by (rule touched_by_mono)
  then show ?thesis
    by (auto simp: update_record_def Let_def jm_delete_def intro!: touched_by_move [OF now] split: option.splits)
qed

lemma touched_by_step:
  assumes "touched_by st t" and "sorted (t # op_times i)"
  shows "session_adm st i \<and> touched_by (session_step sha st i) (last (t # op_times i))"
proof -
  have sub: "touched_by st' t" if "set (ss_records st') \<subseteq> set (ss_records st)" for st'
    by (rule touched_by_subset [OF assms(1) that])
  show ?thesis
  proof (cases i)
    case (InBegin rq t0 t1)
    with assms show ?thesis
      using touched_by_begin [of st t0 t1 sha rq] touched_by_mono [OF assms(1), of t0]
      by (auto simp: clock_ok_def touched_by_def [symmetric])
  next
    case (InUpdate k s m g t0 t1)
    with assms show ?thesis
      using touched_by_update [of st t0 t1 k s m g] touched_by_mono [OF assms(1), of t0]
      by (auto simp: clock_ok_def touched_by_def [symmetric])
  next
    case (InSetGeneration g)
    then show ?thesis using assms(1) by (auto simp: set_generation_def touched_by_def)
  qed (use set_prune in \<open>auto simp: get_record_def snapshot_def forget_def remove_channel_def remove_owner_def
      hello_def touch_def jm_delete_def Let_def split: sum.splits option.splits intro!: sub\<close>)
qed

lemma trace_ok_in_order:
  assumes "touched_by st t" and "sorted (t # concat (map op_times ops))"
  shows "trace_ok (session_step sha) session_adm st ops
    \<and> touched_by (run (session_step sha) st ops) (last (t # concat (map op_times ops)))"
  using assms
proof (induction ops arbitrary: st t)
  case (Cons i ops)
  let ?t = "last (t # op_times i)"
  have i: "sorted (t # op_times i)" using Cons.prems(2) by (auto simp: sorted_append)
  have "?t \<in> set (t # op_times i)" by simp
  then have "sorted (?t # concat (map op_times ops))"
    using Cons.prems(2) by (auto simp: sorted_append)
  moreover have "last (t # concat (map op_times (i # ops))) = last (?t # concat (map op_times ops))"
    by simp
  ultimately show ?case
    using Cons.IH [of "session_step sha st i" ?t] touched_by_step [OF Cons.prems(1) i, of sha] by simp
qed simp

section \<open>Properties\<close>

text \<open>A record is live when its age is below the time to live.\<close>

definition live_record :: "session_state \<Rightarrow> string \<Rightarrow> int \<Rightarrow> idem_record option" where
  "live_record st key now =
     (case jm_get (ss_records st) key of
        Some r \<Rightarrow> if now - ir_touched r < ss_ttl st then Some r else None
      | None \<Rightarrow> None)"

lemma prune_live:
  assumes "session_inv st"
  shows "jm_get (ss_records (prune st now)) key = live_record st key now"
proof -
  have "length (expire (ss_ttl st) now (ss_records st)) \<le> ss_max st"
    using assms length_expire by (fastforce simp: session_inv_def intro: le_trans)
  then have eq: "ss_records (prune st now) = expire (ss_ttl st) now (ss_records st)"
    by (simp add: prune_def prune_capacity_id)
  have "jm_ok (ss_records st)" using assms by (simp add: session_inv_def)
  then show ?thesis
    by (auto simp: eq expire_def live_record_def jm_get_filter split: option.splits)
qed

text \<open>
  C2: From the constructor, every sequence of operations with a clock that does not go back
  keeps the session state well formed: no more records than the capacity, at most one per
  key, each filed under its own generation, sender and request id, in order of last use, and
  every channel under its own key.
\<close>

theorem session_run_invariant:
  assumes "new_session_state g me ttl = Inr st0"
    and "trace_ok (session_step sha) session_adm st0 ops"
  shows "session_inv (run (session_step sha) st0 ops)"
  using session_inv_new [OF assms(1)] assms(2) by (rule session.run_keeps)

definition demo_request :: idem_request where
  "demo_request = \<lparr> rq_sender = ''o'', rq_client = ''c1'', rq_payload = JStr ''hi'' \<rparr>"

definition demo_state :: session_state where
  "demo_state = \<lparr> ss_generation = ''g'', ss_max = 2, ss_ttl = 100, ss_channels = [], ss_records = [] \<rparr>"

definition demo_record :: idem_record where
  "demo_record = \<lparr> ir_key = ''g'' @ nul # ''o'' @ nul # ''c1'', ir_generation = ''g'', ir_sender = ''o'',
     ir_client = ''c1'', ir_fingerprint = fingerprint_payload id (JStr ''hi''), ir_status = Received,
     ir_message_id = None, ir_group_id = None, ir_touched = 2 \<rparr>"

definition demo_begun :: session_state where
  "demo_begun = demo_state\<lparr>ss_records := [(ir_key demo_record, demo_record)]\<rparr>"

lemma demo_begin: "begin_request id demo_state demo_request 1 2 = (demo_begun, Inr (BeginNew demo_record))"
  by (simp add: begin_request_def demo_state_def demo_request_def demo_begun_def demo_record_def
      prune_def expire_def assert_id_def record_key_def Let_def)

lemma demo_new: "new_session_state ''g'' (Some 2) (Some 100) = Inr demo_state"
  by (simp add: new_session_state_def demo_state_def)

lemma demo_inv: "session_inv demo_state" "session_inv demo_begun"
  using session_inv_new [OF demo_new] begin_request_inv [of demo_state 1 2 id demo_request]
  by (simp_all add: demo_begin) (simp add: clock_ok_def demo_state_def)

theorem session_run_invariant_witness:
  "session_inv (run (session_step id) demo_state [InHello ''o'' ''ch'' 1, InBegin demo_request 1 2, InForget ''x''])"
  by (rule session_run_invariant [OF demo_new])
    (simp add: clock_ok_def hello_def demo_state_def assert_id_def Let_def)

text \<open>
  What \<open>begin\<close> answers and stores, on every branch. An id that is empty or too long is
  refused and only expired records go. A live record under the request's key is answered
  as a replay when the payload's fingerprint is the recorded one and as a conflict otherwise;
  it is never overwritten, only marked as used. Without a live record the request is new,
  recorded as received under its fingerprint.
\<close>

theorem begin_request_spec:
  assumes "session_inv st"
  shows "let key = record_key st (rq_sender rq) (rq_client rq);
             fp = fingerprint_payload sha (rq_payload rq);
             out = begin_request sha st rq t0 t1;
             stored = jm_get (ss_records (fst out)) key in
    if valid_id (rq_sender rq) \<and> valid_id (rq_client rq) then
      (case live_record st key t0 of
         Some old \<Rightarrow>
           stored = Some (old\<lparr>ir_touched := t1\<rparr>)
           \<and> snd out = Inr (if ir_fingerprint old = fp then BeginReplay (old\<lparr>ir_touched := t1\<rparr>)
                            else BeginConflict (old\<lparr>ir_touched := t1\<rparr>))
       | None \<Rightarrow>
           (\<exists>r. snd out = Inr (BeginNew r) \<and> stored = Some r \<and> ir_key r = key
              \<and> ir_fingerprint r = fp \<and> ir_status r = Received \<and> ir_touched r = t1
              \<and> ir_message_id r = None \<and> ir_group_id r = None))
    else (\<exists>e. snd out = Inl e) \<and> fst out = prune st t0"
proof (cases "valid_id (rq_sender rq) \<and> valid_id (rq_client rq)")
  case False
  then obtain e where "begin_request sha st rq t0 t1 = (prune st t0, Inl e)"
    using begin_request_invalid by blast
  then show ?thesis using False by (auto simp: Let_def)
next
  case True
  let ?key = "record_key st (rq_sender rq) (rq_client rq)"
  have live: "jm_get (ss_records (prune st t0)) ?key = live_record st ?key t0"
    using assms by (rule prune_live)
  show ?thesis
  proof (cases "live_record st ?key t0")
    case (Some old)
    then show ?thesis using True live by (simp add: begin_request_existing Let_def)
  next
    case None
    then have absent: "jm_get (ss_records (prune st t0)) ?key = None" using live by simp
    let ?rs = "ss_records (prune st t0)"
    let ?r = "\<lparr> ir_key = ?key, ir_generation = ss_generation st, ir_sender = rq_sender rq,
       ir_client = rq_client rq, ir_fingerprint = fingerprint_payload sha (rq_payload rq),
       ir_status = Received, ir_message_id = None, ir_group_id = None, ir_touched = t1 \<rparr>"
    have "?key \<notin> fst ` set ?rs" using absent by (simp add: jm_get_None_iff)
    then have set: "jm_set ?key ?r ?rs = ?rs @ [(?key, ?r)]" by (rule jm_set_absent)
    have "behind ?key (\<lambda>r. r = ?r) 0 (prune_capacity (ss_max st) (jm_set ?key ?r ?rs))"
      unfolding set using assms
      by (intro behind_prune_capacity behind_last) (auto simp: session_inv_def)
    moreover have "jm_ok (prune_capacity (ss_max st) (jm_set ?key ?r ?rs))"
      using session_inv_prune [OF assms, of t0]
      by (simp add: prune_capacity_drop jm_ok_drop session_inv_def)
    ultimately have "jm_get (prune_capacity (ss_max st) (jm_set ?key ?r ?rs)) ?key = Some ?r"
      using behind_get by blast
    then show ?thesis
      using True None absent by (simp add: begin_request_fresh Let_def)
  qed
qed

theorem begin_request_spec_witness:
  "live_record demo_begun (ir_key demo_record) 5 = Some demo_record
   \<and> snd (begin_request id demo_begun demo_request 5 6) = Inr (BeginReplay (demo_record\<lparr>ir_touched := 6\<rparr>))
   \<and> snd (begin_request id demo_begun (demo_request\<lparr>rq_payload := JStr ''ho''\<rparr>) 5 6)
     = Inr (BeginConflict (demo_record\<lparr>ir_touched := 6\<rparr>))"
proof -
  have live: "live_record demo_begun (ir_key demo_record) 5 = Some demo_record"
    by (simp add: live_record_def demo_begun_def demo_state_def demo_record_def)
  have key: "record_key demo_begun ''o'' ''c1'' = ir_key demo_record"
    by (simp add: record_key_def demo_begun_def demo_state_def demo_record_def)
  have fp: "ir_fingerprint demo_record = fingerprint_payload id (JStr ''hi'')"
    by (simp add: demo_record_def)
  have neq: "fingerprint_payload id (JStr ''ho'') \<noteq> fingerprint_payload id (JStr ''hi'')"
    by (simp add: fingerprint_payload_def quote_text_def escape_char_def)
  show ?thesis
    using begin_request_spec [OF demo_inv(2), of demo_request id 5 6]
      begin_request_spec [OF demo_inv(2), of "demo_request\<lparr>rq_payload := JStr ''ho''\<rparr>" id 5 6]
      live key fp neq
    by (simp add: Let_def demo_request_def valid_id_def)
qed

text \<open>The answer to a request that has a live record, and that a new request had none.\<close>

lemma begin_live:
  assumes "session_inv st" and "valid_id (rq_sender rq)" and "valid_id (rq_client rq)"
    and "live_record st (record_key st (rq_sender rq) (rq_client rq)) t0 = Some old"
  shows "snd (begin_request sha st rq t0 t1) =
    Inr (if ir_fingerprint old = fingerprint_payload sha (rq_payload rq)
         then BeginReplay (old\<lparr>ir_touched := t1\<rparr>) else BeginConflict (old\<lparr>ir_touched := t1\<rparr>))"
  using assms prune_live [OF assms(1), of t0 "record_key st (rq_sender rq) (rq_client rq)"]
  by (simp add: begin_request_existing Let_def)

lemma begin_new_ids:
  "begin_request sha st rq t0 t1 = (st1, Inr (BeginNew r)) \<Longrightarrow> valid_id (rq_sender rq) \<and> valid_id (rq_client rq)"
  using begin_request_invalid [of rq sha st t0 t1] by auto

lemma begin_new_absent:
  assumes "begin_request sha st rq t0 t1 = (st1, Inr (BeginNew r))"
  shows "jm_get (ss_records (prune st t0)) (record_key st (rq_sender rq) (rq_client rq)) = None"
proof (rule ccontr)
  assume "\<not> ?thesis"
  then obtain old where "jm_get (ss_records (prune st t0)) (record_key st (rq_sender rq) (rq_client rq)) = Some old"
    by blast
  with begin_new_ids [OF assms] assms show False
    by (auto simp: begin_request_existing Let_def split: if_splits)
qed

text \<open>The record of a request that was begun is live as long as the operations keep it.\<close>

lemma begun_retained:
  assumes inv: "session_inv st"
    and begun: "begin_request sha st rq t0 t1 = (st1, Inr (BeginNew r))" and clk: "clock_ok st t0 t1"
    and tr: "trace_ok (session_step sha) session_adm st1 ops"
    and keeps: "\<forall>i \<in> set ops. keeps (ss_generation st) (rq_sender rq) (ir_key r) t1 (ss_ttl st) i"
    and few: "length (filter (displaces (ss_generation st) (ir_key r)) ops) < ss_max st"
    and st2: "st2 = run (session_step sha) st1 ops"
    and time: "t2 - t1 < ss_ttl st"
  obtains old where "session_inv st2" "ss_generation st2 = ss_generation st"
    "ir_key r = record_key st (rq_sender rq) (rq_client rq)"
    "live_record st2 (ir_key r) t2 = Some old"
    "ir_fingerprint old = fingerprint_payload sha (rq_payload rq)"
proof -
  let ?key = "record_key st (rq_sender rq) (rq_client rq)"
  let ?fp = "fingerprint_payload sha (rq_payload rq)"
  note ids = begin_new_ids [OF begun] and absent = begin_new_absent [OF begun]
  have inv1: "session_inv st1" using begin_request_inv [OF inv clk, of sha rq] begun by simp
  have r: "ir_key r = ?key" "ir_sender r = rq_sender rq" "ir_fingerprint r = ?fp" "ir_touched r = t1"
    and rs1: "ss_records st1 = prune_capacity (ss_max st) (jm_set ?key r (ss_records (prune st t0)))"
    and st1: "ss_generation st1 = ss_generation st" "ss_ttl st1 = ss_ttl st" "ss_max st1 = ss_max st"
    using begun ids absent by (auto simp: begin_request_fresh Let_def)
  have "0 < ss_max st" using inv by (simp add: session_inv_def)
  then have "behind ?key (original ?fp (rq_sender rq) t1) 0 (ss_records st1)"
    unfolding rs1 using absent r
    by (auto simp: jm_get_None_iff jm_set_absent original_def intro!: behind_prune_capacity behind_last)
  from behind_run [OF this, of ops sha] have
      beh: "behind ?key (original ?fp (rq_sender rq) t1) (ss_max st - 1) (ss_records st2)"
    and st2c: "ss_generation st2 = ss_generation st" "ss_ttl st2 = ss_ttl st"
    using keeps few tr inv1 by (simp_all add: st1 r st2)
  have inv2: "session_inv st2"
    using session.run_keeps [OF inv1 tr] by (simp add: st2)
  obtain old where old: "jm_get (ss_records st2) ?key = Some old" "original ?fp (rq_sender rq) t1 old"
    using behind_get [OF beh] inv2 by (auto simp: session_inv_def)
  then have "live_record st2 ?key t2 = Some old"
    using time st2c by (auto simp: live_record_def original_def)
  with that inv2 st2c(1) r(1) old(2) show thesis by (simp add: original_def)
qed

text \<open>
  C1: A request, once begun, is recognised again. Whatever operations follow, as long as they
  are within the time to live, neither forget the request nor remove its owner nor change the
  generation, and fewer than the capacity of them touch other requests, a later \<open>begin\<close> with
  the same sender and request id is a replay or a conflict, by its payload: never new.
\<close>

theorem begin_recognised_later:
  assumes inv: "session_inv st"
    and begun: "begin_request sha st rq t0 t1 = (st1, Inr (BeginNew r))" and clk: "clock_ok st t0 t1"
    and tr: "trace_ok (session_step sha) session_adm st1 ops"
    and keeps: "\<forall>i \<in> set ops. keeps (ss_generation st) (rq_sender rq) (ir_key r) t1 (ss_ttl st) i"
    and few: "length (filter (displaces (ss_generation st) (ir_key r)) ops) < ss_max st"
    and st2: "st2 = run (session_step sha) st1 ops"
    and again: "rq_sender rq' = rq_sender rq" "rq_client rq' = rq_client rq"
    and time: "t2 - t1 < ss_ttl st"
  shows "\<exists>r'. snd (begin_request sha st2 rq' t2 t3) =
    Inr (if fingerprint_payload sha (rq_payload rq') = fingerprint_payload sha (rq_payload rq)
         then BeginReplay r' else BeginConflict r')"
proof -
  obtain old where old: "session_inv st2" "ss_generation st2 = ss_generation st"
    "ir_key r = record_key st (rq_sender rq) (rq_client rq)" "live_record st2 (ir_key r) t2 = Some old"
    "ir_fingerprint old = fingerprint_payload sha (rq_payload rq)"
    by (rule begun_retained [OF inv begun clk tr keeps few st2 time])
  then have "live_record st2 (record_key st2 (rq_sender rq') (rq_client rq')) t2 = Some old"
    using again by (simp add: record_key_def)
  with begin_live [OF old(1)] begin_new_ids [OF begun] again old(5) show ?thesis by auto
qed

theorem begin_recognised_later_witness:
  "\<exists>r'. snd (begin_request id (run (session_step id) demo_begun
      [InSnapshot 10, InBegin (demo_request\<lparr>rq_client := ''c2''\<rparr>) 20 20])
      (demo_request\<lparr>rq_payload := JStr ''ho''\<rparr>) 90 91) = Inr (BeginConflict r')"
proof -
  have neq: "fingerprint_payload id (JStr ''ho'') \<noteq> fingerprint_payload id (JStr ''hi'')"
    by (simp add: fingerprint_payload_def quote_text_def escape_char_def)
  show ?thesis
    using begin_recognised_later [OF demo_inv(1) demo_begin, of
        "[InSnapshot 10, InBegin (demo_request\<lparr>rq_client := ''c2''\<rparr>) 20 20]" _
        "demo_request\<lparr>rq_payload := JStr ''ho''\<rparr>" 90 91] neq
    by (simp add: clock_ok_def demo_state_def demo_begun_def demo_record_def demo_request_def
        snapshot_def prune_def expire_def Let_def)
qed

text \<open>
  Requests of different clients never share a record: with a generation and senders that
  hold no NUL character, the record key determines sender and request id.
\<close>

theorem record_key_injective:
  assumes "nul \<notin> set (ss_generation st)" and "nul \<notin> set s" and "nul \<notin> set s'"
    and "record_key st s c = record_key st s' c'"
  shows "s = s' \<and> c = c'"
proof -
  from assms(4) have "s @ nul # c = s' @ nul # c'" by (simp add: record_key_def)
  then show ?thesis using assms(2,3) by (rule split_at_separator)
qed

theorem record_key_injective_witness:
  "record_key demo_state ''o'' ''a'' \<noteq> record_key demo_state ''p'' ''a''"
  using record_key_injective [of demo_state "''o''" "''p''" "''a''" "''a''"]
  by (auto simp: demo_state_def nul_def)

text \<open>
  The fingerprint of an object payload does not depend on the order in which its members
  were written, so a client that retries with reordered JSON replays instead of conflicting.
\<close>

theorem fingerprint_member_order:
  assumes "distinct (map fst ms)" and "mset ms = mset ms'"
  shows "fingerprint_payload sha (JObj ms) = fingerprint_payload sha (JObj ms')"
proof -
  let ?f = "\<lambda>(k, v). (k, canonicalize v)"
  have keys: "map fst (map ?f xs) = map fst xs" for xs :: "(string \<times> json) list"
    by (induction xs) auto
  have "distinct (map fst (map ?f ms))" using assms(1) by (simp only: keys)
  then have "inj_on fst (set (map ?f ms))" by (simp only: distinct_map)
  moreover have "mset (map ?f ms) = mset (map ?f ms')" using assms(2) by simp
  ultimately have "sort_key fst (map ?f ms) = sort_key fst (map ?f ms')"
    by (intro sort_key_inj_key_eq) auto
  then show ?thesis by (simp add: fingerprint_payload_def)
qed

theorem fingerprint_member_order_witness:
  "fingerprint_payload id (JObj [(''text'', JStr ''a''), (''images'', JArr [])])
   = fingerprint_payload id (JObj [(''images'', JArr []), (''text'', JStr ''a'')])"
  by (rule fingerprint_member_order) simp_all

end
