(* ===== verification/Zod.thy ===== *)
theory Zod
  imports Json
begin

text \<open>
  The schema language of the two Protocol v2 sides. The code builds its schemas with the
  library zod, which is not part of the repository: a schema is data here (\<open>ztype\<close>, one
  constructor per combinator that the code uses, with builders of the names the code
  calls), and whether a value passes one is a parameter \<open>accepts\<close>. The locale \<open>zod\<close> states
  what zod documents about each combinator. \<open>zod_accepts\<close> is an executable function with
  these laws, so they can hold, and they determine \<open>accepts\<close> (\<open>zod_determined\<close>).

  A value is a \<open>json option\<close>: \<open>None\<close> is \<open>undefined\<close>, the value of an absent member.
  The bodies of \<open>superRefine\<close> are code of the repository: \<open>rule\<close> names them and
  \<open>rule_holds\<close> is their translation.
\<close>

section \<open>Schemas as data\<close>

datatype str_regex = RxBase64 | RxMime

datatype str_check = StrMin int | StrMax int | StrRegex str_regex

datatype num_check = NumInt | NumNonnegative | NumFinite | NumMax int

datatype rule = UserEventRule | StartedMessageRule | HistoryChunkRule | MarkerUserRule

datatype lazy_ref = ExtensionJsonValue | PwaJsonValue

datatype ztype =
    ZNull
  | ZBoolean
  | ZNumber "num_check list"
  | ZString "str_check list"
  | ZLiteral json
  | ZEnum "string list"
  | ZNever
  | ZArray ztype "int option"
  | ZRecord ztype ztype
  | ZUnion "ztype list"
  | ZStrict "(string \<times> ztype) list"
  | ZOptional ztype
  | ZNullable ztype
  | ZRefine ztype rule
  | ZLazy lazy_ref

type_synonym shape = "(string \<times> ztype) list"

text \<open>The builders: a check is added at the end, \<open>max\<close> of an array is its item bound.\<close>

fun z_min :: "int \<Rightarrow> ztype \<Rightarrow> ztype" where
  "z_min n (ZString cs) = ZString (cs @ [StrMin n])"
| "z_min n s = s"

fun z_max :: "int \<Rightarrow> ztype \<Rightarrow> ztype" where
  "z_max n (ZString cs) = ZString (cs @ [StrMax n])"
| "z_max n (ZNumber cs) = ZNumber (cs @ [NumMax n])"
| "z_max n (ZArray s b) = ZArray s (Some n)"
| "z_max n s = s"

fun z_regex :: "str_regex \<Rightarrow> ztype \<Rightarrow> ztype" where
  "z_regex r (ZString cs) = ZString (cs @ [StrRegex r])"
| "z_regex r s = s"

fun z_check :: "num_check \<Rightarrow> ztype \<Rightarrow> ztype" where
  "z_check c (ZNumber cs) = ZNumber (cs @ [c])"
| "z_check c s = s"

definition lit :: "string \<Rightarrow> ztype" where
  "lit s = ZLiteral (JStr s)"

definition lit_true :: ztype where "lit_true = ZLiteral (JBool True)"
definition lit_false :: ztype where "lit_false = ZLiteral (JBool False)"
definition lit_int :: "int \<Rightarrow> ztype" where "lit_int n = ZLiteral (JNum (NInt n))"

text \<open>
  An object literal with spreads: later members overwrite earlier ones of the same name
  and keep their place.
\<close>

definition spread :: "shape list \<Rightarrow> shape" where
  "spread parts = foldl (\<lambda>sh (k, s). jm_set k s sh) [] (concat parts)"

fun shape_of :: "ztype \<Rightarrow> shape" where
  "shape_of (ZStrict sh) = sh"
| "shape_of s = []"

fun options_of :: "ztype \<Rightarrow> ztype list" where
  "options_of (ZUnion ss) = ss"
| "options_of s = []"

definition member_of :: "string \<Rightarrow> ztype \<Rightarrow> ztype" where
  "member_of k s = (case map_of (shape_of s) k of Some t \<Rightarrow> t | None \<Rightarrow> ZNever)"

section \<open>Checks\<close>

definition b64_alphabet :: "char \<Rightarrow> bool" where
  "b64_alphabet c = (let n = (of_char c :: nat) in
     (65 \<le> n \<and> n \<le> 90) \<or> (97 \<le> n \<and> n \<le> 122) \<or> (48 \<le> n \<and> n \<le> 57) \<or> n = 43 \<or> n = 47)"

text \<open>\<open>^(?:[A-Za-z0-9+/]{4})*(?:[A-Za-z0-9+/]{2}==|[A-Za-z0-9+/]{3}=)?$\<close>\<close>

fun base64_text :: "string \<Rightarrow> bool" where
  "base64_text [] = True"
| "base64_text (a # b # c # d # s) =
     (if b64_alphabet a \<and> b64_alphabet b \<and> b64_alphabet c \<and> b64_alphabet d then base64_text s
      else s = [] \<and> b64_alphabet a \<and> b64_alphabet b \<and>
           (if c = CHR ''='' then d = CHR ''='' else b64_alphabet c \<and> d = CHR ''=''))"
| "base64_text s = False"

definition mime_char :: "char \<Rightarrow> bool" where
  "mime_char c = (let n = (of_char c :: nat) in
     (65 \<le> n \<and> n \<le> 90) \<or> (97 \<le> n \<and> n \<le> 122) \<or> (48 \<le> n \<and> n \<le> 57) \<or> n = 95
     \<or> n = 46 \<or> n = 43 \<or> n = 45)"

text \<open>The pattern of a media type: two non-empty runs of \<open>[\w.+-]\<close> around one slash.\<close>

definition mime_text :: "string \<Rightarrow> bool" where
  "mime_text s =
     (let l = takeWhile mime_char s; r = dropWhile mime_char s in
      l \<noteq> [] \<and> r \<noteq> [] \<and> hd r = CHR ''/'' \<and> tl r \<noteq> [] \<and> list_all mime_char (tl r))"

fun regex_matches :: "str_regex \<Rightarrow> string \<Rightarrow> bool" where
  "regex_matches RxBase64 s = base64_text s"
| "regex_matches RxMime s = mime_text s"

fun str_check_ok :: "string \<Rightarrow> str_check \<Rightarrow> bool" where
  "str_check_ok s (StrMin n) = (n \<le> int (length s))"
| "str_check_ok s (StrMax n) = (int (length s) \<le> n)"
| "str_check_ok s (StrRegex r) = regex_matches r s"

definition max_safe_integer :: int where "max_safe_integer = 9007199254740991"

text \<open>
  A finite double that is not integral keeps its text; it is negative when the text
  begins with a minus. \<open>NumMax\<close> is only ever used beside \<open>NumInt\<close>, which such a number
  already fails.
\<close>

fun num_check_ok :: "number \<Rightarrow> num_check \<Rightarrow> bool" where
  "num_check_ok (NInt i) NumInt = (- max_safe_integer \<le> i \<and> i \<le> max_safe_integer)"
| "num_check_ok (NInt i) NumNonnegative = (0 \<le> i)"
| "num_check_ok (NInt i) (NumMax m) = (i \<le> m)"
| "num_check_ok (NFrac t) NumNonnegative = (t = [] \<or> hd t \<noteq> CHR ''-'')"
| "num_check_ok n NumFinite = finite_number n"
| "num_check_ok n c = False"

section \<open>The rules of superRefine\<close>

definition sender_rule :: "json \<Rightarrow> bool" where
  "sender_rule v = ((field ''origin'' v = Some (JStr ''pwa'')) = (field ''sender_ref'' v \<noteq> None))"

fun array_items :: "json option \<Rightarrow> json list" where
  "array_items (Some (JArr js)) = js"
| "array_items v = []"

fun rule_holds :: "rule \<Rightarrow> json \<Rightarrow> bool" where
  "rule_holds UserEventRule v = (field ''event_id'' v = field ''message_id'' v \<and> sender_rule v)"
| "rule_holds StartedMessageRule v = sender_rule v"
| "rule_holds HistoryChunkRule v =
     (let event_ids = map (field ''event_id'') (array_items (field ''events'' v));
          fragment_ids = map (field ''event_id'') (array_items (field ''fragments'' v))
      in list_all (\<lambda>e. \<not> List.member fragment_ids e) event_ids \<and> distinct fragment_ids)"
| "rule_holds MarkerUserRule v =
     ((field ''message_id'' v = None \<or> field ''message_id'' v = field ''event_id'' v) \<and> sender_rule v)"

section \<open>What the code relies on\<close>

text \<open>
  The two recursive schemas (\<open>JsonValueSchema\<close> in \<open>schemas.ts\<close>, \<open>jsonValueSchema\<close> in
  \<open>schema.ts\<close>), as the bodies of their \<open>z.lazy\<close>.
\<close>

definition MAX_ID_CHARS :: int where "MAX_ID_CHARS = 256"
definition MAX_TEXT_CHARS :: int where "MAX_TEXT_CHARS = 1024 * 1024"
definition MAX_ARRAY_ITEMS :: int where "MAX_ARRAY_ITEMS = 4096"

definition JsonValueSchema :: ztype where
  "JsonValueSchema = ZUnion [
     ZNull,
     ZBoolean,
     ZNumber [NumFinite],
     z_max MAX_TEXT_CHARS (ZString []),
     z_max MAX_ARRAY_ITEMS (ZArray (ZLazy ExtensionJsonValue) None),
     ZRecord (z_max MAX_ID_CHARS (ZString [])) (ZLazy ExtensionJsonValue)]"

definition MAX_ID_CHARS_pwa :: int where "MAX_ID_CHARS_pwa = 256"
definition MAX_STRING_CHARS :: int where "MAX_STRING_CHARS = 1024 * 1024"
definition MAX_ARRAY_ITEMS_pwa :: int where "MAX_ARRAY_ITEMS_pwa = 4096"
definition textSchema :: ztype where "textSchema = z_max MAX_STRING_CHARS (ZString [])"

definition jsonValueSchema :: ztype where
  "jsonValueSchema = ZUnion [
     ZNull,
     ZBoolean,
     ZNumber [NumFinite],
     textSchema,
     z_max MAX_ARRAY_ITEMS_pwa (ZArray (ZLazy PwaJsonValue) None),
     ZRecord (z_max MAX_ID_CHARS_pwa (ZString [])) (ZLazy PwaJsonValue)]"

fun lazy_body :: "lazy_ref \<Rightarrow> ztype" where
  "lazy_body ExtensionJsonValue = JsonValueSchema"
| "lazy_body PwaJsonValue = jsonValueSchema"

lemmas json_value_defs = JsonValueSchema_def jsonValueSchema_def textSchema_def
  MAX_ID_CHARS_def MAX_TEXT_CHARS_def MAX_ARRAY_ITEMS_def
  MAX_ID_CHARS_pwa_def MAX_STRING_CHARS_def MAX_ARRAY_ITEMS_pwa_def

fun within :: "int option \<Rightarrow> 'a list \<Rightarrow> bool" where
  "within None xs = True"
| "within (Some n) xs = (int (length xs) \<le> n)"

locale zod =
  fixes accepts :: "ztype \<Rightarrow> json option \<Rightarrow> bool"
  assumes null_law: "accepts ZNull v = (v = Some JNull)"
    and boolean_law: "accepts ZBoolean v = (\<exists>b. v = Some (JBool b))"
    and number_law: "accepts (ZNumber cs) v =
          (\<exists>n. v = Some (JNum n) \<and> finite_number n \<and> list_all (num_check_ok n) cs)"
    and string_law: "accepts (ZString ks) v = (\<exists>t. v = Some (JStr t) \<and> list_all (str_check_ok t) ks)"
    and literal_law: "accepts (ZLiteral l) v = (v = Some l)"
    and enum_law: "accepts (ZEnum es) v = (\<exists>t. v = Some (JStr t) \<and> t \<in> set es)"
    and never_law: "\<not> accepts ZNever v"
    and array_law: "accepts (ZArray s b) v =
          (\<exists>js. v = Some (JArr js) \<and> within b js \<and> (\<forall>j\<in>set js. accepts s (Some j)))"
    and record_law: "accepts (ZRecord k s) v =
          (\<exists>ms. v = Some (JObj ms) \<and>
             (\<forall>m\<in>set ms. accepts k (Some (JStr (fst m))) \<and> accepts s (Some (snd m))))"
    and union_law: "accepts (ZUnion ss) v = (\<exists>s\<in>set ss. accepts s v)"
    and strict_law: "accepts (ZStrict sh) v =
          (\<exists>ms. v = Some (JObj ms) \<and> (\<forall>m\<in>set ms. fst m \<in> fst ` set sh) \<and>
             (\<forall>f\<in>set sh. accepts (snd f) (map_of ms (fst f))))"
    and optional_law: "accepts (ZOptional s) v = (v = None \<or> accepts s v)"
    and nullable_law: "accepts (ZNullable s) v = (v = Some JNull \<or> accepts s v)"
    and refine_law: "accepts (ZRefine s r) v =
          (\<exists>j. v = Some j \<and> accepts s v \<and> rule_holds r j)"
    and lazy_law: "accepts (ZLazy n) v = accepts (lazy_body n) v"


section \<open>An executable evaluator with these laws\<close>

fun jsize :: "json \<Rightarrow> nat" where
  "jsize (JArr js) = 1 + sum_list (map jsize js)"
| "jsize (JObj ms) = 2 + sum_list (map (\<lambda>m. jsize (snd m)) ms)"
| "jsize j = 1"

definition vsize :: "json option \<Rightarrow> nat" where
  "vsize v = (case v of None \<Rightarrow> 0 | Some j \<Rightarrow> jsize j)"

text \<open>
  A schema is at most as heavy as the schemas it asks about the same value; the ones it
  asks about parts of the value do not count, since the value shrinks.
\<close>

fun weight :: "ztype \<Rightarrow> nat" where
  "weight (ZUnion ss) = 1 + sum_list (map weight ss)"
| "weight (ZOptional s) = 1 + weight s"
| "weight (ZNullable s) = 1 + weight s"
| "weight (ZRefine s r) = 1 + weight s"
| "weight (ZLazy n) = 10"
| "weight s = 1"

lemma weight_lazy_body: "weight (lazy_body n) < 10"
  by (cases n) (simp_all add: json_value_defs)

lemma jsize_item: "j \<in> set js \<Longrightarrow> jsize j < jsize (JArr js)"
  by (simp add: member_le_sum_list le_imp_less_Suc)

lemma jsize_member: "m \<in> set ms \<Longrightarrow> jsize (snd m) + 1 < jsize (JObj ms)"
  using member_le_sum_list [of "jsize (snd m)" "map (\<lambda>m. jsize (snd m)) ms"] by simp

lemma vsize_member: "vsize (map_of ms k) < jsize (JObj ms)"
proof (cases "map_of ms k")
  case (Some j)
  then have "(k, j) \<in> set ms" by (rule map_of_SomeD)
  from jsize_member [OF this] Some show ?thesis by (simp add: vsize_def)
qed (simp add: vsize_def)

function zod_accepts :: "ztype \<Rightarrow> json option \<Rightarrow> bool" where
  "zod_accepts ZNull v = (v = Some JNull)"
| "zod_accepts ZBoolean v = (case v of Some (JBool b) \<Rightarrow> True | _ \<Rightarrow> False)"
| "zod_accepts (ZNumber cs) v =
     (case v of Some (JNum n) \<Rightarrow> finite_number n \<and> list_all (num_check_ok n) cs | _ \<Rightarrow> False)"
| "zod_accepts (ZString ks) v =
     (case v of Some (JStr t) \<Rightarrow> list_all (str_check_ok t) ks | _ \<Rightarrow> False)"
| "zod_accepts (ZLiteral l) v = (v = Some l)"
| "zod_accepts (ZEnum es) v = (case v of Some (JStr t) \<Rightarrow> List.member es t | _ \<Rightarrow> False)"
| "zod_accepts ZNever v = False"
| "zod_accepts (ZArray s b) v =
     (case v of Some (JArr js) \<Rightarrow> within b js \<and> (\<forall>j\<in>set js. zod_accepts s (Some j)) | _ \<Rightarrow> False)"
| "zod_accepts (ZRecord k s) v =
     (case v of Some (JObj ms) \<Rightarrow>
        (\<forall>m\<in>set ms. zod_accepts k (Some (JStr (fst m))) \<and> zod_accepts s (Some (snd m)))
      | _ \<Rightarrow> False)"
| "zod_accepts (ZUnion ss) v = (\<exists>s\<in>set ss. zod_accepts s v)"
| "zod_accepts (ZStrict sh) v =
     (case v of Some (JObj ms) \<Rightarrow>
        (\<forall>m\<in>set ms. fst m \<in> fst ` set sh) \<and> (\<forall>f\<in>set sh. zod_accepts (snd f) (map_of ms (fst f)))
      | _ \<Rightarrow> False)"
| "zod_accepts (ZOptional s) v = (v = None \<or> zod_accepts s v)"
| "zod_accepts (ZNullable s) v = (v = Some JNull \<or> zod_accepts s v)"
| "zod_accepts (ZRefine s r) v =
     (case v of Some j \<Rightarrow> zod_accepts s v \<and> rule_holds r j | None \<Rightarrow> False)"
| "zod_accepts (ZLazy n) v = zod_accepts (lazy_body n) v"
  by pat_completeness auto

termination
proof (relation "measures [\<lambda>(s, v). vsize v, \<lambda>(s, v). weight s]", goal_cases)
  case (2 s b v j js x)
  then show ?case using jsize_item by (auto simp: vsize_def)
next
  case (3 k s v j ms m)
  then show ?case using jsize_member [of m ms] by (auto simp: vsize_def)
next
  case (4 k s v j ms m)
  then show ?case using jsize_member [of m ms] by (auto simp: vsize_def)
next
  case (5 ss v s)
  then show ?case using member_le_sum_list [of "weight s" "map weight ss"] by (auto simp: le_imp_less_Suc)
next
  case (6 sh v j ms f)
  then show ?case using vsize_member [of ms "fst f"] by (auto simp: vsize_def)
qed (auto simp: weight_lazy_body)

interpretation zod_exec: zod zod_accepts
  by unfold_locales (auto split: option.splits json.splits simp: list_all_iff)

text \<open>The laws leave no freedom: whatever has them accepts what \<open>zod_accepts\<close> accepts.\<close>

lemma zod_determined:
  assumes "zod acc"
  shows "acc s v = zod_accepts s v"
proof (induction s v rule: zod_accepts.induct)
  case (8 s b v)
  then show ?case
    by (auto simp: zod.array_law [OF assms] split: option.splits json.splits)
next
  case (9 k s v)
  then show ?case
    by (auto simp: zod.record_law [OF assms] split: option.splits json.splits)
next
  case (11 sh v)
  then show ?case
    by (auto simp: zod.strict_law [OF assms] split: option.splits json.splits)
qed (auto simp: zod.null_law [OF assms] zod.boolean_law [OF assms] zod.number_law [OF assms]
      zod.string_law [OF assms] zod.literal_law [OF assms] zod.enum_law [OF assms]
      zod.never_law [OF assms] zod.union_law [OF assms] zod.optional_law [OF assms]
      zod.nullable_law [OF assms] zod.refine_law [OF assms] zod.lazy_law [OF assms]
      split: option.splits json.splits)

end
