(* ===== verification/ExtensionSchemas.thy ===== *)
theory ExtensionSchemas
  imports Zod
begin

text \<open>
  The Protocol v2 schemas of the extension, \<open>pi-extension/src/protocol/v2/schemas.ts\<close>, in
  the order of the file and under its names. \<open>id\<close>, \<open>base64\<close>, \<open>ping\<close>, \<open>pong\<close>, \<open>cancel\<close> and
  \<open>reset\<close> of the file are \<open>id_schema\<close>, \<open>base64_schema\<close>, \<open>ping_frame\<close>, \<open>pong_frame\<close>,
  \<open>cancel_frame\<close> and \<open>reset_frame\<close>; the bounds \<open>MAX_ID_CHARS\<close>, \<open>MAX_TEXT_CHARS\<close>,
  \<open>MAX_ARRAY_ITEMS\<close> and \<open>JsonValueSchema\<close> are in \<open>Zod\<close>, which the recursive schema needs.
\<close>

definition PROTOCOL_VERSION_V2 :: int where
  "PROTOCOL_VERSION_V2 = 2"

definition MAX_FRAME_BYTES :: int where
  "MAX_FRAME_BYTES = 2 * 1024 * 1024"

definition MAX_HISTORY_CHUNK_BYTES :: int where
  "MAX_HISTORY_CHUNK_BYTES = 512 * 1024"

definition MAX_WINDOW_DECODE_BYTES :: int where
  "MAX_WINDOW_DECODE_BYTES = 32 * 1024 * 1024"

definition MAX_FRAGMENT_DECODE_BYTES :: int where
  "MAX_FRAGMENT_DECODE_BYTES = 50 * 1024"

definition id_schema :: ztype where
  "id_schema = z_max MAX_ID_CHARS (z_min 1 (ZString []))"

definition boundedText :: ztype where
  "boundedText = z_max MAX_TEXT_CHARS (ZString [])"

definition nonEmptyText :: ztype where
  "nonEmptyText = z_min 1 boundedText"

definition nonNegativeInt :: ztype where
  "nonNegativeInt = z_check NumFinite (z_check NumNonnegative (z_check NumInt (ZNumber [])))"

definition finiteNumber :: ztype where
  "finiteNumber = z_check NumFinite (ZNumber [])"

definition timestamp :: ztype where
  "timestamp = z_check NumNonnegative finiteNumber"

definition base64_schema :: ztype where
  "base64_schema =
     z_regex RxBase64 (z_max (- ((- (MAX_FRAGMENT_DECODE_BYTES * 4)) div 3) + 4) (z_min 4 (ZString [])))"

definition textBlock :: ztype where
  "textBlock =
     ZStrict [(''type'', lit ''text''), (''text'', boundedText),
     (''truncated'', ZOptional lit_true)]"

definition thinkingBlock :: ztype where
  "thinkingBlock =
     ZStrict [(''type'', lit ''thinking''), (''text'', boundedText),
     (''truncated'', ZOptional lit_true)]"

definition imageMime :: ztype where
  "imageMime = z_regex RxMime (z_max 128 (z_min 1 (ZString [])))"

definition imageByteLength :: ztype where
  "imageByteLength = z_max MAX_WINDOW_DECODE_BYTES nonNegativeInt"

definition imageBlock :: ztype where
  "imageBlock =
     ZUnion [ZStrict [(''type'', lit ''image''), (''mime_type'', imageMime),
     (''data'', z_max MAX_WINDOW_DECODE_BYTES (z_min 1 (ZString []))),
     (''byte_length'', imageByteLength)], ZStrict [(''type'', lit ''image''),
     (''mime_type'', imageMime), (''byte_length'', imageByteLength), (''omitted'', lit_true)]]"

definition userBlock :: ztype where
  "userBlock = ZUnion [textBlock, imageBlock]"

definition assistantBlock :: ztype where
  "assistantBlock = ZUnion [textBlock, thinkingBlock]"

definition TimelineUserBlockSchema :: ztype where
  "TimelineUserBlockSchema = userBlock"

definition TimelineAssistantBlockSchema :: ztype where
  "TimelineAssistantBlockSchema = assistantBlock"

definition TimelineTextBlockSchema :: ztype where
  "TimelineTextBlockSchema = textBlock"

definition TimelineThinkingBlockSchema :: ztype where
  "TimelineThinkingBlockSchema = thinkingBlock"

definition TimelineImageBlockSchema :: ztype where
  "TimelineImageBlockSchema = imageBlock"

definition eventBase :: shape where
  "eventBase =
     [(''event_id'', id_schema), (''session_id'', id_schema), (''history_generation'', id_schema),
     (''timestamp'', timestamp)]"

definition groupedEventBase :: shape where
  "groupedEventBase = spread [eventBase, [(''group_id'', id_schema)]]"

definition timelineUserEvent :: ztype where
  "timelineUserEvent =
     ZRefine (ZStrict (spread [groupedEventBase, [(''kind'', lit ''user''),
     (''message_id'', id_schema), (''blocks'', z_max MAX_ARRAY_ITEMS (ZArray userBlock None)),
     (''origin'', ZEnum [''pwa'', ''extension'', ''unknown'']),
     (''sender_ref'', ZOptional id_schema), (''delivery'', ZEnum [''normal'', ''queued'',
     ''unknown'']), (''status'', lit ''committed'')]])) UserEventRule"

definition timelineAssistantEvent :: ztype where
  "timelineAssistantEvent =
     ZStrict (spread [groupedEventBase, [(''kind'', lit ''assistant''),
     (''blocks'', z_max MAX_ARRAY_ITEMS (ZArray assistantBlock None)),
     (''status'', ZEnum [''complete'', ''interrupted''])]])"

definition timelineToolEvent :: ztype where
  "timelineToolEvent =
     ZUnion [ZStrict (spread [groupedEventBase, [(''kind'', lit ''tool''),
     (''tool_call_id'', id_schema), (''tool'', nonEmptyText), (''args'', ZLazy ExtensionJsonValue),
     (''truncated'', ZBoolean), (''status'', lit ''complete''),
     (''result'', ZLazy ExtensionJsonValue), (''error'', ZOptional ZNever)]]),
     ZStrict (spread [groupedEventBase, [(''kind'', lit ''tool''), (''tool_call_id'', id_schema),
     (''tool'', nonEmptyText), (''args'', ZLazy ExtensionJsonValue), (''truncated'', ZBoolean),
     (''status'', lit ''error''), (''result'', ZOptional (ZLazy ExtensionJsonValue)),
     (''error'', nonEmptyText)]]), ZStrict (spread [groupedEventBase, [(''kind'', lit ''tool''),
     (''tool_call_id'', id_schema), (''tool'', nonEmptyText), (''args'', ZLazy ExtensionJsonValue),
     (''truncated'', ZBoolean), (''status'', lit ''interrupted''), (''result'', ZOptional ZNever),
     (''error'', ZOptional ZNever)]])]"

definition systemEvent :: ztype where
  "systemEvent =
     ZStrict (spread [eventBase, [(''kind'', ZEnum [''compaction'', ''branch_summary'',
     ''custom'']), (''group_id'', ZOptional id_schema), (''payload'', ZLazy ExtensionJsonValue),
     (''truncated'', ZBoolean)]])"

definition providerErrorEvent :: ztype where
  "providerErrorEvent =
     ZStrict (spread [groupedEventBase, [(''kind'', lit ''provider_error''),
     (''message'', nonEmptyText)]])"

definition TimelineEventSchema :: ztype where
  "TimelineEventSchema =
     ZUnion [timelineUserEvent, timelineAssistantEvent, timelineToolEvent, systemEvent,
     providerErrorEvent]"

definition partialBase :: shape where
  "partialBase =
     [(''protocol_version'', lit_int PROTOCOL_VERSION_V2), (''session_id'', id_schema),
     (''history_generation'', id_schema), (''group_id'', id_schema), (''partial_id'', id_schema),
     (''status'', ZEnum [''running'', ''delta''])]"

definition partialTextFields :: shape where
  "partialTextFields = [(''delta'', ZOptional boundedText)]"

definition assistantPartial :: ztype where
  "assistantPartial =
     ZStrict (spread [[(''type'', lit ''timeline_partial'')], partialBase,
     [(''kind'', lit ''assistant''),
     (''blocks'', ZOptional (z_max MAX_ARRAY_ITEMS (ZArray assistantBlock None)))],
     partialTextFields])"

definition thinkingPartial :: ztype where
  "thinkingPartial =
     ZStrict (spread [[(''type'', lit ''timeline_partial'')], partialBase,
     [(''kind'', lit ''thinking''),
     (''blocks'', ZOptional (z_max MAX_ARRAY_ITEMS (ZArray thinkingBlock None)))],
     partialTextFields])"

definition toolPartial :: ztype where
  "toolPartial =
     ZStrict (spread [[(''type'', lit ''timeline_partial'')], partialBase,
     [(''kind'', lit ''tool''), (''tool_call_id'', id_schema), (''tool'', nonEmptyText),
     (''args'', ZOptional (ZLazy ExtensionJsonValue)),
     (''blocks'', ZOptional (z_max MAX_ARRAY_ITEMS (ZArray assistantBlock None)))],
     partialTextFields])"

definition TimelinePartialSchema :: ztype where
  "TimelinePartialSchema = ZUnion [assistantPartial, thinkingPartial, toolPartial]"

definition frameBase :: shape where
  "frameBase = [(''protocol_version'', lit_int PROTOCOL_VERSION_V2)]"

definition clientDirect :: shape where
  "clientDirect = [(''channel_id'', id_schema), (''history_generation'', id_schema)]"

definition responseDirect :: shape where
  "responseDirect = [(''target_channel_id'', id_schema)]"

definition broadcastBase :: shape where
  "broadcastBase = [(''session_id'', id_schema), (''history_generation'', id_schema)]"

definition wireImage :: ztype where
  "wireImage =
     ZStrict [(''data'', z_max MAX_WINDOW_DECODE_BYTES (z_min 1 (ZString []))),
     (''mime'', imageMime)]"

definition queuedMessageItem :: ztype where
  "queuedMessageItem =
     ZStrict [(''id'', id_schema), (''text'', boundedText),
     (''images'', ZOptional (z_max 1 (ZArray wireImage None))),
     (''sender_ref'', ZOptional id_schema), (''editable'', ZBoolean), (''created_at'', timestamp)]"

definition harness :: ztype where
  "harness = ZStrict [(''name'', id_schema), (''version'', id_schema)]"

definition wireModel :: ztype where
  "wireModel =
     ZStrict [(''id'', id_schema), (''name'', boundedText), (''provider'', id_schema),
     (''reasoning'', ZBoolean), (''context_window'', nonNegativeInt), (''vision'', ZBoolean)]"

definition actionName :: ztype where
  "actionName = ZEnum [''session_new'', ''session_compact'', ''model_set'', ''thinking_set'']"

definition thinkingLevel :: ztype where
  "thinkingLevel = ZEnum [''off'', ''minimal'', ''low'', ''medium'', ''high'', ''xhigh'']"

definition askOption :: ztype where
  "askOption =
     ZStrict [(''value'', boundedText), (''label'', boundedText),
     (''description'', ZOptional boundedText), (''preview'', ZOptional boundedText),
     (''freeform'', ZOptional ZBoolean)]"

definition askQuestion :: ztype where
  "askQuestion =
     ZStrict [(''id'', id_schema), (''label'', boundedText), (''prompt'', boundedText),
     (''type'', ZEnum [''single'', ''multi'', ''preview'']), (''required'', ZBoolean),
     (''presentedType'', ZOptional (ZEnum [''single'', ''multi'', ''preview''])),
     (''requestedType'', ZOptional (ZEnum [''single'', ''multi'', ''preview''])),
     (''options'', z_max MAX_ARRAY_ITEMS (ZArray askOption None))]"

definition askEnrichment :: ztype where
  "askEnrichment =
     ZStrict [(''flow_id'', id_schema), (''tool_call_id'', ZNullable id_schema),
     (''source'', id_schema), (''title'', ZNullable boundedText),
     (''questions'', z_max MAX_ARRAY_ITEMS (ZArray askQuestion None))]"

definition askAnswer :: ztype where
  "askAnswer =
     ZStrict [(''values'', ZOptional (z_max MAX_ARRAY_ITEMS (ZArray boundedText None))),
     (''customText'', ZOptional boundedText), (''note'', ZOptional boundedText),
     (''optionNotes'', ZOptional (ZRecord id_schema boundedText))]"

definition askResponse :: ztype where
  "askResponse =
     ZUnion [ZStrict [(''flow_id'', id_schema), (''kind'', lit ''answer''),
     (''mode'', ZOptional (ZEnum [''submit'', ''elaborate''])),
     (''answers'', ZRecord id_schema askAnswer)], ZStrict [(''flow_id'', id_schema),
     (''kind'', lit ''cancel'')]]"

definition extensionUiResponse :: ztype where
  "extensionUiResponse =
     ZUnion [ZStrict (spread [frameBase, [(''type'', lit ''extension_ui_response''),
     (''id'', id_schema)], clientDirect, [(''value'', boundedText),
     (''ask'', ZOptional askResponse)]]), ZStrict (spread [frameBase,
     [(''type'', lit ''extension_ui_response''), (''id'', id_schema)], clientDirect,
     [(''confirmed'', ZBoolean), (''ask'', ZOptional askResponse)]]), ZStrict (spread [frameBase,
     [(''type'', lit ''extension_ui_response''), (''id'', id_schema)], clientDirect,
     [(''cancelled'', lit_true), (''ask'', ZOptional askResponse)]]), ZStrict (spread [frameBase,
     [(''type'', lit ''extension_ui_response''), (''id'', id_schema)], clientDirect,
     [(''ask'', askResponse)]])]"

definition pairRequest :: ztype where
  "pairRequest =
     ZStrict (spread [frameBase, [(''type'', lit ''pair_request''), (''id'', id_schema),
     (''token'', id_schema), (''device_name'', boundedText)]])"

definition sessionHello :: ztype where
  "sessionHello =
     ZStrict (spread [frameBase, [(''type'', lit ''session_hello''), (''id'', id_schema),
     (''channel_id'', id_schema)]])"

definition userMessage :: ztype where
  "userMessage =
     ZStrict (spread [frameBase, [(''type'', lit ''user_message''), (''id'', id_schema)],
     clientDirect, [(''client_request_id'', id_schema), (''text'', boundedText),
     (''images'', ZOptional (z_max 1 (ZArray wireImage None))),
     (''streaming_behavior'', ZOptional (lit ''steer''))]])"

definition userMessageObserved :: ztype where
  "userMessageObserved =
     ZStrict (spread [frameBase, [(''type'', lit ''user_message_observed''), (''id'', id_schema)],
     clientDirect, [(''client_request_id'', id_schema), (''message_id'', id_schema),
     (''status'', lit ''committed'')]])"

definition sessionSync :: ztype where
  "sessionSync =
     ZStrict (spread [frameBase, [(''type'', lit ''session_sync''), (''id'', id_schema)],
     clientDirect, [(''before'', ZNullable id_schema),
     (''limit'', ZOptional (z_max 100 nonNegativeInt))]])"

definition ping_frame :: ztype where
  "ping_frame =
     ZStrict (spread [frameBase, [(''type'', lit ''ping''), (''id'', id_schema)], clientDirect])"

definition cancel_frame :: ztype where
  "cancel_frame =
     ZStrict (spread [frameBase, [(''type'', lit ''cancel''), (''id'', id_schema)], clientDirect])"

definition actionCommon :: shape where
  "actionCommon = spread [frameBase, [(''id'', id_schema)], clientDirect]"

definition sessionNew :: ztype where
  "sessionNew = ZStrict (spread [actionCommon, [(''type'', lit ''session_new'')]])"

definition sessionCompact :: ztype where
  "sessionCompact = ZStrict (spread [actionCommon, [(''type'', lit ''session_compact'')]])"

definition modelSet :: ztype where
  "modelSet =
     ZStrict (spread [actionCommon, [(''type'', lit ''model_set''), (''provider'', id_schema),
     (''model_id'', id_schema)]])"

definition thinkingSet :: ztype where
  "thinkingSet =
     ZStrict (spread [actionCommon, [(''type'', lit ''thinking_set''), (''level'', thinkingLevel)]])"

definition listModels :: ztype where
  "listModels = ZStrict (spread [actionCommon, [(''type'', lit ''list_models'')]])"

definition queuedSet :: ztype where
  "queuedSet =
     ZStrict (spread [frameBase, [(''type'', lit ''queued_message_set''), (''id'', id_schema)],
     clientDirect, [(''text'', boundedText),
     (''images'', ZOptional (z_max 1 (ZArray wireImage None)))]])"

definition queuedClear :: ztype where
  "queuedClear =
     ZStrict (spread [frameBase, [(''type'', lit ''queued_message_clear''), (''id'', id_schema)],
     clientDirect, [(''target_id'', ZOptional id_schema)]])"

definition approveTool :: ztype where
  "approveTool =
     ZStrict (spread [frameBase, [(''type'', lit ''approve_tool''), (''id'', id_schema)],
     clientDirect, [(''tool_call_id'', id_schema), (''decision'', ZEnum [''allow'', ''deny''])]])"

definition ClientFrameSchema :: ztype where
  "ClientFrameSchema =
     ZUnion [pairRequest, sessionHello, userMessage, userMessageObserved, sessionSync, ping_frame,
     cancel_frame, sessionNew, sessionCompact, modelSet, thinkingSet, listModels, queuedSet,
     queuedClear, approveTool, extensionUiResponse]"

definition pairOk :: ztype where
  "pairOk =
     ZStrict (spread [frameBase, [(''type'', lit ''pair_ok''), (''in_reply_to'', id_schema),
     (''session_name'', boundedText), (''session_started_at'', timestamp),
     (''endpoint_id'', id_schema), (''harness'', ZOptional harness),
     (''hostname'', ZOptional boundedText)]])"

definition pairError :: ztype where
  "pairError =
     ZStrict (spread [frameBase, [(''type'', lit ''pair_error''), (''in_reply_to'', id_schema),
     (''code'', ZEnum [''token_expired'', ''token_consumed'', ''token_unknown'',
     ''internal_error'']), (''message'', nonEmptyText)]])"

definition sessionReady :: ztype where
  "sessionReady =
     ZStrict (spread [frameBase, [(''type'', lit ''session_ready''), (''in_reply_to'', id_schema)],
     responseDirect, [(''session_id'', id_schema), (''history_generation'', id_schema),
     (''self_sender_ref'', id_schema)]])"

definition startedMessage :: ztype where
  "startedMessage =
     ZRefine (ZStrict [(''id'', id_schema), (''group_id'', id_schema),
     (''blocks'', z_max MAX_ARRAY_ITEMS (ZArray userBlock None)), (''origin'', ZEnum [''pwa'',
     ''extension'', ''unknown'']), (''sender_ref'', ZOptional id_schema),
     (''delivery'', ZEnum [''normal'', ''queued'', ''unknown''])]) StartedMessageRule"

definition userMessageStarted :: ztype where
  "userMessageStarted =
     ZStrict (spread [frameBase, [(''type'', lit ''user_message_started'')], responseDirect,
     [(''in_reply_to'', id_schema), (''session_id'', id_schema),
     (''history_generation'', id_schema), (''message'', startedMessage)]])"

definition userMessageStatus :: ztype where
  "userMessageStatus =
     ZUnion [ZStrict (spread [frameBase, [(''type'', lit ''user_message_status'')], responseDirect,
     [(''in_reply_to'', id_schema), (''session_id'', id_schema),
     (''history_generation'', id_schema), (''client_request_id'', id_schema),
     (''status'', lit ''received'')]]), ZStrict (spread [frameBase,
     [(''type'', lit ''user_message_status'')], responseDirect, [(''in_reply_to'', id_schema),
     (''session_id'', id_schema), (''history_generation'', id_schema),
     (''client_request_id'', id_schema), (''status'', lit ''accepted''),
     (''message_id'', ZOptional id_schema), (''group_id'', ZOptional id_schema)]]),
     ZStrict (spread [frameBase, [(''type'', lit ''user_message_status'')], responseDirect,
     [(''in_reply_to'', id_schema), (''session_id'', id_schema),
     (''history_generation'', id_schema), (''client_request_id'', id_schema),
     (''status'', lit ''committed''), (''message_id'', id_schema),
     (''group_id'', ZOptional id_schema)]]), ZStrict (spread [frameBase,
     [(''type'', lit ''user_message_status'')], responseDirect, [(''in_reply_to'', id_schema),
     (''session_id'', id_schema), (''history_generation'', id_schema),
     (''client_request_id'', id_schema), (''status'', lit ''unknown_delivery'')]])]"

definition timelineEventFrame :: ztype where
  "timelineEventFrame =
     ZStrict (spread [frameBase, [(''type'', lit ''timeline_event'')], broadcastBase,
     [(''event'', TimelineEventSchema)]])"

definition TimelineEventFragmentSchema :: ztype where
  "TimelineEventFragmentSchema =
     ZStrict (spread [frameBase, [(''type'', lit ''timeline_event_fragment'')], broadcastBase,
     [(''event_id'', id_schema), (''index'', nonNegativeInt), (''data_base64'', base64_schema),
     (''final'', ZBoolean)]])"

definition HistoryFragmentSchema :: ztype where
  "HistoryFragmentSchema =
     ZStrict [(''event_id'', id_schema), (''index'', nonNegativeInt),
     (''data_base64'', base64_schema), (''final'', ZBoolean)]"

definition historyFragment :: ztype where
  "historyFragment = HistoryFragmentSchema"

definition historyChunkBase :: shape where
  "historyChunkBase =
     spread [frameBase, [(''type'', lit ''session_history_chunk'')], responseDirect,
     [(''in_reply_to'', id_schema), (''session_id'', id_schema),
     (''history_generation'', id_schema), (''snapshot_head'', id_schema),
     (''chunk_index'', nonNegativeInt),
     (''events'', z_max MAX_ARRAY_ITEMS (ZArray TimelineEventSchema None)),
     (''fragments'', z_max MAX_ARRAY_ITEMS (ZArray historyFragment None))]]"

definition historyChunkTail :: shape where
  "historyChunkTail =
     [(''final_chunk'', lit_false), (''next_before'', ZOptional ZNever),
     (''eos'', ZOptional ZNever)]"

definition historyChunkEos :: shape where
  "historyChunkEos =
     [(''final_chunk'', lit_true), (''eos'', lit_true), (''next_before'', ZOptional ZNever)]"

definition historyChunkNext :: shape where
  "historyChunkNext =
     [(''final_chunk'', lit_true), (''eos'', lit_false), (''next_before'', id_schema)]"

definition SessionHistoryChunkSchema :: ztype where
  "SessionHistoryChunkSchema =
     ZRefine (ZUnion [ZStrict (spread [historyChunkBase, historyChunkTail]),
     ZStrict (spread [historyChunkBase, historyChunkEos]), ZStrict (spread [historyChunkBase,
     historyChunkNext])]) HistoryChunkRule"

definition protocolErrorFields :: shape where
  "protocolErrorFields =
     [(''type'', lit ''protocol_error''), (''in_reply_to'', ZOptional id_schema),
     (''code'', ZEnum [''protocol_upgrade_required'', ''invalid_message'', ''unsupported_type'',
     ''invalid_channel'', ''invalid_generation'', ''invalid_cursor'', ''reset_required'',
     ''too_large'', ''internal_error'']), (''message'', nonEmptyText)]"

definition protocolError :: ztype where
  "protocolError =
     ZUnion [ZStrict (spread [frameBase, protocolErrorFields, responseDirect]),
     ZStrict (spread [frameBase, protocolErrorFields])]"

definition reset_frame :: ztype where
  "reset_frame =
     ZStrict (spread [frameBase, [(''type'', lit ''reset'')], responseDirect,
     [(''session_id'', id_schema), (''history_generation'', id_schema),
     (''reason'', ZEnum [''generation_changed'', ''branch_changed'', ''session_replaced'',
     ''conflict'', ''invalid_cursor''])]])"

definition pong_frame :: ztype where
  "pong_frame =
     ZStrict (spread [frameBase, [(''type'', lit ''pong'')], responseDirect,
     [(''in_reply_to'', id_schema)]])"

definition cancelled :: ztype where
  "cancelled =
     ZStrict (spread [frameBase, [(''type'', lit ''cancelled'')], responseDirect,
     [(''in_reply_to'', id_schema)]])"

definition actionOk :: ztype where
  "actionOk =
     ZStrict (spread [frameBase, [(''type'', lit ''action_ok'')], responseDirect,
     [(''in_reply_to'', id_schema), (''action'', actionName)]])"

definition actionError :: ztype where
  "actionError =
     ZStrict (spread [frameBase, [(''type'', lit ''action_error'')], responseDirect,
     [(''in_reply_to'', id_schema), (''action'', actionName), (''error'', nonEmptyText)]])"

definition modelsList :: ztype where
  "modelsList =
     ZStrict (spread [frameBase, [(''type'', lit ''models_list'')], responseDirect,
     [(''in_reply_to'', id_schema), (''models'', z_max MAX_ARRAY_ITEMS (ZArray wireModel None)),
     (''current'', ZOptional wireModel)]])"

definition queuedMessageState :: ztype where
  "queuedMessageState =
     ZStrict (spread [frameBase, [(''type'', lit ''queued_message_state'')], broadcastBase,
     [(''snapshot_id'', id_schema), (''chunk_index'', nonNegativeInt), (''final'', ZBoolean),
     (''items'', z_max MAX_ARRAY_ITEMS (ZArray queuedMessageItem None))]])"

definition extensionUiRequest :: ztype where
  "extensionUiRequest =
     ZUnion [ZStrict (spread [frameBase, [(''type'', lit ''extension_ui_request'')],
     responseDirect, [(''id'', id_schema), (''method'', lit ''select''), (''title'', boundedText),
     (''options'', z_max MAX_ARRAY_ITEMS (ZArray boundedText None)),
     (''ask'', ZOptional askEnrichment)]]), ZStrict (spread [frameBase,
     [(''type'', lit ''extension_ui_request'')], responseDirect, [(''id'', id_schema),
     (''method'', lit ''confirm''), (''title'', boundedText), (''message'', boundedText),
     (''ask'', ZOptional askEnrichment)]]), ZStrict (spread [frameBase,
     [(''type'', lit ''extension_ui_request'')], responseDirect, [(''id'', id_schema),
     (''method'', lit ''input''), (''title'', boundedText),
     (''placeholder'', ZOptional boundedText), (''ask'', ZOptional askEnrichment)]]),
     ZStrict (spread [frameBase, [(''type'', lit ''extension_ui_request'')], responseDirect,
     [(''id'', id_schema), (''method'', lit ''editor''), (''title'', boundedText),
     (''prefill'', ZOptional boundedText), (''ask'', ZOptional askEnrichment)]]),
     ZStrict (spread [frameBase, [(''type'', lit ''extension_ui_request'')], responseDirect,
     [(''id'', id_schema), (''method'', lit ''notify''), (''message'', boundedText),
     (''notify_type'', ZOptional (ZEnum [''info'', ''warning'', ''error'']))]])]"

definition bye :: ztype where
  "bye =
     ZStrict (spread [frameBase, [(''type'', lit ''bye'')], broadcastBase,
     [(''reason'', ZEnum [''peer_stop'', ''session_replaced'', ''shutdown''])]])"

definition ServerFrameSchema :: ztype where
  "ServerFrameSchema =
     ZUnion [pairOk, pairError, sessionReady, userMessageStarted, userMessageStatus,
     timelineEventFrame, TimelinePartialSchema, TimelineEventFragmentSchema,
     SessionHistoryChunkSchema, protocolError, reset_frame, pong_frame, cancelled, actionOk,
     actionError, modelsList, queuedMessageState, extensionUiRequest, bye]"

definition markerSystemKind :: ztype where
  "markerSystemKind = ZEnum [''compaction'', ''branch_summary'', ''custom'']"

definition markerGroupedBase :: shape where
  "markerGroupedBase =
     [(''version'', lit_int 2), (''event_id'', id_schema), (''group_id'', id_schema)]"

definition markerUser :: ztype where
  "markerUser =
     ZRefine (ZStrict (spread [markerGroupedBase, [(''kind'', lit ''user''),
     (''message_id'', ZOptional id_schema), (''origin'', ZEnum [''pwa'', ''extension'',
     ''unknown'']), (''delivery'', ZEnum [''normal'', ''queued'', ''unknown'']),
     (''sender_ref'', ZOptional id_schema)]])) MarkerUserRule"

definition markerGrouped :: ztype where
  "markerGrouped =
     ZStrict (spread [markerGroupedBase, [(''kind'', ZEnum [''assistant'', ''tool'',
     ''provider_error''])]])"

definition markerSystem :: ztype where
  "markerSystem =
     ZStrict [(''version'', lit_int 2), (''event_id'', id_schema), (''kind'', markerSystemKind),
     (''group_id'', ZOptional id_schema)]"

definition MarkerSchemaV2 :: ztype where
  "MarkerSchemaV2 = ZUnion [markerUser, markerGrouped, markerSystem]"

definition ClientFrameTypes :: "string list" where
  "ClientFrameTypes = [
     ''pair_request'', ''session_hello'', ''user_message'', ''user_message_observed'',
     ''session_sync'', ''ping'', ''cancel'', ''session_new'', ''session_compact'', ''model_set'',
     ''thinking_set'', ''list_models'', ''queued_message_set'', ''queued_message_clear'',
     ''approve_tool'', ''extension_ui_response'']"

definition ServerFrameTypes :: "string list" where
  "ServerFrameTypes = [
     ''pair_ok'', ''pair_error'', ''session_ready'', ''user_message_started'',
     ''user_message_status'', ''timeline_event'', ''timeline_partial'',
     ''timeline_event_fragment'', ''session_history_chunk'', ''protocol_error'', ''reset'',
     ''pong'', ''cancelled'', ''action_ok'', ''action_error'', ''models_list'',
     ''queued_message_state'', ''extension_ui_request'', ''bye'']"

lemmas extension_schema_defs =
  PROTOCOL_VERSION_V2_def MAX_FRAME_BYTES_def MAX_HISTORY_CHUNK_BYTES_def
  MAX_WINDOW_DECODE_BYTES_def MAX_FRAGMENT_DECODE_BYTES_def id_schema_def boundedText_def
  nonEmptyText_def nonNegativeInt_def finiteNumber_def timestamp_def base64_schema_def
  textBlock_def thinkingBlock_def imageMime_def imageByteLength_def imageBlock_def userBlock_def
  assistantBlock_def TimelineUserBlockSchema_def TimelineAssistantBlockSchema_def
  TimelineTextBlockSchema_def TimelineThinkingBlockSchema_def TimelineImageBlockSchema_def
  eventBase_def groupedEventBase_def timelineUserEvent_def timelineAssistantEvent_def
  timelineToolEvent_def systemEvent_def providerErrorEvent_def TimelineEventSchema_def
  partialBase_def partialTextFields_def assistantPartial_def thinkingPartial_def toolPartial_def
  TimelinePartialSchema_def frameBase_def clientDirect_def responseDirect_def broadcastBase_def
  wireImage_def queuedMessageItem_def harness_def wireModel_def actionName_def thinkingLevel_def
  askOption_def askQuestion_def askEnrichment_def askAnswer_def askResponse_def
  extensionUiResponse_def pairRequest_def sessionHello_def userMessage_def userMessageObserved_def
  sessionSync_def ping_frame_def cancel_frame_def actionCommon_def sessionNew_def
  sessionCompact_def modelSet_def thinkingSet_def listModels_def queuedSet_def queuedClear_def
  approveTool_def ClientFrameSchema_def pairOk_def pairError_def sessionReady_def
  startedMessage_def userMessageStarted_def userMessageStatus_def timelineEventFrame_def
  TimelineEventFragmentSchema_def HistoryFragmentSchema_def historyFragment_def
  historyChunkBase_def historyChunkTail_def historyChunkEos_def historyChunkNext_def
  SessionHistoryChunkSchema_def protocolErrorFields_def protocolError_def reset_frame_def
  pong_frame_def cancelled_def actionOk_def actionError_def modelsList_def queuedMessageState_def
  extensionUiRequest_def bye_def ServerFrameSchema_def markerSystemKind_def markerGroupedBase_def
  markerUser_def markerGrouped_def markerSystem_def MarkerSchemaV2_def

end
