(* ===== verification/PwaSchemas.thy ===== *)
theory PwaSchemas
  imports Zod
begin

text \<open>
  The Protocol v2 schemas of the PWA, \<open>pwa/src/lib/remote-pi/protocol-v2/schema.ts\<close> and
  \<open>frames.ts\<close>, in the order of the files and under their names; a name that the extension
  side also uses ends in \<open>_pwa\<close>. \<open>jsonValueSchema\<close>, \<open>textSchema\<close> and their bounds are in
  \<open>Zod\<close>.
\<close>

section \<open>schema.ts\<close>

definition PROTOCOL_VERSION :: int where
  "PROTOCOL_VERSION = 2"

definition PROTOCOL_VERSION_V2_pwa :: int where
  "PROTOCOL_VERSION_V2_pwa = PROTOCOL_VERSION"

definition MAX_FRAME_BYTES_pwa :: int where
  "MAX_FRAME_BYTES_pwa = 2 * 1024 * 1024"

definition MAX_HISTORY_CHUNK_BYTES_pwa :: int where
  "MAX_HISTORY_CHUNK_BYTES_pwa = 512 * 1024"

definition MAX_SESSION_HISTORY_CHUNK_BYTES :: int where
  "MAX_SESSION_HISTORY_CHUNK_BYTES = MAX_HISTORY_CHUNK_BYTES_pwa"

definition MAX_WINDOW_BYTES :: int where
  "MAX_WINDOW_BYTES = 32 * 1024 * 1024"

definition MAX_WINDOW_DECODE_BYTES_pwa :: int where
  "MAX_WINDOW_DECODE_BYTES_pwa = MAX_WINDOW_BYTES"

definition MAX_FRAGMENT_BYTES :: int where
  "MAX_FRAGMENT_BYTES = 50 * 1024"

definition MAX_FRAGMENT_DECODE_BYTES_pwa :: int where
  "MAX_FRAGMENT_DECODE_BYTES_pwa = MAX_FRAGMENT_BYTES"

definition finiteNumber_pwa :: ztype where
  "finiteNumber_pwa = z_check NumFinite (ZNumber [])"

definition idSchema :: ztype where
  "idSchema = z_max MAX_ID_CHARS_pwa (z_min 1 (ZString []))"

definition nonEmptyTextSchema :: ztype where
  "nonEmptyTextSchema = z_min 1 textSchema"

definition timestampSchema :: ztype where
  "timestampSchema = z_check NumNonnegative finiteNumber_pwa"

definition positiveIntSchema :: ztype where
  "positiveIntSchema = z_check NumFinite (z_check NumNonnegative (z_check NumInt (ZNumber [])))"

definition protocolVersionSchema :: ztype where
  "protocolVersionSchema = lit_int PROTOCOL_VERSION"

definition channelIdSchema :: ztype where
  "channelIdSchema = idSchema"

definition historyGenerationSchema :: ztype where
  "historyGenerationSchema = idSchema"

definition truncatedSchema :: ztype where
  "truncatedSchema = lit_true"

definition textBlockShape :: shape where
  "textBlockShape =
     [(''type'', lit ''text''), (''text'', textSchema), (''truncated'', ZOptional truncatedSchema)]"

definition textBlockSchema :: ztype where
  "textBlockSchema = ZStrict textBlockShape"

definition thinkingBlockShape :: shape where
  "thinkingBlockShape =
     [(''type'', lit ''thinking''), (''text'', textSchema),
     (''truncated'', ZOptional truncatedSchema)]"

definition thinkingBlockSchema :: ztype where
  "thinkingBlockSchema = ZStrict thinkingBlockShape"

definition imageMimeSchema :: ztype where
  "imageMimeSchema = z_regex RxMime (z_max 128 (z_min 1 (ZString [])))"

definition imageByteLengthSchema :: ztype where
  "imageByteLengthSchema = z_max MAX_WINDOW_BYTES positiveIntSchema"

definition completeImageSchema :: ztype where
  "completeImageSchema =
     ZStrict [(''type'', lit ''image''), (''mime_type'', imageMimeSchema),
     (''data'', z_max MAX_WINDOW_BYTES (z_min 1 (ZString []))),
     (''byte_length'', imageByteLengthSchema)]"

definition omittedImageSchema :: ztype where
  "omittedImageSchema =
     ZStrict [(''type'', lit ''image''), (''mime_type'', imageMimeSchema),
     (''byte_length'', imageByteLengthSchema), (''omitted'', lit_true)]"

definition imageBlockSchema :: ztype where
  "imageBlockSchema = ZUnion [completeImageSchema, omittedImageSchema]"

definition userBlockSchema :: ztype where
  "userBlockSchema = ZUnion [textBlockSchema, imageBlockSchema]"

definition assistantBlockSchema :: ztype where
  "assistantBlockSchema = ZUnion [textBlockSchema, thinkingBlockSchema]"

definition timelineBaseShape :: shape where
  "timelineBaseShape =
     [(''event_id'', idSchema), (''session_id'', idSchema),
     (''history_generation'', historyGenerationSchema), (''timestamp'', timestampSchema)]"

definition groupedTimelineBaseShape :: shape where
  "groupedTimelineBaseShape = spread [timelineBaseShape, [(''group_id'', idSchema)]]"

definition userEventShape :: shape where
  "userEventShape =
     spread [groupedTimelineBaseShape, [(''kind'', lit ''user''), (''message_id'', idSchema),
     (''blocks'', z_max MAX_ARRAY_ITEMS_pwa (ZArray userBlockSchema None)),
     (''origin'', ZEnum [''pwa'', ''extension'', ''unknown'']),
     (''sender_ref'', ZOptional idSchema), (''delivery'', ZEnum [''normal'', ''queued'',
     ''unknown'']), (''status'', lit ''committed'')]]"

definition timelineUserEventSchema :: ztype where
  "timelineUserEventSchema = ZRefine (ZStrict userEventShape) UserEventRule"

definition assistantEventShape :: shape where
  "assistantEventShape =
     spread [groupedTimelineBaseShape, [(''kind'', lit ''assistant''),
     (''blocks'', z_max MAX_ARRAY_ITEMS_pwa (ZArray assistantBlockSchema None)),
     (''status'', ZEnum [''complete'', ''interrupted''])]]"

definition timelineAssistantEventSchema :: ztype where
  "timelineAssistantEventSchema = ZStrict assistantEventShape"

definition completeToolEventSchema :: ztype where
  "completeToolEventSchema =
     ZStrict (spread [groupedTimelineBaseShape, [(''kind'', lit ''tool''),
     (''tool_call_id'', idSchema), (''tool'', nonEmptyTextSchema), (''args'', ZLazy PwaJsonValue),
     (''truncated'', ZBoolean), (''status'', lit ''complete''), (''result'', ZLazy PwaJsonValue),
     (''error'', ZOptional ZNever)]])"

definition errorToolEventSchema :: ztype where
  "errorToolEventSchema =
     ZStrict (spread [groupedTimelineBaseShape, [(''kind'', lit ''tool''),
     (''tool_call_id'', idSchema), (''tool'', nonEmptyTextSchema), (''args'', ZLazy PwaJsonValue),
     (''truncated'', ZBoolean), (''status'', lit ''error''),
     (''result'', ZOptional (ZLazy PwaJsonValue)), (''error'', nonEmptyTextSchema)]])"

definition interruptedToolEventSchema :: ztype where
  "interruptedToolEventSchema =
     ZStrict (spread [groupedTimelineBaseShape, [(''kind'', lit ''tool''),
     (''tool_call_id'', idSchema), (''tool'', nonEmptyTextSchema), (''args'', ZLazy PwaJsonValue),
     (''truncated'', ZBoolean), (''status'', lit ''interrupted''), (''result'', ZOptional ZNever),
     (''error'', ZOptional ZNever)]])"

definition timelineToolEventSchema :: ztype where
  "timelineToolEventSchema =
     ZUnion [completeToolEventSchema, errorToolEventSchema, interruptedToolEventSchema]"

definition groupedSystemShape :: shape where
  "groupedSystemShape =
     spread [timelineBaseShape, [(''kind'', ZEnum [''compaction'', ''branch_summary'',
     ''custom'']), (''group_id'', ZOptional idSchema), (''payload'', ZLazy PwaJsonValue),
     (''truncated'', ZBoolean)]]"

definition timelineSystemEventSchema :: ztype where
  "timelineSystemEventSchema = ZStrict groupedSystemShape"

definition timelineProviderErrorEventSchema :: ztype where
  "timelineProviderErrorEventSchema =
     ZStrict (spread [groupedTimelineBaseShape, [(''kind'', lit ''provider_error''),
     (''message'', nonEmptyTextSchema)]])"

definition timelineEventSchema :: ztype where
  "timelineEventSchema =
     ZUnion [timelineUserEventSchema, timelineAssistantEventSchema, timelineToolEventSchema,
     timelineSystemEventSchema, timelineProviderErrorEventSchema]"

definition TimelineEventSchema_pwa :: ztype where
  "TimelineEventSchema_pwa = timelineEventSchema"

definition partialBaseShape :: shape where
  "partialBaseShape =
     [(''protocol_version'', protocolVersionSchema), (''type'', lit ''timeline_partial''),
     (''session_id'', idSchema), (''history_generation'', historyGenerationSchema),
     (''group_id'', idSchema), (''partial_id'', idSchema), (''status'', ZEnum [''running'',
     ''delta''])]"

definition partialTextShape :: shape where
  "partialTextShape = [(''delta'', ZOptional textSchema)]"

definition timelinePartialSchema :: ztype where
  "timelinePartialSchema =
     ZUnion [ZStrict (spread [partialBaseShape, [(''kind'', lit ''assistant''),
     (''blocks'', ZOptional (z_max MAX_ARRAY_ITEMS_pwa (ZArray assistantBlockSchema None)))],
     partialTextShape]), ZStrict (spread [partialBaseShape, [(''kind'', lit ''thinking''),
     (''blocks'', ZOptional (z_max MAX_ARRAY_ITEMS_pwa (ZArray thinkingBlockSchema None)))],
     partialTextShape]), ZStrict (spread [partialBaseShape, [(''kind'', lit ''tool''),
     (''tool_call_id'', idSchema), (''tool'', nonEmptyTextSchema),
     (''args'', ZOptional (ZLazy PwaJsonValue)),
     (''blocks'', ZOptional (z_max MAX_ARRAY_ITEMS_pwa (ZArray assistantBlockSchema None)))],
     partialTextShape])]"

definition TimelinePartialSchema_pwa :: ztype where
  "TimelinePartialSchema_pwa = timelinePartialSchema"

definition base64Schema :: ztype where
  "base64Schema =
     z_regex RxBase64 (z_max (- ((- (MAX_FRAGMENT_BYTES * 4)) div 3) + 4) (z_min 4 (ZString [])))"

definition timelineEventFragmentSchema :: ztype where
  "timelineEventFragmentSchema =
     ZStrict [(''event_id'', idSchema), (''index'', positiveIntSchema),
     (''data_base64'', base64Schema), (''final'', ZBoolean)]"

definition historyFragmentSchema :: ztype where
  "historyFragmentSchema = timelineEventFragmentSchema"

definition TimelineEventFragmentSchema_pwa :: ztype where
  "TimelineEventFragmentSchema_pwa = timelineEventFragmentSchema"

definition HistoryFragmentSchema_pwa :: ztype where
  "HistoryFragmentSchema_pwa = historyFragmentSchema"

definition askQuestionTypeSchema :: ztype where
  "askQuestionTypeSchema = ZEnum [''single'', ''multi'', ''preview'']"

definition askOptionSchema :: ztype where
  "askOptionSchema =
     ZStrict [(''value'', textSchema), (''label'', textSchema),
     (''description'', ZOptional textSchema), (''preview'', ZOptional textSchema),
     (''freeform'', ZOptional ZBoolean)]"

definition askQuestionSchema :: ztype where
  "askQuestionSchema =
     ZStrict [(''id'', idSchema), (''label'', textSchema), (''prompt'', textSchema),
     (''type'', askQuestionTypeSchema), (''required'', ZBoolean),
     (''presentedType'', ZOptional askQuestionTypeSchema),
     (''requestedType'', ZOptional askQuestionTypeSchema),
     (''options'', z_max MAX_ARRAY_ITEMS_pwa (ZArray askOptionSchema None))]"

definition askEnrichmentSchema :: ztype where
  "askEnrichmentSchema =
     ZStrict [(''flow_id'', idSchema), (''tool_call_id'', ZNullable idSchema),
     (''source'', idSchema), (''title'', ZNullable textSchema),
     (''questions'', z_max MAX_ARRAY_ITEMS_pwa (ZArray askQuestionSchema None))]"

definition askAnswerSchema :: ztype where
  "askAnswerSchema =
     ZStrict [(''values'', ZOptional (z_max MAX_ARRAY_ITEMS_pwa (ZArray textSchema None))),
     (''customText'', ZOptional textSchema), (''note'', ZOptional textSchema),
     (''optionNotes'', ZOptional (ZRecord idSchema textSchema))]"

definition askResponseEnrichmentSchema :: ztype where
  "askResponseEnrichmentSchema =
     ZUnion [ZStrict [(''flow_id'', idSchema), (''kind'', lit ''answer''),
     (''mode'', ZOptional (ZEnum [''submit'', ''elaborate''])),
     (''answers'', ZRecord idSchema askAnswerSchema)], ZStrict [(''flow_id'', idSchema),
     (''kind'', lit ''cancel'')]]"

definition extensionUiRequestPayloadSchema :: ztype where
  "extensionUiRequestPayloadSchema =
     ZUnion [ZStrict [(''type'', lit ''extension_ui_request''), (''id'', idSchema),
     (''method'', lit ''select''), (''title'', textSchema),
     (''options'', z_max MAX_ARRAY_ITEMS_pwa (ZArray textSchema None)),
     (''ask'', ZOptional askEnrichmentSchema)], ZStrict [(''type'', lit ''extension_ui_request''),
     (''id'', idSchema), (''method'', lit ''confirm''), (''title'', textSchema),
     (''message'', textSchema), (''ask'', ZOptional askEnrichmentSchema)],
     ZStrict [(''type'', lit ''extension_ui_request''), (''id'', idSchema),
     (''method'', lit ''input''), (''title'', textSchema), (''placeholder'', ZOptional textSchema),
     (''ask'', ZOptional askEnrichmentSchema)], ZStrict [(''type'', lit ''extension_ui_request''),
     (''id'', idSchema), (''method'', lit ''editor''), (''title'', textSchema),
     (''prefill'', ZOptional textSchema), (''ask'', ZOptional askEnrichmentSchema)],
     ZStrict [(''type'', lit ''extension_ui_request''), (''id'', idSchema),
     (''method'', lit ''notify''), (''message'', textSchema),
     (''notify_type'', ZOptional (ZEnum [''info'', ''warning'', ''error'']))]]"

definition extensionUiResponsePayloadSchema :: ztype where
  "extensionUiResponsePayloadSchema =
     ZUnion [ZStrict [(''type'', lit ''extension_ui_response''), (''id'', idSchema),
     (''value'', textSchema), (''ask'', ZOptional askResponseEnrichmentSchema)],
     ZStrict [(''type'', lit ''extension_ui_response''), (''id'', idSchema),
     (''confirmed'', ZBoolean), (''ask'', ZOptional askResponseEnrichmentSchema)],
     ZStrict [(''type'', lit ''extension_ui_response''), (''id'', idSchema),
     (''cancelled'', lit_true), (''ask'', ZOptional askResponseEnrichmentSchema)],
     ZStrict [(''type'', lit ''extension_ui_response''), (''id'', idSchema),
     (''ask'', askResponseEnrichmentSchema)]]"

definition thinkingLevelSchema :: ztype where
  "thinkingLevelSchema = ZEnum [''off'', ''minimal'', ''low'', ''medium'', ''high'', ''xhigh'']"

definition actionNameSchema :: ztype where
  "actionNameSchema = ZEnum [''session_new'', ''session_compact'', ''model_set'', ''thinking_set'']"

definition byeReasonSchema :: ztype where
  "byeReasonSchema = ZEnum [''peer_stop'', ''session_replaced'', ''shutdown'']"

definition wireImageSchema :: ztype where
  "wireImageSchema =
     ZStrict [(''data'', z_max MAX_WINDOW_BYTES (z_min 1 (ZString []))),
     (''mime'', imageMimeSchema)]"

definition queuedMessageItemSchema :: ztype where
  "queuedMessageItemSchema =
     ZStrict [(''id'', idSchema), (''text'', textSchema),
     (''images'', ZOptional (z_max 1 (ZArray wireImageSchema None))),
     (''sender_ref'', ZOptional idSchema), (''editable'', ZBoolean),
     (''created_at'', timestampSchema)]"

definition wireModelSchema :: ztype where
  "wireModelSchema =
     ZStrict [(''id'', idSchema), (''name'', textSchema), (''provider'', idSchema),
     (''reasoning'', ZBoolean), (''context_window'', positiveIntSchema), (''vision'', ZBoolean)]"

definition harnessSchema :: ztype where
  "harnessSchema = ZStrict [(''name'', idSchema), (''version'', idSchema)]"

definition CLIENT_FRAME_TYPES :: "string list" where
  "CLIENT_FRAME_TYPES = [
     ''pair_request'', ''session_hello'', ''user_message'', ''user_message_observed'',
     ''session_sync'', ''ping'', ''cancel'', ''session_new'', ''session_compact'', ''model_set'',
     ''thinking_set'', ''list_models'', ''queued_message_set'', ''queued_message_clear'',
     ''approve_tool'', ''extension_ui_response'']"

definition SERVER_FRAME_TYPES :: "string list" where
  "SERVER_FRAME_TYPES = [
     ''pair_ok'', ''pair_error'', ''session_ready'', ''user_message_started'',
     ''user_message_status'', ''timeline_event'', ''timeline_partial'',
     ''timeline_event_fragment'', ''session_history_chunk'', ''protocol_error'', ''reset'',
     ''pong'', ''cancelled'', ''action_ok'', ''action_error'', ''models_list'',
     ''queued_message_state'', ''extension_ui_request'', ''bye'']"

section \<open>frames.ts\<close>

definition protocol :: shape where
  "protocol = [(''protocol_version'', protocolVersionSchema)]"

definition channelRequest :: shape where
  "channelRequest =
     spread [protocol, [(''channel_id'', channelIdSchema),
     (''history_generation'', historyGenerationSchema)]]"

definition directResponse :: shape where
  "directResponse = spread [protocol, [(''target_channel_id'', channelIdSchema)]]"

definition ownerBroadcast :: shape where
  "ownerBroadcast =
     spread [protocol, [(''session_id'', idSchema),
     (''history_generation'', historyGenerationSchema)]]"

definition pairRequestFrameSchema :: ztype where
  "pairRequestFrameSchema =
     ZStrict (spread [protocol, [(''type'', lit ''pair_request''), (''id'', idSchema),
     (''token'', idSchema), (''device_name'', textSchema)]])"

definition sessionHelloFrameSchema :: ztype where
  "sessionHelloFrameSchema =
     ZStrict (spread [protocol, [(''type'', lit ''session_hello''), (''id'', idSchema),
     (''channel_id'', channelIdSchema)]])"

definition userMessageFrameSchema :: ztype where
  "userMessageFrameSchema =
     ZStrict (spread [protocol, [(''type'', lit ''user_message''), (''id'', idSchema)],
     channelRequest, [(''client_request_id'', idSchema), (''text'', textSchema),
     (''images'', ZOptional (z_max 1 (ZArray wireImageSchema None))),
     (''streaming_behavior'', ZOptional (lit ''steer''))]])"

definition userMessageObservedFrameSchema :: ztype where
  "userMessageObservedFrameSchema =
     ZStrict (spread [protocol, [(''type'', lit ''user_message_observed''), (''id'', idSchema)],
     channelRequest, [(''client_request_id'', idSchema), (''message_id'', idSchema),
     (''status'', lit ''committed'')]])"

definition sessionSyncFrameSchema :: ztype where
  "sessionSyncFrameSchema =
     ZStrict (spread [protocol, [(''type'', lit ''session_sync''), (''id'', idSchema)],
     channelRequest, [(''before'', ZNullable idSchema),
     (''limit'', ZOptional (z_max 100 (z_check NumFinite (z_check NumNonnegative (z_check NumInt (ZNumber []))))))]])"

definition pingFrameSchema :: ztype where
  "pingFrameSchema =
     ZStrict (spread [protocol, [(''type'', lit ''ping''), (''id'', idSchema),
     (''channel_id'', channelIdSchema), (''history_generation'', historyGenerationSchema)]])"

definition cancelFrameSchema :: ztype where
  "cancelFrameSchema =
     ZStrict (spread [protocol, [(''type'', lit ''cancel''), (''id'', idSchema)], channelRequest])"

definition sessionNewFrameSchema :: ztype where
  "sessionNewFrameSchema =
     ZStrict (spread [protocol, [(''type'', lit ''session_new''), (''id'', idSchema)],
     channelRequest])"

definition sessionCompactFrameSchema :: ztype where
  "sessionCompactFrameSchema =
     ZStrict (spread [protocol, [(''type'', lit ''session_compact''), (''id'', idSchema)],
     channelRequest])"

definition modelSetFrameSchema :: ztype where
  "modelSetFrameSchema =
     ZStrict (spread [protocol, [(''type'', lit ''model_set''), (''id'', idSchema)],
     channelRequest, [(''provider'', idSchema), (''model_id'', idSchema)]])"

definition thinkingSetFrameSchema :: ztype where
  "thinkingSetFrameSchema =
     ZStrict (spread [protocol, [(''type'', lit ''thinking_set''), (''id'', idSchema)],
     channelRequest, [(''level'', thinkingLevelSchema)]])"

definition listModelsFrameSchema :: ztype where
  "listModelsFrameSchema =
     ZStrict (spread [protocol, [(''type'', lit ''list_models''), (''id'', idSchema)],
     channelRequest])"

definition queuedMessageSetFrameSchema :: ztype where
  "queuedMessageSetFrameSchema =
     ZStrict (spread [protocol, [(''type'', lit ''queued_message_set''), (''id'', idSchema)],
     channelRequest, [(''text'', textSchema),
     (''images'', ZOptional (z_max 1 (ZArray wireImageSchema None)))]])"

definition queuedMessageClearFrameSchema :: ztype where
  "queuedMessageClearFrameSchema =
     ZStrict (spread [protocol, [(''type'', lit ''queued_message_clear''), (''id'', idSchema)],
     channelRequest, [(''target_id'', ZOptional idSchema)]])"

definition approveToolFrameSchema :: ztype where
  "approveToolFrameSchema =
     ZStrict (spread [protocol, [(''type'', lit ''approve_tool''), (''id'', idSchema)],
     channelRequest, [(''tool_call_id'', idSchema), (''decision'', ZEnum [''allow'', ''deny''])]])"

definition extensionUiResponseFrameSchema :: ztype where
  "extensionUiResponseFrameSchema =
     ZUnion [ZStrict (spread [protocol, [(''type'', lit ''extension_ui_response''),
     (''id'', idSchema)], channelRequest, [(''value'', textSchema),
     (''ask'', ZOptional (member_of ''ask'' (options_of extensionUiResponsePayloadSchema ! 0)))]]),
     ZStrict (spread [protocol, [(''type'', lit ''extension_ui_response''), (''id'', idSchema)],
     channelRequest, [(''confirmed'', ZBoolean),
     (''ask'', ZOptional (member_of ''ask'' (options_of extensionUiResponsePayloadSchema ! 1)))]]),
     ZStrict (spread [protocol, [(''type'', lit ''extension_ui_response''), (''id'', idSchema)],
     channelRequest, [(''cancelled'', lit_true),
     (''ask'', ZOptional (member_of ''ask'' (options_of extensionUiResponsePayloadSchema ! 2)))]]),
     ZStrict (spread [protocol, [(''type'', lit ''extension_ui_response''), (''id'', idSchema)],
     channelRequest,
     [(''ask'', member_of ''ask'' (options_of extensionUiResponsePayloadSchema ! 3))]])]"

definition pairOkFrameSchema :: ztype where
  "pairOkFrameSchema =
     ZStrict (spread [protocol, [(''type'', lit ''pair_ok''), (''in_reply_to'', idSchema),
     (''session_name'', textSchema), (''session_started_at'', timestampSchema),
     (''endpoint_id'', idSchema), (''harness'', ZOptional harnessSchema),
     (''hostname'', ZOptional textSchema)]])"

definition pairErrorFrameSchema :: ztype where
  "pairErrorFrameSchema =
     ZStrict (spread [protocol, [(''type'', lit ''pair_error''), (''in_reply_to'', idSchema),
     (''code'', ZEnum [''token_expired'', ''token_consumed'', ''token_unknown'',
     ''internal_error'']), (''message'', z_min 1 textSchema)]])"

definition sessionReadyFrameSchema :: ztype where
  "sessionReadyFrameSchema =
     ZStrict (spread [directResponse, [(''type'', lit ''session_ready''),
     (''in_reply_to'', idSchema), (''session_id'', idSchema),
     (''history_generation'', historyGenerationSchema), (''self_sender_ref'', idSchema)]])"

definition startedMessageSchema :: ztype where
  "startedMessageSchema =
     ZRefine (ZStrict [(''id'', idSchema), (''group_id'', idSchema),
     (''blocks'', z_max MAX_ARRAY_ITEMS_pwa (ZArray userBlockSchema None)),
     (''origin'', ZEnum [''pwa'', ''extension'', ''unknown'']),
     (''sender_ref'', ZOptional idSchema), (''delivery'', ZEnum [''normal'', ''queued'',
     ''unknown''])]) StartedMessageRule"

definition userMessageStartedFrameSchema :: ztype where
  "userMessageStartedFrameSchema =
     ZStrict (spread [directResponse, [(''type'', lit ''user_message_started''),
     (''in_reply_to'', idSchema), (''session_id'', idSchema),
     (''history_generation'', historyGenerationSchema), (''message'', startedMessageSchema)]])"

definition userMessageStatusFrameSchema :: ztype where
  "userMessageStatusFrameSchema =
     ZUnion [ZStrict (spread [directResponse, [(''type'', lit ''user_message_status''),
     (''in_reply_to'', idSchema), (''session_id'', idSchema),
     (''history_generation'', historyGenerationSchema), (''client_request_id'', idSchema),
     (''status'', lit ''received'')]]), ZStrict (spread [directResponse,
     [(''type'', lit ''user_message_status''), (''in_reply_to'', idSchema),
     (''session_id'', idSchema), (''history_generation'', historyGenerationSchema),
     (''client_request_id'', idSchema), (''status'', lit ''accepted''),
     (''message_id'', ZOptional idSchema), (''group_id'', ZOptional idSchema)]]),
     ZStrict (spread [directResponse, [(''type'', lit ''user_message_status''),
     (''in_reply_to'', idSchema), (''session_id'', idSchema),
     (''history_generation'', historyGenerationSchema), (''client_request_id'', idSchema),
     (''status'', lit ''committed''), (''message_id'', idSchema),
     (''group_id'', ZOptional idSchema)]]), ZStrict (spread [directResponse,
     [(''type'', lit ''user_message_status''), (''in_reply_to'', idSchema),
     (''session_id'', idSchema), (''history_generation'', historyGenerationSchema),
     (''client_request_id'', idSchema), (''status'', lit ''unknown_delivery'')]])]"

definition timelineEventFrameSchema :: ztype where
  "timelineEventFrameSchema =
     ZStrict (spread [ownerBroadcast, [(''type'', lit ''timeline_event''),
     (''event'', timelineEventSchema)]])"

definition timelinePartialFrameSchema :: ztype where
  "timelinePartialFrameSchema = timelinePartialSchema"

definition timelineEventFragmentFrameSchema :: ztype where
  "timelineEventFragmentFrameSchema =
     ZStrict (spread [ownerBroadcast, [(''type'', lit ''timeline_event_fragment''),
     (''event_id'', idSchema),
     (''index'', z_check NumFinite (z_check NumNonnegative (z_check NumInt (ZNumber [])))),
     (''data_base64'', member_of ''data_base64'' timelineEventFragmentSchema),
     (''final'', ZBoolean)]])"

definition historyChunkBase_pwa :: shape where
  "historyChunkBase_pwa =
     spread [directResponse, [(''type'', lit ''session_history_chunk''),
     (''in_reply_to'', idSchema), (''session_id'', idSchema),
     (''history_generation'', historyGenerationSchema), (''snapshot_head'', idSchema),
     (''chunk_index'', z_check NumFinite (z_check NumNonnegative (z_check NumInt (ZNumber [])))),
     (''events'', z_max MAX_ARRAY_ITEMS_pwa (ZArray timelineEventSchema None)),
     (''fragments'', z_max MAX_ARRAY_ITEMS_pwa (ZArray historyFragmentSchema None))]]"

definition historyChunkTail_pwa :: shape where
  "historyChunkTail_pwa =
     [(''final_chunk'', lit_false), (''next_before'', ZOptional ZNever),
     (''eos'', ZOptional ZNever)]"

definition historyChunkEos_pwa :: shape where
  "historyChunkEos_pwa =
     [(''final_chunk'', lit_true), (''eos'', lit_true), (''next_before'', ZOptional ZNever)]"

definition historyChunkNext_pwa :: shape where
  "historyChunkNext_pwa =
     [(''final_chunk'', lit_true), (''eos'', lit_false), (''next_before'', idSchema)]"

definition sessionHistoryChunkFrameSchema :: ztype where
  "sessionHistoryChunkFrameSchema =
     ZRefine (ZUnion [ZStrict (spread [historyChunkBase_pwa, historyChunkTail_pwa]),
     ZStrict (spread [historyChunkBase_pwa, historyChunkEos_pwa]),
     ZStrict (spread [historyChunkBase_pwa, historyChunkNext_pwa])]) HistoryChunkRule"

definition protocolErrorFields_pwa :: shape where
  "protocolErrorFields_pwa =
     [(''type'', lit ''protocol_error''), (''in_reply_to'', ZOptional idSchema),
     (''code'', ZEnum [''protocol_upgrade_required'', ''invalid_message'', ''unsupported_type'',
     ''invalid_channel'', ''invalid_generation'', ''invalid_cursor'', ''reset_required'',
     ''too_large'', ''internal_error'']), (''message'', z_min 1 textSchema)]"

definition protocolErrorFrameSchema :: ztype where
  "protocolErrorFrameSchema =
     ZUnion [ZStrict (spread [protocol, protocolErrorFields_pwa,
     [(''target_channel_id'', channelIdSchema)]]), ZStrict (spread [protocol,
     protocolErrorFields_pwa])]"

definition resetFrameSchema :: ztype where
  "resetFrameSchema =
     ZStrict (spread [directResponse, [(''type'', lit ''reset''), (''session_id'', idSchema),
     (''history_generation'', historyGenerationSchema), (''reason'', ZEnum [''generation_changed'',
     ''branch_changed'', ''session_replaced'', ''conflict'', ''invalid_cursor''])]])"

definition pongFrameSchema :: ztype where
  "pongFrameSchema =
     ZStrict (spread [directResponse, [(''type'', lit ''pong''), (''in_reply_to'', idSchema)]])"

definition cancelledFrameSchema :: ztype where
  "cancelledFrameSchema =
     ZStrict (spread [directResponse, [(''type'', lit ''cancelled''), (''in_reply_to'', idSchema)]])"

definition actionOkFrameSchema :: ztype where
  "actionOkFrameSchema =
     ZStrict (spread [directResponse, [(''type'', lit ''action_ok''), (''in_reply_to'', idSchema),
     (''action'', actionNameSchema)]])"

definition actionErrorFrameSchema :: ztype where
  "actionErrorFrameSchema =
     ZStrict (spread [directResponse, [(''type'', lit ''action_error''),
     (''in_reply_to'', idSchema), (''action'', actionNameSchema), (''error'', z_min 1 textSchema)]])"

definition modelsListFrameSchema :: ztype where
  "modelsListFrameSchema =
     ZStrict (spread [directResponse, [(''type'', lit ''models_list''),
     (''in_reply_to'', idSchema),
     (''models'', z_max MAX_ARRAY_ITEMS_pwa (ZArray wireModelSchema None)),
     (''current'', ZOptional wireModelSchema)]])"

definition queuedMessageStateFrameSchema :: ztype where
  "queuedMessageStateFrameSchema =
     ZStrict (spread [ownerBroadcast, [(''type'', lit ''queued_message_state''),
     (''snapshot_id'', idSchema),
     (''chunk_index'', z_check NumFinite (z_check NumNonnegative (z_check NumInt (ZNumber [])))),
     (''final'', ZBoolean),
     (''items'', z_max MAX_ARRAY_ITEMS_pwa (ZArray queuedMessageItemSchema None))]])"

definition extensionUiRequestFrameSchema :: ztype where
  "extensionUiRequestFrameSchema =
     ZUnion [ZStrict (spread [protocol, [(''type'', lit ''extension_ui_request'')], directResponse,
     [(''id'', idSchema), (''method'', lit ''select''), (''title'', textSchema),
     (''options'', z_max MAX_ARRAY_ITEMS_pwa (ZArray textSchema None)),
     (''ask'', ZOptional (member_of ''ask'' (options_of extensionUiRequestPayloadSchema ! 0)))]]),
     ZStrict (spread [protocol, [(''type'', lit ''extension_ui_request'')], directResponse,
     [(''id'', idSchema), (''method'', lit ''confirm''), (''title'', textSchema),
     (''message'', textSchema),
     (''ask'', ZOptional (member_of ''ask'' (options_of extensionUiRequestPayloadSchema ! 1)))]]),
     ZStrict (spread [protocol, [(''type'', lit ''extension_ui_request'')], directResponse,
     [(''id'', idSchema), (''method'', lit ''input''), (''title'', textSchema),
     (''placeholder'', ZOptional textSchema),
     (''ask'', ZOptional (member_of ''ask'' (options_of extensionUiRequestPayloadSchema ! 2)))]]),
     ZStrict (spread [protocol, [(''type'', lit ''extension_ui_request'')], directResponse,
     [(''id'', idSchema), (''method'', lit ''editor''), (''title'', textSchema),
     (''prefill'', ZOptional textSchema),
     (''ask'', ZOptional (member_of ''ask'' (options_of extensionUiRequestPayloadSchema ! 3)))]]),
     ZStrict (spread [protocol, [(''type'', lit ''extension_ui_request'')], directResponse,
     [(''id'', idSchema), (''method'', lit ''notify''), (''message'', textSchema),
     (''notify_type'', ZOptional (ZEnum [''info'', ''warning'', ''error'']))]])]"

definition byeFrameSchema :: ztype where
  "byeFrameSchema =
     ZStrict (spread [ownerBroadcast, [(''type'', lit ''bye''), (''reason'', byeReasonSchema)]])"

definition clientFrameSchema :: ztype where
  "clientFrameSchema =
     ZUnion [pairRequestFrameSchema, sessionHelloFrameSchema, userMessageFrameSchema,
     userMessageObservedFrameSchema, sessionSyncFrameSchema, pingFrameSchema, cancelFrameSchema,
     sessionNewFrameSchema, sessionCompactFrameSchema, modelSetFrameSchema, thinkingSetFrameSchema,
     listModelsFrameSchema, queuedMessageSetFrameSchema, queuedMessageClearFrameSchema,
     approveToolFrameSchema, extensionUiResponseFrameSchema]"

definition serverFrameSchema :: ztype where
  "serverFrameSchema =
     ZUnion [pairOkFrameSchema, pairErrorFrameSchema, sessionReadyFrameSchema,
     userMessageStartedFrameSchema, userMessageStatusFrameSchema, timelineEventFrameSchema,
     timelinePartialFrameSchema, timelineEventFragmentFrameSchema, sessionHistoryChunkFrameSchema,
     protocolErrorFrameSchema, resetFrameSchema, pongFrameSchema, cancelledFrameSchema,
     actionOkFrameSchema, actionErrorFrameSchema, modelsListFrameSchema,
     queuedMessageStateFrameSchema, extensionUiRequestFrameSchema, byeFrameSchema]"

lemmas pwa_schema_defs =
  PROTOCOL_VERSION_def PROTOCOL_VERSION_V2_pwa_def MAX_FRAME_BYTES_pwa_def
  MAX_HISTORY_CHUNK_BYTES_pwa_def MAX_SESSION_HISTORY_CHUNK_BYTES_def MAX_WINDOW_BYTES_def
  MAX_WINDOW_DECODE_BYTES_pwa_def MAX_FRAGMENT_BYTES_def MAX_FRAGMENT_DECODE_BYTES_pwa_def
  finiteNumber_pwa_def idSchema_def nonEmptyTextSchema_def timestampSchema_def
  positiveIntSchema_def protocolVersionSchema_def channelIdSchema_def historyGenerationSchema_def
  truncatedSchema_def textBlockShape_def textBlockSchema_def thinkingBlockShape_def
  thinkingBlockSchema_def imageMimeSchema_def imageByteLengthSchema_def completeImageSchema_def
  omittedImageSchema_def imageBlockSchema_def userBlockSchema_def assistantBlockSchema_def
  timelineBaseShape_def groupedTimelineBaseShape_def userEventShape_def
  timelineUserEventSchema_def assistantEventShape_def timelineAssistantEventSchema_def
  completeToolEventSchema_def errorToolEventSchema_def interruptedToolEventSchema_def
  timelineToolEventSchema_def groupedSystemShape_def timelineSystemEventSchema_def
  timelineProviderErrorEventSchema_def timelineEventSchema_def TimelineEventSchema_pwa_def
  partialBaseShape_def partialTextShape_def timelinePartialSchema_def
  TimelinePartialSchema_pwa_def base64Schema_def timelineEventFragmentSchema_def
  historyFragmentSchema_def TimelineEventFragmentSchema_pwa_def HistoryFragmentSchema_pwa_def
  askQuestionTypeSchema_def askOptionSchema_def askQuestionSchema_def askEnrichmentSchema_def
  askAnswerSchema_def askResponseEnrichmentSchema_def extensionUiRequestPayloadSchema_def
  extensionUiResponsePayloadSchema_def thinkingLevelSchema_def actionNameSchema_def
  byeReasonSchema_def wireImageSchema_def queuedMessageItemSchema_def wireModelSchema_def
  harnessSchema_def protocol_def channelRequest_def directResponse_def ownerBroadcast_def
  pairRequestFrameSchema_def sessionHelloFrameSchema_def userMessageFrameSchema_def
  userMessageObservedFrameSchema_def sessionSyncFrameSchema_def pingFrameSchema_def
  cancelFrameSchema_def sessionNewFrameSchema_def sessionCompactFrameSchema_def
  modelSetFrameSchema_def thinkingSetFrameSchema_def listModelsFrameSchema_def
  queuedMessageSetFrameSchema_def queuedMessageClearFrameSchema_def approveToolFrameSchema_def
  extensionUiResponseFrameSchema_def pairOkFrameSchema_def pairErrorFrameSchema_def
  sessionReadyFrameSchema_def startedMessageSchema_def userMessageStartedFrameSchema_def
  userMessageStatusFrameSchema_def timelineEventFrameSchema_def timelinePartialFrameSchema_def
  timelineEventFragmentFrameSchema_def historyChunkBase_pwa_def historyChunkTail_pwa_def
  historyChunkEos_pwa_def historyChunkNext_pwa_def sessionHistoryChunkFrameSchema_def
  protocolErrorFields_pwa_def protocolErrorFrameSchema_def resetFrameSchema_def
  pongFrameSchema_def cancelledFrameSchema_def actionOkFrameSchema_def actionErrorFrameSchema_def
  modelsListFrameSchema_def queuedMessageStateFrameSchema_def extensionUiRequestFrameSchema_def
  byeFrameSchema_def clientFrameSchema_def serverFrameSchema_def

end
