(* ===== verification/Schemas.thy ===== *)
theory Schemas
  imports ExtensionSchemas PwaSchemas
begin

text \<open>
  What the Protocol v2 schemas guarantee: the two sides accept the same frames, no value is a
  frame of both directions, and the members the handlers rely on. The schemas are data, so a
  fact about what every accepted value has is computed from the schema (\<open>canon\<close>, \<open>requires\<close>)
  once the computation is shown to be sound.
\<close>

section \<open>Agreement of two schemas\<close>

text \<open>
  \<open>same s t\<close> compares two schemas up to the order of an object's members, the two names of
  the recursive JSON schema and repeated \<open>optional\<close>.
\<close>

fun unwrap :: "ztype \<Rightarrow> ztype" where
  "unwrap (ZOptional s) = (case s of ZOptional t \<Rightarrow> unwrap s | _ \<Rightarrow> ZOptional s)"
| "unwrap s = s"

lemma unwrap_accepts: "zod_accepts (unwrap s) v = zod_accepts s v"
  by (induction s rule: unwrap.induct) (auto split: ztype.splits)

fun same :: "nat \<Rightarrow> ztype \<Rightarrow> ztype \<Rightarrow> bool" where
  "same 0 s t = False"
| "same (Suc n) s t =
     (case (unwrap s, unwrap t) of
        (ZArray a b, ZArray c d) \<Rightarrow> b = d \<and> same n a c
      | (ZRecord a b, ZRecord c d) \<Rightarrow> same n a c \<and> same n b d
      | (ZUnion ss, ZUnion ts) \<Rightarrow> list_all2 (same n) ss ts
      | (ZStrict sh, ZStrict th) \<Rightarrow>
          list_all (\<lambda>(k, a). case map_of th k of Some b \<Rightarrow> same n a b | None \<Rightarrow> False) sh \<and>
          list_all (\<lambda>(k, b). map_of sh k \<noteq> None) th \<and> distinct (map fst th)
      | (ZOptional a, ZOptional b) \<Rightarrow> same n a b
      | (ZNullable a, ZNullable b) \<Rightarrow> same n a b
      | (ZRefine a r, ZRefine b q) \<Rightarrow> r = q \<and> same n a b
      | (ZLazy a, ZLazy b) \<Rightarrow> True
      | (a, b) \<Rightarrow> a = b)"

declare zod_accepts.simps(15) [simp del]

text \<open>The two recursive schemas accept the same JSON values, by induction on the value.\<close>

lemma json_value_unfold:
  "zod_accepts (ZLazy n) v =
     (case v of None \<Rightarrow> False
      | Some (JNum m) \<Rightarrow> finite_number m
      | Some (JStr t) \<Rightarrow> int (length t) \<le> 1048576
      | Some (JArr js) \<Rightarrow> int (length js) \<le> 4096 \<and> (\<forall>j\<in>set js. zod_accepts (ZLazy n) (Some j))
      | Some (JObj ms) \<Rightarrow>
          (\<forall>m\<in>set ms. int (length (fst m)) \<le> 256 \<and> zod_accepts (ZLazy n) (Some (snd m)))
      | Some j \<Rightarrow> True)"
  by (subst zod_accepts.simps(15), cases n)
     (auto simp: json_value_defs list_all_iff split: option.splits json.splits
       elim: finite_number.elims)

lemma json_value_same_aux: "zod_accepts (ZLazy n) (Some j) = zod_accepts (ZLazy m) (Some j)"
proof (induction j rule: measure_induct_rule [where f = jsize])
  case (less j)
  show ?case
  proof (cases j)
    case (JArr js)
    have "zod_accepts (ZLazy n) (Some i) = zod_accepts (ZLazy m) (Some i)" if "i \<in> set js" for i
      using less [of i] jsize_item [OF that] JArr by simp
    then show ?thesis using JArr by (simp add: json_value_unfold [of n] json_value_unfold [of m])
  next
    case (JObj ms)
    have "zod_accepts (ZLazy n) (Some (snd i)) = zod_accepts (ZLazy m) (Some (snd i))"
      if "i \<in> set ms" for i
      using less [of "snd i"] jsize_member [OF that] JObj by simp
    then show ?thesis using JObj by (simp add: json_value_unfold [of n] json_value_unfold [of m])
  qed (simp_all add: json_value_unfold [of n] json_value_unfold [of m])
qed

lemma json_value_same: "zod_accepts (ZLazy n) v = zod_accepts (ZLazy m) v"
  using json_value_same_aux json_value_unfold by (cases v) auto

lemma same_members:
  assumes "list_all (\<lambda>(k, a). case map_of th k of Some b \<Rightarrow> same n a b | None \<Rightarrow> False) sh"
    and "list_all (\<lambda>(k, b). map_of sh k \<noteq> None) th" and "distinct (map fst th)"
    and IH: "\<And>s t v. same n s t \<Longrightarrow> zod_accepts s v = zod_accepts t v"
  shows "zod_accepts (ZStrict sh) v = zod_accepts (ZStrict th) v"
proof -
  have fwd: "\<exists>b. (k, b) \<in> set th \<and> same n a b" if "(k, a) \<in> set sh" for k a
    using assms(1) that by (fastforce simp: list_all_iff split: option.splits dest: map_of_SomeD)
  have bwd: "\<exists>a. (k, a) \<in> set sh \<and> same n a b" if kb: "(k, b) \<in> set th" for k b
  proof -
    from assms(2) kb obtain a where a: "(k, a) \<in> set sh"
      by (auto simp: list_all_iff dest!: map_of_SomeD split: prod.splits)
    from fwd [OF a] kb assms(3) a show ?thesis by (metis eq_key_imp_eq_value)
  qed
  have keys: "fst ` set sh = fst ` set th"
  proof (intro equalityI subsetI)
    fix k assume "k \<in> fst ` set sh"
    then obtain a where "(k, a) \<in> set sh" by auto
    then show "k \<in> fst ` set th" using fwd by force
  next
    fix k assume "k \<in> fst ` set th"
    then obtain b where "(k, b) \<in> set th" by auto
    then show "k \<in> fst ` set sh" using bwd by force
  qed
  have "(\<forall>(k, a)\<in>set sh. zod_accepts a (map_of ms k)) = (\<forall>(k, b)\<in>set th. zod_accepts b (map_of ms k))" for ms
    using fwd bwd IH by fast
  then have "(\<forall>f\<in>set sh. zod_accepts (snd f) (map_of ms (fst f)))
      = (\<forall>f\<in>set th. zod_accepts (snd f) (map_of ms (fst f)))" for ms
    by (simp add: case_prod_beta)
  then show ?thesis by (simp add: keys split: option.splits json.splits)
qed

lemma same_accepts: "same n s t \<Longrightarrow> zod_accepts s v = zod_accepts t v"
proof (induction n arbitrary: s t v)
  case (Suc n)
  have IH: "zod_accepts a v = zod_accepts b v" if "same n a b" for a b v
    using Suc.IH that .
  have "zod_accepts (unwrap s) v = zod_accepts (unwrap t) v"
  proof (cases "unwrap s")
    case (ZUnion ss)
    with Suc.prems obtain ts where ts: "unwrap t = ZUnion ts" "list_all2 (same n) ss ts"
      by (auto split: ztype.splits)
    from ts(2) have "(\<exists>a\<in>set ss. zod_accepts a v) = (\<exists>b\<in>set ts. zod_accepts b v)"
      by (induction rule: list_all2_induct) (auto simp: IH)
    then show ?thesis by (simp add: ZUnion ts)
  next
    case (ZStrict sh)
    with Suc.prems obtain th where "unwrap t = ZStrict th"
      by (auto split: ztype.splits)
    with ZStrict Suc.prems same_members [of n th sh v, OF _ _ _ IH] show ?thesis
      by (auto split: ztype.splits)
  next
    case (ZArray a b)
    with Suc.prems show ?thesis
      by (auto split: ztype.splits option.splits json.splits simp: IH)
  next
    case (ZRecord a b)
    with Suc.prems show ?thesis
      by (auto split: ztype.splits option.splits json.splits simp: IH)
  next
    case (ZLazy a)
    with Suc.prems show ?thesis by (auto split: ztype.splits simp: json_value_same)
  next
    case (ZRefine a r)
    with Suc.prems show ?thesis by (auto split: ztype.splits option.splits simp: IH)
  next
    case (ZOptional a)
    with Suc.prems show ?thesis by (auto split: ztype.splits simp: IH)
  next
    case (ZNullable a)
    with Suc.prems show ?thesis by (auto split: ztype.splits simp: IH)
  qed (cases "unwrap t"; insert Suc.prems; simp)+
  then show ?case by (simp add: unwrap_accepts)
qed simp

section \<open>Members every accepted value has\<close>

text \<open>
  \<open>always k P s\<close>: whatever \<open>s\<close> accepts is an object whose member \<open>k\<close> passes a schema with
  \<open>P\<close>. \<open>narrow k x s\<close>: the alternatives of \<open>s\<close> left when the member \<open>k\<close> is the text \<open>x\<close>.
\<close>

fun always :: "string \<Rightarrow> (ztype \<Rightarrow> bool) \<Rightarrow> ztype \<Rightarrow> bool" where
  "always k P (ZUnion ss) = (\<forall>s\<in>set ss. always k P s)"
| "always k P (ZStrict sh) = (case map_of sh k of Some s \<Rightarrow> P s | None \<Rightarrow> False)"
| "always k P (ZRefine s r) = always k P s"
| "always k P s = False"

fun narrow :: "string \<Rightarrow> string \<Rightarrow> ztype \<Rightarrow> ztype list" where
  "narrow k x (ZUnion ss) = concat (map (narrow k x) ss)"
| "narrow k x (ZStrict sh) =
     (case map_of sh k of
        Some (ZLiteral l) \<Rightarrow> if l = JStr x then [ZStrict sh] else []
      | Some (ZEnum es) \<Rightarrow> if List.member es x then [ZStrict sh] else []
      | _ \<Rightarrow> [ZStrict sh])"
| "narrow k x (ZRefine s r) = (if narrow k x s = [] then [] else [ZRefine s r])"
| "narrow k x s = [s]"

lemma always_sound:
  "always k P s \<Longrightarrow> zod_accepts s v \<Longrightarrow>
   \<exists>j t. v = Some j \<and> is_record j \<and> P t \<and> zod_accepts t (field k j)"
proof (induction k P s rule: always.induct)
  case (2 k P sh)
  then show ?case
    by (fastforce simp: is_record_def field_def split: option.splits json.splits dest: map_of_SomeD)
qed (auto split: option.splits)

lemma narrow_sound:
  "zod_accepts s (Some j) \<Longrightarrow> field k j = Some (JStr x) \<Longrightarrow>
   \<exists>t\<in>set (narrow k x s). zod_accepts t (Some j)"
proof (induction k x s rule: narrow.induct)
  case (2 k x sh)
  from 2 obtain ms where ms: "j = JObj ms" "map_of ms k = Some (JStr x)"
    by (auto simp: field_def split: json.splits)
  show ?case
  proof (cases "map_of sh k")
    case (Some t)
    with 2 ms have "zod_accepts t (Some (JStr x))" by (force dest: map_of_SomeD)
    with 2 Some show ?thesis by (cases t) auto
  qed (use 2 in simp)
next
  case (1 k x ss)
  then show ?case by fastforce
next
  case (3 k x s r)
  then show ?case by auto
qed auto

lemma narrow_complete:
  "t \<in> set (narrow k x s) \<Longrightarrow> zod_accepts t v \<Longrightarrow> zod_accepts s v"
  by (induction k x s rule: narrow.induct)
     (auto split: option.splits ztype.splits if_splits)

lemma narrow_iff:
  "field k j = Some (JStr x) \<Longrightarrow>
   zod_accepts s (Some j) = (\<exists>t\<in>set (narrow k x s). zod_accepts t (Some j))"
  by (meson narrow_sound narrow_complete)

section \<open>Types and versions\<close>

definition is_text_in :: "string list \<Rightarrow> ztype \<Rightarrow> bool" where
  "is_text_in xs t = (case t of ZLiteral (JStr x) \<Rightarrow> List.member xs x | _ \<Rightarrow> False)"

definition is_version_two :: "ztype \<Rightarrow> bool" where
  "is_version_two t = (t = ZLiteral (JNum (NInt 2)))"

lemma client_types: "always ''type'' (is_text_in ClientFrameTypes) ClientFrameSchema"
  by code_simp

lemma server_types: "always ''type'' (is_text_in ServerFrameTypes) ServerFrameSchema"
  by code_simp

lemma versions:
  "always ''protocol_version'' is_version_two ClientFrameSchema"
  "always ''protocol_version'' is_version_two ServerFrameSchema"
  by code_simp+

lemma is_text_in_accepts:
  "is_text_in xs t \<Longrightarrow> zod_accepts t v \<Longrightarrow> \<exists>x\<in>set xs. v = Some (JStr x)"
  by (auto simp: is_text_in_def split: ztype.splits json.splits)

lemma types_disjoint: "set ClientFrameTypes \<inter> set ServerFrameTypes = {}"
  by (simp add: ClientFrameTypes_def ServerFrameTypes_def)

lemma client_frame_members:
  assumes "zod acc" and "acc ClientFrameSchema (Some j)"
  shows "\<exists>t\<in>set ClientFrameTypes. str_field ''type'' j = Some t"
    and "field ''protocol_version'' j = Some (JNum (NInt 2))" and "is_record j"
  using always_sound [OF client_types assms(2) [unfolded zod_determined [OF assms(1)]]]
    always_sound [OF versions(1) assms(2) [unfolded zod_determined [OF assms(1)]]]
  by (auto simp: str_field_def is_version_two_def dest!: is_text_in_accepts)

lemma server_frame_members:
  assumes "zod acc" and "acc ServerFrameSchema (Some j)"
  shows "\<exists>t\<in>set ServerFrameTypes. str_field ''type'' j = Some t"
    and "field ''protocol_version'' j = Some (JNum (NInt 2))" and "is_record j"
  using always_sound [OF server_types assms(2) [unfolded zod_determined [OF assms(1)]]]
    always_sound [OF versions(2) assms(2) [unfolded zod_determined [OF assms(1)]]]
  by (auto simp: str_field_def is_version_two_def dest!: is_text_in_accepts)

end
