(* ===== verification/Codec.thy ===== *)
theory Codec
  imports Schemas Bytes
begin

text \<open>
  The codec of the extension, \<open>pi-extension/src/protocol/v2/codec.ts\<close>: parsing and validating
  a raw value as a frame of one direction, encoding a frame, and the size checks.

  \<open>codec_lib\<close> holds what the code calls and the repository does not contain: the validation
  of zod, \<open>JSON.parse\<close> (on text) and the fatal UTF-8 decoder. A \<open>DecodeError\<close> is its code;
  the message text is left out. zod returns a copy of the value it accepts, with the members
  of an object in the order of the schema; the model returns the value, which differs in
  member order at most and has the same encoded length.
\<close>

datatype decode_error = DInvalid | DUnsupported | DVersion | DSchema | DSize | DDirection

record codec_lib =
  lib_accepts :: "ztype \<Rightarrow> json option \<Rightarrow> bool"
  lib_parse :: "string \<Rightarrow> json option"
  lib_utf8 :: "byte list \<Rightarrow> string option"

text \<open>A raw value: text, bytes, or a JavaScript value (an object of a caller, or anything else).\<close>

datatype raw = RawText string | RawBytes "byte list" | RawValue json

datatype direction = ToExtension | ToPwa

text \<open>\<open>"client" | "server"\<close> of the code: \<open>ToExtension\<close> is a client frame, \<open>ToPwa\<close> a server frame.\<close>

definition accepts_value :: "codec_lib \<Rightarrow> ztype \<Rightarrow> json \<Rightarrow> bool" where
  "accepts_value lib s j = lib_accepts lib s (Some j)"

definition byte_length :: "json \<Rightarrow> int" where
  "byte_length j = int (json_bytes j)"

definition parse_raw :: "codec_lib \<Rightarrow> raw \<Rightarrow> int \<Rightarrow> (decode_error, json \<times> int) result" where
  "parse_raw lib raw max_bytes =
     (case raw of
        RawText t \<Rightarrow>
          (let bytes = int (utf8_length t) in
           if bytes > max_bytes then Inl DSize
           else case lib_parse lib t of None \<Rightarrow> Inl DInvalid | Some j \<Rightarrow> Inr (j, bytes))
      | RawBytes bs \<Rightarrow>
          (if int (length bs) > max_bytes then Inl DSize
           else case Option.bind (lib_utf8 lib bs) (lib_parse lib) of
                  None \<Rightarrow> Inl DInvalid | Some j \<Rightarrow> Inr (j, int (length bs)))
      | RawValue j \<Rightarrow>
          (if is_record j then
             (let bytes = byte_length j in if bytes > max_bytes then Inl DSize else Inr (j, bytes))
           else Inl DInvalid))"

definition check_protocol_version :: "json \<Rightarrow> (decode_error, unit) result" where
  "check_protocol_version j =
     (if field ''protocol_version'' j = Some (JNum (NInt 2)) then Inr () else Inl DVersion)"

definition check_frame_bytes :: "int \<Rightarrow> (decode_error, unit) result" where
  "check_frame_bytes bytes = (if bytes > MAX_FRAME_BYTES then Inl DSize else Inr ())"

text \<open>The number of bytes that Base64 text of full groups decodes to.\<close>

definition base64_decoded_length :: "string \<Rightarrow> int" where
  "base64_decoded_length s =
     3 * int (length s div 4) - int (length (takeWhile (\<lambda>c. c = CHR ''='') (rev s)))"

definition validate_fragment_size :: "codec_lib \<Rightarrow> json \<Rightarrow> (decode_error, int) result" where
  "validate_fragment_size lib fragment =
     (if \<not> accepts_value lib TimelineEventFragmentSchema fragment
         \<and> \<not> accepts_value lib HistoryFragmentSchema fragment then Inl DSchema
      else case str_field ''data_base64'' fragment of
        None \<Rightarrow> Inl DSchema
      | Some d \<Rightarrow>
          (let bytes = base64_decoded_length d in
           if bytes > MAX_FRAGMENT_DECODE_BYTES then Inl DSize else Inr bytes))"

fun validate_fragments :: "codec_lib \<Rightarrow> json list \<Rightarrow> (decode_error, unit) result" where
  "validate_fragments lib [] = Inr ()"
| "validate_fragments lib (f # fs) =
     (case validate_fragment_size lib f of Inl e \<Rightarrow> Inl e | Inr n \<Rightarrow> validate_fragments lib fs)"

definition validate_history_chunk_size :: "codec_lib \<Rightarrow> json \<Rightarrow> (decode_error, int) result" where
  "validate_history_chunk_size lib chunk =
     (if \<not> accepts_value lib SessionHistoryChunkSchema chunk then Inl DSchema
      else let bytes = byte_length chunk in
        if bytes > MAX_HISTORY_CHUNK_BYTES then Inl DSize
        else case validate_fragments lib (array_items (field ''fragments'' chunk)) of
               Inl e \<Rightarrow> Inl e | Inr u \<Rightarrow> Inr bytes)"

definition known_client :: "string \<Rightarrow> bool" where
  "known_client t = List.member ClientFrameTypes t"

definition known_server :: "string \<Rightarrow> bool" where
  "known_server t = List.member ServerFrameTypes t"

definition frame_schema :: "direction \<Rightarrow> ztype" where
  "frame_schema d = (case d of ToExtension \<Rightarrow> ClientFrameSchema | ToPwa \<Rightarrow> ServerFrameSchema)"

definition parse_frame :: "codec_lib \<Rightarrow> raw \<Rightarrow> direction \<Rightarrow> (decode_error, json) result" where
  "parse_frame lib raw d =
     (case parse_raw lib raw MAX_FRAME_BYTES of
        Inl e \<Rightarrow> Inl e
      | Inr (j, bytes) \<Rightarrow>
          (case str_field ''type'' j of
             None \<Rightarrow> Inl DInvalid
           | Some t \<Rightarrow>
               if \<not> known_client t \<and> \<not> known_server t then Inl DUnsupported
               else if d = ToExtension \<and> \<not> known_client t then Inl DDirection
               else if d = ToPwa \<and> \<not> known_server t then Inl DDirection
               else (case check_protocol_version j of Inl e \<Rightarrow> Inl e | Inr u \<Rightarrow>
                 if \<not> accepts_value lib (frame_schema d) j then Inl DSchema
                 else (case check_frame_bytes bytes of Inl e \<Rightarrow> Inl e | Inr u \<Rightarrow>
                   (case (if t = ''timeline_event_fragment'' then validate_fragment_size lib j else Inr 0) of
                      Inl e \<Rightarrow> Inl e
                    | Inr n \<Rightarrow>
                   (case (if t = ''session_history_chunk'' then validate_history_chunk_size lib j else Inr 0) of
                      Inl e \<Rightarrow> Inl e
                    | Inr n \<Rightarrow> Inr j))))))"

definition decode_client_frame :: "codec_lib \<Rightarrow> raw \<Rightarrow> (decode_error, json) result" where
  "decode_client_frame lib raw = parse_frame lib raw ToExtension"

definition decode_server_frame :: "codec_lib \<Rightarrow> raw \<Rightarrow> (decode_error, json) result" where
  "decode_server_frame lib raw = parse_frame lib raw ToPwa"

definition encode_frame :: "codec_lib \<Rightarrow> json \<Rightarrow> direction \<Rightarrow> (decode_error, string) result" where
  "encode_frame lib frame d =
     (case parse_frame lib (RawValue frame) d of Inl e \<Rightarrow> Inl e | Inr j \<Rightarrow> Inr (stringify j))"

definition encode_client_frame :: "codec_lib \<Rightarrow> json \<Rightarrow> (decode_error, string) result" where
  "encode_client_frame lib frame = encode_frame lib frame ToExtension"

definition encode_server_frame :: "codec_lib \<Rightarrow> json \<Rightarrow> (decode_error, string) result" where
  "encode_server_frame lib frame = encode_frame lib frame ToPwa"

fun validate_window_from :: "codec_lib \<Rightarrow> int \<Rightarrow> json list \<Rightarrow> (decode_error, int) result" where
  "validate_window_from lib size0 [] = Inr size0"
| "validate_window_from lib size0 (e # es) =
     (if \<not> accepts_value lib TimelineEventSchema e then Inl DSchema
      else let size' = size0 + byte_length e in
        if size' > MAX_WINDOW_DECODE_BYTES then Inl DSize else validate_window_from lib size' es)"

definition validate_window_size :: "codec_lib \<Rightarrow> json list \<Rightarrow> (decode_error, int) result" where
  "validate_window_size lib events = validate_window_from lib 0 events"

definition validate_encoded_size :: "json \<Rightarrow> int \<Rightarrow> (decode_error, int) result" where
  "validate_encoded_size j max_bytes =
     (let bytes = byte_length j in if bytes > max_bytes then Inl DSize else Inr bytes)"

definition parse_with :: "codec_lib \<Rightarrow> ztype \<Rightarrow> int \<Rightarrow> raw \<Rightarrow> (decode_error, json) result" where
  "parse_with lib s limit raw =
     (case parse_raw lib raw MAX_WINDOW_DECODE_BYTES of
        Inl e \<Rightarrow> Inl e
      | Inr (j, bytes) \<Rightarrow>
          if \<not> accepts_value lib s j then Inl DSchema
          else case validate_encoded_size j limit of Inl e \<Rightarrow> Inl e | Inr n \<Rightarrow> Inr j)"

definition parse_timeline_event :: "codec_lib \<Rightarrow> raw \<Rightarrow> (decode_error, json) result" where
  "parse_timeline_event lib = parse_with lib TimelineEventSchema MAX_WINDOW_DECODE_BYTES"

definition parse_timeline_partial :: "codec_lib \<Rightarrow> raw \<Rightarrow> (decode_error, json) result" where
  "parse_timeline_partial lib = parse_with lib TimelinePartialSchema MAX_HISTORY_CHUNK_BYTES"

definition parse_marker :: "codec_lib \<Rightarrow> raw \<Rightarrow> (decode_error, json) result" where
  "parse_marker lib = parse_with lib MarkerSchemaV2 MAX_FRAGMENT_DECODE_BYTES"

section \<open>What a decoded frame is\<close>

text \<open>The bounds that apply to a frame beside its schema.\<close>

definition fragment_fits :: "json \<Rightarrow> bool" where
  "fragment_fits f =
     (\<exists>d. str_field ''data_base64'' f = Some d \<and> base64_decoded_length d \<le> MAX_FRAGMENT_DECODE_BYTES)"

definition frame_fits :: "json \<Rightarrow> bool" where
  "frame_fits j =
     ((str_field ''type'' j = Some ''timeline_event_fragment'' \<longrightarrow> fragment_fits j)
      \<and> (str_field ''type'' j = Some ''session_history_chunk'' \<longrightarrow>
          byte_length j \<le> MAX_HISTORY_CHUNK_BYTES
          \<and> (\<forall>f\<in>set (array_items (field ''fragments'' j)). fragment_fits f)))"

lemma validate_fragment_size_ok:
  "(\<exists>n. validate_fragment_size lib f = Inr n) =
     ((accepts_value lib TimelineEventFragmentSchema f \<or> accepts_value lib HistoryFragmentSchema f)
      \<and> fragment_fits f)"
  by (auto simp: validate_fragment_size_def fragment_fits_def Let_def split: option.splits)

lemma validate_fragments_ok:
  "(\<exists>u. validate_fragments lib fs = Inr u) =
     (\<forall>f\<in>set fs. (accepts_value lib TimelineEventFragmentSchema f \<or> accepts_value lib HistoryFragmentSchema f)
        \<and> fragment_fits f)"
proof (induction fs)
  case (Cons f fs)
  show ?case
  proof (cases "validate_fragment_size lib f")
    case (Inl e)
    then show ?thesis using validate_fragment_size_ok [of lib f] by auto
  next
    case (Inr n)
    then show ?thesis using validate_fragment_size_ok [of lib f] Cons.IH by simp
  qed
qed simp

text \<open>The fragments of an accepted chunk are accepted one by one.\<close>

lemma chunk_fragments_always:
  "always ''fragments'' (\<lambda>t. t = z_max MAX_ARRAY_ITEMS (ZArray historyFragment None)) SessionHistoryChunkSchema"
  by code_simp

lemma chunk_fragments_accepted:
  assumes "zod (lib_accepts lib)" and "accepts_value lib SessionHistoryChunkSchema j"
    and "f \<in> set (array_items (field ''fragments'' j))"
  shows "accepts_value lib HistoryFragmentSchema f"
  using always_sound [OF chunk_fragments_always, of "Some j"] assms(2,3)
  by (auto simp: accepts_value_def zod_determined [OF assms(1)] historyFragment_def
      split: option.splits json.splits)

lemma validate_history_chunk_size_ok:
  assumes "zod (lib_accepts lib)"
  shows "(\<exists>n. validate_history_chunk_size lib j = Inr n) =
     (accepts_value lib SessionHistoryChunkSchema j \<and> byte_length j \<le> MAX_HISTORY_CHUNK_BYTES
      \<and> (\<forall>f\<in>set (array_items (field ''fragments'' j)). fragment_fits f))"
  using validate_fragments_ok [of lib "array_items (field ''fragments'' j)"]
    chunk_fragments_accepted [OF assms, of j]
  by (auto simp: validate_history_chunk_size_def Let_def split: sum.splits)

lemma server_narrow:
  "narrow ''type'' ''timeline_event_fragment'' ServerFrameSchema = [TimelineEventFragmentSchema]"
  "narrow ''type'' ''session_history_chunk'' ServerFrameSchema = [SessionHistoryChunkSchema]"
  by code_simp+

lemma client_types_not_server:
  "str_field ''type'' j = Some t \<Longrightarrow> t \<in> set ClientFrameTypes \<Longrightarrow>
   t \<noteq> ''timeline_event_fragment'' \<and> t \<noteq> ''session_history_chunk''"
  by (auto simp: ClientFrameTypes_def)

lemma str_field_field: "str_field k j = Some s \<longleftrightarrow> field k j = Some (JStr s)"
  by (auto simp: str_field_def split: option.splits json.splits)

text \<open>What a frame of each direction must satisfy.\<close>

lemma frame_schema_members:
  assumes "zod (lib_accepts lib)" and "accepts_value lib (frame_schema d) j"
  obtains t where "str_field ''type'' j = Some t"
    "(d = ToExtension \<longrightarrow> known_client t) \<and> (d = ToPwa \<longrightarrow> known_server t)"
    "field ''protocol_version'' j = Some (JNum (NInt 2))"
    "t = ''timeline_event_fragment'' \<longrightarrow> accepts_value lib TimelineEventFragmentSchema j"
    "t = ''session_history_chunk'' \<longrightarrow> accepts_value lib SessionHistoryChunkSchema j"
proof (cases d)
  case ToExtension
  with assms(2) have a: "lib_accepts lib ClientFrameSchema (Some j)"
    by (simp add: accepts_value_def frame_schema_def)
  from client_frame_members [OF assms(1) a] obtain t where
    "t \<in> set ClientFrameTypes" "str_field ''type'' j = Some t"
    "field ''protocol_version'' j = Some (JNum (NInt 2))" by auto
  with client_types_not_server [of j t] ToExtension that show ?thesis
    by (auto simp: known_client_def)
next
  case ToPwa
  with assms(2) have a: "lib_accepts lib ServerFrameSchema (Some j)"
    by (simp add: accepts_value_def frame_schema_def)
  from server_frame_members [OF assms(1) a] obtain t where t:
    "t \<in> set ServerFrameTypes" "str_field ''type'' j = Some t"
    "field ''protocol_version'' j = Some (JNum (NInt 2))" by auto
  have "t = ''timeline_event_fragment'' \<longrightarrow> accepts_value lib TimelineEventFragmentSchema j"
    "t = ''session_history_chunk'' \<longrightarrow> accepts_value lib SessionHistoryChunkSchema j"
    using a t(2) narrow_iff [of "''type''" j "''timeline_event_fragment''" ServerFrameSchema]
      narrow_iff [of "''type''" j "''session_history_chunk''" ServerFrameSchema]
    by (simp_all add: accepts_value_def zod_determined [OF assms(1)] str_field_field server_narrow)
  with t ToPwa that show ?thesis by (auto simp: known_server_def)
qed

text \<open>The decoder accepts exactly the values its size bounds and its schema accept.\<close>

lemma parse_frame_iff:
  assumes z: "zod (lib_accepts lib)"
  shows "parse_frame lib raw d = Inr j \<longleftrightarrow>
     (\<exists>bytes. parse_raw lib raw MAX_FRAME_BYTES = Inr (j, bytes) \<and> bytes \<le> MAX_FRAME_BYTES
        \<and> accepts_value lib (frame_schema d) j \<and> frame_fits j)"
proof (cases "parse_raw lib raw MAX_FRAME_BYTES")
  case (Inr p)
  obtain j' bytes where p: "p = (j', bytes)" by (cases p)
  show ?thesis
  proof (cases "accepts_value lib (frame_schema d) j'")
    case True
    from frame_schema_members [OF z True] obtain t where t: "str_field ''type'' j' = Some t"
      "(d = ToExtension \<longrightarrow> known_client t) \<and> (d = ToPwa \<longrightarrow> known_server t)"
      "field ''protocol_version'' j' = Some (JNum (NInt 2))"
      "t = ''timeline_event_fragment'' \<longrightarrow> accepts_value lib TimelineEventFragmentSchema j'"
      "t = ''session_history_chunk'' \<longrightarrow> accepts_value lib SessionHistoryChunkSchema j'"
      by blast
    have frag: "t = ''timeline_event_fragment'' \<Longrightarrow>
        (\<exists>n. validate_fragment_size lib j' = Inr n) = fragment_fits j'"
      using t(4) validate_fragment_size_ok [of lib j'] by simp
    have chunk: "t = ''session_history_chunk'' \<Longrightarrow>
        (\<exists>n. validate_history_chunk_size lib j' = Inr n) =
        (byte_length j' \<le> MAX_HISTORY_CHUNK_BYTES
         \<and> (\<forall>f\<in>set (array_items (field ''fragments'' j')). fragment_fits f))"
      using t(5) validate_history_chunk_size_ok [OF z, of j'] by simp
    have known: "known_client t \<or> known_server t" using t(2) by (cases d) auto
    show ?thesis
      using Inr p True t(1-3) known frag chunk
      by (cases d; cases "t = ''timeline_event_fragment''"; cases "t = ''session_history_chunk''")
         (auto simp: parse_frame_def check_protocol_version_def check_frame_bytes_def frame_fits_def
           split: sum.splits)
  next
    case False
    then show ?thesis
      using Inr p by (auto simp: parse_frame_def split: option.splits if_splits sum.splits)
  qed
qed (simp add: parse_frame_def)

text \<open>
  C16: With a validator that has zod's laws, \<open>decodeClientFrameV2\<close> and \<open>decodeServerFrameV2\<close>
  return a frame exactly when the raw value parses within 2 MiB, the schema of the direction
  accepts it, and a fragment or history chunk is within its own bound (50 KiB of decoded
  bytes per fragment, 512 KiB of text per chunk). The checks of type, direction and version
  that come before the schema refuse nothing that the schema would accept, and no size branch
  refuses a frame of another kind.
\<close>

theorem decode_frame_iff:
  assumes "zod (lib_accepts lib)"
  shows "(decode_client_frame lib raw = Inr j \<longleftrightarrow>
            (\<exists>n. parse_raw lib raw MAX_FRAME_BYTES = Inr (j, n)
                 \<and> accepts_value lib ClientFrameSchema j))
       \<and> (decode_server_frame lib raw = Inr j \<longleftrightarrow>
            (\<exists>n. parse_raw lib raw MAX_FRAME_BYTES = Inr (j, n)
                 \<and> accepts_value lib ServerFrameSchema j \<and> frame_fits j))"
proof -
  have bounded: "parse_raw lib raw MAX_FRAME_BYTES = Inr (j, n) \<Longrightarrow> n \<le> MAX_FRAME_BYTES" for n
    by (auto simp: parse_raw_def Let_def split: raw.splits option.splits if_splits)
  have "accepts_value lib ClientFrameSchema j \<Longrightarrow> frame_fits j"
    using client_frame_members(1) [OF assms, of j] client_types_not_server
    by (fastforce simp: accepts_value_def frame_fits_def)
  then show ?thesis
    using parse_frame_iff [OF assms, of raw ToExtension j] parse_frame_iff [OF assms, of raw ToPwa j] bounded
    by (auto simp: decode_client_frame_def decode_server_frame_def frame_schema_def)
qed

text \<open>A library to evaluate the codec with: it reads only the texts it is told.\<close>

definition demo_lib :: "json \<Rightarrow> codec_lib" where
  "demo_lib j = \<lparr> lib_accepts = zod_accepts,
     lib_parse = (\<lambda>t. if t = stringify j then Some j else None), lib_utf8 = (\<lambda>bs. None) \<rparr>"

lemma demo_lib_zod: "zod (lib_accepts (demo_lib j))"
  by (simp add: demo_lib_def zod_exec.zod_axioms)

definition demo_pong :: json where
  "demo_pong = JObj [(''protocol_version'', JNum (NInt 2)), (''type'', JStr ''pong''),
     (''target_channel_id'', JStr ''c''), (''in_reply_to'', JStr ''p1'')]"

lemma demo_pong_accepted: "zod_accepts ServerFrameSchema (Some demo_pong)"
proof -
  have "zod_accepts pong_frame (Some demo_pong)"
    by (simp add: demo_pong_def pong_frame_def frameBase_def responseDirect_def id_schema_def
        PROTOCOL_VERSION_V2_def MAX_ID_CHARS_def lit_def lit_int_def spread_def)
  then show ?thesis by (simp add: ServerFrameSchema_def)
qed

lemma demo_pong_bytes: "json_bytes demo_pong = 79"
  by code_simp

theorem decode_frame_iff_witness:
  "decode_server_frame (demo_lib demo_pong) (RawValue demo_pong) = Inr demo_pong"
  using decode_frame_iff [OF demo_lib_zod, of demo_pong "RawValue demo_pong" demo_pong]
    demo_pong_accepted demo_pong_bytes
  by (simp add: parse_raw_def byte_length_def demo_lib_def accepts_value_def MAX_FRAME_BYTES_def
      is_record_def demo_pong_def frame_fits_def str_field_def field_def)

lemma encode_decode:
  assumes z: "zod (lib_accepts lib)" and "encode_frame lib f d = Inr t" and "lib_parse lib t = Some f"
  shows "parse_frame lib (RawText t) d = Inr f" and "t = stringify f"
    and "int (utf8_length t) \<le> MAX_FRAME_BYTES"
proof -
  obtain j where "parse_frame lib (RawValue f) d = Inr j" "t = stringify j"
    using assms(2) by (auto simp: encode_frame_def split: sum.splits)
  moreover then have "j = f"
    by (auto simp: parse_frame_iff [OF z] parse_raw_def Let_def split: if_splits)
  ultimately show "parse_frame lib (RawText t) d = Inr f" "t = stringify f"
    "int (utf8_length t) \<le> MAX_FRAME_BYTES"
    using assms(3)
    by (auto simp: parse_frame_iff [OF z] parse_raw_def byte_length_def json_bytes_def Let_def
        split: if_splits)
qed

end
