(* ===== verification/Runtime.thy ===== *)
theory Runtime
  imports Codec
begin

text \<open>
  \<open>TimelineRuntime\<close> of \<open>pi-extension/src/timeline/runtime.ts\<close>: it turns the messages of a Pi
  session into timeline events, once live (a marker entry at the start of a message, the event
  after its end) and once from the session file (\<open>recover\<close>).

  A message is a reference and the content its object has at that moment; the session manager
  is its reference, its session id and the branch it returns. Random UUIDs and the correlation
  stored for the running asynchronous call are arguments. \<open>runtime_env\<close> holds what the code
  calls outside the repository: the validator, \<open>Date.parse\<close>, \<open>Date.now\<close> (by the entry being
  converted), the history generation of the owner and the byte length of decoded Base64.
  An operation returns the new state and its effects in order; a schema that throws is \<open>Inl\<close>.
\<close>

section \<open>Data\<close>

datatype role = RUser | RAssistant | RToolResult

fun role_text :: "role \<Rightarrow> string" where
  "role_text RUser = ''user''"
| "role_text RAssistant = ''assistant''"
| "role_text RToolResult = ''toolResult''"

record correlation =
  co_client_request :: "string option"
  co_channel :: "string option"
  co_request :: "string option"
  co_origin :: string
  co_delivery :: string
  co_sender :: "string option"

definition unknown_correlation :: correlation where
  "unknown_correlation = \<lparr> co_client_request = None, co_channel = None, co_request = None,
     co_origin = ''unknown'', co_delivery = ''unknown'', co_sender = None \<rparr>"

datatype entry_body =
    EMessage json
  | ECustom string "json option"
  | ECompaction json json json "json option" "json option"
  | EBranchSummary json json "json option" "json option"
  | EOther string

record session_entry =
  se_id :: string
  se_timestamp :: string
  se_body :: entry_body

record session_manager =
  sm_ref :: nat
  sm_id :: string
  sm_branch :: "session_entry list"

record runtime_env =
  en_accepts :: "ztype \<Rightarrow> json option \<Rightarrow> bool"
  en_date_parse :: "string \<Rightarrow> number"
  en_now :: "string \<Rightarrow> int"
  en_generation :: "string option"
  en_base64_length :: "string \<Rightarrow> nat"

record pending_message =
  pd_ref :: nat
  pd_message :: nat
  pd_role :: role
  pd_marker :: json
  pd_correlation :: correlation
  pd_identity :: "string option"

record runtime =
  rt_session :: "nat option"
  rt_epoch :: nat
  rt_group :: "string option"
  rt_active :: bool
  rt_published :: "json list"
  rt_message_correlations :: "(nat, correlation) js_map"
  rt_pending :: "(nat, pending_message) js_map"
  rt_by_role :: "role \<Rightarrow> pending_message list"
  rt_next :: nat

definition new_runtime :: runtime where
  "new_runtime = \<lparr> rt_session = None, rt_epoch = 0, rt_group = None, rt_active = False,
     rt_published = [], rt_message_correlations = [], rt_pending = [], rt_by_role = (\<lambda>r. []),
     rt_next = 0 \<rparr>"

datatype partial_kind = PkAssistant | PkThinking

record timeline_partial =
  tp_session :: string
  tp_generation :: string
  tp_group :: string
  tp_event :: string
  tp_kind :: partial_kind
  tp_content_index :: nat
  tp_delta :: "16 word list option"

record started_message =
  st_event :: string
  st_group :: string
  st_role :: role
  st_correlation :: correlation
  st_blocks :: "json list"

datatype effect =
    AppendCustomEntry json
  | Started started_message
  | Published json correlation
  | Partial timeline_partial correlation

section \<open>Reading values\<close>

definition TIMELINE_MARKER :: string where
  "TIMELINE_MARKER = ''remote-pi:timeline-v2''"

fun truthy :: "json option \<Rightarrow> bool" where
  "truthy None = False"
| "truthy (Some JNull) = False"
| "truthy (Some (JBool b)) = b"
| "truthy (Some (JNum n)) = (n \<noteq> NInt 0 \<and> n \<noteq> NNaN)"
| "truthy (Some (JStr s)) = (s \<noteq> [])"
| "truthy (Some j) = True"

definition nullish_or :: "json option \<Rightarrow> json \<Rightarrow> json" where
  "nullish_or v d = (case v of None \<Rightarrow> d | Some JNull \<Rightarrow> d | Some j \<Rightarrow> j)"

definition message_role :: "json \<Rightarrow> role option" where
  "message_role j =
     (if field ''role'' j = Some (JStr ''user'') then Some RUser
      else if field ''role'' j = Some (JStr ''assistant'') then Some RAssistant
      else if field ''role'' j = Some (JStr ''toolResult'') then Some RToolResult
      else None)"

definition text_or_empty :: "string \<Rightarrow> json \<Rightarrow> string" where
  "text_or_empty k j = (case str_field k j of Some s \<Rightarrow> s | None \<Rightarrow> [])"

definition message_identity :: "role \<Rightarrow> json \<Rightarrow> string option" where
  "message_identity r j =
     (case field ''timestamp'' j of
        Some (JNum n) \<Rightarrow>
          if finite_number n then
            Some (role_text r @ '':'' @ number_text n @ '':'' @ text_or_empty ''api'' j @ '':''
                  @ text_or_empty ''provider'' j @ '':'' @ text_or_empty ''model'' j)
          else None
      | _ \<Rightarrow> None)"

fun json_value :: "json \<Rightarrow> json" where
  "json_value (JNum n) = (if finite_number n then JNum n else JNull)"
| "json_value (JArr js) = JArr (map json_value js)"
| "json_value (JObj ms) = JObj (map (\<lambda>m. (fst m, json_value (snd m))) ms)"
| "json_value j = j"

definition trim :: "string \<Rightarrow> string" where
  "trim s = rev (dropWhile is_space (rev (dropWhile is_space s)))"

definition non_empty :: "string \<Rightarrow> string" where
  "non_empty s = (if trim s = [] then ''tool failed'' else trim s)"

fun text_parts :: "json list \<Rightarrow> string list" where
  "text_parts [] = []"
| "text_parts (p # ps) =
     (case str_field ''text'' p of Some t \<Rightarrow> t # text_parts ps | None \<Rightarrow> text_parts ps)"

fun space_join :: "string list \<Rightarrow> string" where
  "space_join [] = []"
| "space_join [s] = s"
| "space_join (s # t # ss) = s @ '' '' @ space_join (t # ss)"

definition text_from_content :: "json option \<Rightarrow> string" where
  "text_from_content c =
     (case c of Some (JStr s) \<Rightarrow> s | Some (JArr ps) \<Rightarrow> space_join (text_parts ps) | _ \<Rightarrow> [])"

definition text_block_json :: "string \<Rightarrow> json" where
  "text_block_json t = JObj [(''type'', JStr ''text''), (''text'', JStr t)]"

definition user_part :: "runtime_env \<Rightarrow> json \<Rightarrow> json list" where
  "user_part env p =
     (case (field ''type'' p, str_field ''text'' p, str_field ''data'' p, str_field ''mimeType'' p) of
        (Some (JStr ty), t, d, m) \<Rightarrow>
          if ty = ''text'' \<and> t \<noteq> None then [text_block_json (the t)]
          else if ty = ''image'' \<and> d \<noteq> None \<and> m \<noteq> None then
            [JObj [(''type'', JStr ''image''), (''mime_type'', JStr (the m)), (''data'', JStr (the d)),
                   (''byte_length'', JNum (NInt (int (en_base64_length env (the d)))))]]
          else []
      | _ \<Rightarrow> [])"

definition user_blocks :: "runtime_env \<Rightarrow> json option \<Rightarrow> json list" where
  "user_blocks env c =
     (case c of Some (JStr s) \<Rightarrow> [text_block_json s]
      | Some (JArr ps) \<Rightarrow> concat (map (user_part env) ps)
      | _ \<Rightarrow> [text_block_json []])"

definition assistant_part :: "json \<Rightarrow> json list" where
  "assistant_part p =
     (case (field ''type'' p, str_field ''text'' p, str_field ''thinking'' p) of
        (Some (JStr ty), t, th) \<Rightarrow>
          if ty = ''text'' \<and> t \<noteq> None then [text_block_json (the t)]
          else if ty = ''thinking'' \<and> th \<noteq> None then
            [JObj [(''type'', JStr ''thinking''), (''text'', JStr (the th))]]
          else []
      | _ \<Rightarrow> [])"

definition assistant_blocks :: "json option \<Rightarrow> json list" where
  "assistant_blocks c =
     (case c of Some (JStr s) \<Rightarrow> [text_block_json s]
      | Some (JArr ps) \<Rightarrow> concat (map assistant_part ps)
      | _ \<Rightarrow> [])"

definition valid_time :: "number \<Rightarrow> bool" where
  "valid_time n = (finite_number n \<and> num_check_ok n NumNonnegative)"

text \<open>\<open>Date.parse\<close> of the entry, else the message's own time, else the clock.\<close>

definition event_timestamp :: "runtime_env \<Rightarrow> session_entry \<Rightarrow> json option \<Rightarrow> number" where
  "event_timestamp env e message_time =
     (if valid_time (en_date_parse env (se_timestamp e)) then en_date_parse env (se_timestamp e)
      else case message_time of
        Some (JNum n) \<Rightarrow> if valid_time n then n else NInt (en_now env (se_id e))
      | _ \<Rightarrow> NInt (en_now env (se_id e)))"

definition generation_of :: "runtime_env \<Rightarrow> session_manager \<Rightarrow> string" where
  "generation_of env sm = (case en_generation env of Some g \<Rightarrow> g | None \<Rightarrow> sm_id sm)"

section \<open>Markers\<close>

definition marker_text :: "string \<Rightarrow> json \<Rightarrow> string" where
  "marker_text k m = text_or_empty k m"

definition build_marker ::
  "runtime_env \<Rightarrow> role \<Rightarrow> string \<Rightarrow> string \<Rightarrow> correlation \<Rightarrow> (unit, json) result" where
  "build_marker env r event_id group_id co =
     (let marker =
        (case r of
           RUser \<Rightarrow>
             JObj ([(''version'', JNum (NInt 2)), (''event_id'', JStr event_id), (''group_id'', JStr group_id),
                    (''kind'', JStr ''user''), (''origin'', JStr (co_origin co)),
                    (''delivery'', JStr (co_delivery co))]
                   @ (case co_sender co of None \<Rightarrow> [] | Some s \<Rightarrow> [(''sender_ref'', JStr s)]))
         | _ \<Rightarrow>
             JObj [(''version'', JNum (NInt 2)), (''event_id'', JStr event_id), (''group_id'', JStr group_id),
                   (''kind'', JStr (if r = RAssistant then ''assistant'' else ''tool''))])
      in if en_accepts env MarkerSchemaV2 (Some marker) then Inr marker else Inl ())"

definition parse_marker_entry :: "runtime_env \<Rightarrow> json option \<Rightarrow> json option" where
  "parse_marker_entry env d = (if en_accepts env MarkerSchemaV2 d then d else None)"

definition correlation_from_marker :: "json \<Rightarrow> correlation" where
  "correlation_from_marker m =
     (if field ''kind'' m \<noteq> Some (JStr ''user'') then unknown_correlation
      else unknown_correlation \<lparr> co_origin := text_or_empty ''origin'' m,
             co_delivery := text_or_empty ''delivery'' m,
             co_sender := (if truthy (field ''sender_ref'' m) then str_field ''sender_ref'' m else None) \<rparr>)"

definition role_for_marker :: "json \<Rightarrow> role" where
  "role_for_marker m =
     (if field ''kind'' m = Some (JStr ''user'') then RUser
      else if field ''kind'' m = Some (JStr ''assistant'') then RAssistant else RToolResult)"

definition is_marker_entry :: "session_entry \<Rightarrow> bool" where
  "is_marker_entry e = (case se_body e of ECustom t d \<Rightarrow> t = TIMELINE_MARKER | _ \<Rightarrow> False)"

definition entry_role :: "session_entry \<Rightarrow> role option" where
  "entry_role e = (case se_body e of EMessage j \<Rightarrow> message_role j | _ \<Rightarrow> None)"

text \<open>\<open>scanTargetAfterMarker\<close> on the entries after the marker.\<close>

fun scan_target :: "session_entry list \<Rightarrow> role \<Rightarrow> session_entry option" where
  "scan_target [] r = None"
| "scan_target (e # es) r =
     (if is_marker_entry e then None
      else case se_body e of
        ECustom t d \<Rightarrow> scan_target es r
      | EMessage j \<Rightarrow> (if message_role j = Some r then Some e else None)
      | _ \<Rightarrow> None)"

section \<open>Events\<close>

definition event_base :: "runtime_env \<Rightarrow> session_manager \<Rightarrow> string \<Rightarrow> number \<Rightarrow> (string \<times> json) list" where
  "event_base env sm event_id ts =
     [(''event_id'', JStr event_id), (''session_id'', JStr (sm_id sm)),
      (''history_generation'', JStr (generation_of env sm)), (''timestamp'', JNum ts)]"

definition opt_member :: "string \<Rightarrow> json option \<Rightarrow> (string \<times> json) list" where
  "opt_member k v = (case v of None \<Rightarrow> [] | Some j \<Rightarrow> [(k, j)])"

definition error_message :: "json \<Rightarrow> string" where
  "error_message j = non_empty (case str_field ''errorMessage'' j of
     Some s \<Rightarrow> s | None \<Rightarrow> text_from_content (field ''content'' j))"

definition tool_members :: "json \<Rightarrow> json \<Rightarrow> (string \<times> json) list" where
  "tool_members j marker =
     [(''kind'', JStr ''tool''),
      (''tool_call_id'', nullish_or (field ''toolCallId'' j) (JStr (marker_text ''event_id'' marker))),
      (''tool'', nullish_or (field ''toolName'' j) (JStr ''unknown'')),
      (''args'', json_value (nullish_or (field ''args'' j) (JObj []))),
      (''truncated'', JBool False)]"

text \<open>The candidate that \<open>toTimelineEvent\<close> builds before it is parsed.\<close>

definition event_candidate ::
  "runtime_env \<Rightarrow> session_entry \<Rightarrow> role \<Rightarrow> json \<Rightarrow> json \<Rightarrow> correlation \<Rightarrow> session_manager \<Rightarrow> json" where
  "event_candidate env e r j marker co sm =
     (let base = event_base env sm (marker_text ''event_id'' marker)
                   (event_timestamp env e (field ''timestamp'' j));
          group = opt_member ''group_id'' (field ''group_id'' marker);
          content = field ''content'' j
      in case r of
        RUser \<Rightarrow>
          JObj (base @ group @ [(''kind'', JStr ''user''),
            (''message_id'', JStr (marker_text ''event_id'' marker)),
            (''blocks'', JArr (user_blocks env content)), (''origin'', JStr (co_origin co)),
            (''delivery'', JStr (co_delivery co)), (''status'', JStr ''committed'')]
            @ (if field ''kind'' marker = Some (JStr ''user'') \<and> truthy (field ''sender_ref'' marker)
               then opt_member ''sender_ref'' (field ''sender_ref'' marker) else []))
      | RAssistant \<Rightarrow>
          (if field ''stopReason'' j = Some (JStr ''error'') then
             JObj (base @ group @ [(''kind'', JStr ''provider_error''), (''message'', JStr (error_message j))])
           else
             JObj (base @ group @ [(''kind'', JStr ''assistant''), (''blocks'', JArr (assistant_blocks content)),
               (''status'', JStr (if field ''stopReason'' j = Some (JStr ''aborted'')
                                 then ''interrupted'' else ''complete''))]))
      | RToolResult \<Rightarrow>
          (if truthy (field ''isError'' j) then
             JObj (base @ group @ tool_members j marker
               @ [(''status'', JStr ''error''), (''error'', JStr (error_message j))])
           else
             JObj (base @ group @ tool_members j marker
               @ [(''status'', JStr ''complete''),
                  (''result'', (case content of None \<Rightarrow> JNull | Some c \<Rightarrow> json_value c))])))"

definition to_timeline_event ::
  "runtime_env \<Rightarrow> session_entry \<Rightarrow> json \<Rightarrow> correlation \<Rightarrow> session_manager \<Rightarrow> (unit, json option) result" where
  "to_timeline_event env e marker co sm =
     (case se_body e of
        EMessage j \<Rightarrow>
          (case message_role j of
             None \<Rightarrow> Inr None
           | Some r \<Rightarrow>
               (let candidate = event_candidate env e r j marker co sm in
                if en_accepts env TimelineEventSchema (Some candidate) then Inr (Some candidate) else Inl ()))
      | _ \<Rightarrow> Inr None)"

definition system_members ::
  "runtime_env \<Rightarrow> session_entry \<Rightarrow> session_manager \<Rightarrow> string \<Rightarrow> json \<Rightarrow> json" where
  "system_members env e sm kind payload =
     JObj (event_base env sm (se_id e) (event_timestamp env e None)
           @ [(''truncated'', JBool False), (''kind'', JStr kind), (''payload'', payload)])"

definition to_system_event :: "runtime_env \<Rightarrow> session_entry \<Rightarrow> session_manager \<Rightarrow> json option" where
  "to_system_event env e sm =
     (let candidate =
        (case se_body e of
           ECompaction summary kept tokens hook details \<Rightarrow>
             Some (system_members env e sm ''compaction'' (JObj ([(''summary'', summary),
               (''first_kept_entry_id'', kept), (''tokens_before'', tokens),
               (''from_hook'', nullish_or hook (JBool False))] @ opt_member ''details'' (map_option json_value details))))
         | EBranchSummary summary from hook details \<Rightarrow>
             Some (system_members env e sm ''branch_summary'' (JObj ([(''summary'', summary),
               (''from_id'', from), (''from_hook'', nullish_or hook (JBool False))]
               @ opt_member ''details'' (map_option json_value details))))
         | ECustom t d \<Rightarrow>
             if t = TIMELINE_MARKER then None
             else Some (system_members env e sm ''custom''
                    (JObj ([(''custom_type'', JStr t)] @ opt_member ''data'' (map_option json_value d))))
         | _ \<Rightarrow> None)
      in case candidate of
        None \<Rightarrow> None
      | Some c \<Rightarrow> if en_accepts env TimelineEventSchema (Some c) then Some c else None)"

section \<open>The state and its operations\<close>

definition reset_state :: "runtime \<Rightarrow> runtime" where
  "reset_state st = st \<lparr> rt_epoch := 0, rt_group := None, rt_active := False, rt_published := [],
     rt_by_role := (\<lambda>r. []) \<rparr>"

definition attach :: "session_manager \<Rightarrow> runtime \<Rightarrow> runtime" where
  "attach sm st = (if rt_session st = Some (sm_ref sm) then st
                   else reset_state (st \<lparr> rt_session := Some (sm_ref sm) \<rparr>))"

definition reset_session :: "session_manager \<Rightarrow> runtime \<Rightarrow> runtime" where
  "reset_session sm st = reset_state (st \<lparr> rt_session := Some (sm_ref sm) \<rparr>)"

definition on_agent_start :: "runtime \<Rightarrow> runtime" where
  "on_agent_start st = st \<lparr> rt_epoch := rt_epoch st + 1, rt_active := True, rt_group := None \<rparr>"

definition on_agent_end :: "runtime \<Rightarrow> runtime" where
  "on_agent_end st = st \<lparr> rt_active := False, rt_group := None, rt_by_role := (\<lambda>r. []) \<rparr>"

definition correlation_for :: "runtime \<Rightarrow> correlation option \<Rightarrow> nat \<Rightarrow> correlation" where
  "correlation_for st store ref =
     (case store of Some c \<Rightarrow> c
      | None \<Rightarrow> (case jm_get (rt_message_correlations st) ref of Some c \<Rightarrow> c | None \<Rightarrow> unknown_correlation))"

text \<open>The three structures that remember a started message.\<close>

definition enqueue :: "nat \<Rightarrow> pending_message \<Rightarrow> runtime \<Rightarrow> runtime" where
  "enqueue ref p st = st \<lparr>
     rt_message_correlations := jm_set ref (pd_correlation p) (rt_message_correlations st),
     rt_pending := jm_set ref p (rt_pending st),
     rt_by_role := (rt_by_role st)(pd_role p := rt_by_role st (pd_role p) @ [p]),
     rt_next := rt_next st + 1 \<rparr>"

text \<open>
  \<open>group_uuid\<close> and \<open>event_uuid\<close> are the values of \<open>randomUUID()\<close>, the first used only when
  there is no active group. \<open>Inl ()\<close>: the marker did not pass its schema and the call threw.
\<close>

definition on_message_start ::
  "runtime_env \<Rightarrow> correlation option \<Rightarrow> string \<Rightarrow> string \<Rightarrow> nat \<Rightarrow> json \<Rightarrow> session_manager \<Rightarrow> runtime
     \<Rightarrow> runtime \<times> effect list \<times> (unit, started_message option) result" where
  "on_message_start env store group_uuid event_uuid ref j sm st0 =
     (let st1 = attach sm st0 in
      case message_role j of
        None \<Rightarrow> (st1, [], Inr None)
      | Some r \<Rightarrow>
          (let st2 = (if rt_active st1 then st1 else on_agent_start st1);
               co = correlation_for st2 store ref;
               group = (case rt_group st2 of Some g \<Rightarrow> g | None \<Rightarrow> group_uuid);
               st3 = st2 \<lparr> rt_group := Some group \<rparr>
           in case build_marker env r event_uuid group co of
                Inl u \<Rightarrow> (st3, [], Inl u)
              | Inr marker \<Rightarrow>
                  (let p = \<lparr> pd_ref = rt_next st3, pd_message = ref, pd_role = r, pd_marker = marker,
                             pd_correlation = co, pd_identity = message_identity r j \<rparr>;
                       started = \<lparr> st_event = event_uuid, st_group = group, st_role = r,
                             st_correlation = co,
                             st_blocks = (if r = RUser then user_blocks env (field ''content'' j) else []) \<rparr>
                   in (enqueue ref p st3, [AppendCustomEntry marker, Started started], Inr (Some started)))))"

definition has_ref :: "pending_message \<Rightarrow> pending_message list \<Rightarrow> bool" where
  "has_ref p ps = list_ex (\<lambda>q. pd_ref q = pd_ref p) ps"

definition find_pending :: "runtime \<Rightarrow> nat \<Rightarrow> json \<Rightarrow> role \<Rightarrow> pending_message option" where
  "find_pending st ref j r =
     (let direct = jm_get (rt_pending st) ref;
          by_identity =
            (case message_role j of
               None \<Rightarrow> None
             | Some r' \<Rightarrow>
                 (case message_identity r' j of
                    None \<Rightarrow> None
                  | Some i \<Rightarrow> find (\<lambda>p. pd_identity p = Some i) (rt_by_role st r)))
      in case direct of
           Some p \<Rightarrow> if pd_role p = r \<and> has_ref p (rt_by_role st r) then Some p else by_identity
         | None \<Rightarrow> by_identity)"

definition publish :: "json \<Rightarrow> correlation \<Rightarrow> runtime \<Rightarrow> runtime \<times> effect list" where
  "publish event co st =
     (if list_ex (\<lambda>e. field ''event_id'' e = field ''event_id'' event) (rt_published st) then (st, [])
      else (st \<lparr> rt_published := rt_published st @ [event] \<rparr>, [Published event co]))"

text \<open>The end of a message removes its pending record and schedules \<open>publish_scheduled\<close>.\<close>

definition on_message_end ::
  "nat \<Rightarrow> json \<Rightarrow> session_manager \<Rightarrow> runtime \<Rightarrow> runtime \<times> pending_message option" where
  "on_message_end ref j sm st0 =
     (let st = attach sm st0 in
      case message_role j of
        None \<Rightarrow> (st, None)
      | Some r \<Rightarrow>
          (case find_pending st ref j r of
             None \<Rightarrow> (st, None)
           | Some p \<Rightarrow>
               (st \<lparr> rt_pending := jm_delete ref (jm_delete (pd_message p) (rt_pending st)),
                     rt_by_role := (rt_by_role st)(pd_role p :=
                       filter (\<lambda>q. pd_ref q \<noteq> pd_ref p) (rt_by_role st (pd_role p))) \<rparr>, Some p)))"

text \<open>The entries after the first one that is the marker of the pending message.\<close>

definition holds_marker :: "json \<Rightarrow> session_entry \<Rightarrow> bool" where
  "holds_marker marker e =
     (se_id e = marker_text ''event_id'' marker
      \<or> (case se_body e of
           ECustom t d \<Rightarrow> t = TIMELINE_MARKER \<and> d \<noteq> None
             \<and> field ''event_id'' (the d) = field ''event_id'' marker
         | _ \<Rightarrow> False))"

fun after_marker :: "json \<Rightarrow> session_entry list \<Rightarrow> session_entry list option" where
  "after_marker marker [] = None"
| "after_marker marker (e # es) = (if holds_marker marker e then Some es else after_marker marker es)"

definition publish_scheduled ::
  "runtime_env \<Rightarrow> pending_message \<Rightarrow> session_manager \<Rightarrow> runtime \<Rightarrow> runtime \<times> effect list \<times> (unit, unit) result" where
  "publish_scheduled env p sm st =
     (case after_marker (pd_marker p) (sm_branch sm) of
        None \<Rightarrow> (st, [], Inr ())
      | Some rest \<Rightarrow>
          (case scan_target rest (pd_role p) of
             None \<Rightarrow> (st, [], Inr ())
           | Some e \<Rightarrow>
               (case to_timeline_event env e (pd_marker p) (pd_correlation p) sm of
                  Inl u \<Rightarrow> (st, [], Inl u)
                | Inr None \<Rightarrow> (st, [], Inr ())
                | Inr (Some event) \<Rightarrow>
                    (let (st', eff) = publish event (pd_correlation p) st in (st', eff, Inr ())))))"

definition publish_session_entry ::
  "runtime_env \<Rightarrow> session_entry \<Rightarrow> session_manager \<Rightarrow> runtime \<Rightarrow> runtime \<times> effect list \<times> json option" where
  "publish_session_entry env e sm st0 =
     (let st = attach sm st0 in
      case to_system_event env e sm of
        None \<Rightarrow> (st, [], None)
      | Some event \<Rightarrow> (let (st', eff) = publish event unknown_correlation st in (st', eff, Some event)))"

section \<open>Partials\<close>

datatype assistant_update =
    TextStart nat
  | ThinkingStart nat
  | TextDelta nat "16 word list"
  | ThinkingDelta nat "16 word list"
  | OtherUpdate

definition MAX_PARTIAL_DELTA_CHARS :: nat where
  "MAX_PARTIAL_DELTA_CHARS = 64 * 1024"

definition high_surrogate :: "16 word \<Rightarrow> bool" where
  "high_surrogate u = (0xD800 \<le> u \<and> u \<le> 0xDBFF)"

definition low_surrogate :: "16 word \<Rightarrow> bool" where
  "low_surrogate u = (0xDC00 \<le> u \<and> u \<le> 0xDFFF)"

text \<open>
  The end of the chunk that begins a text: at most \<open>n\<close> code units, one less when the cut
  would fall inside a surrogate pair.
\<close>

definition chunk_end :: "nat \<Rightarrow> 16 word list \<Rightarrow> nat" where
  "chunk_end n us =
     (let e = min (length us) n in
      if e < length us \<and> high_surrogate (us ! (e - 1)) \<and> low_surrogate (us ! e) then e - 1 else e)"

lemma chunk_end_positive: "2 \<le> n \<Longrightarrow> us \<noteq> [] \<Longrightarrow> 0 < chunk_end n us"
  by (cases us) (auto simp: chunk_end_def Let_def min_def)

text \<open>\<open>partialDeltaChunks\<close>: the text from \<open>offset\<close> on is the argument of each round.\<close>

function delta_chunks :: "nat \<Rightarrow> 16 word list \<Rightarrow> 16 word list list" where
  "delta_chunks n us =
     (if us = [] \<or> n < 2 then [] else take (chunk_end n us) us # delta_chunks n (drop (chunk_end n us) us))"
  by pat_completeness auto

termination
proof (relation "measure (\<lambda>(n, us). length us)", goal_cases)
  case (2 n us)
  then have "0 < chunk_end n us" by (intro chunk_end_positive) auto
  with 2 show ?case by simp
qed simp

declare delta_chunks.simps [simp del]

definition partial_delta_chunks :: "16 word list \<Rightarrow> 16 word list list" where
  "partial_delta_chunks delta = delta_chunks MAX_PARTIAL_DELTA_CHARS delta"

definition publish_partial ::
  "runtime_env \<Rightarrow> pending_message \<Rightarrow> partial_kind \<Rightarrow> nat \<Rightarrow> 16 word list option \<Rightarrow> session_manager
     \<Rightarrow> effect list" where
  "publish_partial env p kind i delta sm =
     (let group = text_or_empty ''group_id'' (pd_marker p) in
      if sm_id sm = [] \<or> generation_of env sm = [] \<or> group = [] then []
      else let partial = (\<lambda>d. Partial \<lparr> tp_session = sm_id sm, tp_generation = generation_of env sm,
                 tp_group = group, tp_event = text_or_empty ''event_id'' (pd_marker p), tp_kind = kind,
                 tp_content_index = i, tp_delta = d \<rparr> (pd_correlation p))
           in case delta of
                None \<Rightarrow> [partial None]
              | Some d \<Rightarrow> map (\<lambda>c. partial (Some c)) (partial_delta_chunks d))"

definition on_message_update ::
  "runtime_env \<Rightarrow> assistant_update \<Rightarrow> nat \<Rightarrow> json \<Rightarrow> session_manager \<Rightarrow> runtime \<Rightarrow> effect list" where
  "on_message_update env update ref j sm st =
     (if rt_session st \<noteq> Some (sm_ref sm) \<or> message_role j \<noteq> Some RAssistant then []
      else case find_pending st ref j RAssistant of
        None \<Rightarrow> []
      | Some p \<Rightarrow>
          (case update of
             TextStart i \<Rightarrow> publish_partial env p PkAssistant i None sm
           | ThinkingStart i \<Rightarrow> publish_partial env p PkThinking i None sm
           | TextDelta i d \<Rightarrow> (if d = [] then [] else publish_partial env p PkAssistant i (Some d) sm)
           | ThinkingDelta i d \<Rightarrow> (if d = [] then [] else publish_partial env p PkThinking i (Some d) sm)
           | OtherUpdate \<Rightarrow> []))"

section \<open>Recovery\<close>

text \<open>
  The first pass: each marker with its message. It gives the ids of the matched entries and
  their events; a schema that throws ends the call.
\<close>

fun recover_marked ::
  "runtime_env \<Rightarrow> session_manager \<Rightarrow> session_entry list \<Rightarrow> (unit, string list \<times> json list) result" where
  "recover_marked env sm [] = Inr ([], [])"
| "recover_marked env sm (e # es) =
     (case (if is_marker_entry e then
              (case se_body e of ECustom t d \<Rightarrow> parse_marker_entry env d | _ \<Rightarrow> None) else None) of
        None \<Rightarrow> recover_marked env sm es
      | Some marker \<Rightarrow>
          (case scan_target es (role_for_marker marker) of
             None \<Rightarrow> recover_marked env sm es
           | Some target \<Rightarrow>
               (case to_timeline_event env target marker (correlation_from_marker marker) sm of
                  Inl u \<Rightarrow> Inl u
                | Inr event \<Rightarrow>
                    (case recover_marked env sm es of
                       Inl u \<Rightarrow> Inl u
                     | Inr (ids, evs) \<Rightarrow>
                         Inr (se_id target # ids, (case event of None \<Rightarrow> evs | Some v \<Rightarrow> v # evs))))))"

definition legacy_marker :: "session_manager \<Rightarrow> string \<Rightarrow> role \<Rightarrow> json" where
  "legacy_marker sm entry_id r =
     (let event_id = ''legacy:'' @ entry_id; group_id = ''legacy:'' @ sm_id sm in
      if r = RUser then
        JObj [(''version'', JNum (NInt 2)), (''event_id'', JStr event_id), (''group_id'', JStr group_id),
              (''kind'', JStr ''user''), (''origin'', JStr ''unknown''), (''delivery'', JStr ''unknown'')]
      else
        JObj [(''version'', JNum (NInt 2)), (''event_id'', JStr event_id), (''group_id'', JStr group_id),
              (''kind'', JStr (if r = RAssistant then ''assistant'' else ''tool''))])"

fun recover_legacy ::
  "runtime_env \<Rightarrow> session_manager \<Rightarrow> string list \<Rightarrow> session_entry list \<Rightarrow> (unit, json list) result" where
  "recover_legacy env sm matched [] = Inr []"
| "recover_legacy env sm matched (e # es) =
     (case (if List.member matched (se_id e) then None else entry_role e) of
        None \<Rightarrow> recover_legacy env sm matched es
      | Some r \<Rightarrow>
          (let marker = legacy_marker sm (se_id e) r in
           case to_timeline_event env e marker (correlation_from_marker marker) sm of
             Inl u \<Rightarrow> Inl u
           | Inr event \<Rightarrow>
               (case recover_legacy env sm matched es of
                  Inl u \<Rightarrow> Inl u
                | Inr evs \<Rightarrow> Inr (case event of None \<Rightarrow> evs | Some v \<Rightarrow> v # evs))))"

fun recover_system :: "runtime_env \<Rightarrow> session_manager \<Rightarrow> session_entry list \<Rightarrow> json list" where
  "recover_system env sm [] = []"
| "recover_system env sm (e # es) =
     (case to_system_event env e sm of
        None \<Rightarrow> recover_system env sm es | Some v \<Rightarrow> v # recover_system env sm es)"

definition recover :: "runtime_env \<Rightarrow> session_manager \<Rightarrow> runtime \<Rightarrow> runtime \<times> (unit, json list) result" where
  "recover env sm st =
     (attach sm st,
      (case recover_marked env sm (sm_branch sm) of
         Inl u \<Rightarrow> Inl u
       | Inr (matched, evs) \<Rightarrow>
           (case recover_legacy env sm matched (sm_branch sm) of
              Inl u \<Rightarrow> Inl u
            | Inr legacy \<Rightarrow> Inr (evs @ legacy @ recover_system env sm (sm_branch sm)))))"

section \<open>Partials: the chunks of a delta\<close>

lemma chunk_end_bounds: "2 \<le> n \<Longrightarrow> chunk_end n us \<le> n \<and> chunk_end n us \<le> length us"
  by (auto simp: chunk_end_def Let_def)

lemma delta_chunks_Nil [simp]: "delta_chunks n [] = []"
  by (simp add: delta_chunks.simps)

lemma delta_chunks_concat: "2 \<le> n \<Longrightarrow> concat (delta_chunks n us) = us"
proof (induction n us rule: delta_chunks.induct)
  case (1 n us)
  then show ?case by (subst delta_chunks.simps) auto
qed

lemma delta_chunks_sizes: "c \<in> set (delta_chunks n us) \<Longrightarrow> c \<noteq> [] \<and> length c \<le> n"
proof (induction n us rule: delta_chunks.induct)
  case (1 n us)
  show ?case
  proof (cases "us = [] \<or> n < 2")
    case True
    with 1(2) show ?thesis by (simp add: delta_chunks.simps [of n us])
  next
    case False
    with 1(2) have "c = take (chunk_end n us) us \<or> c \<in> set (delta_chunks n (drop (chunk_end n us) us))"
      by (simp add: delta_chunks.simps [of n us])
    with 1(1) [OF False] False chunk_end_positive [of n us] chunk_end_bounds [of n us]
    show ?thesis by auto
  qed
qed

text \<open>\<open>joined cs\<close>: some chunk of \<open>cs\<close> ends with a high surrogate whose low one begins the next.\<close>

fun splits_pair :: "16 word list list \<Rightarrow> bool" where
  "splits_pair (c # d # cs) =
     ((c \<noteq> [] \<and> d \<noteq> [] \<and> high_surrogate (last c) \<and> low_surrogate (hd d)) \<or> splits_pair (d # cs))"
| "splits_pair cs = False"

lemma surrogates_disjoint: "high_surrogate u \<Longrightarrow> \<not> low_surrogate u"
  by (auto simp: high_surrogate_def low_surrogate_def word_le_nat_alt)

text \<open>
  A cut at the full length is inside no pair by the test of the code; a cut one earlier falls
  before the high surrogate, and what begins the next chunk is that high surrogate.
\<close>

lemma chunk_end_cut:
  assumes "2 \<le> n" and "chunk_end n us < length us"
  shows "\<not> (high_surrogate (us ! (chunk_end n us - 1)) \<and> low_surrogate (us ! chunk_end n us))"
proof (cases "min (length us) n < length us \<and> high_surrogate (us ! (min (length us) n - 1))
    \<and> low_surrogate (us ! min (length us) n)")
  case True
  then have "chunk_end n us = min (length us) n - 1" by (simp add: chunk_end_def Let_def)
  with True surrogates_disjoint show ?thesis by auto
next
  case False
  then have "chunk_end n us = min (length us) n" unfolding chunk_end_def Let_def by (rule if_not_P)
  with False assms(2) show ?thesis by auto
qed

lemma delta_chunks_pairs: "2 \<le> n \<Longrightarrow> \<not> splits_pair (delta_chunks n us)"
proof (induction n us rule: delta_chunks.induct)
  case (1 n us)
  show ?case
  proof (cases "us = []")
    case True
    then show ?thesis by simp
  next
    case False
    let ?e = "chunk_end n us" and ?rest = "drop (chunk_end n us) us"
    from False 1(2) have *: "delta_chunks n us = take ?e us # delta_chunks n ?rest"
      by (simp add: delta_chunks.simps [of n us])
    show ?thesis
    proof (cases "?rest = []")
      case True
      then show ?thesis by (simp add: *)
    next
      case rest: False
      then have less: "?e < length us" by simp
      from rest 1(2) have next': "delta_chunks n ?rest = take (chunk_end n ?rest) ?rest #
          delta_chunks n (drop (chunk_end n ?rest) ?rest)"
        by (simp add: delta_chunks.simps [of n ?rest])
      have pos: "0 < ?e" "0 < chunk_end n ?rest" using chunk_end_positive 1(2) False rest by auto
      have "take ?e us \<noteq> []" using pos less by auto
      then have "last (take ?e us) = us ! (?e - 1)" using less pos by (simp add: last_conv_nth)
      moreover have "hd (take (chunk_end n ?rest) ?rest) = us ! ?e"
        using pos less by (simp add: hd_drop_conv_nth)
      ultimately show ?thesis
        using chunk_end_cut [OF 1(2) less] 1(1) [OF _ 1(2)] False 1(2) by (simp add: * next')
    qed
  qed
qed

text \<open>
  C22: The chunks of a streamed delta are non-empty, hold at most 65,536 code units each, give
  the delta back when joined, and no cut separates the two halves of a surrogate pair, so every
  chunk of well-formed UTF-16 text is well formed.
\<close>

theorem partial_delta_chunks_spec:
  "concat (partial_delta_chunks delta) = delta
   \<and> (\<forall>c\<in>set (partial_delta_chunks delta). c \<noteq> [] \<and> length c \<le> 65536)
   \<and> \<not> splits_pair (partial_delta_chunks delta)"
  using delta_chunks_concat [of MAX_PARTIAL_DELTA_CHARS delta]
    delta_chunks_sizes [of _ MAX_PARTIAL_DELTA_CHARS delta] delta_chunks_pairs [of MAX_PARTIAL_DELTA_CHARS delta]
  by (auto simp: partial_delta_chunks_def MAX_PARTIAL_DELTA_CHARS_def)

theorem partial_delta_chunks_spec_witness:
  "partial_delta_chunks [0xD83D, 0xDE00] = [[0xD83D, 0xDE00 :: 16 word]]"
proof -
  have "delta_chunks 65536 [0xD83D, 0xDE00] = [[0xD83D, 0xDE00]]"
    by (simp add: delta_chunks.simps chunk_end_def)
  then show ?thesis
    using partial_delta_chunks_spec [of "[0xD83D, 0xDE00]"]
    by (simp add: partial_delta_chunks_def MAX_PARTIAL_DELTA_CHARS_def)
qed

section \<open>Recovery: every message once\<close>

lemma scan_target_split:
  "scan_target es r = Some t \<Longrightarrow>
   \<exists>pre post. es = pre @ t # post \<and> (\<forall>e\<in>set pre. \<not> is_marker_entry e)
     \<and> \<not> is_marker_entry t \<and> entry_role t = Some r"
proof (induction es)
  case (Cons e es)
  show ?case
  proof (cases "se_body e")
    case (ECustom t' d)
    with Cons.prems have nm: "\<not> is_marker_entry e" and "scan_target es r = Some t"
      by (auto split: if_splits)
    from Cons.IH [OF this(2)] obtain pre post where "es = pre @ t # post"
      "\<forall>e\<in>set pre. \<not> is_marker_entry e" "\<not> is_marker_entry t" "entry_role t = Some r" by blast
    with nm show ?thesis by (intro exI [of _ "e # pre"] exI [of _ post]) auto
  next
    case (EMessage j)
    with Cons.prems have "e = t" "\<not> is_marker_entry t" "entry_role t = Some r"
      by (auto simp: entry_role_def split: if_splits)
    then show ?thesis by (intro exI [of _ "[]"] exI [of _ es]) simp
  qed (use Cons.prems in \<open>auto split: if_splits\<close>)
qed simp

lemma recover_marked_skip:
  "\<forall>e\<in>set pre. \<not> is_marker_entry e \<Longrightarrow> recover_marked env sm (pre @ es) = recover_marked env sm es"
  by (induction pre) auto

lemma to_timeline_event_some:
  "entry_role e = Some r \<Longrightarrow> to_timeline_event env e marker co sm \<noteq> Inr None"
  by (auto simp: to_timeline_event_def entry_role_def Let_def split: entry_body.splits)

lemma recover_marked_ids:
  "recover_marked env sm es = Inr (ids, evs) \<Longrightarrow> set ids \<subseteq> se_id ` set es"
proof (induction es arbitrary: ids evs)
  case (Cons e es)
  then obtain ids' evs' where rec: "recover_marked env sm es = Inr (ids', evs')"
    by (auto split: option.splits sum.splits)
  have "ids = ids' \<or> (\<exists>r t. scan_target es r = Some t \<and> ids = se_id t # ids')"
    using Cons.prems rec by (auto split: option.splits sum.splits if_splits)
  moreover have "scan_target es r = Some t \<Longrightarrow> t \<in> set es" for r t
    using scan_target_split [of es r t] by auto
  ultimately show ?case using Cons.IH [OF rec] by auto
qed simp

lemma recover_marked_facts:
  "recover_marked env sm es = Inr (ids, evs) \<Longrightarrow> distinct (map se_id es) \<Longrightarrow>
   distinct ids \<and> set ids \<subseteq> se_id ` {e \<in> set es. entry_role e \<noteq> None} \<and> length evs = length ids"
proof (induction es arbitrary: ids evs)
  case (Cons e es)
  let ?m = "if is_marker_entry e then
              (case se_body e of ECustom t d \<Rightarrow> parse_marker_entry env d | _ \<Rightarrow> None) else None"
  show ?case
  proof (cases "\<exists>marker t. ?m = Some marker \<and> scan_target es (role_for_marker marker) = Some t")
    case False
    then have "recover_marked env sm es = Inr (ids, evs)"
      using Cons.prems(1) by (auto split: option.splits)
    with Cons show ?thesis by force
  next
    case True
    then obtain marker t where mt: "?m = Some marker" "scan_target es (role_for_marker marker) = Some t"
      by blast
    with Cons.prems(1) obtain event ids' evs' where
      ev: "to_timeline_event env t marker (correlation_from_marker marker) sm = Inr event"
      and rec: "recover_marked env sm es = Inr (ids', evs')"
      and ids: "ids = se_id t # ids'" and evs: "evs = (case event of None \<Rightarrow> evs' | Some v \<Rightarrow> v # evs')"
      by (auto split: sum.splits)
    from scan_target_split [OF mt(2)] obtain pre post where sp: "es = pre @ t # post"
      "\<forall>e\<in>set pre. \<not> is_marker_entry e" "\<not> is_marker_entry t"
      "entry_role t = Some (role_for_marker marker)" by blast
    have IH: "distinct ids' \<and> set ids' \<subseteq> se_id ` {e \<in> set es. entry_role e \<noteq> None} \<and> length evs' = length ids'"
      using Cons.IH [OF rec] Cons.prems(2) by simp
    have "recover_marked env sm post = Inr (ids', evs')"
      using rec sp recover_marked_skip [of "pre @ [t]" env sm post] by simp
    then have "set ids' \<subseteq> se_id ` set post" by (rule recover_marked_ids)
    moreover have "se_id t \<notin> se_id ` set post" using Cons.prems(2) sp by auto
    ultimately have "se_id t \<notin> set ids'" by blast
    moreover have "event \<noteq> None" using to_timeline_event_some [OF sp(4)] ev by (cases event) auto
    moreover have "t \<in> set es" using sp by simp
    ultimately show ?thesis
      using IH ids evs sp(4) by auto
  qed
qed simp

lemma recover_legacy_length:
  "recover_legacy env sm matched es = Inr evs \<Longrightarrow>
   length evs = length (filter (\<lambda>e. entry_role e \<noteq> None \<and> se_id e \<notin> set matched) es)"
proof (induction es arbitrary: evs)
  case (Cons e es)
  show ?case
  proof (cases "entry_role e \<noteq> None \<and> se_id e \<notin> set matched")
    case True
    then obtain r where r: "entry_role e = Some r" by auto
    with True Cons.prems to_timeline_event_some [OF r] Cons.IH show ?thesis
      by (auto simp: Let_def split: sum.splits option.splits)
  next
    case False
    then have "(if List.member matched (se_id e) then None else entry_role e) = None" by auto
    with Cons.prems have "recover_legacy env sm matched es = Inr evs" by simp
    with Cons.IH False show ?thesis by auto
  qed
qed simp

lemma recover_system_length:
  "length (recover_system env sm es) = length (filter (\<lambda>e. to_system_event env e sm \<noteq> None) es)"
  by (induction es) (auto split: option.splits)

lemma filter_count_split:
  "length (filter P xs) = length (filter (\<lambda>x. P x \<and> Q x) xs) + length (filter (\<lambda>x. P x \<and> \<not> Q x) xs)"
  by (induction xs) auto

lemma ids_count:
  assumes "distinct ids" and "set ids \<subseteq> se_id ` {e \<in> set es. P e}" and "distinct (map se_id es)"
  shows "length (filter (\<lambda>e. P e \<and> se_id e \<in> set ids) es) = length ids"
proof -
  let ?f = "filter (\<lambda>e. P e \<and> se_id e \<in> set ids) es"
  have "distinct (map se_id ?f)" using assms(3) by (rule distinct_map_filter)
  moreover have "set (map se_id ?f) = set ids" using assms(2) by auto
  ultimately show ?thesis
    using assms(1) by (metis distinct_card length_map)
qed


text \<open>A session with a marked user message, an unmarked assistant message and a custom entry.\<close>

definition demo_env :: runtime_env where
  "demo_env = \<lparr> en_accepts = zod_accepts, en_date_parse = (\<lambda>t. NInt 5), en_now = (\<lambda>e. 9),
     en_generation = None, en_base64_length = (\<lambda>d. 3 * (length d div 4)) \<rparr>"

definition demo_marker :: json where
  "demo_marker = JObj [(''version'', JNum (NInt 2)), (''event_id'', JStr ''e1''),
     (''group_id'', JStr ''g1''), (''kind'', JStr ''user''), (''origin'', JStr ''unknown''),
     (''delivery'', JStr ''unknown'')]"

definition demo_entry :: "string \<Rightarrow> entry_body \<Rightarrow> session_entry" where
  "demo_entry i b = \<lparr> se_id = i, se_timestamp = ''t'', se_body = b \<rparr>"

definition demo_user :: session_entry where
  "demo_user = demo_entry ''m1'' (EMessage (JObj [(''role'', JStr ''user''), (''content'', JStr ''hi'')]))"

definition demo_sm :: session_manager where
  "demo_sm = \<lparr> sm_ref = 0, sm_id = ''s'', sm_branch =
     [demo_entry ''c1'' (ECustom TIMELINE_MARKER (Some demo_marker)),
      demo_user,
      demo_entry ''m2'' (EMessage (JObj [(''role'', JStr ''assistant''), (''content'', JStr ''ok'')])),
      demo_entry ''c2'' (ECustom ''note'' None)] \<rparr>"

lemma demo_recover: "\<exists>evs. snd (recover demo_env demo_sm new_runtime) = Inr evs \<and> length evs = 3"
  by (rule exI [of _ "case snd (recover demo_env demo_sm new_runtime) of Inr evs \<Rightarrow> evs | _ \<Rightarrow> []"])
     code_simp


section \<open>Recovery: the live event\<close>

text \<open>
  The event of a message does not depend on the correlation beyond what its marker keeps.
\<close>

lemma build_marker_fields:
  assumes "build_marker env r eid g co = Inr m"
  shows "en_accepts env MarkerSchemaV2 (Some m)" "role_for_marker m = r"
    "r = RUser \<Longrightarrow> co_origin (correlation_from_marker m) = co_origin co
       \<and> co_delivery (correlation_from_marker m) = co_delivery co"
  using assms
  by (auto simp: build_marker_def role_for_marker_def correlation_from_marker_def field_def
      text_or_empty_def str_field_def Let_def unknown_correlation_def
      split: role.splits option.splits if_splits)

lemma candidate_same:
  assumes "r = RUser \<Longrightarrow> co_origin co = co_origin co' \<and> co_delivery co = co_delivery co'"
  shows "event_candidate env e r j m co sm = event_candidate env e r j m co' sm"
  using assms by (cases r) (simp_all add: event_candidate_def Let_def)

lemma recover_marked_mem:
  "recover_marked env sm es = Inr (ids, evs) \<Longrightarrow> es = pre @ me # rest \<Longrightarrow>
   is_marker_entry me \<Longrightarrow> se_body me = ECustom ty (Some m) \<Longrightarrow> en_accepts env MarkerSchemaV2 (Some m) \<Longrightarrow>
   scan_target rest (role_for_marker m) = Some t \<Longrightarrow>
   to_timeline_event env t m (correlation_from_marker m) sm = Inr (Some ev) \<Longrightarrow> ev \<in> set evs"
proof (induction es arbitrary: pre ids evs)
  case (Cons e es)
  from Cons.prems(1) obtain ids' evs' where rec: "recover_marked env sm es = Inr (ids', evs')"
    by (auto split: option.splits sum.splits)
  have sub: "set evs' \<subseteq> set evs"
    using Cons.prems(1) rec by (auto split: option.splits sum.splits)
  show ?case
  proof (cases pre)
    case Nil
    with Cons.prems rec show ?thesis
      by (auto simp: parse_marker_entry_def split: sum.splits)
  next
    case (Cons a pre')
    with Cons.prems Cons.IH [OF rec, of pre'] sub show ?thesis by auto
  qed
qed simp


definition demo_pending :: pending_message where
  "demo_pending = \<lparr> pd_ref = 0, pd_message = 4, pd_role = RUser, pd_marker = demo_marker,
     pd_correlation = unknown_correlation, pd_identity = None \<rparr>"

lemma demo_build_marker: "build_marker demo_env RUser ''e1'' ''g1'' unknown_correlation = Inr demo_marker"
  by code_simp

lemma demo_publish:
  "(case publish_scheduled demo_env demo_pending demo_sm new_runtime of
      (st', eff, res) \<Rightarrow> length eff = 1 \<and> res = Inr ())"
  by code_simp


section \<open>The invariant of the runtime\<close>

datatype runtime_input =
    InAttach session_manager
  | InResetSession session_manager
  | InAgentStart
  | InAgentEnd
  | InMessageStart runtime_env "correlation option" string string nat json session_manager
  | InMessageEnd nat json session_manager
  | InPublish runtime_env pending_message session_manager
  | InSessionEntry runtime_env session_entry session_manager

fun runtime_step :: "runtime \<Rightarrow> runtime_input \<Rightarrow> runtime" where
  "runtime_step st (InAttach sm) = attach sm st"
| "runtime_step st (InResetSession sm) = reset_session sm st"
| "runtime_step st InAgentStart = on_agent_start st"
| "runtime_step st InAgentEnd = on_agent_end st"
| "runtime_step st (InMessageStart env store g e ref j sm) = fst (on_message_start env store g e ref j sm st)"
| "runtime_step st (InMessageEnd ref j sm) = fst (on_message_end ref j sm st)"
| "runtime_step st (InPublish env p sm) = fst (publish_scheduled env p sm st)"
| "runtime_step st (InSessionEntry env e sm) = fst (publish_session_entry env e sm st)"

text \<open>Every call validates with the same library.\<close>

fun runtime_adm :: "(ztype \<Rightarrow> json option \<Rightarrow> bool) \<Rightarrow> runtime \<Rightarrow> runtime_input \<Rightarrow> bool" where
  "runtime_adm acc st (InMessageStart env store g e ref j sm) = (en_accepts env = acc)"
| "runtime_adm acc st (InPublish env p sm) = (en_accepts env = acc)"
| "runtime_adm acc st (InSessionEntry env e sm) = (en_accepts env = acc)"
| "runtime_adm acc st i = True"

definition published_ok :: "(ztype \<Rightarrow> json option \<Rightarrow> bool) \<Rightarrow> json list \<Rightarrow> bool" where
  "published_ok acc evs =
     (distinct (map (field ''event_id'') evs) \<and> (\<forall>e\<in>set evs. acc TimelineEventSchema (Some e)))"

definition queue_ok :: "(ztype \<Rightarrow> json option \<Rightarrow> bool) \<Rightarrow> nat \<Rightarrow> role \<Rightarrow> pending_message list \<Rightarrow> bool" where
  "queue_ok acc n r ps =
     (sorted_wrt (<) (map pd_ref ps)
      \<and> (\<forall>p\<in>set ps. pd_ref p < n \<and> pd_role p = r \<and> acc MarkerSchemaV2 (Some (pd_marker p))))"

definition runtime_inv :: "(ztype \<Rightarrow> json option \<Rightarrow> bool) \<Rightarrow> runtime \<Rightarrow> bool" where
  "runtime_inv acc st =
     (published_ok acc (rt_published st) \<and> (\<forall>r. queue_ok acc (rt_next st) r (rt_by_role st r))
      \<and> (\<not> rt_active st \<longrightarrow> rt_group st = None))"

lemma published_ok_Nil [simp]: "published_ok acc []" by (simp add: published_ok_def)
lemma queue_ok_Nil [simp]: "queue_ok acc n r []" by (simp add: queue_ok_def)

lemma queue_ok_filter: "queue_ok acc n r ps \<Longrightarrow> queue_ok acc n r (filter P ps)"
  unfolding queue_ok_def by (induction ps) auto

lemma queue_ok_append:
  "queue_ok acc n r ps \<Longrightarrow> pd_ref p = n \<Longrightarrow> pd_role p = r \<Longrightarrow> acc MarkerSchemaV2 (Some (pd_marker p)) \<Longrightarrow>
   queue_ok acc (n + 1) r (ps @ [p])"
  by (auto simp: queue_ok_def sorted_wrt_append less_Suc_eq)

lemma queue_ok_Suc: "queue_ok acc n r ps \<Longrightarrow> queue_ok acc (n + 1) r ps"
  by (auto simp: queue_ok_def)

lemma runtime_inv_reset: "runtime_inv acc (reset_state st)"
  by (simp add: runtime_inv_def reset_state_def)

lemma runtime_inv_attach: "runtime_inv acc st \<Longrightarrow> runtime_inv acc (attach sm st)"
  by (simp add: attach_def runtime_inv_reset)

lemma publish_keeps:
  assumes "runtime_inv acc st" and "acc TimelineEventSchema (Some e)"
  shows "runtime_inv acc (fst (publish e co st))"
  using assms by (auto simp: publish_def runtime_inv_def published_ok_def list_ex_iff)

lemma group_keeps: "runtime_inv acc st \<Longrightarrow> rt_active st \<Longrightarrow> runtime_inv acc (st \<lparr> rt_group := g \<rparr>)"
  by (simp add: runtime_inv_def)

lemma enqueue_keeps:
  assumes "runtime_inv acc st" and "pd_ref p = rt_next st" and "acc MarkerSchemaV2 (Some (pd_marker p))"
  shows "runtime_inv acc (enqueue ref p st)"
proof -
  have q: "queue_ok acc (rt_next st) r (rt_by_role st r)" for r
    using assms(1) by (simp add: runtime_inv_def)
  have "queue_ok acc (rt_next st + 1) r (((rt_by_role st)(pd_role p := rt_by_role st (pd_role p) @ [p])) r)" for r
  proof (cases "r = pd_role p")
    case True
    then show ?thesis using queue_ok_append [OF q assms(2) True [symmetric] assms(3)] by simp
  next
    case False
    then show ?thesis using queue_ok_Suc [OF q] by simp
  qed
  with assms(1) show ?thesis by (simp add: runtime_inv_def enqueue_def)
qed

lemma message_start_keeps:
  assumes "runtime_inv (en_accepts env) st"
  shows "runtime_inv (en_accepts env) (fst (on_message_start env store g e ref j sm st))"
proof -
  let ?acc = "en_accepts env"
  have a: "runtime_inv ?acc (attach sm st)" by (rule runtime_inv_attach [OF assms])
  define st2 where "st2 = (if rt_active (attach sm st) then attach sm st else on_agent_start (attach sm st))"
  have st2: "runtime_inv ?acc st2" "rt_active st2"
    using a by (auto simp: st2_def on_agent_start_def runtime_inv_def)
  define group where "group = (case rt_group st2 of Some g \<Rightarrow> g | None \<Rightarrow> g)"
  have st3: "runtime_inv ?acc (st2 \<lparr> rt_group := Some group \<rparr>)" using st2 by (rule group_keeps)
  show ?thesis
  proof (cases "message_role j")
    case (Some r)
    define co where "co = correlation_for st2 store ref"
    show ?thesis
    proof (cases "build_marker env r e group co")
      case (Inr m)
      from build_marker_fields(1) [OF Inr] have "?acc MarkerSchemaV2 (Some m)" .
      with enqueue_keeps [OF st3] show ?thesis
        by (simp add: on_message_start_def Some Let_def st2_def [symmetric] co_def [symmetric]
            group_def [symmetric] Inr)
    next
      case (Inl u)
      with st3 show ?thesis
        by (simp add: on_message_start_def Some Let_def st2_def [symmetric] co_def [symmetric]
            group_def [symmetric])
    qed
  qed (simp add: on_message_start_def a)
qed

lemma agent_keeps:
  "runtime_inv acc st \<Longrightarrow> runtime_inv acc (on_agent_start st)"
  "runtime_inv acc st \<Longrightarrow> runtime_inv acc (on_agent_end st)"
  by (simp_all add: runtime_inv_def on_agent_start_def on_agent_end_def)

lemma message_end_keeps:
  assumes "runtime_inv acc st"
  shows "runtime_inv acc (fst (on_message_end ref j sm st))"
proof -
  have a: "runtime_inv acc (attach sm st)" by (rule runtime_inv_attach [OF assms])
  have "runtime_inv acc (s \<lparr> rt_pending := x, rt_by_role := (rt_by_role s)(r := filter P (rt_by_role s r)) \<rparr>)"
    if "runtime_inv acc s" for s x r P
    using that by (auto simp: runtime_inv_def queue_ok_filter)
  with a show ?thesis by (auto simp: on_message_end_def Let_def split: option.splits)
qed

lemma publish_scheduled_keeps:
  assumes "runtime_inv (en_accepts env) st"
  shows "runtime_inv (en_accepts env) (fst (publish_scheduled env p sm st))"
proof -
  have sound: "to_timeline_event env t m co sm = Inr (Some v) \<Longrightarrow> en_accepts env TimelineEventSchema (Some v)"
    for t m co v
    by (auto simp: to_timeline_event_def Let_def split: entry_body.splits option.splits if_splits)
  show ?thesis
    using assms publish_keeps [OF assms sound]
    by (auto simp: publish_scheduled_def split: option.splits sum.splits prod.splits) (metis fst_conv)
qed

lemma session_entry_keeps:
  assumes "runtime_inv (en_accepts env) st"
  shows "runtime_inv (en_accepts env) (fst (publish_session_entry env e sm st))"
proof -
  have a: "runtime_inv (en_accepts env) (attach sm st)" by (rule runtime_inv_attach [OF assms])
  have "to_system_event env e sm = Some v \<Longrightarrow> en_accepts env TimelineEventSchema (Some v)" for v
    by (auto simp: to_system_event_def Let_def split: option.splits if_splits)
  with a publish_keeps [OF a] show ?thesis
    by (auto simp: publish_session_entry_def Let_def split: option.splits prod.splits)
      (metis fst_conv)
qed

interpretation timeline_runtime: invariant_machine runtime_step "runtime_adm acc" "runtime_inv acc" for acc
proof
  fix st i
  assume inv: "runtime_inv acc st" and adm: "runtime_adm acc st i"
  show "runtime_inv acc (runtime_step st i)"
  proof (cases i)
    case (InMessageStart env store g e ref j sm)
    with inv adm message_start_keeps [of env st] show ?thesis by auto
  next
    case (InPublish env p sm)
    with inv adm publish_scheduled_keeps [of env st] show ?thesis by auto
  next
    case (InSessionEntry env e sm)
    with inv adm session_entry_keeps [of env st] show ?thesis by auto
  qed (use inv in \<open>auto simp: runtime_inv_attach reset_session_def runtime_inv_reset
        message_end_keeps agent_keeps\<close>)
qed

lemma runtime_inv_new: "runtime_inv acc new_runtime"
  by (simp add: runtime_inv_def new_runtime_def)



section \<open>The message of a provider error\<close>

lemma trim_Nil [simp]: "trim [] = []"
  by (simp add: trim_def)

text \<open>
  The message of a provider error or a tool error is never empty. When the message names
  no error and holds no text, both read "tool failed": the fallback "Provider error" of the
  code is not reachable, because \<open>textFromContent\<close> never returns null.
\<close>

theorem error_message_fallback:
  "error_message j \<noteq> []
   \<and> (str_field ''errorMessage'' j = None \<longrightarrow> text_from_content (field ''content'' j) = [] \<longrightarrow>
      error_message j = ''tool failed'')"
  by (auto simp: error_message_def non_empty_def split: option.splits)

theorem error_message_fallback_witness:
  "error_message (JObj [(''role'', JStr ''assistant''), (''stopReason'', JStr ''error'')]) = ''tool failed''"
  using error_message_fallback [of "JObj [(''role'', JStr ''assistant''), (''stopReason'', JStr ''error'')]"]
  by (simp add: str_field_def field_def text_from_content_def)

end
