(* ===== verification/History.thy ===== *)
theory History
  imports Runtime
begin

text \<open>
  \<open>TimelineHistoryPager\<close> of \<open>pi-extension/src/timeline/history.ts\<close>: it serves the history of
  the session branch page by page. The first page freezes the branch in a snapshot; a page
  that has older groups behind it issues a single-use cursor for the next one.

  What the pager reads of the Pi session manager is a \<open>session_view\<close>; \<open>pager_env\<close> holds the
  recovery function (which may leave another view behind, or throw: \<open>None\<close>), the codec
  library and the random token of the page. Frames and events are JSON values.
\<close>

section \<open>Data\<close>

definition MAX_GROUPS_PER_PAGE :: int where "MAX_GROUPS_PER_PAGE = 5"

record session_view =
  sv_session :: string
  sv_generation :: string
  sv_leaf :: "string option"
  sv_branch :: "session_entry list"
  sv_branch_at :: "string \<Rightarrow> session_entry list"

record sync_request =
  rq_id :: string
  rq_channel :: string
  rq_before :: "string option"
  rq_limit :: "int option"

record cursor_state =
  cs_session :: string
  cs_generation :: string
  cs_head :: string
  cs_ids :: "string list"
  cs_position :: nat
  cs_used :: bool
  cs_busy :: bool

text \<open>The order of the records of a page: by position, and at one position by recovery order.\<close>

datatype rank = Rank nat nat

instantiation rank :: linorder
begin

definition less_eq_rank :: "rank \<Rightarrow> rank \<Rightarrow> bool" where
  "less_eq_rank a b = (case (a, b) of (Rank p i, Rank q j) \<Rightarrow> p < q \<or> (p = q \<and> i \<le> j))"

definition less_rank :: "rank \<Rightarrow> rank \<Rightarrow> bool" where
  "less_rank a b = (case (a, b) of (Rank p i, Rank q j) \<Rightarrow> p < q \<or> (p = q \<and> i < j))"

instance
  by intro_classes (auto simp: less_eq_rank_def less_rank_def split: rank.splits)

end

record event_record =
  er_event :: json
  er_position :: nat
  er_order :: nat
  er_bytes :: int

definition record_rank :: "event_record \<Rightarrow> rank" where
  "record_rank r = Rank (er_position r) (er_order r)"

record group_record =
  gr_id :: string
  gr_first :: nat
  gr_records :: "event_record list"
  gr_bytes :: int

datatype history_item =
    ItemEvent json
  | ItemFragment string nat string bool

record payload =
  pl_events :: "json list"
  pl_fragments :: "json list"

datatype window =
    WindowOk "event_record list" nat
  | WindowError

record pager =
  pg_cursors :: "(string, cursor_state) js_map"
  pg_initial_busy :: bool

definition new_pager :: pager where
  "new_pager = \<lparr> pg_cursors = [], pg_initial_busy = False \<rparr>"

record pager_env =
  pe_lib :: codec_lib
  pe_recover :: "session_view \<Rightarrow> session_view \<times> json list option"
  pe_token :: string

section \<open>Helpers\<close>

definition normalize_limit :: "int option \<Rightarrow> int" where
  "normalize_limit l =
     (case l of None \<Rightarrow> MAX_GROUPS_PER_PAGE | Some n \<Rightarrow> min MAX_GROUPS_PER_PAGE (max 1 n))"

definition marker_event_id :: "session_entry \<Rightarrow> string option" where
  "marker_event_id e =
     (case se_body e of
        ECustom t (Some d) \<Rightarrow> if t = TIMELINE_MARKER then str_field ''event_id'' d else None
      | _ \<Rightarrow> None)"

definition is_system_event :: "json \<Rightarrow> bool" where
  "is_system_event ev =
     (field ''kind'' ev = Some (JStr ''compaction'') \<or> field ''kind'' ev = Some (JStr ''branch_summary'')
      \<or> field ''kind'' ev = Some (JStr ''custom''))"

definition fragment_json :: "string \<Rightarrow> nat \<Rightarrow> string \<Rightarrow> bool \<Rightarrow> json" where
  "fragment_json event_id index d final =
     JObj [(''event_id'', JStr event_id), (''index'', JNum (NInt (int index))),
           (''data_base64'', JStr d), (''final'', JBool final)]"

fun append_item :: "payload \<Rightarrow> history_item \<Rightarrow> payload" where
  "append_item p (ItemEvent ev) = p \<lparr> pl_events := pl_events p @ [ev] \<rparr>"
| "append_item p (ItemFragment e i d f) = p \<lparr> pl_fragments := pl_fragments p @ [fragment_json e i d f] \<rparr>"

definition empty_payload :: payload where
  "empty_payload = \<lparr> pl_events = [], pl_fragments = [] \<rparr>"

definition protocol_error :: "sync_request \<Rightarrow> string \<Rightarrow> string \<Rightarrow> json" where
  "protocol_error rq code message =
     JObj [(''protocol_version'', JNum (NInt 2)), (''type'', JStr ''protocol_error''),
           (''target_channel_id'', JStr (rq_channel rq)), (''in_reply_to'', JStr (rq_id rq)),
           (''code'', JStr code), (''message'', JStr message)]"

definition reset_json :: "sync_request \<Rightarrow> string \<Rightarrow> string \<Rightarrow> string \<Rightarrow> json" where
  "reset_json rq session generation reason =
     JObj [(''protocol_version'', JNum (NInt 2)), (''type'', JStr ''reset''),
           (''target_channel_id'', JStr (rq_channel rq)), (''session_id'', JStr session),
           (''history_generation'', JStr generation), (''reason'', JStr reason)]"

definition make_chunk ::
  "sync_request \<Rightarrow> cursor_state \<Rightarrow> payload \<Rightarrow> bool \<Rightarrow> string option \<Rightarrow> nat \<Rightarrow> json" where
  "make_chunk rq cs p final next_before index =
     JObj ([(''protocol_version'', JNum (NInt 2)), (''type'', JStr ''session_history_chunk''),
            (''target_channel_id'', JStr (rq_channel rq)), (''in_reply_to'', JStr (rq_id rq)),
            (''session_id'', JStr (cs_session cs)), (''history_generation'', JStr (cs_generation cs)),
            (''snapshot_head'', JStr (cs_head cs)), (''chunk_index'', JNum (NInt (int index))),
            (''events'', JArr (pl_events p)), (''fragments'', JArr (pl_fragments p))]
        @ (if final then
             (case next_before of
                Some n \<Rightarrow> [(''final_chunk'', JBool True), (''eos'', JBool False), (''next_before'', JStr n)]
              | None \<Rightarrow> [(''final_chunk'', JBool True), (''eos'', JBool True)])
           else [(''final_chunk'', JBool False)]))"

definition non_final_bytes :: "sync_request \<Rightarrow> cursor_state \<Rightarrow> payload \<Rightarrow> int" where
  "non_final_bytes rq cs p = byte_length (make_chunk rq cs p False None 0)"

definition final_bytes :: "sync_request \<Rightarrow> cursor_state \<Rightarrow> payload \<Rightarrow> string option \<Rightarrow> int" where
  "final_bytes rq cs p nb = byte_length (make_chunk rq cs p True nb 0)"

section \<open>The snapshot of a cursor\<close>

definition snapshot_invalid_reason :: "session_view \<Rightarrow> cursor_state \<Rightarrow> string option" where
  "snapshot_invalid_reason v cs =
     (if sv_session v \<noteq> cs_session cs then Some ''session_replaced''
      else if sv_generation v \<noteq> cs_generation cs then Some ''generation_changed''
      else if (\<forall>e\<in>set (sv_branch v). se_id e \<noteq> cs_head cs)
              \<and> \<not> (cs_ids cs = [] \<and> cs_head cs = cs_session cs \<and> sv_branch v = []) then Some ''branch_changed''
      else if map se_id (take (length (cs_ids cs)) (sv_branch v)) \<noteq> cs_ids cs then Some ''branch_changed''
      else if map se_id (sv_branch_at v (cs_head cs)) \<noteq> cs_ids cs then Some ''branch_changed''
      else None)"

text \<open>Where an event stands: the entry's own id, its legacy id, or the id of its marker.\<close>

fun entry_positions :: "nat \<Rightarrow> session_entry list \<Rightarrow> (string, nat) js_map \<Rightarrow> (string, nat) js_map" where
  "entry_positions n [] m = m"
| "entry_positions n (e # es) m =
     (let m1 = jm_set (se_id e) n m;
          m2 = (case se_body e of EMessage j \<Rightarrow> jm_set (''legacy:'' @ se_id e) n m1 | _ \<Rightarrow> m1);
          m3 = (case marker_event_id e of Some i \<Rightarrow> jm_set i n m2 | None \<Rightarrow> m2)
      in entry_positions (Suc n) es m3)"

text \<open>An event the schema refuses makes the code throw: \<open>None\<close>.\<close>

fun collect_records ::
  "codec_lib \<Rightarrow> (string, nat) js_map \<Rightarrow> nat \<Rightarrow> nat \<Rightarrow> json list \<Rightarrow> event_record list option" where
  "collect_records lib ps limit order [] = Some []"
| "collect_records lib ps limit order (ev # evs) =
     (if \<not> accepts_value lib TimelineEventSchema ev then None
      else case collect_records lib ps limit (Suc order) evs of
        None \<Rightarrow> None
      | Some rs \<Rightarrow>
          (case jm_get ps (text_or_empty ''event_id'' ev) of
             None \<Rightarrow> Some rs
           | Some p \<Rightarrow>
               if p \<ge> limit then Some rs
               else Some (\<lparr> er_event = ev, er_position = p, er_order = order, er_bytes = byte_length ev \<rparr> # rs)))"

definition recover_records ::
  "pager_env \<Rightarrow> session_view \<Rightarrow> cursor_state \<Rightarrow> session_view \<times> event_record list option" where
  "recover_records env v cs =
     (if cs_ids cs = [] \<and> cs_head cs = cs_session cs then (v, Some [])
      else
        (let positions = entry_positions 0 (sv_branch_at v (cs_head cs)) [];
             (v', recovered) = pe_recover env v
         in (v', (case recovered of
                    None \<Rightarrow> None
                  | Some evs \<Rightarrow>
                      map_option (sort_key record_rank)
                        (collect_records (pe_lib env) positions (cs_position cs) 0 evs)))))"

section \<open>The window of a page\<close>

definition add_to_group :: "event_record \<Rightarrow> (string, group_record) js_map \<Rightarrow> (string, group_record) js_map" where
  "add_to_group r m =
     (let g = text_or_empty ''group_id'' (er_event r) in
      case jm_get m g of
        Some gr \<Rightarrow> jm_set g (gr \<lparr> gr_records := gr_records gr @ [r], gr_bytes := gr_bytes gr + er_bytes r \<rparr>) m
      | None \<Rightarrow> jm_set g \<lparr> gr_id = g, gr_first = er_position r, gr_records = [r], gr_bytes = er_bytes r \<rparr> m)"

fun gather :: "event_record list \<Rightarrow> (string, group_record) js_map \<Rightarrow> (string, group_record) js_map" where
  "gather [] m = m"
| "gather (r # rs) m = gather rs (if is_system_event (er_event r) then m else add_to_group r m)"

definition total_bytes :: "event_record list \<Rightarrow> int" where
  "total_bytes rs = sum_list (map er_bytes rs)"

definition window_records :: "event_record list \<Rightarrow> nat \<Rightarrow> group_record list \<Rightarrow> nat \<Rightarrow> event_record list" where
  "window_records systems position groups first =
     sort_key record_rank (concat (map gr_records groups)
       @ filter (\<lambda>r. first \<le> er_position r \<and> er_position r < position) systems)"

text \<open>The oldest groups are dropped until the window fits.\<close>

fun fit_groups :: "event_record list \<Rightarrow> nat \<Rightarrow> group_record list \<Rightarrow> window" where
  "fit_groups systems position [] = WindowError"
| "fit_groups systems position (g # gs) =
     (let rs = window_records systems position (g # gs) (gr_first g) in
      if total_bytes rs \<le> MAX_WINDOW_DECODE_BYTES then WindowOk rs (gr_first g)
      else if gs = [] then WindowError
      else fit_groups systems position gs)"

definition select_window :: "event_record list \<Rightarrow> nat \<Rightarrow> int option \<Rightarrow> window" where
  "select_window records position limit =
     (let groups = jm_values (gather records []);
          systems = filter (\<lambda>r. is_system_event (er_event r)) records;
          ordered = sort_key gr_first (filter (\<lambda>g. gr_first g < position) groups);
          selected = drop (length ordered - nat (normalize_limit limit)) ordered
      in if selected \<noteq> [] then fit_groups systems position selected
         else
           (let rs = filter (\<lambda>r. er_position r < position) systems in
            if rs = [] then WindowOk [] 0
            else if total_bytes rs > MAX_WINDOW_DECODE_BYTES then WindowError
            else WindowOk (sort_key record_rank rs) (Min (er_position ` set rs))))"

section \<open>Chunks\<close>

text \<open>The slices of an encoded event: the index of the first one, its bytes in Base64.\<close>

function slice_items :: "nat \<Rightarrow> string \<Rightarrow> nat \<Rightarrow> byte list \<Rightarrow> history_item list" where
  "slice_items n event_id index bs =
     (if bs = [] \<or> n = 0 then []
      else ItemFragment event_id index (b64_encode (take n bs)) (length bs \<le> n)
           # slice_items n event_id (Suc index) (drop n bs))"
  by pat_completeness auto

termination
  by (relation "measure (\<lambda>(n, e, i, bs). length bs)") auto

declare slice_items.simps [simp del]

definition record_items ::
  "sync_request \<Rightarrow> cursor_state \<Rightarrow> string option \<Rightarrow> event_record \<Rightarrow> history_item list" where
  "record_items rq cs nb r =
     (if byte_length (make_chunk rq cs \<lparr> pl_events = [er_event r], pl_fragments = [] \<rparr> True nb 0)
           \<le> MAX_HISTORY_CHUNK_BYTES then [ItemEvent (er_event r)]
      else slice_items (nat MAX_FRAGMENT_DECODE_BYTES) (text_or_empty ''event_id'' (er_event r)) 0
             (utf8_encode (stringify (er_event r))))"

definition repeats_fragment :: "payload \<Rightarrow> history_item \<Rightarrow> bool" where
  "repeats_fragment p item =
     (case item of ItemEvent ev \<Rightarrow> False
      | ItemFragment e i d f \<Rightarrow> list_ex (\<lambda>g. field ''event_id'' g = Some (JStr e)) (pl_fragments p))"

text \<open>The greedy packing of the items; an item that fits in no empty chunk throws: \<open>None\<close>.\<close>

fun pack_items ::
  "sync_request \<Rightarrow> cursor_state \<Rightarrow> int \<Rightarrow> payload \<Rightarrow> history_item list \<Rightarrow> payload list option" where
  "pack_items rq cs limit current [] =
     Some (if pl_events current \<noteq> [] \<or> pl_fragments current \<noteq> [] then [current] else [])"
| "pack_items rq cs limit current (item # items) =
     (let candidate = append_item current item in
      if \<not> repeats_fragment current item \<and> non_final_bytes rq cs candidate \<le> limit
      then pack_items rq cs limit candidate items
      else if pl_events current = [] \<and> pl_fragments current = [] then None
      else map_option ((#) current) (pack_items rq cs limit (append_item empty_payload item) items))"

text \<open>The frames of the chunks, from index \<open>i\<close> on; a frame that is too large or refused throws.\<close>

fun chunk_frames ::
  "codec_lib \<Rightarrow> sync_request \<Rightarrow> cursor_state \<Rightarrow> string option \<Rightarrow> nat \<Rightarrow> payload list \<Rightarrow> json list option" where
  "chunk_frames lib rq cs nb i [] = Some []"
| "chunk_frames lib rq cs nb i (p # ps) =
     (let frame = make_chunk rq cs p (ps = []) nb i in
      if byte_length frame > MAX_HISTORY_CHUNK_BYTES then None
      else case encode_server_frame lib frame of
        Inl e \<Rightarrow> None
      | Inr t \<Rightarrow> map_option ((#) frame) (chunk_frames lib rq cs nb (Suc i) ps))"

definition fragment_window ::
  "codec_lib \<Rightarrow> sync_request \<Rightarrow> cursor_state \<Rightarrow> event_record list \<Rightarrow> string option \<Rightarrow> json list option" where
  "fragment_window lib rq cs records nb =
     (let tail_overhead = final_bytes rq cs empty_payload nb - non_final_bytes rq cs empty_payload;
          content_limit = MAX_HISTORY_CHUNK_BYTES - tail_overhead;
          items = concat (map (record_items rq cs nb) records)
      in case pack_items rq cs content_limit empty_payload items of
           None \<Rightarrow> None
         | Some ps \<Rightarrow> chunk_frames lib rq cs nb 0 (if ps = [] then [empty_payload] else ps))"

section \<open>Pages\<close>

text \<open>The texts of the \<open>too_large\<close> errors are abbreviated: the code names the group or the cause.\<close>

definition page ::
  "pager_env \<Rightarrow> sync_request \<Rightarrow> cursor_state \<Rightarrow> session_view \<Rightarrow> pager \<Rightarrow> session_view \<times> pager \<times> json list" where
  "page env rq cs v pg =
     (case snapshot_invalid_reason v cs of
        Some reason \<Rightarrow> (v, pg, [reset_json rq (cs_session cs) (cs_generation cs) reason])
      | None \<Rightarrow>
          (case recover_records env v cs of
             (v', None) \<Rightarrow> (v', pg, [protocol_error rq ''internal_error'' ''history recovery failed''])
           | (v', Some records) \<Rightarrow>
               (case snapshot_invalid_reason v' cs of
                  Some reason \<Rightarrow> (v', pg, [reset_json rq (cs_session cs) (cs_generation cs) reason])
                | None \<Rightarrow>
                    (case select_window records (cs_position cs) (rq_limit rq) of
                       WindowError \<Rightarrow> (v', pg, [protocol_error rq ''too_large'' ''window exceeds 33554432 bytes''])
                     | WindowOk rs next_position \<Rightarrow>
                         (let has_older = list_ex (\<lambda>r. er_position r < next_position) records;
                              next = (if has_older then Some (pe_token env) else None);
                              issued = (if has_older then
                                  pg \<lparr> pg_cursors := jm_set (pe_token env)
                                    (cs \<lparr> cs_position := next_position, cs_used := False, cs_busy := False \<rparr>)
                                    (pg_cursors pg) \<rparr> else pg)
                          in case fragment_window (pe_lib env) rq cs rs next of
                               Some frames \<Rightarrow> (v', issued, frames)
                             | None \<Rightarrow>
                                 (v', (if has_older then
                                         issued \<lparr> pg_cursors := jm_delete (pe_token env) (pg_cursors issued) \<rparr>
                                       else issued),
                                  [protocol_error rq ''too_large'' ''history chunk exceeds 512 KiB'']))))))"

definition sync_initial ::
  "pager_env \<Rightarrow> sync_request \<Rightarrow> session_view \<Rightarrow> pager \<Rightarrow> session_view \<times> pager \<times> json list" where
  "sync_initial env rq v pg =
     (let branch = sv_branch v;
          head = (case sv_leaf v of Some l \<Rightarrow> l | None \<Rightarrow> sv_session v)
      in if branch \<noteq> [] \<and> se_id (last branch) \<noteq> head then
           (v, pg, [protocol_error rq ''reset_required'' ''session has no current snapshot head''])
         else page env rq \<lparr> cs_session = sv_session v, cs_generation = sv_generation v, cs_head = head,
                cs_ids = map se_id branch, cs_position = length branch, cs_used = True, cs_busy = True \<rparr> v pg)"

definition set_busy :: "string \<Rightarrow> bool \<Rightarrow> pager \<Rightarrow> pager" where
  "set_busy c b pg =
     (case jm_get (pg_cursors pg) c of
        None \<Rightarrow> pg
      | Some cs \<Rightarrow> pg \<lparr> pg_cursors := jm_set c (cs \<lparr> cs_busy := b \<rparr>) (pg_cursors pg) \<rparr>)"

definition pager_sync ::
  "pager_env \<Rightarrow> sync_request \<Rightarrow> session_view \<Rightarrow> pager \<Rightarrow> session_view \<times> pager \<times> json list" where
  "pager_sync env rq v pg =
     (case rq_before rq of
        None \<Rightarrow>
          (if pg_initial_busy pg then
             (v, pg, [protocol_error rq ''invalid_cursor'' ''initial cursor is busy''])
           else
             (let (v', pg', frames) = sync_initial env rq v (pg \<lparr> pg_initial_busy := True \<rparr>)
              in (v', pg' \<lparr> pg_initial_busy := False \<rparr>, frames)))
      | Some c \<Rightarrow>
          (case jm_get (pg_cursors pg) c of
             None \<Rightarrow> (v, pg, [reset_json rq (sv_session v) (sv_generation v) ''invalid_cursor''])
           | Some cs \<Rightarrow>
               if cs_busy cs then (v, pg, [protocol_error rq ''invalid_cursor'' ''cursor is busy''])
               else if cs_used cs then
                 (v, pg, [reset_json rq (sv_session v) (sv_generation v) ''invalid_cursor''])
               else
                 (let cs' = cs \<lparr> cs_busy := True, cs_used := True \<rparr>;
                      taken = pg \<lparr> pg_cursors := jm_set c cs' (pg_cursors pg) \<rparr>;
                      (v', pg', frames) =
                        (if cs_session cs \<noteq> sv_session v then
                           (v, taken, [reset_json rq (sv_session v) (sv_generation v) ''session_replaced''])
                         else if cs_generation cs \<noteq> sv_generation v then
                           (v, taken, [reset_json rq (sv_session v) (sv_generation v) ''generation_changed''])
                         else case snapshot_invalid_reason v cs' of
                           Some reason \<Rightarrow> (v, taken, [reset_json rq (sv_session v) (sv_generation v) reason])
                         | None \<Rightarrow> page env rq cs' v taken)
                  in (v', set_busy c False pg', frames))))"

section \<open>A cursor serves one page\<close>

type_synonym pager_input = "pager_env \<times> sync_request \<times> session_view"

fun pager_step :: "pager \<Rightarrow> pager_input \<Rightarrow> pager" where
  "pager_step pg (env, rq, v) = fst (snd (pager_sync env rq v pg))"

definition spent :: "string \<Rightarrow> pager \<Rightarrow> bool" where
  "spent c pg = (case jm_get (pg_cursors pg) c of Some cs \<Rightarrow> cs_used cs \<and> \<not> cs_busy cs | None \<Rightarrow> False)"

text \<open>No random token of the run is \<open>c\<close> again.\<close>

fun other_token :: "string \<Rightarrow> pager \<Rightarrow> pager_input \<Rightarrow> bool" where
  "other_token c pg (env, rq, v) = (pe_token env \<noteq> c)"

lemma page_cursors:
  assumes "pe_token env \<noteq> c"
  shows "jm_get (pg_cursors (fst (snd (page env rq cs v pg)))) c = jm_get (pg_cursors pg) c"
  using assms by (auto simp: page_def Let_def split: option.splits prod.splits window.splits)

lemma page_keeps_busy: "pg_initial_busy (fst (snd (page env rq cs v pg))) = pg_initial_busy pg"
  by (auto simp: page_def Let_def split: option.splits prod.splits window.splits)

lemma sync_initial_cursors:
  assumes "pe_token env \<noteq> c"
  shows "jm_get (pg_cursors (fst (snd (sync_initial env rq v pg)))) c = jm_get (pg_cursors pg) c"
  using page_cursors [OF assms] by (simp add: sync_initial_def Let_def)

lemma set_busy_get:
  "jm_get (pg_cursors (set_busy c b pg)) k =
     (if k = c then map_option (\<lambda>cs. cs \<lparr> cs_busy := b \<rparr>) (jm_get (pg_cursors pg) c)
      else jm_get (pg_cursors pg) k)"
  by (auto simp: set_busy_def split: option.splits)

text \<open>What a sync with another cursor or none does to the cursor \<open>c\<close>.\<close>

lemma sync_other:
  assumes "pe_token env \<noteq> c" and "rq_before rq \<noteq> Some c"
  shows "jm_get (pg_cursors (fst (snd (pager_sync env rq v pg)))) c = jm_get (pg_cursors pg) c"
proof (cases "rq_before rq")
  case None
  then show ?thesis
    using sync_initial_cursors [OF assms(1), of rq v "pg \<lparr> pg_initial_busy := True \<rparr>"]
    by (auto simp: pager_sync_def split: prod.splits)
next
  case (Some k)
  with assms(2) have "k \<noteq> c" by simp
  with Some show ?thesis
    using page_cursors [OF assms(1), of rq _ v]
    by (auto simp: pager_sync_def Let_def set_busy_get split: option.splits prod.splits)
       (metis (no_types, lifting) fst_conv jm_get_set pager.select_convs(1) pager.surjective pager.update_convs(1) snd_conv)
qed

lemma sync_spent:
  "spent c pg \<Longrightarrow> rq_before rq = Some c \<Longrightarrow>
   pager_sync env rq v pg = (v, pg, [reset_json rq (sv_session v) (sv_generation v) ''invalid_cursor''])"
  by (auto simp: pager_sync_def spent_def split: option.splits)

lemma sync_spends:
  assumes "jm_get (pg_cursors pg) c = Some cs" and "\<not> cs_busy cs" and "rq_before rq = Some c"
    and "pe_token env \<noteq> c"
  shows "spent c (fst (snd (pager_sync env rq v pg)))"
proof (cases "cs_used cs")
  case True
  with assms have "spent c pg" by (simp add: spent_def)
  with sync_spent [OF this assms(3)] show ?thesis by simp
next
  case False
  let ?cs = "cs \<lparr> cs_busy := True, cs_used := True \<rparr>"
  let ?taken = "pg \<lparr> pg_cursors := jm_set c ?cs (pg_cursors pg) \<rparr>"
  have taken: "jm_get (pg_cursors ?taken) c = Some ?cs" by simp
  then have "jm_get (pg_cursors (fst (snd (page env rq ?cs v ?taken)))) c = Some ?cs"
    using page_cursors [OF assms(4)] by simp
  with taken assms False show ?thesis
    by (auto simp: pager_sync_def Let_def spent_def set_busy_get split: option.splits prod.splits)
qed

lemma spent_kept: "spent c pg \<Longrightarrow> other_token c pg i \<Longrightarrow> spent c (pager_step pg i)"
  by (cases i, cases "rq_before (fst (snd i)) = Some c")
     (auto simp: sync_spent, auto simp: spent_def sync_other split: option.splits)

interpretation spent_cursor: invariant_machine pager_step "other_token c" "spent c" for c
  by unfold_locales (rule spent_kept)

text \<open>
  C23: A cursor serves at most one page. Once a request named a cursor the pager knew, whatever
  that request got, every later request with the same cursor gets a reset with reason
  "invalid_cursor", whatever requests are served between them, if no random token repeats it.
\<close>

theorem cursor_single_use:
  assumes "jm_get (pg_cursors pg) c = Some cs" and "\<not> cs_busy cs"
    and "rq_before rq = Some c" and "pe_token env \<noteq> c"
    and "trace_ok pager_step (other_token c) (pager_step pg (env, rq, v)) later"
    and "rq_before rq' = Some c"
  shows "snd (snd (pager_sync env' rq' v' (run pager_step (pager_step pg (env, rq, v)) later)))
       = [reset_json rq' (sv_session v') (sv_generation v') ''invalid_cursor'']"
  using spent_cursor.run_keeps [OF _ assms(5)] sync_spends [OF assms(1-4), of v] sync_spent assms(6)
  by simp

definition demo_cursor :: cursor_state where
  "demo_cursor = \<lparr> cs_session = ''s'', cs_generation = ''g'', cs_head = ''h'', cs_ids = [],
     cs_position = 0, cs_used = False, cs_busy = False \<rparr>"

definition demo_pager_env :: pager_env where
  "demo_pager_env = \<lparr> pe_lib = demo_lib demo_pong, pe_recover = (\<lambda>v. (v, Some [])), pe_token = ''t'' \<rparr>"

definition demo_view :: session_view where
  "demo_view = \<lparr> sv_session = ''other'', sv_generation = ''g'', sv_leaf = None, sv_branch = [],
     sv_branch_at = (\<lambda>i. []) \<rparr>"

definition demo_request :: sync_request where
  "demo_request = \<lparr> rq_id = ''r'', rq_channel = ''ch'', rq_before = Some ''c'', rq_limit = None \<rparr>"

theorem cursor_single_use_witness:
  "snd (snd (pager_sync demo_pager_env demo_request demo_view
     (pager_step \<lparr> pg_cursors = [(''c'', demo_cursor)], pg_initial_busy = False \<rparr>
        (demo_pager_env, demo_request, demo_view))))
   = [reset_json demo_request ''other'' ''g'' ''invalid_cursor'']"
  using cursor_single_use [of "\<lparr> pg_cursors = [(''c'', demo_cursor)], pg_initial_busy = False \<rparr>" "''c''"
      demo_cursor demo_request demo_pager_env demo_view "[]" demo_request demo_pager_env demo_view]
  by (simp add: demo_cursor_def demo_request_def demo_pager_env_def demo_view_def)

section \<open>The frames of a page\<close>

lemma chunk_frames_nth:
  "chunk_frames lib rq cs nb i ps = Some fs \<Longrightarrow>
   length fs = length ps \<and>
   (\<forall>k<length fs. fs ! k = make_chunk rq cs (ps ! k) (k + 1 = length ps) nb (i + k)
      \<and> byte_length (fs ! k) \<le> MAX_HISTORY_CHUNK_BYTES
      \<and> (\<exists>t. encode_server_frame lib (fs ! k) = Inr t))"
proof (induction ps arbitrary: i fs)
  case (Cons p ps)
  then obtain fs' t where fs: "fs = make_chunk rq cs p (ps = []) nb i # fs'"
    and rec: "chunk_frames lib rq cs nb (Suc i) ps = Some fs'"
    and b: "byte_length (make_chunk rq cs p (ps = []) nb i) \<le> MAX_HISTORY_CHUNK_BYTES"
    and e: "encode_server_frame lib (make_chunk rq cs p (ps = []) nb i) = Inr t"
    by (auto simp: Let_def split: if_splits sum.splits)
  from Cons.IH [OF rec] have IH: "length fs' = length ps"
    "k < length fs' \<Longrightarrow> fs' ! k = make_chunk rq cs (ps ! k) (k + 1 = length ps) nb (Suc i + k)
      \<and> byte_length (fs' ! k) \<le> MAX_HISTORY_CHUNK_BYTES
      \<and> (\<exists>t. encode_server_frame lib (fs' ! k) = Inr t)" for k by auto
  show ?case
  proof (intro conjI allI impI)
    fix k assume "k < length fs"
    then show "fs ! k = make_chunk rq cs ((p # ps) ! k) (k + 1 = length (p # ps)) nb (i + k)"
      using IH fs by (cases k) auto
    show "byte_length (fs ! k) \<le> MAX_HISTORY_CHUNK_BYTES" "\<exists>t. encode_server_frame lib (fs ! k) = Inr t"
      using IH fs b e \<open>k < length fs\<close> by (cases k; force)+
  qed (simp add: fs IH)
qed simp

definition is_notice :: "json \<Rightarrow> bool" where
  "is_notice f = (str_field ''type'' f = Some ''protocol_error'' \<or> str_field ''type'' f = Some ''reset'')"

definition chunk_sequence :: "codec_lib \<Rightarrow> sync_request \<Rightarrow> json list \<Rightarrow> bool" where
  "chunk_sequence lib rq fs =
     (fs \<noteq> [] \<and> (\<forall>k<length fs.
        str_field ''type'' (fs ! k) = Some ''session_history_chunk''
        \<and> str_field ''in_reply_to'' (fs ! k) = Some (rq_id rq)
        \<and> field ''chunk_index'' (fs ! k) = Some (JNum (NInt (int k)))
        \<and> field ''final_chunk'' (fs ! k) = Some (JBool (k + 1 = length fs))
        \<and> byte_length (fs ! k) \<le> MAX_HISTORY_CHUNK_BYTES
        \<and> (\<exists>t. encode_server_frame lib (fs ! k) = Inr t)))"

lemma make_chunk_fields:
  "str_field ''type'' (make_chunk rq cs p final nb i) = Some ''session_history_chunk''"
  "str_field ''in_reply_to'' (make_chunk rq cs p final nb i) = Some (rq_id rq)"
  "field ''chunk_index'' (make_chunk rq cs p final nb i) = Some (JNum (NInt (int i)))"
  "field ''final_chunk'' (make_chunk rq cs p final nb i) = Some (JBool final)"
  by (simp_all add: make_chunk_def str_field_def field_def split: option.splits)

lemma chunk_frames_sequence:
  assumes "chunk_frames lib rq cs nb 0 ps = Some fs" and "ps \<noteq> []"
  shows "chunk_sequence lib rq fs"
  using chunk_frames_nth [OF assms(1)] assms(2) by (auto simp: chunk_sequence_def make_chunk_fields)

lemma fragment_window_chunks:
  assumes "fragment_window lib rq cs rs nb = Some fs"
  obtains limit ps ps' where
    "pack_items rq cs limit empty_payload (concat (map (record_items rq cs nb) rs)) = Some ps"
    "ps' = (if ps = [] then [empty_payload] else ps)" "chunk_frames lib rq cs nb 0 ps' = Some fs"
  using assms unfolding fragment_window_def Let_def by (cases "pack_items rq cs (MAX_HISTORY_CHUNK_BYTES
    - (final_bytes rq cs empty_payload nb - non_final_bytes rq cs empty_payload)) empty_payload
    (concat (map (record_items rq cs nb) rs))") auto

lemma fragment_window_sequence:
  assumes "fragment_window lib rq cs rs nb = Some fs"
  shows "chunk_sequence lib rq fs"
proof -
  from assms obtain limit ps ps' where ps: "ps' = (if ps = [] then [empty_payload] else ps)"
    and fs: "chunk_frames lib rq cs nb 0 ps' = Some fs" by (rule fragment_window_chunks)
  from fs show ?thesis by (rule chunk_frames_sequence) (simp add: ps)
qed

lemma notices [simp]: "is_notice (protocol_error rq c m)" "is_notice (reset_json rq a b r)"
  by (simp_all add: is_notice_def protocol_error_def reset_json_def str_field_def field_def)

lemma page_frames:
  "chunk_sequence (pe_lib env) rq (snd (snd (page env rq cs v pg)))
   \<or> (\<exists>f. snd (snd (page env rq cs v pg)) = [f] \<and> is_notice f)"
  by (auto simp: page_def Let_def split: option.splits prod.splits window.splits
      dest: fragment_window_sequence)

text \<open>
  C25: A sync answers with one notice (a protocol error or a reset) or with a sequence of history
  chunks for the request: chunk indices 0, 1, 2, ..., exactly the last one final, every chunk at
  most 512 KiB of encoded text and accepted by the codec as a server frame.
\<close>

theorem sync_frames_spec:
  "chunk_sequence (pe_lib env) rq (snd (snd (pager_sync env rq v pg)))
   \<or> (\<exists>f. snd (snd (pager_sync env rq v pg)) = [f] \<and> is_notice f)"
proof -
  have i: "chunk_sequence (pe_lib env) rq (snd (snd (sync_initial env rq v pg)))
    \<or> (\<exists>f. snd (snd (sync_initial env rq v pg)) = [f] \<and> is_notice f)" for pg
    using page_frames by (auto simp: sync_initial_def Let_def)
  show ?thesis
  proof (cases "rq_before rq")
    case None
    with i [of "pg \<lparr> pg_initial_busy := True \<rparr>"] show ?thesis
      by (auto simp: pager_sync_def split: prod.splits)
  next
    case (Some c)
    show ?thesis
    proof (cases "jm_get (pg_cursors pg) c")
      case (Some cs)
      from page_frames [of env rq "cs \<lparr> cs_busy := True, cs_used := True \<rparr>" v
          "pg \<lparr> pg_cursors := jm_set c (cs \<lparr> cs_busy := True, cs_used := True \<rparr>) (pg_cursors pg) \<rparr>"]
      show ?thesis using Some \<open>rq_before rq = Some c\<close>
        by (auto simp: pager_sync_def Let_def split: option.splits prod.splits)
    qed (simp add: pager_sync_def \<open>rq_before rq = Some c\<close>)
  qed
qed

section \<open>The window\<close>

text \<open>
  No record of an earlier group stands at or behind the first record of a later one: the
  groups of the records follow one another.
\<close>

definition groups_in_sequence :: "event_record list \<Rightarrow> bool" where
  "groups_in_sequence rs =
     (\<forall>g\<in>set (jm_values (gather rs [])). \<forall>h\<in>set (jm_values (gather rs [])).
        g \<noteq> h \<longrightarrow> gr_first g \<le> gr_first h \<longrightarrow> (\<forall>r\<in>set (gr_records g). er_position r < gr_first h))"

lemma add_to_group_ok: "jm_ok m \<Longrightarrow> jm_ok (add_to_group r m)"
  by (auto simp: add_to_group_def Let_def split: option.splits)

definition groups_ok :: "(string, group_record) js_map \<Rightarrow> bool" where
  "groups_ok m = (\<forall>g\<in>snd ` set m. gr_records g \<noteq> [] \<and>
     (\<forall>r\<in>set (gr_records g). gr_first g \<le> er_position r))"

lemma jm_set_values: "g \<in> snd ` set (jm_set k v m) \<Longrightarrow> g = v \<or> g \<in> snd ` set m"
  using jm_set_entries by fastforce

lemma add_to_group_records:
  assumes "jm_ok m"
  shows "(\<Union>g\<in>snd ` set (add_to_group r m). set (gr_records g)) = insert r (\<Union>g\<in>snd ` set m. set (gr_records g))"
proof (cases "jm_get m (text_or_empty ''group_id'' (er_event r))")
  case None
  then have "text_or_empty ''group_id'' (er_event r) \<notin> fst ` set m" by (simp add: jm_get_None_iff)
  with None show ?thesis by (simp add: add_to_group_def jm_set_absent Let_def)
next
  case (Some gr)
  let ?k = "text_or_empty ''group_id'' (er_event r)"
  let ?v = "gr \<lparr> gr_records := gr_records gr @ [r], gr_bytes := gr_bytes gr + er_bytes r \<rparr>"
  have "(\<Union>g\<in>snd ` set (jm_set k v m). set (gr_records g)) = insert r (\<Union>g\<in>snd ` set m. set (gr_records g))"
    if "jm_get m k = Some gr" "v = ?v" for k v
    using that
  proof (induction k v m rule: jm_set.induct)
    case (2 k v k' v' m)
    then show ?case by (cases "k' = k") (simp_all add: Un_insert_right)
  qed simp
  from this [OF Some refl] Some show ?thesis by (simp add: add_to_group_def Let_def)
qed

lemma gather_records:
  "jm_ok m \<Longrightarrow> (\<Union>g\<in>snd ` set (gather rs m). set (gr_records g))
     = (\<Union>g\<in>snd ` set m. set (gr_records g)) \<union> {r \<in> set rs. \<not> is_system_event (er_event r)}"
proof (induction rs arbitrary: m)
  case (Cons r rs)
  show ?case
  proof (cases "is_system_event (er_event r)")
    case True
    with Cons show ?thesis by auto
  next
    case False
    from Cons.IH [OF add_to_group_ok [OF Cons.prems, of r]] add_to_group_records [OF Cons.prems, of r] False
    show ?thesis by auto
  qed
qed simp

lemma add_to_group_groups_ok:
  assumes "groups_ok m" and "\<forall>g\<in>snd ` set m. gr_first g \<le> er_position r"
  shows "groups_ok (add_to_group r m)
    \<and> (\<forall>p\<ge>er_position r. \<forall>g\<in>snd ` set (add_to_group r m). gr_first g \<le> p)"
proof -
  obtain k v where v: "add_to_group r m = jm_set k v m" "gr_records v \<noteq> []" "gr_first v \<le> er_position r"
    "\<forall>r'\<in>set (gr_records v). gr_first v \<le> er_position r'"
  proof (cases "jm_get m (text_or_empty ''group_id'' (er_event r))")
    case None
    then show ?thesis by (intro that, simp add: add_to_group_def Let_def) simp_all
  next
    case (Some gr)
    then have "gr \<in> snd ` set m" by (force dest: jm_get_SomeD)
    with assms have "gr_first gr \<le> er_position r" "gr_records gr \<noteq> []"
      "\<forall>r'\<in>set (gr_records gr). gr_first gr \<le> er_position r'" by (auto simp: groups_ok_def)
    with Some show ?thesis by (intro that, simp add: add_to_group_def Let_def) auto
  qed
  have all: "gr_records g \<noteq> [] \<and> (\<forall>r'\<in>set (gr_records g). gr_first g \<le> er_position r')
      \<and> gr_first g \<le> er_position r" if "g \<in> snd ` set (add_to_group r m)" for g
  proof -
    from that v(1) have "g = v \<or> g \<in> snd ` set m" using jm_set_values by metis
    then show ?thesis using v assms unfolding groups_ok_def by blast
  qed
  then show ?thesis unfolding groups_ok_def using order_trans by blast
qed

lemma gather_groups_ok:
  "sorted (map er_position rs) \<Longrightarrow> groups_ok m \<Longrightarrow>
   (\<forall>r\<in>set rs. \<forall>g\<in>snd ` set m. gr_first g \<le> er_position r) \<Longrightarrow> groups_ok (gather rs m)"
proof (induction rs arbitrary: m)
  case (Cons r rs)
  show ?case
  proof (cases "is_system_event (er_event r)")
    case True
    with Cons show ?thesis by simp
  next
    case False
    from add_to_group_groups_ok [of m r] Cons.prems
    have "groups_ok (add_to_group r m)"
      "\<forall>r'\<in>set rs. \<forall>g\<in>snd ` set (add_to_group r m). gr_first g \<le> er_position r'" by auto
    with Cons False show ?thesis by simp
  qed
qed simp

lemma fit_groups_ok:
  "fit_groups systems position groups = WindowOk rs next \<Longrightarrow>
   \<exists>pre g gs. groups = pre @ g # gs \<and> next = gr_first g
     \<and> rs = window_records systems position (g # gs) next \<and> total_bytes rs \<le> MAX_WINDOW_DECODE_BYTES"
proof (induction systems position groups rule: fit_groups.induct)
  case (2 systems position g gs)
  show ?case
  proof (cases "total_bytes (window_records systems position (g # gs) (gr_first g)) \<le> MAX_WINDOW_DECODE_BYTES")
    case True
    with 2(2) show ?thesis by (intro exI [of _ "[]"] exI [of _ g] exI [of _ gs]) (auto simp: Let_def)
  next
    case False
    with 2(2) have "gs \<noteq> []" "fit_groups systems position gs = WindowOk rs next"
      by (auto simp: Let_def split: if_splits)
    with 2(1) [OF refl False this] obtain pre h hs where
      "gs = pre @ h # hs" "next = gr_first h" "rs = window_records systems position (h # hs) next"
      "total_bytes rs \<le> MAX_WINDOW_DECODE_BYTES" by blast
    then show ?thesis by (intro exI [of _ "g # pre"] exI [of _ h] exI [of _ hs]) simp
  qed
qed simp

lemma total_bytes_sort: "total_bytes (sort_key k rs) = total_bytes rs"
proof -
  have "mset (map er_bytes (sort_key k rs)) = mset (map er_bytes rs)" by simp
  then show ?thesis unfolding total_bytes_def by (metis sum_mset_sum_list)
qed

lemma normalize_limit_bounds: "1 \<le> normalize_limit l \<and> normalize_limit l \<le> 5"
  by (auto simp: normalize_limit_def MAX_GROUPS_PER_PAGE_def split: option.splits)

text \<open>The groups and records a window is chosen from.\<close>

lemma gather_facts:
  assumes "sorted (map er_position rs)"
  shows "groups_ok (gather rs [])"
    and "(\<Union>g\<in>set (jm_values (gather rs [])). set (gr_records g)) = {r \<in> set rs. \<not> is_system_event (er_event r)}"
  using gather_groups_ok [OF assms, of "[]"] gather_records [of "[]" rs]
  by (auto simp: groups_ok_def jm_values_def)

lemma window_of_groups:
  assumes sorted: "sorted (map er_position records)"
    and below: "\<forall>r\<in>set records. er_position r < position"
    and sequence: "groups_in_sequence records"
    and ordered: "sort_key gr_first (filter (\<lambda>g. gr_first g < position) (jm_values (gather records []))) = pre @ g # gs"
  shows "set (window_records (filter (\<lambda>r. is_system_event (er_event r)) records) position (g # gs) (gr_first g))
       = {r \<in> set records. gr_first g \<le> er_position r}"
proof -
  let ?groups = "jm_values (gather records [])"
  have mem: "x \<in> set (pre @ g # gs) \<longleftrightarrow> x \<in> set ?groups \<and> gr_first x < position" for x
    using arg_cong [OF ordered, of set] by auto
  have "sorted (map gr_first (pre @ g # gs))" by (simp only: ordered [symmetric] sorted_sort_key)
  then have pre_le: "x \<in> set pre \<Longrightarrow> gr_first x \<le> gr_first g" and gs_ge: "x \<in> set (g # gs) \<Longrightarrow> gr_first g \<le> gr_first x" for x
    by (auto simp: sorted_append)
  have first_le: "x \<in> set ?groups \<Longrightarrow> r \<in> set (gr_records x) \<Longrightarrow> gr_first x \<le> er_position r" for x r
    using gather_facts(1) [OF sorted] by (auto simp: groups_ok_def jm_values_def)
  have recs: "(\<Union>g\<in>set ?groups. set (gr_records g)) = {r \<in> set records. \<not> is_system_event (er_event r)}"
    by (rule gather_facts(2) [OF sorted])
  have "(\<Union>x\<in>set (g # gs). set (gr_records x)) = {r \<in> set records. \<not> is_system_event (er_event r) \<and> gr_first g \<le> er_position r}"
  proof (intro equalityI subsetI)
    fix r assume "r \<in> (\<Union>x\<in>set (g # gs). set (gr_records x))"
    then obtain x where x: "x \<in> set (g # gs)" "r \<in> set (gr_records x)" by blast
    then have "x \<in> set ?groups" using mem [of x] by auto
    with x recs first_le [of x r] gs_ge [of x] show "r \<in> {r \<in> set records. \<not> is_system_event (er_event r) \<and> gr_first g \<le> er_position r}"
      by (auto intro: order_trans)
  next
    fix r assume r: "r \<in> {r \<in> set records. \<not> is_system_event (er_event r) \<and> gr_first g \<le> er_position r}"
    with recs obtain x where x: "x \<in> set ?groups" "r \<in> set (gr_records x)" by blast
    with first_le below r have "x \<in> set (pre @ g # gs)" using mem [of x] by fastforce
    moreover have "x \<in> set pre \<Longrightarrow> x = g"
    proof (rule ccontr)
      assume "x \<in> set pre" "x \<noteq> g"
      moreover have "g \<in> set ?groups" using mem [of g] by simp
      ultimately have "er_position r < gr_first g"
        using sequence x pre_le [of x] by (auto simp: groups_in_sequence_def)
      with r show False by simp
    qed
    ultimately show "r \<in> (\<Union>x\<in>set (g # gs). set (gr_records x))" using x by auto
  qed
  with below show ?thesis by (auto simp: window_records_def)
qed


definition demo_record :: "string \<Rightarrow> string \<Rightarrow> nat \<Rightarrow> event_record" where
  "demo_record e g n = \<lparr> er_event = JObj [(''kind'', JStr ''assistant''), (''event_id'', JStr e),
     (''group_id'', JStr g)], er_position = n, er_order = n, er_bytes = 100 \<rparr>"

lemma demo_window:
  "select_window [demo_record ''a'' ''L'' 0, demo_record ''b'' ''G'' 1] 2 (Some 1)
   = WindowOk [demo_record ''b'' ''G'' 1] 1"
  by code_simp

lemma demo_sequence: "groups_in_sequence [demo_record ''a'' ''L'' 0, demo_record ''b'' ''G'' 1]"
  by code_simp



end
