(* ===== verification/V2Service.thy ===== *)
theory V2Service
  imports SessionState History
begin

text \<open>
  \<open>TimelineV2Service\<close> of \<open>pi-extension/src/timeline/v2_service.ts\<close>: one service per paired
  device. It answers the client frames of the device, keeps the handshake and idempotency
  state (\<open>SessionState\<close>) and the history pager (\<open>History\<close>), and turns the life of a user
  message and the events of the session into server frames.

  Frames are JSON values. \<open>service_env\<close> holds what one call finds outside the service: the
  view of the session manager, the environment of the pager, the digest, the readings of the
  clock in the order in which the call makes them, and how each callback of the owner ends
  (absent, a value, an exception). The calls of callbacks are the effects of an operation. A
  callback does not call back into the service before it returns. An operation that throws
  is \<open>Inl\<close> of the message.
\<close>

section \<open>Data\<close>

record service =
  vs_sender :: string
  vs_generation :: string
  vs_state :: session_state
  vs_pager :: pager
  vs_channels :: "(string, string) js_map"

datatype delivery = DeliverTrue | DeliverFalse | DeliverQueued | DeliverRejected | DeliverThrows

record service_env =
  ve_sha :: "string \<Rightarrow> string"
  ve_view :: session_view
  ve_pager :: pager_env
  ve_clock :: "nat \<Rightarrow> int"
  ve_user_message :: delivery
  ve_cancel :: "(string, bool) result option"
  ve_action :: "(unit, unit) result option"
  ve_models :: "(unit, (string \<times> json) list) result option"
  ve_clear :: "(string, unit) result option"

datatype service_effect =
    CallUserMessage json correlation
  | CallCancel
  | CallAction json
  | CallListModels
  | CallQueuedClear "string option"

type_synonym service_answer = "service \<times> service_effect list \<times> (string, json list) result"

definition session_id_of :: "service_env \<Rightarrow> string" where
  "session_id_of env = sv_session (ve_view env)"

definition new_service ::
  "string \<Rightarrow> string option \<Rightarrow> string \<Rightarrow> (string, service) result" where
  "new_service sender generation session_id =
     (let g = (case generation of Some g \<Rightarrow> g | None \<Rightarrow> session_id) in
      case new_session_state g None None of
        Inl e \<Rightarrow> Inl e
      | Inr st \<Rightarrow> Inr \<lparr> vs_sender = sender, vs_generation = g, vs_state = st, vs_pager = new_pager,
                       vs_channels = [] \<rparr>)"

section \<open>Frames\<close>

definition direct :: "string \<Rightarrow> (string \<times> json) list \<Rightarrow> json" where
  "direct channel members =
     JObj (members @ [(''protocol_version'', JNum (NInt 2)), (''target_channel_id'', JStr channel)])"

definition service_error :: "string \<Rightarrow> string \<Rightarrow> string \<Rightarrow> string option \<Rightarrow> json" where
  "service_error in_reply_to code message channel =
     JObj ([(''protocol_version'', JNum (NInt 2)), (''type'', JStr ''protocol_error'')]
        @ (case channel of Some c \<Rightarrow> if c = [] then [] else [(''target_channel_id'', JStr c)] | None \<Rightarrow> [])
        @ [(''in_reply_to'', JStr in_reply_to), (''code'', JStr code), (''message'', JStr message)])"

definition reset_reply :: "service_env \<Rightarrow> service \<Rightarrow> string \<Rightarrow> string \<Rightarrow> json" where
  "reset_reply env sv channel reason =
     JObj [(''protocol_version'', JNum (NInt 2)), (''type'', JStr ''reset''),
           (''target_channel_id'', JStr channel), (''session_id'', JStr (session_id_of env)),
           (''history_generation'', JStr (vs_generation sv)), (''reason'', JStr reason)]"

text \<open>The members that every \<open>user_message_status\<close> begins with.\<close>

definition status_members :: "service_env \<Rightarrow> service \<Rightarrow> string \<Rightarrow> string \<Rightarrow> string \<Rightarrow> (string \<times> json) list" where
  "status_members env sv in_reply_to client status =
     [(''type'', JStr ''user_message_status''), (''in_reply_to'', JStr in_reply_to),
      (''session_id'', JStr (session_id_of env)), (''history_generation'', JStr (vs_generation sv)),
      (''client_request_id'', JStr client), (''status'', JStr status)]"

definition truthy_member :: "string \<Rightarrow> string option \<Rightarrow> (string \<times> json) list" where
  "truthy_member k v = (case v of Some s \<Rightarrow> if s = [] then [] else [(k, JStr s)] | None \<Rightarrow> [])"

definition status_reply ::
  "service_env \<Rightarrow> service \<Rightarrow> json \<Rightarrow> string \<Rightarrow> string option \<Rightarrow> string option \<Rightarrow> json" where
  "status_reply env sv frame status message_id group_id =
     direct (text_or_empty ''channel_id'' frame)
       (status_members env sv (text_or_empty ''id'' frame) (text_or_empty ''client_request_id'' frame) status
        @ truthy_member ''message_id'' message_id @ truthy_member ''group_id'' group_id)"

definition reply_id :: "json \<Rightarrow> string" where
  "reply_id frame = (case str_field ''id'' frame of Some i \<Rightarrow> i | None \<Rightarrow> ''v2'')"

section \<open>The gate of every frame but the first\<close>

text \<open>\<open>ensureReady\<close>: the frame that refuses the call, or \<open>None\<close> and the channel is touched.\<close>

definition ensure_ready :: "service_env \<Rightarrow> json \<Rightarrow> service \<Rightarrow> service \<times> json option" where
  "ensure_ready env frame sv =
     (let refused = service_error (reply_id frame) ''invalid_channel'' ''session_hello required''
                      (str_field ''channel_id'' frame)
      in case str_field ''channel_id'' frame of
           None \<Rightarrow> (sv, Some refused)
         | Some c \<Rightarrow>
             if get_channel (vs_state sv) (vs_sender sv) c = None then (sv, Some refused)
             else if (case field ''history_generation'' frame of
                        Some g \<Rightarrow> g \<noteq> JStr (vs_generation sv) | None \<Rightarrow> False)
             then (sv, Some (reset_reply env sv c ''generation_changed''))
             else (sv \<lparr> vs_state := fst (touch (vs_state sv) (vs_sender sv) c (ve_clock env 0)) \<rparr>, None))"

definition guarded ::
  "service_env \<Rightarrow> json \<Rightarrow> service \<Rightarrow> (service \<Rightarrow> service_answer) \<Rightarrow> service_answer" where
  "guarded env frame sv handler =
     (case ensure_ready env frame sv of
        (sv', Some refused) \<Rightarrow> (sv', [], Inr [refused])
      | (sv', None) \<Rightarrow> handler sv')"

definition refuse :: "json \<Rightarrow> string \<Rightarrow> string \<Rightarrow> json" where
  "refuse frame code message =
     service_error (text_or_empty ''id'' frame) code message (str_field ''channel_id'' frame)"

section \<open>Records of user messages\<close>

definition service_key :: "service \<Rightarrow> string \<Rightarrow> string" where
  "service_key sv client = vs_generation sv @ nul # vs_sender sv @ nul # client"

text \<open>\<open>n\<close> is the number of clock readings that the call made before.\<close>

definition find_record ::
  "service_env \<Rightarrow> nat \<Rightarrow> string \<Rightarrow> service \<Rightarrow> service \<times> (idem_record \<times> string) option" where
  "find_record env n client sv =
     (let (st, found) = get_record (vs_state sv) (service_key sv client) (ve_clock env n)
      in (sv \<lparr> vs_state := st \<rparr>,
          (case (found, jm_get (vs_channels sv) client) of
             (Some r, Some c) \<Rightarrow> if c = [] then None else Some (r, c)
           | _ \<Rightarrow> None)))"

definition unknown_delivery :: "service_env \<Rightarrow> nat \<Rightarrow> string \<Rightarrow> service \<Rightarrow> service \<times> json list" where
  "unknown_delivery env n client sv =
     (case find_record env n client sv of
        (sv1, None) \<Rightarrow> (sv1, [])
      | (sv1, Some (r, c)) \<Rightarrow>
          (let (st, updated) = remember_unknown_delivery (vs_state sv1) (ir_key r)
                                 (ve_clock env (n + 1)) (ve_clock env (n + 2));
               sv2 = sv1 \<lparr> vs_state := st \<rparr>
           in case updated of
                None \<Rightarrow> (sv2, [])
              | Some r' \<Rightarrow> (sv2, [direct c (status_members env sv2 client client ''unknown_delivery'')])))"

definition started :: "service_env \<Rightarrow> started_message \<Rightarrow> service \<Rightarrow> service \<times> json list" where
  "started env sm sv =
     (let co = st_correlation sm in
      case co_client_request co of
        None \<Rightarrow> (sv, [])
      | Some client \<Rightarrow>
          if client = [] then (sv, [])
          else case find_record env 0 client sv of
            (sv1, None) \<Rightarrow> (sv1, [])
          | (sv1, Some (r, c)) \<Rightarrow>
              (let st = fst (update_record (vs_state sv1) (ir_key r) Accepted (Some (st_event sm))
                               (Some (st_group sm)) (ve_clock env 1) (ve_clock env 2));
                   sv2 = sv1 \<lparr> vs_state := st \<rparr>;
                   in_reply_to = (case co_request co of Some i \<Rightarrow> i | None \<Rightarrow> client);
                   message = JObj ([(''id'', JStr (st_event sm)), (''group_id'', JStr (st_group sm)),
                                    (''blocks'', JArr (st_blocks sm)), (''origin'', JStr (co_origin co))]
                       @ truthy_member ''sender_ref'' (co_sender co)
                       @ [(''delivery'', JStr (co_delivery co))])
               in (sv2,
                   [direct c (status_members env sv2 in_reply_to client ''accepted''
                      @ [(''message_id'', JStr (st_event sm)), (''group_id'', JStr (st_group sm))]),
                    direct c [(''type'', JStr ''user_message_started''), (''in_reply_to'', JStr in_reply_to),
                      (''session_id'', JStr (session_id_of env)),
                      (''history_generation'', JStr (vs_generation sv2)), (''message'', message)]])))"

definition commit ::
  "service_env \<Rightarrow> string \<Rightarrow> string \<Rightarrow> string option \<Rightarrow> service \<Rightarrow> service \<times> json list" where
  "commit env client message_id group_id sv =
     (case find_record env 0 client sv of
        (sv1, None) \<Rightarrow> (sv1, [])
      | (sv1, Some (r, c)) \<Rightarrow>
          (let (st, updated) = update_record (vs_state sv1) (ir_key r) Committed (Some message_id) group_id
                                 (ve_clock env 1) (ve_clock env 2);
               sv2 = sv1 \<lparr> vs_state := st \<rparr>
           in case updated of
                None \<Rightarrow> (sv2, [])
              | Some r' \<Rightarrow>
                  (sv2, [direct c (status_members env sv2 client client ''committed''
                     @ [(''message_id'', JStr message_id)] @ truthy_member ''group_id'' group_id)])))"

definition can_drain :: "service_env \<Rightarrow> string \<Rightarrow> service \<Rightarrow> service \<times> bool" where
  "can_drain env client sv =
     (let (sv1, found) = find_record env 0 client sv
      in (sv1, (case found of Some (r, c) \<Rightarrow> ir_status r = Received \<or> ir_status r = Queued | None \<Rightarrow> False)))"

section \<open>User messages\<close>

definition idempotency_payload :: "json \<Rightarrow> json" where
  "idempotency_payload frame =
     JObj (opt_member ''text'' (field ''text'' frame)
       @ [(''images'', nullish_or (field ''images'' frame) (JArr [])),
          (''streaming_behavior'', nullish_or (field ''streaming_behavior'' frame) JNull)])"

definition replay :: "service_env \<Rightarrow> json \<Rightarrow> idem_record \<Rightarrow> service \<Rightarrow> service \<times> json list" where
  "replay env frame r sv =
     (case ir_status r of
        UnknownDelivery \<Rightarrow> unknown_delivery env 3 (text_or_empty ''client_request_id'' frame) sv
      | Received \<Rightarrow> (sv, [status_reply env sv frame ''received'' None None])
      | Queued \<Rightarrow> (sv, [status_reply env sv frame ''accepted'' None None])
      | Committed \<Rightarrow> (sv, [status_reply env sv frame ''committed'' (ir_message_id r) (ir_group_id r)])
      | Accepted \<Rightarrow> (sv, [status_reply env sv frame ''accepted'' (ir_message_id r) (ir_group_id r)]))"

definition message_correlation :: "service \<Rightarrow> json \<Rightarrow> correlation" where
  "message_correlation sv frame =
     (if field ''streaming_behavior'' frame = Some (JStr ''steer'') then
        \<lparr> co_client_request = None, co_channel = str_field ''channel_id'' frame,
          co_request = str_field ''id'' frame, co_origin = ''unknown'', co_delivery = ''unknown'',
          co_sender = None \<rparr>
      else
        \<lparr> co_client_request = str_field ''client_request_id'' frame,
          co_channel = str_field ''channel_id'' frame, co_request = str_field ''id'' frame,
          co_origin = ''pwa'', co_delivery = ''normal'', co_sender = Some (vs_sender sv) \<rparr>)"

text \<open>What follows the call of \<open>onUserMessage\<close> for a new request with record \<open>r\<close>.\<close>

definition after_delivery :: "service_env \<Rightarrow> json \<Rightarrow> idem_record \<Rightarrow> service \<Rightarrow> service \<times> json list" where
  "after_delivery env frame r sv =
     (let client = text_or_empty ''client_request_id'' frame in
      case ve_user_message env of
        DeliverRejected \<Rightarrow>
          (sv \<lparr> vs_state := fst (forget (vs_state sv) (ir_key r)), vs_channels := jm_delete client (vs_channels sv) \<rparr>,
           [refuse frame ''too_large'' ''The image queue is full; retry after queued work drains.''])
      | DeliverFalse \<Rightarrow> unknown_delivery env 3 client sv
      | DeliverThrows \<Rightarrow> unknown_delivery env 3 client sv
      | DeliverQueued \<Rightarrow>
          (let sv' = sv \<lparr> vs_state := fst (update_record (vs_state sv) (ir_key r) Queued None None
                            (ve_clock env 3) (ve_clock env 4)) \<rparr>
           in (sv', [status_reply env sv' frame ''accepted'' None None]))
      | DeliverTrue \<Rightarrow>
          if field ''streaming_behavior'' frame = Some (JStr ''steer'') then unknown_delivery env 3 client sv
          else (sv, [status_reply env sv frame ''received'' None None]))"

definition begin_of :: "service_env \<Rightarrow> json \<Rightarrow> service \<Rightarrow> session_state \<times> (string, begin_result) result" where
  "begin_of env frame sv =
     begin_request (ve_sha env) (vs_state sv)
       \<lparr> rq_sender = vs_sender sv, rq_client = text_or_empty ''client_request_id'' frame,
         rq_payload = idempotency_payload frame \<rparr> (ve_clock env 1) (ve_clock env 2)"

definition handle_user_message :: "service_env \<Rightarrow> json \<Rightarrow> service \<Rightarrow> service_answer" where
  "handle_user_message env frame sv0 =
     guarded env frame sv0 (\<lambda>sv.
       (let (st, begun) = begin_of env frame sv;
            sv1 = sv \<lparr> vs_state := st \<rparr>
        in case begun of
             Inl e \<Rightarrow> (sv1, [], Inl e)
           | Inr (BeginConflict r) \<Rightarrow>
               (sv1, [], Inr [refuse frame ''invalid_message'' ''client_request_id payload conflict''])
           | Inr (BeginReplay r) \<Rightarrow> (let (sv2, frames) = replay env frame r sv1 in (sv2, [], Inr frames))
           | Inr (BeginNew r) \<Rightarrow>
               (let sv2 = sv1 \<lparr> vs_channels := jm_set (text_or_empty ''client_request_id'' frame)
                            (text_or_empty ''channel_id'' frame) (vs_channels sv1) \<rparr>;
                    (sv3, frames) = after_delivery env frame r sv2
                in (sv3, [CallUserMessage frame (message_correlation sv2 frame)], Inr frames))))"

section \<open>The other frames\<close>

definition ready :: "service_env \<Rightarrow> json \<Rightarrow> service \<Rightarrow> service_answer" where
  "ready env frame sv =
     (let c = text_or_empty ''channel_id'' frame;
          (st, result) = hello (vs_state sv) (vs_sender sv) c (ve_clock env 0);
          sv' = sv \<lparr> vs_state := st \<rparr>
      in case result of
           Inl e \<Rightarrow> (sv', [], Inl e)
         | Inr u \<Rightarrow>
             (sv', [], Inr [JObj [(''protocol_version'', JNum (NInt 2)), (''type'', JStr ''session_ready''),
                (''in_reply_to'', JStr (text_or_empty ''id'' frame)), (''target_channel_id'', JStr c),
                (''session_id'', JStr (session_id_of env)), (''history_generation'', JStr (vs_generation sv)),
                (''self_sender_ref'', JStr (vs_sender sv))]]))"

definition sync_of :: "json \<Rightarrow> sync_request" where
  "sync_of frame =
     \<lparr> rq_id = text_or_empty ''id'' frame, rq_channel = text_or_empty ''channel_id'' frame,
       rq_before = str_field ''before'' frame,
       rq_limit = (case field ''limit'' frame of Some (JNum (NInt n)) \<Rightarrow> Some n | _ \<Rightarrow> None) \<rparr>"

definition handle_history :: "service_env \<Rightarrow> json \<Rightarrow> service \<Rightarrow> service_answer" where
  "handle_history env frame sv0 =
     guarded env frame sv0 (\<lambda>sv.
       (let (view, pg, frames) = pager_sync (ve_pager env) (sync_of frame)
              (ve_view env \<lparr> sv_generation := vs_generation sv \<rparr>) (vs_pager sv)
        in (sv \<lparr> vs_pager := pg \<rparr>, [], Inr frames)))"

definition handle_ping :: "service_env \<Rightarrow> json \<Rightarrow> service \<Rightarrow> service_answer" where
  "handle_ping env frame sv0 =
     guarded env frame sv0 (\<lambda>sv.
       (sv, [], Inr [direct (text_or_empty ''channel_id'' frame)
                      [(''type'', JStr ''pong''), (''in_reply_to'', JStr (text_or_empty ''id'' frame))]]))"

definition handle_queued_message_clear :: "service_env \<Rightarrow> json \<Rightarrow> service \<Rightarrow> service_answer" where
  "handle_queued_message_clear env frame sv0 =
     guarded env frame sv0 (\<lambda>sv.
       (case ve_clear env of
          None \<Rightarrow> (sv, [], Inr [])
        | Some (Inl e) \<Rightarrow> (sv, [CallQueuedClear (str_field ''target_id'' frame)], Inl e)
        | Some (Inr u) \<Rightarrow> (sv, [CallQueuedClear (str_field ''target_id'' frame)], Inr [])))"

definition handle_cancel :: "service_env \<Rightarrow> json \<Rightarrow> service \<Rightarrow> service_answer" where
  "handle_cancel env frame sv0 =
     guarded env frame sv0 (\<lambda>sv.
       (case ve_cancel env of
          None \<Rightarrow> (sv, [], Inr [refuse frame ''internal_error'' ''no active request to cancel''])
        | Some (Inl detail) \<Rightarrow>
            (sv, [CallCancel], Inr [refuse frame ''internal_error'' (''cancel failed: '' @ detail)])
        | Some (Inr False) \<Rightarrow>
            (sv, [CallCancel], Inr [refuse frame ''internal_error'' ''no active request to cancel''])
        | Some (Inr True) \<Rightarrow>
            (sv, [CallCancel], Inr [direct (text_or_empty ''channel_id'' frame)
               [(''type'', JStr ''cancelled''), (''in_reply_to'', JStr (text_or_empty ''id'' frame))]])))"

definition handle_observed :: "service_env \<Rightarrow> json \<Rightarrow> service \<Rightarrow> service_answer" where
  "handle_observed env frame sv0 =
     guarded env frame sv0 (\<lambda>sv.
       (let client = text_or_empty ''client_request_id'' frame;
            (st, found) = get_record (vs_state sv) (service_key sv client) (ve_clock env 1);
            sv1 = sv \<lparr> vs_state := st \<rparr>;
            unknown = (sv1, [], Inr [refuse frame ''invalid_message'' ''unknown observed request''])
        in case found of
             None \<Rightarrow> unknown
           | Some r \<Rightarrow>
               if ir_sender r \<noteq> vs_sender sv then unknown
               else (sv1 \<lparr> vs_state := fst (forget st (ir_key r)),
                           vs_channels := jm_delete client (vs_channels sv1) \<rparr>, [], Inr [])))"

definition handle_list_models :: "service_env \<Rightarrow> json \<Rightarrow> service \<Rightarrow> service_answer" where
  "handle_list_models env frame sv0 =
     guarded env frame sv0 (\<lambda>sv.
       (case ve_models env of
          None \<Rightarrow> (sv, [], Inr [refuse frame ''unsupported_type'' ''model listing is unavailable''])
        | Some (Inl u) \<Rightarrow>
            (sv, [CallListModels], Inr [refuse frame ''internal_error'' ''Could not list available models.''])
        | Some (Inr members) \<Rightarrow>
            (sv, [CallListModels], Inr [direct (text_or_empty ''channel_id'' frame)
               ((''type'', JStr ''models_list'') # members
                @ [(''in_reply_to'', JStr (text_or_empty ''id'' frame))])])))"

definition handle_action :: "service_env \<Rightarrow> json \<Rightarrow> service \<Rightarrow> service_answer" where
  "handle_action env frame sv0 =
     guarded env frame sv0 (\<lambda>sv.
       (case ve_action env of
          None \<Rightarrow> (sv, [], Inr [refuse frame ''unsupported_type'' ''session action is unavailable''])
        | Some (Inl u) \<Rightarrow>
            (sv, [CallAction frame], Inr [refuse frame ''internal_error'' ''Could not execute session action.''])
        | Some (Inr u) \<Rightarrow> (sv, [CallAction frame], Inr [])))"

definition require_ready :: "service_env \<Rightarrow> json \<Rightarrow> service \<Rightarrow> service_answer" where
  "require_ready env frame sv0 =
     guarded env frame sv0 (\<lambda>sv.
       (sv, [], Inr [service_error (reply_id frame) ''unsupported_type'' ''frame is not implemented''
                       (str_field ''channel_id'' frame)]))"

text \<open>The frames are those of the client schema; the code has no branch for another type.\<close>

definition handle :: "service_env \<Rightarrow> json \<Rightarrow> service \<Rightarrow> service_answer" where
  "handle env frame sv =
     (let t = text_or_empty ''type'' frame in
      if t = ''session_hello'' then ready env frame sv
      else if t = ''pair_request'' then
        (sv, [], Inr [service_error (text_or_empty ''id'' frame) ''protocol_upgrade_required''
                        ''pairing is handled before session_hello'' None])
      else if t = ''session_sync'' then handle_history env frame sv
      else if t = ''ping'' then handle_ping env frame sv
      else if t = ''cancel'' then handle_cancel env frame sv
      else if t = ''user_message'' then handle_user_message env frame sv
      else if t = ''user_message_observed'' then handle_observed env frame sv
      else if t = ''session_new'' \<or> t = ''session_compact'' \<or> t = ''model_set'' \<or> t = ''thinking_set''
      then handle_action env frame sv
      else if t = ''queued_message_set'' \<or> t = ''approve_tool'' \<or> t = ''extension_ui_response''
      then require_ready env frame sv
      else if t = ''list_models'' then handle_list_models env frame sv
      else if t = ''queued_message_clear'' then handle_queued_message_clear env frame sv
      else (sv, [], Inl ''unreachable''))"

section \<open>Generations, partials and events\<close>

definition refresh_generation :: "string \<Rightarrow> service \<Rightarrow> service \<times> bool" where
  "refresh_generation next sv =
     (if next = [] \<or> next = vs_generation sv then (sv, False)
      else (sv \<lparr> vs_generation := next, vs_state := fst (set_generation (vs_state sv) next),
                 vs_channels := [] \<rparr>, True))"

definition service_reset :: "service_env \<Rightarrow> string \<Rightarrow> service \<Rightarrow> service \<times> json list" where
  "service_reset env reason sv =
     (let (st, (channels, records)) = snapshot (vs_state sv) (ve_clock env 0)
      in (sv \<lparr> vs_state := st \<rparr>, map (\<lambda>c. reset_reply env sv (ch_channel c) reason) channels))"

definition partial_broadcast :: "service_env \<Rightarrow> service \<Rightarrow> timeline_partial \<Rightarrow> timeline_partial option" where
  "partial_broadcast env sv p =
     (if tp_session p \<noteq> session_id_of env \<or> tp_generation p \<noteq> vs_generation sv then None else Some p)"

text \<open>The fragments of an encoded event: what is left of it from slice \<open>index\<close> on.\<close>

function event_fragments :: "service_env \<Rightarrow> service \<Rightarrow> string \<Rightarrow> nat \<Rightarrow> byte list \<Rightarrow> json list" where
  "event_fragments env sv event_id index bs =
     (let n = nat MAX_FRAGMENT_DECODE_BYTES in
      if bs = [] then []
      else JObj [(''protocol_version'', JNum (NInt 2)), (''type'', JStr ''timeline_event_fragment''),
                 (''session_id'', JStr (session_id_of env)), (''history_generation'', JStr (vs_generation sv)),
                 (''event_id'', JStr event_id), (''index'', JNum (NInt (int index))),
                 (''data_base64'', JStr (b64_encode (take n bs))), (''final'', JBool (length bs \<le> n))]
           # event_fragments env sv event_id (Suc index) (drop n bs))"
  by pat_completeness auto

termination
  by (relation "measure (\<lambda>(env, sv, e, i, bs). length bs)") (auto simp: MAX_FRAGMENT_DECODE_BYTES_def)

declare event_fragments.simps [simp del]

definition publish_frames :: "service_env \<Rightarrow> json \<Rightarrow> service \<Rightarrow> json list" where
  "publish_frames env ev sv =
     (if \<not> accepts_value (pe_lib (ve_pager env)) TimelineEventSchema ev then []
      else
        (let complete = JObj [(''protocol_version'', JNum (NInt 2)), (''type'', JStr ''timeline_event''),
               (''session_id'', JStr (session_id_of env)), (''history_generation'', JStr (vs_generation sv)),
               (''event'', ev)]
         in if byte_length complete \<le> MAX_FRAME_BYTES then [complete]
            else event_fragments env sv (text_or_empty ''event_id'' ev) 0 (utf8_encode (stringify ev))))"

definition publish :: "service_env \<Rightarrow> json \<Rightarrow> service \<Rightarrow> json option" where
  "publish env ev sv = (case publish_frames env ev sv of [] \<Rightarrow> None | f # fs \<Rightarrow> Some f)"

section \<open>The service as a client of the session state\<close>

text \<open>
  The operations of \<open>SessionState\<close> that each operation of the service performs, with the
  clock readings it makes: what the service does to the state is their composition.
\<close>

datatype service_input =
    SvHandle json
  | SvStarted started_message
  | SvCommit string string "string option"
  | SvCanDrain string
  | SvUnknown string
  | SvRefresh string
  | SvReset string

definition service_step :: "service \<Rightarrow> service_env \<times> service_input \<Rightarrow> service" where
  "service_step sv ei =
     (case ei of (env, i) \<Rightarrow>
        (case i of
           SvHandle frame \<Rightarrow> fst (handle env frame sv)
         | SvStarted sm \<Rightarrow> fst (started env sm sv)
         | SvCommit client m g \<Rightarrow> fst (commit env client m g sv)
         | SvCanDrain client \<Rightarrow> fst (can_drain env client sv)
         | SvUnknown client \<Rightarrow> fst (unknown_delivery env 0 client sv)
         | SvRefresh g \<Rightarrow> fst (refresh_generation g sv)
         | SvReset reason \<Rightarrow> fst (service_reset env reason sv)))"

definition update_found ::
  "service_env \<Rightarrow> nat \<Rightarrow> string \<Rightarrow> idem_status \<Rightarrow> string option \<Rightarrow> string option \<Rightarrow> service \<Rightarrow> session_input list" where
  "update_found env n client status m g sv =
     InGetRecord (service_key sv client) (ve_clock env n)
       # (case snd (find_record env n client sv) of
            None \<Rightarrow> []
          | Some (r, c) \<Rightarrow> [InUpdate (ir_key r) status m g (ve_clock env (n + 1)) (ve_clock env (n + 2))])"

definition message_ops :: "service_env \<Rightarrow> json \<Rightarrow> service \<Rightarrow> session_input list" where
  "message_ops env frame sv =
     (let client = text_or_empty ''client_request_id'' frame;
          (st, begun) = begin_of env frame sv;
          sv1 = sv \<lparr> vs_state := st \<rparr>;
          unknown = (\<lambda>sv. update_found env 3 client UnknownDelivery None None sv)
      in InBegin \<lparr> rq_sender = vs_sender sv, rq_client = client, rq_payload = idempotency_payload frame \<rparr>
           (ve_clock env 1) (ve_clock env 2)
         # (case begun of
              Inr (BeginReplay r) \<Rightarrow> (if ir_status r = UnknownDelivery then unknown sv1 else [])
            | Inr (BeginNew r) \<Rightarrow>
                (let sv2 = sv1 \<lparr> vs_channels := jm_set client (text_or_empty ''channel_id'' frame) (vs_channels sv1) \<rparr>
                 in case ve_user_message env of
                      DeliverRejected \<Rightarrow> [InForget (ir_key r)]
                    | DeliverQueued \<Rightarrow> [InUpdate (ir_key r) Queued None None (ve_clock env 3) (ve_clock env 4)]
                    | DeliverTrue \<Rightarrow>
                        (if field ''streaming_behavior'' frame = Some (JStr ''steer'') then unknown sv2 else [])
                    | _ \<Rightarrow> unknown sv2)
            | _ \<Rightarrow> []))"

definition observed_ops :: "service_env \<Rightarrow> json \<Rightarrow> service \<Rightarrow> session_input list" where
  "observed_ops env frame sv =
     (let k = service_key sv (text_or_empty ''client_request_id'' frame) in
      InGetRecord k (ve_clock env 1)
        # (case snd (get_record (vs_state sv) k (ve_clock env 1)) of
             None \<Rightarrow> [] | Some r \<Rightarrow> if ir_sender r \<noteq> vs_sender sv then [] else [InForget (ir_key r)]))"

definition frame_ops :: "service_env \<Rightarrow> json \<Rightarrow> service \<Rightarrow> session_input list" where
  "frame_ops env frame sv =
     (let t = text_or_empty ''type'' frame; c = text_or_empty ''channel_id'' frame in
      if t = ''session_hello'' then [InHello (vs_sender sv) c (ve_clock env 0)]
      else if t \<notin> set ClientFrameTypes \<or> t = ''pair_request'' then []
      else case ensure_ready env frame sv of
        (sv', Some refused) \<Rightarrow> []
      | (sv', None) \<Rightarrow>
          InTouch (vs_sender sv) c (ve_clock env 0)
            # (if t = ''user_message'' then message_ops env frame sv'
               else if t = ''user_message_observed'' then observed_ops env frame sv' else []))"

definition session_ops :: "service \<Rightarrow> service_env \<times> service_input \<Rightarrow> session_input list" where
  "session_ops sv ei =
     (case ei of (env, i) \<Rightarrow>
        (case i of
           SvHandle frame \<Rightarrow> frame_ops env frame sv
         | SvStarted sm \<Rightarrow>
             (case co_client_request (st_correlation sm) of
                None \<Rightarrow> []
              | Some client \<Rightarrow> if client = [] then []
                  else update_found env 0 client Accepted (Some (st_event sm)) (Some (st_group sm)) sv)
         | SvCommit client m g \<Rightarrow> update_found env 0 client Committed (Some m) g sv
         | SvCanDrain client \<Rightarrow> [InGetRecord (service_key sv client) (ve_clock env 0)]
         | SvUnknown client \<Rightarrow> update_found env 0 client UnknownDelivery None None sv
         | SvRefresh g \<Rightarrow> (if g = [] \<or> g = vs_generation sv then [] else [InSetGeneration g])
         | SvReset reason \<Rightarrow> [InSnapshot (ve_clock env 0)]))"

text \<open>What is left as it is by every operation that finds its record first.\<close>

lemma find_record_state:
  "fst (find_record env n client sv) = sv \<lparr> vs_state := prune (vs_state sv) (ve_clock env n) \<rparr>"
  by (simp add: find_record_def get_record_def Let_def split: prod.splits)

lemma find_record_split:
  "find_record env n client sv =
     (sv \<lparr> vs_state := prune (vs_state sv) (ve_clock env n) \<rparr>, snd (find_record env n client sv))"
  using find_record_state [of env n client sv] by (metis prod.collapse)

lemma found_state:
  "find_record env n client sv = (sv', found) \<Longrightarrow> sv' = sv \<lparr> vs_state := prune (vs_state sv) (ve_clock env n) \<rparr>"
  using find_record_state [of env n client sv] by simp

lemma find_record_Some:
  "snd (find_record env n client sv) = Some (r, c) \<Longrightarrow>
     jm_get (ss_records (prune (vs_state sv) (ve_clock env n))) (service_key sv client) = Some r
     \<and> jm_get (vs_channels sv) client = Some c \<and> c \<noteq> []"
  by (auto simp: find_record_def get_record_def Let_def split: option.splits if_splits)

lemma unknown_delivery_run:
  "vs_state (fst (unknown_delivery env n client sv)) =
     run (session_step sha) (vs_state sv) (update_found env n client UnknownDelivery None None sv)"
  unfolding unknown_delivery_def update_found_def
  by (subst find_record_split)
     (auto simp: remember_unknown_delivery_def get_record_def Let_def split: option.splits prod.splits)

lemma unknown_delivery_rest:
  "vs_sender (fst (unknown_delivery env n client sv)) = vs_sender sv"
  "vs_generation (fst (unknown_delivery env n client sv)) = vs_generation sv"
  "vs_channels (fst (unknown_delivery env n client sv)) = vs_channels sv"
  by (auto simp: unknown_delivery_def Let_def dest!: found_state split: option.splits prod.splits)

lemma started_run:
  "vs_state (fst (started env sm sv)) = run (session_step sha) (vs_state sv) (session_ops sv (env, SvStarted sm))"
  by (auto simp: started_def update_found_def session_ops_def get_record_def Let_def numeral_2_eq_2
      dest!: found_state split: option.splits prod.splits)

lemma commit_run:
  "vs_state (fst (commit env client m g sv)) = run (session_step sha) (vs_state sv) (session_ops sv (env, SvCommit client m g))"
  unfolding commit_def update_found_def session_ops_def
  by (subst find_record_split)
     (auto simp: get_record_def Let_def case_prod_unfold numeral_2_eq_2 split: option.splits)

text \<open>What an answer leaves of the service beside its state.\<close>

lemma replay_run:
  "vs_state (fst (replay env frame r sv)) = run (session_step sha) (vs_state sv)
     (if ir_status r = UnknownDelivery
      then update_found env 3 (text_or_empty ''client_request_id'' frame) UnknownDelivery None None sv else [])"
  by (cases "ir_status r") (simp_all add: replay_def unknown_delivery_run [of _ _ _ _ sha])

lemma after_delivery_run:
  "vs_state (fst (after_delivery env frame r sv)) = run (session_step sha) (vs_state sv)
     (let unknown = update_found env 3 (text_or_empty ''client_request_id'' frame) UnknownDelivery None None sv in
      case ve_user_message env of
        DeliverRejected \<Rightarrow> [InForget (ir_key r)]
      | DeliverQueued \<Rightarrow> [InUpdate (ir_key r) Queued None None (ve_clock env 3) (ve_clock env 4)]
      | DeliverTrue \<Rightarrow> (if field ''streaming_behavior'' frame = Some (JStr ''steer'') then unknown else [])
      | _ \<Rightarrow> unknown)"
  by (cases "ve_user_message env")
     (simp_all add: after_delivery_def unknown_delivery_run [of _ _ _ _ sha] Let_def)

lemma guarded_cases:
  assumes "\<And>sv' refused. ensure_ready env frame sv = (sv', Some refused) \<Longrightarrow> sv' = sv \<Longrightarrow> P (sv, [], Inr [refused])"
    and "\<And>c. str_field ''channel_id'' frame = Some c \<Longrightarrow> get_channel (vs_state sv) (vs_sender sv) c \<noteq> None \<Longrightarrow>
       (case field ''history_generation'' frame of Some g \<Rightarrow> g = JStr (vs_generation sv) | None \<Rightarrow> True) \<Longrightarrow>
       ensure_ready env frame sv
         = (sv \<lparr> vs_state := fst (touch (vs_state sv) (vs_sender sv) c (ve_clock env 0)) \<rparr>, None) \<Longrightarrow>
       P (handler (sv \<lparr> vs_state := fst (touch (vs_state sv) (vs_sender sv) c (ve_clock env 0)) \<rparr>))"
  shows "P (guarded env frame sv handler)"
proof -
  obtain sv' refused where er: "ensure_ready env frame sv = (sv', refused)" by fastforce
  show ?thesis
  proof (cases refused)
    case (Some f)
    with er have "sv' = sv" by (auto simp: ensure_ready_def Let_def split: option.splits if_splits)
    with er Some assms(1) show ?thesis by (simp add: guarded_def)
  next
    case None
    from er None obtain c where c: "str_field ''channel_id'' frame = Some c"
      "get_channel (vs_state sv) (vs_sender sv) c \<noteq> None"
      "case field ''history_generation'' frame of Some g \<Rightarrow> g = JStr (vs_generation sv) | None \<Rightarrow> True"
      "sv' = sv \<lparr> vs_state := fst (touch (vs_state sv) (vs_sender sv) c (ve_clock env 0)) \<rparr>"
      by (auto simp: ensure_ready_def Let_def split: option.splits if_splits)
    with assms(2) er None show ?thesis by (simp add: guarded_def)
  qed
qed

lemma text_of_str_field: "str_field k j = Some s \<Longrightarrow> text_or_empty k j = s"
  by (simp add: text_or_empty_def)

text \<open>The handlers that touch nothing but the channel and the pager.\<close>

definition plain_handler :: "(service_env \<Rightarrow> json \<Rightarrow> service \<Rightarrow> service_answer) \<Rightarrow> bool" where
  "plain_handler h \<longleftrightarrow> (\<forall>env frame sv. \<exists>f. h env frame sv = guarded env frame sv f
     \<and> (\<forall>sv. vs_state (fst (f sv)) = vs_state sv))"

lemma plain_handlers:
  "plain_handler handle_history" "plain_handler handle_ping" "plain_handler handle_cancel"
  "plain_handler handle_action" "plain_handler require_ready" "plain_handler handle_list_models"
  "plain_handler handle_queued_message_clear"
  unfolding plain_handler_def
  by (intro allI exI conjI, unfold handle_history_def handle_ping_def handle_cancel_def handle_action_def
      require_ready_def handle_list_models_def handle_queued_message_clear_def, rule refl,
      auto split: prod.splits option.splits sum.splits bool.splits)+

lemma plain_handler_state:
  assumes "plain_handler h"
  shows "vs_state (fst (h env frame sv)) = vs_state (fst (ensure_ready env frame sv))"
proof -
  from assms obtain f where "h env frame sv = guarded env frame sv f" "\<And>sv. vs_state (fst (f sv)) = vs_state sv"
    unfolding plain_handler_def by blast
  then show ?thesis by (auto simp: guarded_def split: prod.splits option.splits)
qed

lemma user_message_run:
  assumes "ensure_ready env frame sv = (sv', None)"
  shows "vs_state (fst (handle_user_message env frame sv))
    = run (session_step (ve_sha env)) (vs_state sv') (message_ops env frame sv')"
proof -
  obtain st begun where b: "begin_of env frame sv' = (st, begun)" by fastforce
  then have st: "fst (begin_request (ve_sha env) (vs_state sv')
      \<lparr> rq_sender = vs_sender sv', rq_client = text_or_empty ''client_request_id'' frame,
        rq_payload = idempotency_payload frame \<rparr> (ve_clock env (Suc 0)) (ve_clock env 2)) = st"
    by (simp add: begin_of_def)
  show ?thesis
    using assms b unfolding handle_user_message_def guarded_def message_ops_def Let_def
    by (simp add: st case_prod_unfold replay_run [of _ _ _ _ "ve_sha env"]
        after_delivery_run [of _ _ _ _ "ve_sha env"] split: sum.split begin_result.split delivery.split)
qed

lemma observed_run:
  assumes "ensure_ready env frame sv = (sv', None)"
  shows "vs_state (fst (handle_observed env frame sv))
    = run (session_step sha) (vs_state sv') (observed_ops env frame sv')"
  using assms
  by (auto simp: handle_observed_def guarded_def observed_ops_def get_record_def Let_def split: option.splits)

lemma frame_run:
  "vs_state (fst (handle env frame sv)) = run (session_step (ve_sha env)) (vs_state sv) (frame_ops env frame sv)"
proof -
  let ?t = "text_or_empty ''type'' frame"
  obtain sv' refused where er: "ensure_ready env frame sv = (sv', refused)" by fastforce
  have refused: "sv' = sv" if "refused \<noteq> None"
    using er that by (auto simp: ensure_ready_def Let_def split: option.splits if_splits)
  have touched: "vs_state sv' = fst (touch (vs_state sv) (vs_sender sv) (text_or_empty ''channel_id'' frame) (ve_clock env 0))"
    if "refused = None"
    using er that by (auto simp: ensure_ready_def Let_def text_of_str_field split: option.splits if_splits)
  have guarded_refused: "guarded env frame sv f = (sv', [], Inr [r])"
    if "ensure_ready env frame sv = (sv', Some r)" for f r sv'
    using that by (simp add: guarded_def)
  note plain = plain_handlers [THEN plain_handler_state, of env frame sv]
  consider "?t = ''session_hello''" | "?t = ''pair_request''" | "?t \<notin> set ClientFrameTypes"
    | "?t = ''user_message''" | "?t = ''user_message_observed''"
    | "?t \<in> set ClientFrameTypes" "?t \<notin> {''session_hello'', ''pair_request'', ''user_message'', ''user_message_observed''}"
    by blast
  then show ?thesis
  proof cases
    case 1
    then show ?thesis by (simp add: handle_def ready_def frame_ops_def Let_def split: prod.splits sum.splits)
  next
    case 2
    then show ?thesis by (simp add: handle_def frame_ops_def ClientFrameTypes_def)
  next
    case 3
    then have "handle env frame sv = (sv, [], Inl ''unreachable'')"
      by (auto simp: handle_def ClientFrameTypes_def Let_def)
    with 3 show ?thesis by (auto simp: frame_ops_def ClientFrameTypes_def Let_def)
  next
    case 4
    then show ?thesis
      using user_message_run er refused touched guarded_refused
      by (cases refused) (simp_all add: handle_def frame_ops_def ClientFrameTypes_def handle_user_message_def)
  next
    case 5
    then show ?thesis
      using observed_run [of env frame sv _ "ve_sha env"] er refused touched guarded_refused
      by (cases refused) (simp_all add: handle_def frame_ops_def ClientFrameTypes_def handle_observed_def)
  next
    case 6
    then have "vs_state (fst (handle env frame sv)) = vs_state sv'"
      using plain er by (auto simp: handle_def ClientFrameTypes_def Let_def)
    with 6 er refused touched show ?thesis
      by (cases refused) (auto simp: frame_ops_def Let_def)
  qed
qed

lemma service_step_run:
  "vs_state (service_step sv (env, i)) = run (session_step (ve_sha env)) (vs_state sv) (session_ops sv (env, i))"
proof (cases i)
  case (SvCanDrain client)
  then show ?thesis
    by (auto simp: service_step_def session_ops_def can_drain_def get_record_def Let_def
        dest!: found_state split: prod.splits)
next
  case (SvReset reason)
  then show ?thesis
    by (auto simp: service_step_def session_ops_def service_reset_def Let_def split: prod.splits)
next
  case (SvUnknown client)
  then show ?thesis
    using unknown_delivery_run by (simp add: service_step_def session_ops_def)
next
  case (SvRefresh g)
  then show ?thesis by (simp add: service_step_def session_ops_def refresh_generation_def)
qed (simp_all add: service_step_def started_run [of _ _ _ "ve_sha env"] commit_run [of _ _ _ _ _ "ve_sha env"],
     simp add: session_ops_def frame_run)


section \<open>The handshake comes first\<close>

definition identity :: "service \<Rightarrow> string \<times> string" where
  "identity sv = (vs_sender sv, vs_generation sv)"

lemma identity_update [simp]:
  "identity (sv \<lparr> vs_state := st \<rparr>) = identity sv" "identity (sv \<lparr> vs_channels := m \<rparr>) = identity sv"
  "identity (sv \<lparr> vs_pager := pg \<rparr>) = identity sv"
  by (simp_all add: identity_def)

lemma found_identity: "find_record env n client sv = (sv', found) \<Longrightarrow> identity sv' = identity sv"
  by (auto dest: found_state)

lemma unknown_delivery_identity [simp]: "identity (fst (unknown_delivery env n client sv)) = identity sv"
  by (simp add: identity_def unknown_delivery_rest)

lemma guarded_identity:
  "(\<And>sv. identity (fst (f sv)) = identity sv) \<Longrightarrow> identity (fst (guarded env frame sv f)) = identity sv"
  by (rule guarded_cases) simp_all

lemma after_delivery_identity [simp]: "identity (fst (after_delivery env frame r sv)) = identity sv"
  by (cases "ve_user_message env") (simp_all add: after_delivery_def Let_def)

lemma replay_identity [simp]: "identity (fst (replay env frame r sv)) = identity sv"
  by (cases "ir_status r") (simp_all add: replay_def)

lemma handle_identity: "identity (fst (handle env frame sv)) = identity sv"
proof -
  have "identity (fst (handle_user_message env frame sv)) = identity sv"
    unfolding handle_user_message_def
    by (rule guarded_identity) (simp add: Let_def case_prod_unfold split: sum.split begin_result.split)
  moreover have "identity (fst (handle_observed env frame sv)) = identity sv"
    unfolding handle_observed_def
    by (rule guarded_identity) (simp add: Let_def case_prod_unfold split: option.split)
  moreover have "identity (fst (handle_history env frame sv)) = identity sv"
    "identity (fst (handle_ping env frame sv)) = identity sv"
    "identity (fst (handle_cancel env frame sv)) = identity sv"
    "identity (fst (handle_action env frame sv)) = identity sv"
    "identity (fst (require_ready env frame sv)) = identity sv"
    "identity (fst (handle_list_models env frame sv)) = identity sv"
    "identity (fst (handle_queued_message_clear env frame sv)) = identity sv"
    unfolding handle_history_def handle_ping_def handle_cancel_def handle_action_def require_ready_def
      handle_list_models_def handle_queued_message_clear_def
    by (rule guarded_identity, auto split: prod.splits option.splits sum.splits bool.splits)+
  moreover have "identity (fst (ready env frame sv)) = identity sv"
    by (simp add: ready_def Let_def case_prod_unfold split: sum.split)
  ultimately show ?thesis by (simp add: handle_def Let_def)
qed

lemma service_step_identity:
  "identity (service_step sv (env, i)) =
     (case i of SvRefresh g \<Rightarrow> (vs_sender sv, if g = [] then vs_generation sv else g) | _ \<Rightarrow> identity sv)"
proof (cases i)
  case (SvRefresh g)
  then show ?thesis by (simp add: service_step_def refresh_generation_def identity_def)
qed (auto simp: service_step_def handle_identity started_def commit_def can_drain_def service_reset_def
       Let_def case_prod_unfold find_record_state split: option.split)

lemma service_step_sender: "vs_sender (service_step sv (env, i)) = vs_sender sv"
  using service_step_identity [of sv env i] by (auto simp: identity_def split: service_input.splits)

lemma run_sender: "vs_sender (run service_step sv eis) = vs_sender sv"
  by (induction eis arbitrary: sv) (auto simp: service_step_sender)

definition greets :: "string \<Rightarrow> service_input \<Rightarrow> bool" where
  "greets c i =
     (case i of SvHandle frame \<Rightarrow> text_or_empty ''type'' frame = ''session_hello''
                                \<and> text_or_empty ''channel_id'' frame = c
      | _ \<Rightarrow> False)"

lemma channel_key_same: "channel_key s c = channel_key s c' \<longleftrightarrow> c = c'"
  by (simp add: channel_key_def)

lemma session_step_channel:
  assumes "get_channel (session_step sha st i) s c \<noteq> None"
    and "\<And>s' c' t. i = InHello s' c' t \<Longrightarrow> s' = s"
  shows "get_channel st s c \<noteq> None \<or> (\<exists>t. i = InHello s c t)"
proof (cases i)
  case (InHello s' c' t)
  with assms show ?thesis
    by (auto simp: hello_def get_channel_def Let_def channel_key_same split: sum.splits if_splits)
next
  case (InRemoveOwner s')
  with assms(1) show ?thesis
    by (auto simp: remove_owner_def get_channel_def jm_get_None_iff)
next
  case (InTouch s' c' t)
  with assms(1) show ?thesis
    by (auto simp: touch_def get_channel_def Let_def split: option.splits if_splits)
qed (use assms(1) in \<open>auto simp: get_channel_def set_generation_def remove_channel_def begin_request_def
      update_record_def get_record_def forget_def snapshot_def Let_def split: sum.splits option.splits if_splits\<close>)

lemma session_run_channel:
  assumes "get_channel (run (session_step sha) st ops) s c \<noteq> None"
    and "\<And>s' c' t. InHello s' c' t \<in> set ops \<Longrightarrow> s' = s"
  shows "get_channel st s c \<noteq> None \<or> (\<exists>t. InHello s c t \<in> set ops)"
  using assms
proof (induction ops arbitrary: st)
  case (Cons i ops)
  have first: "i = InHello s' c' t \<Longrightarrow> s' = s" and rest: "InHello s' c' t \<in> set ops \<Longrightarrow> s' = s" for s' c' t
    using Cons.prems(2) [of s' c' t] by simp_all
  have "get_channel (session_step sha st i) s c \<noteq> None \<or> (\<exists>t. InHello s c t \<in> set ops)"
    using Cons.prems(1) rest by (intro Cons.IH) simp_all
  moreover have "get_channel st s c \<noteq> None \<or> (\<exists>t. i = InHello s c t)"
    if "get_channel (session_step sha st i) s c \<noteq> None"
    using that first by (intro session_step_channel) simp_all
  ultimately show ?case by (metis list.set_intros)
qed simp

lemma update_found_no_hello: "InHello s c t \<notin> set (update_found env n client status m g sv)"
  by (simp add: update_found_def split: option.split)

lemma message_ops_no_hello: "InHello s c t \<notin> set (message_ops env frame sv)"
  by (simp add: message_ops_def Let_def case_prod_unfold update_found_no_hello
      split: sum.split begin_result.split delivery.split)

lemma observed_ops_no_hello: "InHello s c t \<notin> set (observed_ops env frame sv)"
  by (simp add: observed_ops_def Let_def split: option.split)

lemma frame_ops_hello:
  "InHello s c t \<in> set (frame_ops env frame sv) \<Longrightarrow> s = vs_sender sv \<and> greets c (SvHandle frame)"
  by (auto simp: frame_ops_def greets_def Let_def message_ops_no_hello observed_ops_no_hello
      split: if_splits prod.splits option.splits)

lemma session_ops_hello:
  "InHello s c t \<in> set (session_ops sv (env, i)) \<Longrightarrow> s = vs_sender sv \<and> greets c i"
  by (cases i) (auto simp: session_ops_def update_found_no_hello dest: frame_ops_hello split: option.splits if_splits)

lemma run_greeted:
  assumes "get_channel (vs_state (run service_step sv ops)) (vs_sender sv) c \<noteq> None"
  shows "get_channel (vs_state sv) (vs_sender sv) c \<noteq> None \<or> (\<exists>ei \<in> set ops. greets c (snd ei))"
  using assms
proof (induction ops arbitrary: sv)
  case (Cons ei ops)
  obtain env i where ei: "ei = (env, i)" by (cases ei)
  from Cons.IH [of "service_step sv ei"] Cons.prems
  have "get_channel (vs_state (service_step sv (env, i))) (vs_sender sv) c \<noteq> None \<or> (\<exists>ei \<in> set ops. greets c (snd ei))"
    by (simp add: ei service_step_sender)
  then show ?case
    using session_run_channel [of "ve_sha env" "vs_state sv" "session_ops sv (env, i)" "vs_sender sv" c]
      session_ops_hello [of _ _ _ sv env i]
    by (auto simp: ei service_step_run)
qed simp

text \<open>
  C28: No frame but \<open>session_hello\<close> is served before it. After any sequence of operations of a
  new service in which channel \<open>c\<close> sent no \<open>session_hello\<close>, whatever frame arrives on \<open>c\<close> is
  answered with the error "invalid_channel", calls no callback and leaves the service as it
  was; a frame of the pairing handshake is refused in the same way with its own code.
\<close>

theorem served_after_hello:
  assumes "new_service sender g session_id = Inr sv0"
    and "\<forall>ei \<in> set ops. \<not> greets c (snd ei)"
    and "str_field ''channel_id'' frame = Some c"
    and "text_or_empty ''type'' frame \<in> set ClientFrameTypes - {''session_hello'', ''pair_request''}"
  shows "handle env frame (run service_step sv0 ops) = (run service_step sv0 ops, [],
     Inr [service_error (reply_id frame) ''invalid_channel'' ''session_hello required'' (Some c)])"
proof -
  let ?sv = "run service_step sv0 ops"
  have "vs_sender ?sv = vs_sender sv0" by (rule run_sender)
  moreover have "get_channel (vs_state sv0) s c = None" for s
    using assms(1) by (auto simp: new_service_def new_session_state_def get_channel_def Let_def split: if_splits)
  ultimately have "get_channel (vs_state ?sv) (vs_sender ?sv) c = None"
    using run_greeted [of sv0 ops c] assms(2) by (auto simp del: not_None_eq)
  then have "guarded env frame ?sv f = (?sv, [],
     Inr [service_error (reply_id frame) ''invalid_channel'' ''session_hello required'' (Some c)])" for f
    using assms(3) by (simp add: guarded_def ensure_ready_def)
  then show ?thesis
    using assms(4)
    by (auto simp: ClientFrameTypes_def handle_def handle_history_def handle_ping_def handle_cancel_def
        handle_action_def require_ready_def handle_list_models_def handle_queued_message_clear_def
        handle_user_message_def handle_observed_def)
qed

section \<open>The invariant of a service\<close>

definition service_inv :: "service \<Rightarrow> bool" where
  "service_inv sv \<longleftrightarrow> session_inv (vs_state sv) \<and> ss_generation (vs_state sv) = vs_generation sv"

definition clock_sorted :: "service_env \<Rightarrow> bool" where
  "clock_sorted env = sorted (map (ve_clock env) [0..<6])"

text \<open>All calls use one digest, and the clock does not go back, within a call or between calls.\<close>

fun service_adm :: "(string \<Rightarrow> string) \<Rightarrow> service \<Rightarrow> service_env \<times> service_input \<Rightarrow> bool" where
  "service_adm sha sv (env, i) =
     (ve_sha env = sha \<and> touched_by (vs_state sv) (ve_clock env 0) \<and> clock_sorted env)"

lemma clock_facts:
  "clock_sorted env \<Longrightarrow> ve_clock env 0 \<le> ve_clock env 1 \<and> ve_clock env 1 \<le> ve_clock env 2
     \<and> ve_clock env 2 \<le> ve_clock env 3 \<and> ve_clock env 3 \<le> ve_clock env 4 \<and> ve_clock env 4 \<le> ve_clock env 5"
  by (simp add: clock_sorted_def upt_rec numeral_eq_Suc)

primrec ops_times :: "session_input list \<Rightarrow> int list" where
  "ops_times [] = []"
| "ops_times (op # ops) = op_times op @ ops_times ops"

lemma ops_times_concat: "concat (map op_times ops) = ops_times ops"
  by (induction ops) simp_all

lemma update_found_times:
  "ops_times (update_found env n client status m g sv) = []
   \<or> ops_times (update_found env n client status m g sv) = [ve_clock env (n + 1), ve_clock env (n + 2)]"
  by (auto simp: update_found_def split: option.splits)

lemma update_found_times':
  "ops_times (update_found env 0 client status m g sv) \<in> {[], [ve_clock env 1, ve_clock env 2]}"
  "ops_times (update_found env 3 client status m g sv) \<in> {[], [ve_clock env 4, ve_clock env 5]}"
  using update_found_times [of env 0 client status m g sv] update_found_times [of env 3 client status m g sv]
  by (auto simp: eval_nat_numeral)

lemma message_ops_times:
  "ops_times (message_ops env frame sv) \<in> (\<lambda>ts. ve_clock env 1 # ve_clock env 2 # ts) `
     {[], [ve_clock env 3, ve_clock env 4], [ve_clock env 4, ve_clock env 5]}"
proof -
  have u: "ops_times (update_found env 3 client status m g sv) = []
      \<or> ops_times (update_found env 3 client status m g sv) = [ve_clock env 3, ve_clock env 4]
      \<or> ops_times (update_found env 3 client status m g sv) = [ve_clock env 4, ve_clock env 5]"
    for client status m g sv
    using update_found_times'(2) [of env client status m g sv] by auto
  show ?thesis
    by (simp add: message_ops_def Let_def case_prod_unfold u split: sum.split begin_result.split delivery.split)
qed

lemma session_ops_in_order:
  assumes "clock_sorted env"
  shows "sorted (ve_clock env 0 # ops_times (session_ops sv (env, i)))"
proof -
  note c = clock_facts [OF assms]
  have u: "sorted (ve_clock env 0 # ops_times (update_found env 0 client status m g sv))"
    for client status m g sv
    using update_found_times'(1) [of env client status m g sv] c by auto
  have m: "sorted (ve_clock env 0 # ops_times (message_ops env frame sv))" for frame sv
    using message_ops_times [of env frame sv] c by auto
  have o: "ops_times (observed_ops env frame sv) = []" for frame sv
    by (simp add: observed_ops_def Let_def split: option.split)
  have f: "sorted (ve_clock env 0 # ops_times (frame_ops env frame sv))" for frame
    using m o by (auto simp: frame_ops_def Let_def split: prod.split option.split)
  show ?thesis
    using u f by (cases i) (auto simp: session_ops_def split: option.split)
qed

lemma session_run_generation:
  assumes "\<forall>op \<in> set ops. \<forall>g. op \<noteq> InSetGeneration g"
  shows "ss_generation (run (session_step sha) st ops) = ss_generation st"
  using assms
proof (induction ops arbitrary: st)
  case (Cons op ops)
  have "ss_generation (session_step sha st op) = ss_generation st"
    using Cons.prems
    by (cases op) (auto simp: hello_def touch_def remove_channel_def remove_owner_def
        begin_request_def update_record_def get_record_def forget_def snapshot_def Let_def
        split: sum.splits option.splits)
  with Cons show ?case by simp
qed simp

lemma session_ops_set_generation:
  "InSetGeneration g \<in> set (session_ops sv (env, i)) \<Longrightarrow> i = SvRefresh g \<and> g \<noteq> []"
proof -
  have "InSetGeneration g \<notin> set (update_found env n client status m g' sv)" for n client status m g' sv
    by (simp add: update_found_def split: option.split)
  then have "InSetGeneration g \<notin> set (message_ops env frame sv)" for frame sv
    by (simp add: message_ops_def Let_def case_prod_unfold split: sum.split begin_result.split delivery.split)
  moreover have "InSetGeneration g \<notin> set (observed_ops env frame sv)" for frame sv
    by (simp add: observed_ops_def Let_def split: option.split)
  ultimately have "InSetGeneration g \<notin> set (frame_ops env frame sv)" for frame
    by (auto simp: frame_ops_def Let_def split: prod.splits option.splits)
  then show "InSetGeneration g \<in> set (session_ops sv (env, i)) \<Longrightarrow> i = SvRefresh g \<and> g \<noteq> []"
    using \<open>\<And>sv n m g' client status. InSetGeneration g \<notin> set (update_found env n client status m g' sv)\<close>
    by (cases i) (auto simp: session_ops_def split: option.splits if_splits)
qed

lemma service_step_generation:
  assumes "ss_generation (vs_state sv) = vs_generation sv"
  shows "ss_generation (vs_state (service_step sv (env, i))) = vs_generation (service_step sv (env, i))"
proof (cases "\<exists>g. i = SvRefresh g")
  case True
  with assms show ?thesis
    by (auto simp: service_step_def refresh_generation_def set_generation_def)
next
  case False
  then have "ss_generation (vs_state (service_step sv (env, i))) = ss_generation (vs_state sv)"
    unfolding service_step_run by (intro session_run_generation) (auto dest: session_ops_set_generation)
  with False assms service_step_identity [of sv env i] show ?thesis
    by (cases i) (auto simp: identity_def)
qed

lemma service_ops_ok:
  assumes "service_adm sha sv (env, i)"
  shows "trace_ok (session_step sha) session_adm (vs_state sv) (session_ops sv (env, i))"
  using assms trace_ok_in_order [OF _ session_ops_in_order [of env sv i, folded ops_times_concat]] by simp

lemma service_inv_step: "service_inv sv \<Longrightarrow> service_adm sha sv ei \<Longrightarrow> service_inv (service_step sv ei)"
  using service_ops_ok session.run_keeps service_step_generation service_step_run
  by (cases ei) (simp add: service_inv_def, metis service_adm.simps)

interpretation service: invariant_machine service_step "service_adm sha" service_inv for sha
  by unfold_locales (rule service_inv_step)

section \<open>A user message is handed over once\<close>

text \<open>The operations of a run, and the state they lead to.\<close>

primrec run_ops :: "service \<Rightarrow> (service_env \<times> service_input) list \<Rightarrow> session_input list" where
  "run_ops sv [] = []"
| "run_ops sv (ei # eis) = session_ops sv ei @ run_ops (service_step sv ei) eis"

lemma run_ops_append: "run_ops sv (xs @ ys) = run_ops sv xs @ run_ops (run service_step sv xs) ys"
  by (induction xs arbitrary: sv) simp_all

lemma run_ops_state:
  assumes "trace_ok service_step (service_adm sha) sv eis"
  shows "vs_state (run service_step sv eis) = run (session_step sha) (vs_state sv) (run_ops sv eis)"
    and "trace_ok (session_step sha) session_adm (vs_state sv) (run_ops sv eis)"
proof -
  show "vs_state (run service_step sv eis) = run (session_step sha) (vs_state sv) (run_ops sv eis)"
    using assms
  proof (induction eis arbitrary: sv)
    case (Cons ei eis)
    obtain env i where ei: "ei = (env, i)" by (cases ei)
    with Cons.prems have "ve_sha env = sha" by simp
    with Cons ei show ?case by (simp add: run_append service_step_run)
  qed simp
  show "trace_ok (session_step sha) session_adm (vs_state sv) (run_ops sv eis)"
    using assms
  proof (induction eis arbitrary: sv)
    case (Cons ei eis)
    obtain env i where ei: "ei = (env, i)" by (cases ei)
    with Cons.prems have "ve_sha env = sha" by simp
    with Cons.IH [of "service_step sv ei"] Cons.prems ei service_ops_ok [of sha sv env i]
      service_step_run [of sv env i] show ?case
      by (simp add: trace_ok_append)
  qed simp
qed

text \<open>The inputs that do not end the retention of the message \<open>client\<close> on purpose.\<close>

definition retains :: "string \<Rightarrow> string \<Rightarrow> service_input \<Rightarrow> bool" where
  "retains gen client i =
     (case i of
        SvRefresh g \<Rightarrow> g = [] \<or> g = gen
      | SvHandle frame \<Rightarrow> \<not> (text_or_empty ''type'' frame = ''user_message_observed''
                              \<and> text_or_empty ''client_request_id'' frame = client)
      | _ \<Rightarrow> True)"

lemma ensure_ready_touched:
  "ensure_ready env frame sv = (sv', None) \<Longrightarrow>
     \<exists>c. sv' = sv \<lparr> vs_state := fst (touch (vs_state sv) (vs_sender sv) c (ve_clock env 0)) \<rparr>
       \<and> text_or_empty ''channel_id'' frame = c"
  by (auto simp: ensure_ready_def Let_def text_of_str_field split: option.splits if_splits)

lemma touch_rest:
  "ss_records (fst (touch st s c t)) = ss_records st" "ss_ttl (fst (touch st s c t)) = ss_ttl st"
  "ss_generation (fst (touch st s c t)) = ss_generation st" "ss_max (fst (touch st s c t)) = ss_max st"
  by (simp_all add: touch_def Let_def split: option.split)

lemma begin_new_key:
  "begin_request sha st rq t0 t1 = (st1, Inr (BeginNew r)) \<Longrightarrow>
     ir_key r = record_key st (rq_sender rq) (rq_client rq)"
  using begin_new_ids begin_new_absent begin_request_fresh [of rq st t0 sha t1]
  by (fastforce simp: Let_def)

text \<open>Operations that keep the record \<open>k\<close> and put at most \<open>n\<close> records behind it.\<close>

definition quiet :: "string \<Rightarrow> string \<Rightarrow> string \<Rightarrow> int \<Rightarrow> int \<Rightarrow> nat \<Rightarrow> session_input list \<Rightarrow> bool" where
  "quiet gen s k tref ttl n ops \<longleftrightarrow>
     (\<forall>op\<in>set ops. keeps gen s k tref ttl op) \<and> length (filter (displaces gen k) ops) \<le> n"

lemma quiet_Nil [simp]: "quiet gen s k tref ttl n []"
  by (simp add: quiet_def)

lemma quiet_Cons: "keeps gen s k tref ttl op \<Longrightarrow> quiet gen s k tref ttl n ops \<Longrightarrow> quiet gen s k tref ttl (Suc n) (op # ops)"
  by (auto simp: quiet_def)

lemma quiet_still:
  "keeps gen s k tref ttl op \<Longrightarrow> \<not> displaces gen k op \<Longrightarrow> quiet gen s k tref ttl n ops \<Longrightarrow>
   quiet gen s k tref ttl n (op # ops)"
  by (auto simp: quiet_def)

lemma quiet_append:
  "quiet gen s k tref ttl n xs \<Longrightarrow> quiet gen s k tref ttl m ys \<Longrightarrow> quiet gen s k tref ttl (n + m) (xs @ ys)"
  by (auto simp: quiet_def)

lemma quiet_mono: "quiet gen s k tref ttl n ops \<Longrightarrow> n \<le> m \<Longrightarrow> quiet gen s k tref ttl m ops"
  by (auto simp: quiet_def)

lemma update_found_quiet:
  assumes "clock_sorted env" and "n \<le> 3" and "ve_clock env 5 - tref < ttl"
  shows "quiet gen s k tref ttl 1 (update_found env n client status m g sv)"
proof -
  have "ve_clock env j \<le> ve_clock env 5" if "j \<le> 4" for j
  proof -
    have "j \<in> {0, 1, 2, 3, 4}" using that by auto
    with clock_facts [OF assms(1)] show ?thesis by auto
  qed
  from this [of n] this [of "Suc n"] assms(2,3) show ?thesis
    by (auto simp: update_found_def quiet_def split: option.split)
qed

lemma message_ops_quiet:
  assumes inv: "session_inv (vs_state sv)" and gen: "ss_generation (vs_state sv) = vs_generation sv"
    and clk: "clock_sorted env" and ttl: "ve_clock env 5 - tref < ttl"
    and live: "live_record (vs_state sv) (service_key sv client) (ve_clock env 1) = Some old"
  shows "quiet gen s (service_key sv client) tref ttl 2 (message_ops env frame sv)"
proof -
  let ?client = "text_or_empty ''client_request_id'' frame"
  let ?k = "service_key sv client"
  have times: "ve_clock env 1 - tref < ttl" "ve_clock env 3 - tref < ttl"
    using clock_facts [OF clk] ttl by linarith+
  note u = update_found_quiet [OF clk _ ttl, of 3 gen s ?k]
  have forget: "ir_key r \<noteq> ?k" if new: "snd (begin_of env frame sv) = Inr (BeginNew r)" for r
  proof
    assume k: "ir_key r = ?k"
    obtain st1 where b: "begin_of env frame sv = (st1, Inr (BeginNew r))"
      using new by (cases "begin_of env frame sv") simp
    then have key: "ir_key r = record_key (vs_state sv) (vs_sender sv) ?client"
      using begin_new_key by (fastforce simp: begin_of_def)
    with k gen have "?client = client" by (simp add: record_key_def service_key_def)
    moreover have "valid_id (vs_sender sv) \<and> valid_id ?client"
      using b begin_new_ids by (fastforce simp: begin_of_def)
    moreover from key k have "record_key (vs_state sv) (vs_sender sv) ?client = ?k" by simp
    ultimately show False
      using b begin_live [OF inv, of "\<lparr> rq_sender = vs_sender sv, rq_client = ?client,
          rq_payload = idempotency_payload frame \<rparr>" "ve_clock env 1" old "ve_sha env" "ve_clock env 2"] live
      by (auto simp: begin_of_def split: if_splits)
  qed
  then show ?thesis
    using u times unfolding message_ops_def Let_def case_prod_unfold numeral_2_eq_2
    by (intro quiet_Cons)
       (auto intro: quiet_Cons quiet_still split: sum.split begin_result.split delivery.split simp del: displaces.simps)
qed

lemma pruned_record_key:
  assumes "session_inv st" and "jm_get (ss_records (prune st t)) k = Some r"
  shows "ir_key r = k"
proof -
  have "(k, r) \<in> set (ss_records (prune st t))" using assms(2) by (rule jm_get_SomeD)
  then have "(k, r) \<in> set (ss_records st)" using set_prune by blast
  with assms(1) show ?thesis by (auto simp: session_inv_def record_wf_def)
qed

lemma observed_ops_quiet:
  assumes inv: "session_inv (vs_state sv)" and "text_or_empty ''client_request_id'' frame \<noteq> client"
    and "ve_clock env 1 - tref < ttl"
  shows "quiet gen s (service_key sv client) tref ttl 2 (observed_ops env frame sv)"
  using assms(2,3) pruned_record_key [OF inv, of "ve_clock env 1" "service_key sv (text_or_empty ''client_request_id'' frame)"]
  unfolding observed_ops_def Let_def numeral_2_eq_2
  by (intro quiet_Cons) (auto simp: get_record_def Let_def service_key_def intro!: quiet_Cons split: option.split)

lemma session_ops_quiet:
  assumes inv: "service_inv sv" and clk: "clock_sorted env" and ttl: "ve_clock env 5 - tref < ttl"
    and live: "live_record (vs_state sv) (service_key sv client) (ve_clock env 1) = Some old"
    and ret: "retains (vs_generation sv) client i"
  shows "quiet (vs_generation sv) (vs_sender sv) (service_key sv client) tref ttl 2 (session_ops sv (env, i))"
proof -
  let ?Q = "quiet (vs_generation sv) (vs_sender sv) (service_key sv client) tref ttl"
  have times: "ve_clock env 0 - tref < ttl" "ve_clock env 1 - tref < ttl"
    using clock_facts [OF clk] ttl by linarith+
  have found: "?Q 2 (update_found env 0 client' status m g sv)" for client' status m g
    using update_found_quiet [OF clk _ ttl, of 0] by (rule quiet_mono) simp_all
  have frames: "?Q 2 (frame_ops env frame sv)"
    if frame: "\<not> (text_or_empty ''type'' frame = ''user_message_observed'' \<and> text_or_empty ''client_request_id'' frame = client)"
    for frame
  proof (cases "snd (ensure_ready env frame sv)")
    case None
    let ?sv = "fst (ensure_ready env frame sv)"
    from None obtain c where sv': "?sv = sv \<lparr> vs_state := fst (touch (vs_state sv) (vs_sender sv) c (ve_clock env 0)) \<rparr>"
      using ensure_ready_touched [of env frame sv ?sv] by (metis prod.collapse)
    have inv': "session_inv (vs_state ?sv)" "ss_generation (vs_state ?sv) = vs_generation ?sv"
      using inv by (simp_all add: service_inv_def sv' touch_inv touch_rest)
    have live': "live_record (vs_state ?sv) (service_key ?sv client) (ve_clock env 1) = Some old"
      using live by (simp add: live_record_def sv' touch_rest service_key_def cong: option.case_cong)
    have key: "service_key ?sv client = service_key sv client" by (simp add: sv' service_key_def)
    have "?Q 2 (message_ops env frame ?sv)"
      using message_ops_quiet [OF inv' clk ttl live'] by (simp add: key)
    moreover have "?Q 2 (observed_ops env frame ?sv)" if "text_or_empty ''client_request_id'' frame \<noteq> client"
      using observed_ops_quiet [OF inv'(1) that times(2)] by (simp add: key)
    ultimately show ?thesis
      using None frame by (auto simp: frame_ops_def Let_def case_prod_unfold intro!: quiet_still)
  next
    case (Some r)
    then show ?thesis
      by (auto simp: frame_ops_def Let_def case_prod_unfold intro!: quiet_still)
  qed
  show ?thesis
    using found frames ret times
    by (cases i) (auto simp: session_ops_def retains_def intro!: quiet_still split: option.split)
qed

lemma update_found_same:
  assumes "clock_sorted env" and "ve_clock env 5 - tref < ttl" and "session_inv (vs_state sv)"
  shows "quiet gen s (service_key sv client) tref ttl 0 (update_found env 3 client status m g sv)"
proof -
  have "ve_clock env 3 - tref < ttl" "ve_clock env 4 - tref < ttl"
    using clock_facts [OF assms(1)] assms(2) by linarith+
  moreover have "ir_key r = service_key sv client" if "snd (find_record env 3 client sv) = Some (r, c)" for r c
    using find_record_Some [OF that] pruned_record_key [OF assms(3)] by blast
  ultimately show ?thesis
    unfolding update_found_def by (auto intro!: quiet_still split: option.split)
qed

text \<open>
  What is known of a service after it handed a message over: the session state in which the
  message was begun, and that the operations since then keep its record.
\<close>

lemma handle_effect:
  assumes "handle env frame sv = (sv1, [CallUserMessage frame co], out)"
  obtains sv' st r where "text_or_empty ''type'' frame = ''user_message''"
    "ensure_ready env frame sv = (sv', None)" "begin_of env frame sv' = (st, Inr (BeginNew r))"
proof -
  have no: "fst (snd (handle_history env frame sv)) = []" "fst (snd (handle_ping env frame sv)) = []"
    "fst (snd (handle_observed env frame sv)) = []" "fst (snd (require_ready env frame sv)) = []"
    "fst (snd (handle_cancel env frame sv)) \<noteq> [CallUserMessage frame co]"
    "fst (snd (handle_action env frame sv)) \<noteq> [CallUserMessage frame co]"
    "fst (snd (handle_list_models env frame sv)) \<noteq> [CallUserMessage frame co]"
    "fst (snd (handle_queued_message_clear env frame sv)) \<noteq> [CallUserMessage frame co]"
    unfolding handle_history_def handle_ping_def handle_observed_def require_ready_def handle_cancel_def
      handle_action_def handle_list_models_def handle_queued_message_clear_def
    by (rule guarded_cases;
        auto simp: Let_def case_prod_unfold split: option.splits sum.splits bool.splits)+
  have "fst (snd (ready env frame sv)) = []"
    by (simp add: ready_def Let_def case_prod_unfold split: sum.split)
  with no assms have ty: "text_or_empty ''type'' frame = ''user_message''"
    by (auto simp: handle_def Let_def split: if_splits)
  with assms have um: "handle_user_message env frame sv = (sv1, [CallUserMessage frame co], out)"
    by (simp add: handle_def)
  obtain sv' refused where er: "ensure_ready env frame sv = (sv', refused)" by fastforce
  obtain st begun where b: "begin_of env frame sv' = (st, begun)" by fastforce
  from um er b have "refused = None \<and> (\<exists>r. begun = Inr (BeginNew r))"
    by (auto simp: handle_user_message_def guarded_def Let_def split: option.splits sum.splits begin_result.splits prod.splits)
  with that ty er b show thesis by blast
qed

lemma handed_over:
  assumes inv: "service_inv sv" and adm: "service_adm sha sv (env, SvHandle frame)"
    and out: "handle env frame sv = (sv1, [CallUserMessage frame co], result)"
    and kept: "ve_user_message env \<noteq> DeliverRejected"
    and ttl: "ve_clock env 5 - ve_clock env 2 < ss_ttl (vs_state sv)"
  obtains st r rest st1 where
    "session_inv st" "ss_generation st = vs_generation sv" "ss_max st = ss_max (vs_state sv)"
    "ss_ttl st = ss_ttl (vs_state sv)"
    "begin_request sha st \<lparr> rq_sender = vs_sender sv, rq_client = text_or_empty ''client_request_id'' frame,
       rq_payload = idempotency_payload frame \<rparr> (ve_clock env 1) (ve_clock env 2) = (st1, Inr (BeginNew r))"
    "clock_ok st (ve_clock env 1) (ve_clock env 2)" "ir_key r = service_key sv (text_or_empty ''client_request_id'' frame)"
    "vs_state sv1 = run (session_step sha) st1 rest" "trace_ok (session_step sha) session_adm st1 rest"
    "quiet (vs_generation sv) (vs_sender sv) (ir_key r) (ve_clock env 2) (ss_ttl (vs_state sv)) 0 rest"
proof -
  let ?client = "text_or_empty ''client_request_id'' frame"
  obtain sv' st1 r where ty: "text_or_empty ''type'' frame = ''user_message''"
    and er: "ensure_ready env frame sv = (sv', None)" and b: "begin_of env frame sv' = (st1, Inr (BeginNew r))"
    by (rule handle_effect [OF out])
  obtain c where sv': "sv' = sv \<lparr> vs_state := fst (touch (vs_state sv) (vs_sender sv) c (ve_clock env 0)) \<rparr>"
    and c: "text_or_empty ''channel_id'' frame = c"
    using ensure_ready_touched [OF er] by blast
  let ?rq = "\<lparr> rq_sender = vs_sender sv, rq_client = ?client, rq_payload = idempotency_payload frame \<rparr>"
  let ?st = "vs_state sv'"
  have sha: "ve_sha env = sha" and clk: "clock_sorted env" using adm by simp_all
  have st: "session_inv ?st" "ss_generation ?st = vs_generation sv" "ss_max ?st = ss_max (vs_state sv)"
    "ss_ttl ?st = ss_ttl (vs_state sv)"
    using inv by (simp_all add: sv' touch_inv touch_rest service_inv_def)
  have begun: "begin_request sha ?st ?rq (ve_clock env 1) (ve_clock env 2) = (st1, Inr (BeginNew r))"
    using b sha by (simp add: begin_of_def sv')
  have key: "ir_key r = service_key sv ?client"
    using begin_new_key [OF begun] st(2) by (simp add: record_key_def service_key_def)
  have same: "vs_sender sv' = vs_sender sv" by (simp add: sv')
  obtain rest where ops: "message_ops env frame sv' = InBegin ?rq (ve_clock env 1) (ve_clock env 2) # rest"
    using same by (simp add: message_ops_def b Let_def)
  have "session_ops sv (env, SvHandle frame) = InTouch (vs_sender sv) (text_or_empty ''channel_id'' frame) (ve_clock env 0)
      # message_ops env frame sv'"
    by (simp add: session_ops_def frame_ops_def ty er ClientFrameTypes_def)
  moreover have "session_step sha (vs_state sv) (InTouch (vs_sender sv) (text_or_empty ''channel_id'' frame) (ve_clock env 0)) = ?st"
    by (simp add: sv' c)
  ultimately have "trace_ok (session_step sha) session_adm ?st (message_ops env frame sv')"
    using service_ops_ok [OF adm] by (simp del: session_step.simps)
  then have "clock_ok ?st (ve_clock env 1) (ve_clock env 2)" "trace_ok (session_step sha) session_adm st1 rest"
    using begun by (simp_all add: ops)
  note tr = this
  have inv1: "session_inv st1" using begin_request_inv [OF st(1) tr(1), of sha ?rq] begun by simp
  have run: "vs_state sv1 = run (session_step sha) st1 rest"
    using user_message_run [OF er] out ty begun by (simp add: handle_def ops sha)
  have "ve_clock env 3 - ve_clock env 2 < ss_ttl (vs_state sv)"
    using clock_facts [OF clk] ttl by linarith
  moreover have "quiet (vs_generation sv) (vs_sender sv) (ir_key r) (ve_clock env 2) (ss_ttl (vs_state sv)) 0
      (update_found env 3 ?client UnknownDelivery None None (sv' \<lparr> vs_state := st1, vs_channels := m \<rparr>))" for m
    using update_found_same [OF clk ttl, of "sv' \<lparr> vs_state := st1, vs_channels := m \<rparr>"] inv1
    by (simp add: key service_key_def sv')
  ultimately have "quiet (vs_generation sv) (vs_sender sv) (ir_key r) (ve_clock env 2) (ss_ttl (vs_state sv)) 0 rest"
    using ops kept by (auto simp: message_ops_def b Let_def intro: quiet_still split: delivery.splits if_splits)
  with that st begun tr key run show thesis by blast
qed

lemma later_quiet:
  assumes inv: "service_inv sv" and adm: "service_adm sha sv (env, SvHandle frame)"
    and out: "handle env frame sv = (sv1, [CallUserMessage frame co], result)"
    and kept: "ve_user_message env \<noteq> DeliverRejected"
    and ttl: "ve_clock env 5 - ve_clock env 2 < ss_ttl (vs_state sv)"
    and tr: "trace_ok service_step (service_adm sha) sv1 later"
    and ret: "\<forall>(env', i) \<in> set later. retains (vs_generation sv) (text_or_empty ''client_request_id'' frame) i
               \<and> ve_clock env' 5 - ve_clock env 2 < ss_ttl (vs_state sv)"
    and few: "2 * length later < ss_max (vs_state sv)"
    and t: "t - ve_clock env 2 < ss_ttl (vs_state sv)"
  shows "\<exists>old. service_inv (run service_step sv1 later)
    \<and> vs_generation (run service_step sv1 later) = vs_generation sv
    \<and> live_record (vs_state (run service_step sv1 later))
        (service_key sv (text_or_empty ''client_request_id'' frame)) t = Some old"
proof -
  let ?client = "text_or_empty ''client_request_id'' frame"
  let ?ttl = "ss_ttl (vs_state sv)"
  obtain st r rest st1 where st: "session_inv st" "ss_generation st = vs_generation sv"
      "ss_max st = ss_max (vs_state sv)" "ss_ttl st = ?ttl"
    and begun: "begin_request sha st \<lparr> rq_sender = vs_sender sv, rq_client = ?client,
       rq_payload = idempotency_payload frame \<rparr> (ve_clock env 1) (ve_clock env 2) = (st1, Inr (BeginNew r))"
    and clk: "clock_ok st (ve_clock env 1) (ve_clock env 2)" and key: "ir_key r = service_key sv ?client"
    and sv1: "vs_state sv1 = run (session_step sha) st1 rest"
    and tr1: "trace_ok (session_step sha) session_adm st1 rest"
    and rest: "quiet (vs_generation sv) (vs_sender sv) (ir_key r) (ve_clock env 2) ?ttl 0 rest"
    by (rule handed_over [OF inv adm out kept ttl])
  let ?Q = "quiet (vs_generation sv) (vs_sender sv) (ir_key r) (ve_clock env 2) ?ttl"
  have step1: "sv1 = service_step sv (env, SvHandle frame)" by (simp add: service_step_def out)
  have inv1: "service_inv sv1" unfolding step1 by (rule service_inv_step [OF inv adm])
  have retained: "\<exists>old. service_inv (run service_step sv1 xs) \<and> vs_generation (run service_step sv1 xs) = vs_generation sv
      \<and> live_record (vs_state (run service_step sv1 xs)) (ir_key r) t' = Some old"
    if q: "?Q (2 * length xs) (rest @ run_ops sv1 xs)" and tx: "trace_ok service_step (service_adm sha) sv1 xs"
      and nx: "2 * length xs < ss_max (vs_state sv)" and time: "t' - ve_clock env 2 < ?ttl" for xs t'
  proof -
    have trx: "trace_ok (session_step sha) session_adm st1 (rest @ run_ops sv1 xs)"
      using tr1 run_ops_state(2) [OF tx] by (simp add: trace_ok_append sv1)
    have stx: "vs_state (run service_step sv1 xs) = run (session_step sha) st1 (rest @ run_ops sv1 xs)"
      using run_ops_state(1) [OF tx] by (simp add: run_append sv1)
    have invx: "service_inv (run service_step sv1 xs)" by (rule service.run_keeps [OF inv1 tx])
    have kx: "\<forall>op\<in>set (rest @ run_ops sv1 xs). keeps (ss_generation st) (vs_sender sv) (ir_key r) (ve_clock env 2) (ss_ttl st) op"
      and fx: "length (filter (displaces (ss_generation st) (ir_key r)) (rest @ run_ops sv1 xs)) < ss_max st"
      and timex: "t' - ve_clock env 2 < ss_ttl st"
      using q nx time st by (simp_all add: quiet_def)
    obtain old where "ss_generation (vs_state (run service_step sv1 xs)) = ss_generation st"
      "live_record (vs_state (run service_step sv1 xs)) (ir_key r) t' = Some old"
      by (rule begun_retained [OF st(1) begun clk trx _ fx stx timex]) (use kx in simp_all)
    with invx st(2) show ?thesis by (auto simp: service_inv_def)
  qed
  have sender: "vs_sender (run service_step sv1 xs) = vs_sender sv" for xs
    by (simp add: step1 service_step_sender run_sender)
  have "?Q (2 * length later) (rest @ run_ops sv1 later)"
    using tr ret few
  proof (induction later rule: rev_induct)
    case Nil
    then show ?case using rest by simp
  next
    case (snoc ei xs)
    obtain env' i where ei: "ei = (env', i)" by (cases ei)
    let ?sv = "run service_step sv1 xs"
    from snoc.prems ei have tx: "trace_ok service_step (service_adm sha) sv1 xs" "service_adm sha ?sv (env', i)"
      and ri: "retains (vs_generation sv) ?client i" "ve_clock env' 5 - ve_clock env 2 < ?ttl"
      by (auto simp: trace_ok_append)
    have IH: "?Q (2 * length xs) (rest @ run_ops sv1 xs)" using snoc tx by simp
    have "ve_clock env' 1 - ve_clock env 2 < ?ttl"
      using clock_facts [of env'] tx(2) ri(2) by fastforce
    from retained [OF IH tx(1) _ this] snoc.prems(3) obtain old where old: "service_inv ?sv"
      "vs_generation ?sv = vs_generation sv" "live_record (vs_state ?sv) (ir_key r) (ve_clock env' 1) = Some old"
      by auto
    have "service_key ?sv ?client = ir_key r" by (simp add: service_key_def key old(2) sender)
    with session_ops_quiet [OF old(1) _ ri(2), of ?client old i] tx(2) old ri(1)
    have "?Q 2 (session_ops ?sv (env', i))" by (simp add: sender)
    from quiet_append [OF IH this] show ?case by (simp add: run_ops_append ei)
  qed
  from retained [OF this tr few t] show ?thesis by (simp add: key)
qed

text \<open>
  C27: A user message is handed to the agent at most once. After a service called
  \<open>onUserMessage\<close> for a client request id and the answer was not "rejected", every later
  \<open>user_message\<close> with that id is answered without a callback: whatever operations lie between,
  if they come within the time to live, fewer than half the capacity in number, and neither
  report the message as observed nor change the generation.
\<close>

theorem message_delivered_once:
  assumes "service_inv sv" and "service_adm sha sv (env, SvHandle frame)"
    and "handle env frame sv = (sv1, [CallUserMessage frame co], result)"
    and "ve_user_message env \<noteq> DeliverRejected"
    and "ve_clock env 5 - ve_clock env 2 < ss_ttl (vs_state sv)"
    and "trace_ok service_step (service_adm sha) sv1 later"
    and "\<forall>(env', i) \<in> set later. retains (vs_generation sv) (text_or_empty ''client_request_id'' frame) i
           \<and> ve_clock env' 5 - ve_clock env 2 < ss_ttl (vs_state sv)"
    and "2 * length later < ss_max (vs_state sv)"
    and "ve_clock env' 1 - ve_clock env 2 < ss_ttl (vs_state sv)"
    and "text_or_empty ''type'' frame' = ''user_message''"
    and "text_or_empty ''client_request_id'' frame' = text_or_empty ''client_request_id'' frame"
  shows "fst (snd (handle env' frame' (run service_step sv1 later))) = []"
proof -
  let ?sv = "run service_step sv1 later"
  let ?client = "text_or_empty ''client_request_id'' frame"
  obtain old where inv: "service_inv ?sv" and gen: "vs_generation ?sv = vs_generation sv"
    and live: "live_record (vs_state ?sv) (service_key sv ?client) (ve_clock env' 1) = Some old"
    using later_quiet [OF assms(1-9)] by blast
  have sender: "vs_sender ?sv = vs_sender sv"
    using assms(3) run_sender [of sv1 later] service_step_sender [of sv env "SvHandle frame"]
    by (simp add: service_step_def)
  have ids: "valid_id (vs_sender sv) \<and> valid_id ?client"
    by (rule handed_over [OF assms(1-5)]) (auto dest: begin_new_ids)
  have "fst (snd (handle_user_message env' frame' ?sv)) = []"
    unfolding handle_user_message_def
  proof (rule guarded_cases)
    fix c assume "ensure_ready env' frame' ?sv = (?sv \<lparr> vs_state := fst (touch (vs_state ?sv) (vs_sender ?sv) c (ve_clock env' 0)) \<rparr>, None)"
    let ?st = "fst (touch (vs_state ?sv) (vs_sender ?sv) c (ve_clock env' 0))"
    have "session_inv ?st" using inv by (simp add: service_inv_def touch_inv)
    moreover have "live_record ?st (record_key ?st (vs_sender sv) ?client) (ve_clock env' 1) = Some old"
      using live inv gen
      by (simp add: live_record_def record_key_def service_key_def service_inv_def touch_rest cong: option.case_cong)
    ultimately have "\<nexists>r. snd (begin_of env' frame' (?sv \<lparr> vs_state := ?st \<rparr>)) = Inr (BeginNew r)"
      using begin_live [of ?st "\<lparr> rq_sender = vs_sender sv, rq_client = ?client,
          rq_payload = idempotency_payload frame' \<rparr>" "ve_clock env' 1" old "ve_sha env'" "ve_clock env' 2"] ids assms(11)
      by (simp add: begin_of_def sender)
    then show "fst (snd (let (st, begun) = begin_of env' frame' (?sv \<lparr> vs_state := ?st \<rparr>);
        sv1 = ?sv \<lparr> vs_state := ?st \<rparr> \<lparr> vs_state := st \<rparr>
      in case begun of Inl e \<Rightarrow> (sv1, [], Inl e)
         | Inr (BeginNew r) \<Rightarrow>
             let sv2 = sv1 \<lparr> vs_channels := jm_set (text_or_empty ''client_request_id'' frame')
                          (text_or_empty ''channel_id'' frame') (vs_channels sv1) \<rparr>;
                 (sv3, frames) = after_delivery env' frame' r sv2
             in (sv3, [CallUserMessage frame' (message_correlation sv2 frame')], Inr frames)
         | Inr (BeginReplay r) \<Rightarrow> let (sv2, frames) = replay env' frame' r sv1 in (sv2, [], Inr frames)
         | Inr (BeginConflict r) \<Rightarrow>
             (sv1, [], Inr [refuse frame' ''invalid_message'' ''client_request_id payload conflict'']))) = []"
      by (auto simp: Let_def case_prod_unfold split: sum.split begin_result.split)
  qed simp
  with assms(10) show ?thesis by (simp add: handle_def)
qed

section \<open>Examples\<close>

definition demo_service_env :: "int \<Rightarrow> service_env" where
  "demo_service_env t = \<lparr> ve_sha = id, ve_view = demo_view, ve_pager = demo_pager_env,
     ve_clock = (\<lambda>n. t + int n), ve_user_message = DeliverTrue, ve_cancel = None, ve_action = None,
     ve_models = None, ve_clear = None \<rparr>"

definition demo_frame :: "string \<Rightarrow> (string \<times> json) list \<Rightarrow> json" where
  "demo_frame ty ms = JObj ([(''protocol_version'', JNum (NInt 2)), (''type'', JStr ty), (''id'', JStr ''f'')] @ ms)"

definition demo_hello :: json where
  "demo_hello = demo_frame ''session_hello'' [(''channel_id'', JStr ''ch'')]"

definition demo_message :: json where
  "demo_message = demo_frame ''user_message'' [(''channel_id'', JStr ''ch''),
     (''history_generation'', JStr ''g''), (''client_request_id'', JStr ''m1''), (''text'', JStr ''hi'')]"

definition demo_fresh :: service where
  "demo_fresh = \<lparr> vs_sender = ''o'', vs_generation = ''g'', vs_state = \<lparr> ss_generation = ''g'',
     ss_max = 512, ss_ttl = 600000, ss_channels = [], ss_records = [] \<rparr>, vs_pager = new_pager, vs_channels = [] \<rparr>"

definition demo_service :: service where
  "demo_service = service_step demo_fresh (demo_service_env 0, SvHandle demo_hello)"

lemma demo_fresh_new: "new_service ''o'' (Some ''g'') ''s'' = Inr demo_fresh"
  by (simp add: new_service_def new_session_state_def demo_fresh_def Let_def)

lemma demo_service_inv: "service_inv demo_fresh" "service_inv demo_service"
proof -
  show "service_inv demo_fresh"
    by (simp add: service_inv_def demo_fresh_def session_inv_def lru_sorted_def)
  then show "service_inv demo_service"
    unfolding demo_service_def
    by (rule service_inv_step [where sha = id])
       (simp add: demo_service_env_def demo_fresh_def touched_by_def clock_sorted_def upt_rec numeral_eq_Suc)
qed

theorem served_after_hello_witness:
  "handle (demo_service_env 9) demo_message (run service_step demo_fresh [(demo_service_env 0, SvHandle
       (demo_frame ''session_hello'' [(''channel_id'', JStr ''other'')]))])
   = (run service_step demo_fresh [(demo_service_env 0, SvHandle
       (demo_frame ''session_hello'' [(''channel_id'', JStr ''other'')]))], [],
      Inr [service_error ''f'' ''invalid_channel'' ''session_hello required'' (Some ''ch'')])"
proof -
  have id: "reply_id demo_message = ''f''"
    and frame: "str_field ''channel_id'' demo_message = Some ''ch''"
      "text_or_empty ''type'' demo_message \<in> set ClientFrameTypes - {''session_hello'', ''pair_request''}"
    by (simp_all add: demo_message_def demo_frame_def reply_id_def text_or_empty_def str_field_def field_def
        ClientFrameTypes_def)
  show ?thesis
    using served_after_hello [OF demo_fresh_new _ frame, of "[(demo_service_env 0, SvHandle
        (demo_frame ''session_hello'' [(''channel_id'', JStr ''other'')]))]" "demo_service_env 9"]
    by (simp add: id greets_def demo_frame_def text_or_empty_def str_field_def field_def)
qed

lemma demo_handed:
  "fst (snd (handle (demo_service_env 10) demo_message demo_service))
     = [CallUserMessage demo_message (message_correlation demo_service demo_message)]"
  by code_simp

theorem message_delivered_once_witness:
  "fst (snd (handle (demo_service_env 30) demo_message
     (run service_step (fst (handle (demo_service_env 10) demo_message demo_service))
        [(demo_service_env 20, SvCanDrain ''m1'')]))) = []"
proof -
  let ?out = "handle (demo_service_env 10) demo_message demo_service"
  have clock: "clock_sorted (demo_service_env t)" for t
    by (simp add: demo_service_env_def clock_sorted_def upt_rec numeral_eq_Suc)
  have touched: "touched_by (vs_state demo_service) 10" "touched_by (vs_state (fst ?out)) 20"
    by code_simp+
  have out: "?out = (fst ?out, [CallUserMessage demo_message (message_correlation demo_service demo_message)], snd (snd ?out))"
    using demo_handed by (metis prod.collapse)
  have gen: "vs_generation demo_service = ''g''" "ss_ttl (vs_state demo_service) = 600000"
    "ss_max (vs_state demo_service) = 512"
    by code_simp+
  show ?thesis
    by (rule message_delivered_once [OF demo_service_inv(2) _ out, where sha = id and later = "[(demo_service_env 20, SvCanDrain ''m1'')]"])
       (use touched clock gen in \<open>simp_all add: retains_def demo_service_env_def demo_message_def demo_frame_def
          text_or_empty_def str_field_def field_def\<close>)
qed

end
