(* ===== verification/SchemaAgreement.thy ===== *)
theory SchemaAgreement
  imports Schemas
begin

text \<open>
  The two sides of Protocol v2 agree: the PWA's frame schemas and the extension's accept the
  same JSON values, although they are written separately, list members in another order and
  have a recursive JSON schema each. No value is a frame of both directions.
\<close>

section \<open>The computations\<close>

lemma same_client_frames: "same 20 clientFrameSchema ClientFrameSchema"
  by code_simp

lemma same_history_tail:
  "same 19 (ZStrict (spread [historyChunkBase_pwa, historyChunkTail_pwa]))
           (ZStrict (spread [historyChunkBase, historyChunkTail]))"
  by code_simp

lemma same_history_eos:
  "same 19 (ZStrict (spread [historyChunkBase_pwa, historyChunkEos_pwa]))
           (ZStrict (spread [historyChunkBase, historyChunkEos]))"
  by code_simp

lemma same_history_next:
  "same 19 (ZStrict (spread [historyChunkBase_pwa, historyChunkNext_pwa]))
           (ZStrict (spread [historyChunkBase, historyChunkNext]))"
  by code_simp

lemma same_server_frames_early:
  "same 19 pairOkFrameSchema pairOk"
  "same 19 pairErrorFrameSchema pairError"
  "same 19 sessionReadyFrameSchema sessionReady"
  "same 19 userMessageStartedFrameSchema userMessageStarted"
  "same 19 userMessageStatusFrameSchema userMessageStatus"
  by code_simp+

lemma same_event_frame: "same 19 timelineEventFrameSchema timelineEventFrame"
  by code_simp

lemma same_server_frames_late:
  "list_all2 (same 19)
     [protocolErrorFrameSchema, resetFrameSchema, pongFrameSchema, cancelledFrameSchema,
      actionOkFrameSchema, actionErrorFrameSchema, modelsListFrameSchema, queuedMessageStateFrameSchema,
      extensionUiRequestFrameSchema, byeFrameSchema]
     [protocolError, reset_frame, pong_frame, cancelled, actionOk, actionError, modelsList,
      queuedMessageState, extensionUiRequest, bye]"
  by code_simp

lemma same_server_frames_timeline:
  "list_all2 (same 19) [timelinePartialFrameSchema, timelineEventFragmentFrameSchema]
     [TimelinePartialSchema, TimelineEventFragmentSchema]"
  by code_simp

lemma history_chunks_agree:
  "zod_accepts sessionHistoryChunkFrameSchema v = zod_accepts SessionHistoryChunkSchema v"
proof -
  have "zod_accepts (ZUnion [
       ZStrict (spread [historyChunkBase_pwa, historyChunkTail_pwa]),
       ZStrict (spread [historyChunkBase_pwa, historyChunkEos_pwa]),
       ZStrict (spread [historyChunkBase_pwa, historyChunkNext_pwa])]) v =
    zod_accepts (ZUnion [
       ZStrict (spread [historyChunkBase, historyChunkTail]),
       ZStrict (spread [historyChunkBase, historyChunkEos]),
       ZStrict (spread [historyChunkBase, historyChunkNext])]) v"
    using same_history_tail [THEN same_accepts, of v] same_history_eos [THEN same_accepts, of v]
      same_history_next [THEN same_accepts, of v] by simp
  then show ?thesis
    by (simp only: sessionHistoryChunkFrameSchema_def SessionHistoryChunkSchema_def zod_accepts.simps)
qed

lemma union_agrees:
  "list_all2 (\<lambda>s t. zod_accepts s v = zod_accepts t v) ss ts \<Longrightarrow>
   zod_accepts (ZUnion ss) v = zod_accepts (ZUnion ts) v"
proof -
  assume "list_all2 (\<lambda>s t. zod_accepts s v = zod_accepts t v) ss ts"
  then have "(\<exists>s\<in>set ss. zod_accepts s v) = (\<exists>t\<in>set ts. zod_accepts t v)"
    by (induction rule: list_all2_induct) auto
  then show ?thesis by simp
qed

lemma server_frames_agree: "zod_accepts serverFrameSchema v = zod_accepts ServerFrameSchema v"
proof -
  have lift: "list_all2 (same n) ss ts \<Longrightarrow> list_all2 (\<lambda>s t. zod_accepts s v = zod_accepts t v) ss ts"
    for n ss ts by (erule list_all2_mono) (rule same_accepts)
  show ?thesis
    unfolding serverFrameSchema_def ServerFrameSchema_def
    using same_server_frames_early [THEN same_accepts, of v] same_event_frame [THEN same_accepts, of v]
      same_server_frames_late [THEN lift]
      same_server_frames_timeline [THEN lift] history_chunks_agree [of v]
    by (intro union_agrees) simp
qed

section \<open>Agreement and separation\<close>

text \<open>
  C15: Let \<open>acc\<close> validate as zod documents. Then \<open>clientFrameSchema\<close> of the PWA accepts exactly
  the values that \<open>ClientFrameSchema\<close> of the extension accepts, and the same holds for the
  server frames: neither side can send a frame that the other's schema refuses.
\<close>

theorem frames_agree:
  assumes "zod acc"
  shows "acc clientFrameSchema v = acc ClientFrameSchema v
       \<and> acc serverFrameSchema v = acc ServerFrameSchema v"
  using same_accepts [OF same_client_frames] server_frames_agree
  by (simp only: zod_determined [OF assms])

definition demo_ping :: json where
  "demo_ping = JObj [(''type'', JStr ''ping''), (''protocol_version'', JNum (NInt 2)),
     (''id'', JStr ''p1''), (''channel_id'', JStr ''c''), (''history_generation'', JStr ''g'')]"

lemma demo_ping_accepted: "zod_accepts ping_frame (Some demo_ping)"
  by (simp add: demo_ping_def ping_frame_def frameBase_def clientDirect_def id_schema_def
      PROTOCOL_VERSION_V2_def MAX_ID_CHARS_def lit_def lit_int_def spread_def)

lemma demo_ping_client: "zod_accepts ClientFrameSchema (Some demo_ping)"
  using demo_ping_accepted by (simp add: ClientFrameSchema_def)

theorem frames_agree_witness: "zod_accepts clientFrameSchema (Some demo_ping)"
  using frames_agree [OF zod_exec.zod_axioms, of "Some demo_ping"] demo_ping_client by simp

text \<open>
  A value that a frame schema accepts carries protocol version 2 and a type of its
  direction, so no value is both a client and a server frame, on either side of the protocol.
\<close>

theorem directions_disjoint:
  assumes "zod acc" and "acc ClientFrameSchema (Some j)"
  shows "\<not> acc ServerFrameSchema (Some j)
       \<and> (\<exists>t\<in>set ClientFrameTypes. field ''type'' j = Some (JStr t))
       \<and> field ''protocol_version'' j = Some (JNum (NInt 2))"
proof -
  note accepted = assms(2) [unfolded zod_determined [OF assms(1)]]
  from always_sound [OF client_types accepted] obtain t where
    tt: "t \<in> set ClientFrameTypes" "field ''type'' j = Some (JStr t)"
    using is_text_in_accepts by blast
  have "\<not> zod_accepts ServerFrameSchema (Some j)"
    using always_sound [OF server_types] is_text_in_accepts tt types_disjoint by fastforce
  moreover have "field ''protocol_version'' j = Some (JNum (NInt 2))"
    using always_sound [OF versions(1) accepted] by (auto simp: is_version_two_def)
  ultimately show ?thesis
    using tt by (auto simp: zod_determined [OF assms(1)])
qed

theorem directions_disjoint_witness: "\<not> zod_accepts ServerFrameSchema (Some demo_ping)"
  using directions_disjoint [OF zod_exec.zod_axioms demo_ping_client] by simp

definition is_id :: "ztype \<Rightarrow> bool" where
  "is_id t = (t = ZString [StrMin 1, StrMax 256])"

definition addressed :: "ztype \<Rightarrow> bool" where
  "addressed s = (always ''type'' (\<lambda>t. t = lit ''pair_request'') s
     \<or> always ''channel_id'' is_id s
        \<and> (always ''type'' (\<lambda>t. t = lit ''session_hello'') s \<or> always ''history_generation'' is_id s))"

lemma all_addressed: "list_all addressed (options_of ClientFrameSchema)"
  by code_simp

lemma is_id_accepts:
  "is_id t \<Longrightarrow> zod_accepts t v \<Longrightarrow> \<exists>x. v = Some (JStr x) \<and> x \<noteq> [] \<and> length x \<le> 256"
  by (cases v) (auto simp: is_id_def split: json.splits)

text \<open>
  Every client frame other than a pair request names its channel, and every one other than
  a pair request or a session hello also names the history generation it was written against,
  each as a non-empty text of at most 256 code units: the service can check both before it
  dispatches.
\<close>

theorem client_frames_addressed:
  assumes "zod acc" and "acc ClientFrameSchema (Some j)"
    and "field ''type'' j \<noteq> Some (JStr ''pair_request'')"
  shows "(\<exists>c. str_field ''channel_id'' j = Some c \<and> c \<noteq> [] \<and> length c \<le> 256)
       \<and> (field ''type'' j \<noteq> Some (JStr ''session_hello'') \<longrightarrow>
            (\<exists>g. str_field ''history_generation'' j = Some g \<and> g \<noteq> [] \<and> length g \<le> 256))"
proof -
  from assms(2) obtain s where s: "s \<in> set (options_of ClientFrameSchema)" "zod_accepts s (Some j)"
    by (auto simp: zod_determined [OF assms(1)] ClientFrameSchema_def)
  have named: "\<exists>x. str_field k j = Some x \<and> x \<noteq> [] \<and> length x \<le> 256" if "always k is_id s" for k
    using always_sound [OF that s(2)] is_id_accepts by (fastforce simp: str_field_def)
  have tagged: "field ''type'' j = Some (JStr x)" if "always ''type'' (\<lambda>t. t = lit x) s" for x
    using always_sound [OF that s(2)] by (auto simp: lit_def)
  from all_addressed s(1) have "addressed s" by (simp add: list_all_iff)
  then show ?thesis
    using assms(3) named tagged unfolding addressed_def by blast
qed

theorem client_frames_addressed_witness: "str_field ''channel_id'' demo_ping = Some ''c''"
  using client_frames_addressed [OF zod_exec.zod_axioms demo_ping_client]
  by (simp add: demo_ping_def str_field_def field_def)

end
