(* ===== verification/PwaCodec.thy ===== *)
theory PwaCodec
  imports Codec SchemaAgreement
begin

text \<open>
  The codec of the PWA, \<open>pwa/src/lib/remote-pi/protocol-v2/codec.ts\<close>, and what the two codecs
  owe each other: a frame that one side encodes is the frame the other side decodes. The
  definitions keep the names of the extension's codec with the suffix \<open>_pwa\<close>; \<open>atob\<close> is
  \<open>atob_groups\<close> of \<open>Bytes\<close>.
\<close>

definition parse_raw_pwa :: "codec_lib \<Rightarrow> raw \<Rightarrow> int \<Rightarrow> (decode_error, json \<times> int) result" where
  "parse_raw_pwa lib raw max_bytes =
     (case raw of
        RawText t \<Rightarrow>
          (let bytes = int (length (utf8_encode t)) in
           if bytes > max_bytes then Inl DSize
           else case lib_parse lib t of None \<Rightarrow> Inl DInvalid | Some j \<Rightarrow> Inr (j, bytes))
      | RawBytes bs \<Rightarrow>
          (if int (length bs) > max_bytes then Inl DSize
           else case Option.bind (lib_utf8 lib bs) (lib_parse lib) of
                  None \<Rightarrow> Inl DInvalid | Some j \<Rightarrow> Inr (j, int (length bs)))
      | RawValue j \<Rightarrow>
          (if is_record j then
             (let bytes = int (length (utf8_encode (stringify j))) in
              if bytes > max_bytes then Inl DSize else Inr (j, bytes))
           else Inl DInvalid))"

definition assert_byte_limit :: "int \<Rightarrow> int \<Rightarrow> (decode_error, unit) result" where
  "assert_byte_limit bytes limit = (if bytes > limit then Inl DSize else Inr ())"

definition assert_version :: "json \<Rightarrow> (decode_error, unit) result" where
  "assert_version j =
     (if field ''protocol_version'' j = Some (JNum (NInt 2)) then Inr () else Inl DVersion)"

definition assert_direction :: "string \<Rightarrow> direction \<Rightarrow> (decode_error, unit) result" where
  "assert_direction t d =
     (let client = List.member CLIENT_FRAME_TYPES t; server = List.member SERVER_FRAME_TYPES t in
      if \<not> client \<and> \<not> server then Inl DUnsupported
      else if (d = ToExtension \<and> \<not> client) \<or> (d = ToPwa \<and> \<not> server) then Inl DDirection
      else Inr ())"

definition frame_type :: "json \<Rightarrow> (decode_error, string) result" where
  "frame_type j = (case str_field ''type'' j of None \<Rightarrow> Inl DInvalid | Some t \<Rightarrow> Inr t)"

definition decode_base64_bytes :: "string \<Rightarrow> (decode_error, byte list) result" where
  "decode_base64_bytes s = (case atob_groups s of None \<Rightarrow> Inl DSchema | Some bs \<Rightarrow> Inr bs)"

definition validate_fragment_size_pwa :: "codec_lib \<Rightarrow> json \<Rightarrow> (decode_error, int) result" where
  "validate_fragment_size_pwa lib fragment =
     (if \<not> accepts_value lib timelineEventFragmentFrameSchema fragment
         \<and> \<not> accepts_value lib timelineEventFragmentSchema fragment
         \<and> \<not> accepts_value lib historyFragmentSchema fragment then Inl DSchema
      else case str_field ''data_base64'' fragment of
        None \<Rightarrow> Inl DSchema
      | Some d \<Rightarrow> (case decode_base64_bytes d of
            Inl e \<Rightarrow> Inl e
          | Inr bs \<Rightarrow>
              if int (length bs) > MAX_FRAGMENT_BYTES then Inl DSize else Inr (int (length bs))))"

fun validate_fragments_pwa :: "codec_lib \<Rightarrow> json list \<Rightarrow> (decode_error, unit) result" where
  "validate_fragments_pwa lib [] = Inr ()"
| "validate_fragments_pwa lib (f # fs) =
     (case validate_fragment_size_pwa lib f of
        Inl e \<Rightarrow> Inl e | Inr n \<Rightarrow> validate_fragments_pwa lib fs)"

definition validate_history_chunk_size_pwa :: "codec_lib \<Rightarrow> json \<Rightarrow> (decode_error, int) result" where
  "validate_history_chunk_size_pwa lib chunk =
     (if \<not> accepts_value lib sessionHistoryChunkFrameSchema chunk then Inl DSchema
      else let bytes = byte_length chunk in
        if bytes > MAX_HISTORY_CHUNK_BYTES_pwa then Inl DSize
        else case validate_fragments_pwa lib (array_items (field ''fragments'' chunk)) of
               Inl e \<Rightarrow> Inl e | Inr u \<Rightarrow> Inr bytes)"

definition parse_frame_pwa ::
  "codec_lib \<Rightarrow> raw \<Rightarrow> direction \<Rightarrow> ztype \<Rightarrow> (decode_error, json) result" where
  "parse_frame_pwa lib raw d schema =
     (case parse_raw_pwa lib raw MAX_FRAME_BYTES_pwa of
        Inl e \<Rightarrow> Inl e
      | Inr (j, bytes) \<Rightarrow>
          (case frame_type j of Inl e \<Rightarrow> Inl e | Inr t \<Rightarrow>
          (case assert_direction t d of Inl e \<Rightarrow> Inl e | Inr u \<Rightarrow>
          (case assert_version j of Inl e \<Rightarrow> Inl e | Inr u \<Rightarrow>
           if \<not> accepts_value lib schema j then Inl DSchema
           else (case assert_byte_limit bytes MAX_FRAME_BYTES_pwa of Inl e \<Rightarrow> Inl e | Inr u \<Rightarrow>
             (case (if t = ''timeline_event_fragment'' then validate_fragment_size_pwa lib j else Inr 0) of
                Inl e \<Rightarrow> Inl e
              | Inr n \<Rightarrow>
             (case (if t = ''session_history_chunk'' then validate_history_chunk_size_pwa lib j else Inr 0) of
                Inl e \<Rightarrow> Inl e
              | Inr n \<Rightarrow> Inr j)))))))"

definition decode_client_frame_pwa :: "codec_lib \<Rightarrow> raw \<Rightarrow> (decode_error, json) result" where
  "decode_client_frame_pwa lib raw = parse_frame_pwa lib raw ToExtension clientFrameSchema"

definition decode_server_frame_pwa :: "codec_lib \<Rightarrow> raw \<Rightarrow> (decode_error, json) result" where
  "decode_server_frame_pwa lib raw = parse_frame_pwa lib raw ToPwa serverFrameSchema"

definition encode_frame_pwa :: "codec_lib \<Rightarrow> json \<Rightarrow> direction \<Rightarrow> (decode_error, byte list) result" where
  "encode_frame_pwa lib frame d =
     (case (if d = ToExtension then parse_frame_pwa lib (RawValue frame) d clientFrameSchema
            else parse_frame_pwa lib (RawValue frame) d serverFrameSchema) of
        Inl e \<Rightarrow> Inl e
      | Inr j \<Rightarrow>
          (let encoded = utf8_encode (stringify j) in
           case assert_byte_limit (int (length encoded)) MAX_FRAME_BYTES_pwa of
             Inl e \<Rightarrow> Inl e | Inr u \<Rightarrow> Inr encoded))"

definition encode_client_frame_pwa :: "codec_lib \<Rightarrow> json \<Rightarrow> (decode_error, byte list) result" where
  "encode_client_frame_pwa lib frame = encode_frame_pwa lib frame ToExtension"

definition encode_server_frame_pwa :: "codec_lib \<Rightarrow> json \<Rightarrow> (decode_error, byte list) result" where
  "encode_server_frame_pwa lib frame = encode_frame_pwa lib frame ToPwa"

fun validate_window_from_pwa :: "codec_lib \<Rightarrow> int \<Rightarrow> json list \<Rightarrow> (decode_error, int) result" where
  "validate_window_from_pwa lib size0 [] = Inr size0"
| "validate_window_from_pwa lib size0 (e # es) =
     (if \<not> accepts_value lib timelineEventSchema e then Inl DSchema
      else let size' = size0 + byte_length e in
        if size' > MAX_WINDOW_BYTES then Inl DSize else validate_window_from_pwa lib size' es)"

definition validate_window_size_pwa :: "codec_lib \<Rightarrow> json list \<Rightarrow> (decode_error, int) result" where
  "validate_window_size_pwa lib events = validate_window_from_pwa lib 0 events"

definition parse_timeline_event_pwa :: "codec_lib \<Rightarrow> raw \<Rightarrow> (decode_error, json) result" where
  "parse_timeline_event_pwa lib raw =
     (case parse_raw_pwa lib raw MAX_WINDOW_BYTES of
        Inl e \<Rightarrow> Inl e
      | Inr (j, bytes) \<Rightarrow>
          if \<not> accepts_value lib timelineEventSchema j then Inl DSchema
          else case validate_encoded_size j MAX_WINDOW_BYTES of Inl e \<Rightarrow> Inl e | Inr n \<Rightarrow> Inr j)"

definition parse_timeline_partial_pwa :: "codec_lib \<Rightarrow> raw \<Rightarrow> (decode_error, json) result" where
  "parse_timeline_partial_pwa lib raw =
     (case parse_raw_pwa lib raw MAX_WINDOW_BYTES of
        Inl e \<Rightarrow> Inl e
      | Inr (j, bytes) \<Rightarrow>
          if \<not> accepts_value lib timelinePartialSchema j then Inl DSchema
          else case validate_encoded_size j MAX_HISTORY_CHUNK_BYTES_pwa of Inl e \<Rightarrow> Inl e | Inr n \<Rightarrow> Inr j)"

definition validate_frame_size :: "codec_lib \<Rightarrow> raw \<Rightarrow> int \<Rightarrow> (decode_error, int) result" where
  "validate_frame_size lib raw max_bytes =
     (case parse_raw_pwa lib raw max_bytes of Inl e \<Rightarrow> Inl e | Inr (j, n) \<Rightarrow> Inr n)"

section \<open>Base64 of schema-valid text\<close>

lemma b64_alphabet_value: "b64_alphabet c = (\<exists>n. b64_value c = Some n)"
  by (auto simp: b64_alphabet_def b64_value_def Let_def)

lemma b64_alphabet_eq [simp]: "b64_alphabet (CHR ''='') = False"
  by (simp add: b64_alphabet_def)

lemma b64_alphabet_neq: "b64_alphabet c \<Longrightarrow> c \<noteq> CHR ''=''"
  by (rule notI) simp

lemma base64_text_hd: "base64_text s \<Longrightarrow> s \<noteq> [] \<Longrightarrow> b64_alphabet (hd s)"
  by (induction s rule: base64_text.induct) (auto split: if_splits)

lemma pads_append:
  "x \<in> set s \<Longrightarrow> x \<noteq> c \<Longrightarrow> takeWhile (\<lambda>c'. c' = c) (rev s @ t) = takeWhile (\<lambda>c'. c' = c) (rev s)"
  by (rule takeWhile_append1) auto

text \<open>
  On text that the schema accepts the two sides decode the same number of bytes: the
  browser's decoder does not fail and gives what the byte count of the extension says.
\<close>

lemma atob_base64_text:
  "base64_text s \<Longrightarrow> \<exists>bs. atob_groups s = Some bs \<and> int (length bs) = base64_decoded_length s"
proof (induction s rule: base64_text.induct)
  case (2 a b c d s)
  show ?case
  proof (cases "b64_alphabet a \<and> b64_alphabet b \<and> b64_alphabet c \<and> b64_alphabet d")
    case True
    then obtain x y z w where v: "b64_value a = Some x" "b64_value b = Some y"
      "b64_value c = Some z" "b64_value d = Some w" by (auto simp: b64_alphabet_value)
    have neq: "c \<noteq> CHR ''=''" "d \<noteq> CHR ''=''" using True b64_alphabet_neq by blast+
    from 2(2) True have rest: "base64_text s" by simp
    from 2(1) [OF True rest] obtain bs where
      bs: "atob_groups s = Some bs" "int (length bs) = base64_decoded_length s" by blast
    show ?thesis
    proof (cases s)
      case Nil
      then show ?thesis using v neq by (simp add: base64_decoded_length_def)
    next
      case (Cons e s')
      have hd: "hd s \<noteq> CHR ''=''" using base64_text_hd [OF rest] Cons b64_alphabet_neq by blast
      have pads: "takeWhile (\<lambda>c. c = CHR ''='') (rev s @ [d, c, b, a])
          = takeWhile (\<lambda>c. c = CHR ''='') (rev s)"
        by (rule pads_append [OF _ hd]) (simp add: Cons)
      have "atob_groups (a # b # c # d # s) = map_option (\<lambda>bs. word_of_nat (x * 4 + y div 16)
            # word_of_nat (y mod 16 * 16 + z div 4) # word_of_nat (z mod 4 * 64 + w) # bs) (atob_groups s)"
        using Cons v by simp
      moreover have "(4 + length s) div 4 = Suc (length s div 4)" by simp
      ultimately show ?thesis using bs pads by (simp add: base64_decoded_length_def)
    qed
  next
    case False
    have "s = [] \<and> b64_alphabet a \<and> b64_alphabet b \<and>
        (if c = CHR ''='' then d = CHR ''='' else b64_alphabet c \<and> d = CHR ''='')"
      using 2(2) [unfolded base64_text.simps if_not_P [OF False]] by blast
    then have "s = []" and ab: "b64_alphabet a" "b64_alphabet b"
      and cd: "if c = CHR ''='' then d = CHR ''='' else b64_alphabet c \<and> d = CHR ''=''"
      by blast+
    with ab obtain x y where "b64_value a = Some x" "b64_value b = Some y"
      by (auto simp: b64_alphabet_value)
    moreover have "a \<noteq> CHR ''=''" "b \<noteq> CHR ''=''" using ab b64_alphabet_neq by blast+
    ultimately show ?thesis
      using cd \<open>s = []\<close> by (auto simp: base64_decoded_length_def b64_alphabet_value split: if_splits)
  qed
qed (simp_all add: base64_decoded_length_def)

section \<open>The two codecs agree\<close>

lemma parse_raw_same: "parse_raw_pwa lib raw n = parse_raw lib raw n"
  by (cases raw) (simp_all add: parse_raw_pwa_def parse_raw_def length_utf8_encode byte_length_def json_bytes_def)

lemma frame_types_same: "CLIENT_FRAME_TYPES = ClientFrameTypes" "SERVER_FRAME_TYPES = ServerFrameTypes"
  by (simp_all add: CLIENT_FRAME_TYPES_def ClientFrameTypes_def SERVER_FRAME_TYPES_def ServerFrameTypes_def)

lemma bounds_same:
  "MAX_FRAME_BYTES_pwa = MAX_FRAME_BYTES" "MAX_FRAGMENT_BYTES = MAX_FRAGMENT_DECODE_BYTES"
  "MAX_HISTORY_CHUNK_BYTES_pwa = MAX_HISTORY_CHUNK_BYTES"
  by (simp_all add: MAX_FRAME_BYTES_pwa_def MAX_FRAME_BYTES_def MAX_FRAGMENT_BYTES_def
      MAX_FRAGMENT_DECODE_BYTES_def MAX_HISTORY_CHUNK_BYTES_pwa_def MAX_HISTORY_CHUNK_BYTES_def)

lemma same_history_fragment: "same 19 timelineEventFragmentSchema HistoryFragmentSchema"
  by code_simp

lemma fragment_schemas_same:
  assumes "zod (lib_accepts lib)"
  shows "accepts_value lib timelineEventFragmentFrameSchema f = accepts_value lib TimelineEventFragmentSchema f"
    and "accepts_value lib timelineEventFragmentSchema f = accepts_value lib HistoryFragmentSchema f"
    and "accepts_value lib historyFragmentSchema f = accepts_value lib HistoryFragmentSchema f"
  using same_server_frames_timeline same_history_fragment
  by (auto simp: accepts_value_def zod_determined [OF assms] historyFragmentSchema_def intro!: same_accepts)

definition is_base64 :: "ztype \<Rightarrow> bool" where
  "is_base64 t = (case t of ZString cs \<Rightarrow> List.member cs (StrRegex RxBase64) | _ \<Rightarrow> False)"

lemma fragment_data_always:
  "always ''data_base64'' is_base64 TimelineEventFragmentSchema"
  "always ''data_base64'' is_base64 HistoryFragmentSchema"
  by code_simp+

lemma is_base64_accepts: "is_base64 t \<Longrightarrow> zod_accepts t v \<Longrightarrow> \<exists>d. v = Some (JStr d) \<and> base64_text d"
  by (fastforce simp: is_base64_def list_all_iff split: ztype.splits option.splits json.splits)

lemma fragment_data:
  assumes "zod (lib_accepts lib)"
    and "accepts_value lib TimelineEventFragmentSchema f \<or> accepts_value lib HistoryFragmentSchema f"
  obtains d where "str_field ''data_base64'' f = Some d" "base64_text d"
proof -
  have "\<exists>d. field ''data_base64'' f = Some (JStr d) \<and> base64_text d"
    using assms(2) always_sound [OF fragment_data_always(1), of "Some f"]
      always_sound [OF fragment_data_always(2), of "Some f"] is_base64_accepts
    by (auto simp: accepts_value_def zod_determined [OF assms(1)])
  then show ?thesis using that by (auto simp: str_field_field)
qed

lemma fragment_size_same:
  assumes z: "zod (lib_accepts lib)"
  shows "validate_fragment_size_pwa lib f = validate_fragment_size lib f"
proof (cases "accepts_value lib TimelineEventFragmentSchema f \<or> accepts_value lib HistoryFragmentSchema f")
  case True
  then obtain d where d: "str_field ''data_base64'' f = Some d" "base64_text d"
    using fragment_data [OF z] by blast
  from atob_base64_text [OF d(2)] obtain bs where
    "atob_groups d = Some bs" "int (length bs) = base64_decoded_length d" by auto
  with True d show ?thesis
    by (simp add: validate_fragment_size_pwa_def validate_fragment_size_def fragment_schemas_same [OF z]
        decode_base64_bytes_def bounds_same Let_def)
qed (simp add: validate_fragment_size_pwa_def validate_fragment_size_def fragment_schemas_same [OF z])

lemma fragments_same:
  assumes "zod (lib_accepts lib)"
  shows "validate_fragments_pwa lib fs = validate_fragments lib fs"
  by (induction fs) (auto simp: fragment_size_same [OF assms] split: sum.splits)

lemma history_chunk_size_same:
  assumes "zod (lib_accepts lib)"
  shows "validate_history_chunk_size_pwa lib j = validate_history_chunk_size lib j"
  using history_chunks_agree
  by (simp add: validate_history_chunk_size_pwa_def validate_history_chunk_size_def bounds_same
      fragments_same [OF assms] accepts_value_def zod_determined [OF assms] Let_def)

definition frame_schema_pwa :: "direction \<Rightarrow> ztype" where
  "frame_schema_pwa d = (case d of ToExtension \<Rightarrow> clientFrameSchema | ToPwa \<Rightarrow> serverFrameSchema)"

lemma frame_schemas_same:
  assumes "zod (lib_accepts lib)"
  shows "accepts_value lib (frame_schema_pwa d) j = accepts_value lib (frame_schema d) j"
  using same_accepts [OF same_client_frames] server_frames_agree
  by (cases d) (simp_all add: frame_schema_pwa_def frame_schema_def accepts_value_def zod_determined [OF assms])

lemma parse_frame_same:
  assumes z: "zod (lib_accepts lib)"
  shows "parse_frame_pwa lib raw d (frame_schema_pwa d) = parse_frame lib raw d"
proof (cases "parse_raw lib raw MAX_FRAME_BYTES")
  case (Inr p)
  then show ?thesis
    by (cases p, cases d)
       (auto simp: parse_frame_pwa_def parse_frame_def parse_raw_same bounds_same frame_type_def
         assert_direction_def assert_version_def check_protocol_version_def assert_byte_limit_def
         check_frame_bytes_def known_client_def known_server_def frame_types_same
         frame_schemas_same [OF z] fragment_size_same [OF z] history_chunk_size_same [OF z]
         split: option.splits sum.splits)
qed (simp add: parse_frame_pwa_def parse_frame_def parse_raw_same bounds_same)

text \<open>
  C17: The codecs of the PWA and of the extension decode alike: on every raw value they return
  the same frame or the same error code, in both directions, although each has its own schemas,
  its own order of helper calls and its own Base64 decoder.
\<close>

theorem codecs_agree:
  assumes "zod (lib_accepts lib)"
  shows "decode_client_frame_pwa lib raw = decode_client_frame lib raw
       \<and> decode_server_frame_pwa lib raw = decode_server_frame lib raw"
  using parse_frame_same [OF assms, of raw ToExtension] parse_frame_same [OF assms, of raw ToPwa]
  by (simp add: decode_client_frame_pwa_def decode_client_frame_def decode_server_frame_pwa_def
      decode_server_frame_def frame_schema_pwa_def)

definition demo_reply :: json where
  "demo_reply = JObj [(''type'', JStr ''unheard_of'')]"

theorem codecs_agree_witness:
  "decode_server_frame_pwa (demo_lib demo_reply) (RawValue demo_reply) = Inl DUnsupported"
proof -
  have "decode_server_frame (demo_lib demo_reply) (RawValue demo_reply) = Inl DUnsupported"
    by code_simp
  then show ?thesis
    using codecs_agree [OF demo_lib_zod, of demo_reply "RawValue demo_reply"] by simp
qed

lemma encode_frame_pwa_eq:
  assumes "zod (lib_accepts lib)"
  shows "encode_frame_pwa lib f d = (case encode_frame lib f d of Inl e \<Rightarrow> Inl e | Inr t \<Rightarrow> Inr (utf8_encode t))"
proof -
  have "int (length (utf8_encode (stringify j))) \<le> MAX_FRAME_BYTES"
    if "parse_frame lib (RawValue f) d = Inr j" for j
    using that by (auto simp: parse_frame_iff [OF assms] parse_raw_def byte_length_def json_bytes_def
        length_utf8_encode Let_def split: if_splits)
  then show ?thesis
    using parse_frame_same [OF assms, of "RawValue f" d]
    by (cases d) (auto simp: encode_frame_pwa_def encode_frame_def frame_schema_pwa_def
        assert_byte_limit_def bounds_same Let_def not_less split: sum.splits)
qed

text \<open>
  C18: Frames cross the relay unchanged: what the extension encodes as a server frame the PWA
  decodes to the same frame, and what the PWA encodes as a client frame the extension decodes
  to the same frame, if \<open>JSON.parse\<close> and the UTF-8 decoder read back what \<open>JSON.stringify\<close>
  and the UTF-8 encoder wrote for it.
\<close>

theorem frames_cross:
  assumes "zod (lib_accepts lib)"
    and "lib_parse lib (stringify f) = Some f"
    and "lib_utf8 lib (utf8_encode (stringify f)) = Some (stringify f)"
  shows "(encode_server_frame lib f = Inr t \<longrightarrow> decode_server_frame_pwa lib (RawText t) = Inr f)
       \<and> (encode_client_frame_pwa lib f = Inr bs \<longrightarrow> decode_client_frame lib (RawBytes bs) = Inr f)"
proof (intro conjI impI)
  assume e: "encode_server_frame lib f = Inr t"
  then have "t = stringify f" by (auto simp: encode_server_frame_def encode_frame_def
        parse_frame_iff [OF assms(1)] parse_raw_def Let_def split: sum.splits if_splits)
  with e assms(2) encode_decode(1) [OF assms(1), of f ToPwa t]
  have "parse_frame lib (RawText t) ToPwa = Inr f" by (simp add: encode_server_frame_def)
  then show "decode_server_frame_pwa lib (RawText t) = Inr f"
    using parse_frame_same [OF assms(1), of "RawText t" ToPwa]
    by (simp add: decode_server_frame_pwa_def frame_schema_pwa_def)
next
  assume "encode_client_frame_pwa lib f = Inr bs"
  then obtain t where e: "encode_frame lib f ToExtension = Inr t" and bs: "bs = utf8_encode t"
    by (auto simp: encode_client_frame_pwa_def encode_frame_pwa_eq [OF assms(1)] split: sum.splits)
  then have t: "t = stringify f" by (auto simp: encode_frame_def
        parse_frame_iff [OF assms(1)] parse_raw_def Let_def split: sum.splits if_splits)
  with e assms(2) encode_decode(1) [OF assms(1), of f ToExtension t]
  have "parse_frame lib (RawText t) ToExtension = Inr f" by simp
  then show "decode_client_frame lib (RawBytes bs) = Inr f"
    using assms(2,3) bs t
    by (auto simp: decode_client_frame_def parse_frame_iff [OF assms(1)] parse_raw_def Let_def
        length_utf8_encode split: if_splits)
qed

definition demo_wire :: codec_lib where
  "demo_wire = \<lparr> lib_accepts = zod_accepts,
     lib_parse = (\<lambda>t. if t = stringify demo_pong then Some demo_pong else None),
     lib_utf8 = (\<lambda>bs. if bs = utf8_encode (stringify demo_pong) then Some (stringify demo_pong) else None) \<rparr>"

theorem frames_cross_witness:
  "decode_server_frame_pwa demo_wire (RawText (stringify demo_pong)) = Inr demo_pong"
proof -
  have "parse_frame demo_wire (RawValue demo_pong) ToPwa = Inr demo_pong"
    using demo_pong_accepted demo_pong_bytes
    by (simp add: parse_frame_iff demo_wire_def zod_exec.zod_axioms parse_raw_def byte_length_def
        accepts_value_def frame_schema_def MAX_FRAME_BYTES_def is_record_def demo_pong_def
        frame_fits_def str_field_def field_def)
  then have "encode_server_frame demo_wire demo_pong = Inr (stringify demo_pong)"
    by (simp add: encode_server_frame_def encode_frame_def)
  then show ?thesis
    using frames_cross [of demo_wire demo_pong "stringify demo_pong" "[]"]
    by (simp add: demo_wire_def zod_exec.zod_axioms)
qed

end
