(* ===== verification/TimelineTransfer.thy ===== *)
theory TimelineTransfer
  imports PwaCodec
begin

text \<open>
  \<open>pwa/src/lib/pwa/timeline-transfer.ts\<close>: how the PWA puts a timeline event together from its
  fragments (\<open>TimelineEventFragmentAssembler\<close>) and a history window from its chunks
  (\<open>HistoryWindowAssembler\<close>). The frames are JSON values; \<open>transfer_env\<close> holds the codec
  library and \<open>TextDecoder.decode\<close>, which replaces what is not UTF-8 and never fails.

  Where the code throws inside a \<open>try\<close> the model has \<open>Inl\<close>: both \<open>catch\<close> blocks drop the
  state of the event or of the window, so what a throwing call had changed before is not seen.
\<close>

record transfer_env =
  te_lib :: codec_lib
  te_decode :: "byte list \<Rightarrow> string"

record transfer_scope =
  ts_session :: string
  ts_generation :: string

datatype transfer_result = Pending | Complete json | Discarded string | Ignored string

record fragment_state =
  fs_entries :: "(int, byte list \<times> bool) js_map"
  fs_final :: "int option"
  fs_bytes :: int

type_synonym fragment_states = "(string, fragment_state) js_map"

definition text_of :: "string \<Rightarrow> json \<Rightarrow> string" where
  "text_of k j = (case str_field k j of Some s \<Rightarrow> s | None \<Rightarrow> [])"

definition int_of :: "string \<Rightarrow> json \<Rightarrow> int" where
  "int_of k j = (case field k j of Some (JNum (NInt i)) \<Rightarrow> i | _ \<Rightarrow> 0)"

definition bool_of :: "string \<Rightarrow> json \<Rightarrow> bool" where
  "bool_of k j = (field k j = Some (JBool True))"

section \<open>Fragments\<close>

definition decode_fragment :: "transfer_env \<Rightarrow> json \<Rightarrow> (unit, byte list) result" where
  "decode_fragment env f =
     (case validate_fragment_size_pwa (te_lib env) f of
        Inl e \<Rightarrow> Inl ()
      | Inr n \<Rightarrow>
          (case decode_base64 (text_of ''data_base64'' f) (Some Base64Standard) of
             Inl e \<Rightarrow> Inl () | Inr bs \<Rightarrow> Inr bs))"

definition invalid_sequence :: "transfer_result" where
  "invalid_sequence = Discarded ''invalid_fragment_sequence''"

definition empty_fragment_state :: fragment_state where
  "empty_fragment_state = \<lparr> fs_entries = [], fs_final = None, fs_bytes = 0 \<rparr>"

text \<open>The checks and the update of a fragment that is not a repetition.\<close>

definition new_fragment_ok :: "fragment_state \<Rightarrow> int \<Rightarrow> bool \<Rightarrow> bool" where
  "new_fragment_ok st i final =
     (\<not> int (length (fs_entries st)) \<ge> MAX_ARRAY_ITEMS_pwa
      \<and> (case fs_final st of Some n \<Rightarrow> \<not> (i > n \<or> final) | None \<Rightarrow> True)
      \<and> (final \<longrightarrow> fs_final st = None \<and> \<not> list_ex (\<lambda>k. k > i) (jm_keys (fs_entries st))))"

definition add_fragment ::
  "transfer_env \<Rightarrow> json \<Rightarrow> fragment_states \<Rightarrow> (unit, fragment_states \<times> transfer_result option) result" where
  "add_fragment env f states =
     (case decode_fragment env f of
        Inl u \<Rightarrow> Inl u
      | Inr bs \<Rightarrow>
          (let e = text_of ''event_id'' f;
               i = int_of ''index'' f;
               final = bool_of ''final'' f;
               st = (case jm_get states e of Some st \<Rightarrow> st | None \<Rightarrow> empty_fragment_state)
           in case jm_get (fs_entries st) i of
                Some (bs', final') \<Rightarrow>
                  if final' \<noteq> final \<or> bs' \<noteq> bs then Inr (jm_delete e states, Some invalid_sequence)
                  else Inr (jm_set e st states, Some Pending)
              | None \<Rightarrow>
                  if \<not> new_fragment_ok st i final then Inr (jm_delete e states, Some invalid_sequence)
                  else
                    (let st' = st \<lparr> fs_entries := jm_set i (bs, final) (fs_entries st),
                                    fs_final := (if final then Some i else fs_final st),
                                    fs_bytes := fs_bytes st + int (length bs) \<rparr>
                     in if fs_bytes st' > MAX_WINDOW_BYTES
                        then Inr (jm_delete e states, Some invalid_sequence)
                        else Inr (jm_set e st' states, None))))"

text \<open>The entries 0 to \<open>n - 1\<close> joined, \<open>None\<close> when one is missing.\<close>

fun join_entries :: "(int, byte list \<times> bool) js_map \<Rightarrow> nat \<Rightarrow> byte list option" where
  "join_entries m 0 = Some []"
| "join_entries m (Suc n) =
     (case join_entries m n of
        None \<Rightarrow> None
      | Some bs \<Rightarrow> (case jm_get m (int n) of None \<Rightarrow> None | Some (b, final) \<Rightarrow> Some (bs @ b)))"

definition finish_fragment ::
  "transfer_env \<Rightarrow> string \<Rightarrow> transfer_scope \<Rightarrow> fragment_states \<Rightarrow> fragment_states \<times> transfer_result" where
  "finish_fragment env e scope states =
     (case jm_get states e of
        None \<Rightarrow> (states, Pending)
      | Some st \<Rightarrow>
          (case fs_final st of
             None \<Rightarrow> (states, Pending)
           | Some n \<Rightarrow>
               if n + 1 \<noteq> int (length (fs_entries st)) then (states, Pending)
               else (case join_entries (fs_entries st) (nat (n + 1)) of
                  None \<Rightarrow> (states, Pending)
                | Some encoded \<Rightarrow>
                    (case parse_timeline_event_pwa (te_lib env) (RawText (te_decode env encoded)) of
                       Inl err \<Rightarrow> (jm_delete e states, Discarded ''fragment_event_invalid'')
                     | Inr ev \<Rightarrow>
                         if str_field ''event_id'' ev \<noteq> Some e
                            \<or> str_field ''session_id'' ev \<noteq> Some (ts_session scope)
                            \<or> str_field ''history_generation'' ev \<noteq> Some (ts_generation scope)
                         then (jm_delete e states, Discarded ''fragment_event_scope_mismatch'')
                         else (jm_delete e states, Complete ev)))))"

section \<open>The assembler of the event stream\<close>

record assembler =
  as_states :: fragment_states
  as_active :: int

definition new_assembler :: assembler where
  "new_assembler = \<lparr> as_states = [], as_active = 0 \<rparr>"

definition state_bytes :: "fragment_states \<Rightarrow> string \<Rightarrow> int" where
  "state_bytes states e = (case jm_get states e of Some st \<Rightarrow> fs_bytes st | None \<Rightarrow> 0)"

definition assembler_accept ::
  "transfer_env \<Rightarrow> transfer_scope \<Rightarrow> json \<Rightarrow> assembler \<Rightarrow> assembler \<times> transfer_result" where
  "assembler_accept env scope frame a =
     (let e = text_of ''event_id'' frame;
          previous = state_bytes (as_states a) e;
          drop_event = \<lparr> as_states = jm_delete e (as_states a), as_active = as_active a - previous \<rparr>
      in if str_field ''session_id'' frame \<noteq> Some (ts_session scope)
            \<or> str_field ''history_generation'' frame \<noteq> Some (ts_generation scope)
         then (new_assembler, Discarded ''fragment_scope_mismatch'')
         else if \<not> accepts_value (te_lib env) timelineEventFragmentFrameSchema frame
         then (drop_event, Discarded ''invalid_fragment'')
         else case add_fragment env frame (as_states a) of
           Inl u \<Rightarrow> (drop_event, Discarded ''invalid_fragment'')
         | Inr (states, added) \<Rightarrow>
             (let next_bytes = state_bytes states e;
                  active = as_active a + (next_bytes - previous)
              in if int (length states) > MAX_ARRAY_ITEMS_pwa \<or> active > MAX_WINDOW_BYTES
                 then (new_assembler, Discarded ''fragment_window_too_large'')
                 else case added of
                   Some (Discarded r) \<Rightarrow> (\<lparr> as_states = states, as_active = active - next_bytes \<rparr>, Discarded r)
                 | _ \<Rightarrow>
                     (let (states', result) = finish_fragment env e scope states
                      in (\<lparr> as_states = states',
                            as_active = (case result of Complete ev \<Rightarrow> active - next_bytes
                                         | Discarded r \<Rightarrow> active - next_bytes | _ \<Rightarrow> active) \<rparr>,
                          result))))"

section \<open>The assembler of a history window\<close>

datatype window_state = WsOpen | WsComplete | WsDiscarded

record history_window =
  hw_chunks :: "(int, json) js_map"
  hw_fragments :: fragment_states
  hw_complete :: "(string, json) js_map"
  hw_formal :: "string list"
  hw_scope :: "(transfer_scope \<times> string) option"
  hw_total :: int
  hw_tail :: "(int \<times> bool \<times> string option) option"
  hw_state :: window_state

definition new_window :: history_window where
  "new_window = \<lparr> hw_chunks = [], hw_fragments = [], hw_complete = [], hw_formal = [], hw_scope = None,
     hw_total = 0, hw_tail = None, hw_state = WsOpen \<rparr>"

datatype window_result =
    WPending
  | WComplete "json list" bool "string option"
  | WDiscarded string
  | WIgnored string

definition window_reset :: "history_window \<Rightarrow> history_window" where
  "window_reset w = new_window"

definition window_discard :: "string \<Rightarrow> history_window \<times> window_result" where
  "window_discard reason = (new_window \<lparr> hw_state := WsDiscarded \<rparr>, WDiscarded reason)"

definition is_contiguous :: "(int, json) js_map \<Rightarrow> int \<Rightarrow> bool" where
  "is_contiguous chunks final_index =
     (final_index + 1 = int (length chunks) \<and> (\<forall>i\<in>set [0..final_index]. jm_has chunks i))"

definition state_text :: "window_state \<Rightarrow> string" where
  "state_text s = (case s of WsOpen \<Rightarrow> ''open'' | WsComplete \<Rightarrow> ''complete'' | WsDiscarded \<Rightarrow> ''discarded'')"

text \<open>The chunks in order, each event as it was parsed; then the events that came in fragments.\<close>

definition complete_window :: "transfer_env \<Rightarrow> history_window \<Rightarrow> (unit, history_window \<times> window_result) result" where
  "complete_window env w =
     (let formal = concat (map (\<lambda>c. map (\<lambda>ev. the (jm_get (hw_complete w) (text_of ''event_id'' ev)))
                                   (array_items (field ''events'' (snd c))))
                          (sort_key fst (hw_chunks w)));
          formal_ids = map (text_of ''event_id'') formal;
          rest = filter (\<lambda>ev. \<not> List.member formal_ids (text_of ''event_id'' ev)) (jm_values (hw_complete w))
      in case validate_window_size_pwa (te_lib env) (jm_values (hw_complete w)) of
           Inl e \<Rightarrow> Inl ()
         | Inr n \<Rightarrow>
             (case hw_tail w of
                None \<Rightarrow> Inl ()
              | Some (i, eos, next) \<Rightarrow>
                  Inr (w \<lparr> hw_state := WsComplete \<rparr>, WComplete (formal @ rest) eos next)))"

text \<open>The whole events of a chunk; \<open>Inl\<close> is the reason of the discard.\<close>

fun add_events :: "transfer_env \<Rightarrow> transfer_scope \<Rightarrow> json list \<Rightarrow> history_window \<Rightarrow> (string, history_window) result" where
  "add_events env scope [] w = Inr w"
| "add_events env scope (v # vs) w =
     (case parse_timeline_event_pwa (te_lib env) (RawValue v) of
        Inl e \<Rightarrow> Inl ''invalid_history_window''
      | Inr ev \<Rightarrow>
          (let i = text_of ''event_id'' ev in
           if str_field ''session_id'' ev \<noteq> Some (ts_session scope)
              \<or> str_field ''history_generation'' ev \<noteq> Some (ts_generation scope)
              \<or> List.member (hw_formal w) i \<or> jm_has (hw_complete w) i \<or> jm_has (hw_fragments w) i
           then Inl ''duplicate_or_conflicting_event''
           else add_events env scope vs
                  (w \<lparr> hw_formal := hw_formal w @ [i], hw_complete := jm_set i ev (hw_complete w) \<rparr>)))"

fun add_chunk_fragments ::
  "transfer_env \<Rightarrow> transfer_scope \<Rightarrow> json list \<Rightarrow> history_window \<Rightarrow> (string, history_window) result" where
  "add_chunk_fragments env scope [] w = Inr w"
| "add_chunk_fragments env scope (f # fs) w =
     (let i = text_of ''event_id'' f in
      if List.member (hw_formal w) i \<or> jm_has (hw_complete w) i then Inl ''duplicate_or_conflicting_event''
      else case add_fragment env f (hw_fragments w) of
        Inl u \<Rightarrow> Inl ''invalid_history_window''
      | Inr (states, Some (Discarded r)) \<Rightarrow> Inl r
      | Inr (states, added) \<Rightarrow>
          (case finish_fragment env i scope states of
             (states', Discarded r) \<Rightarrow> Inl r
           | (states', Complete ev) \<Rightarrow>
               if jm_has (hw_complete w) (text_of ''event_id'' ev) then Inl ''duplicate_or_conflicting_event''
               else add_chunk_fragments env scope fs
                      (w \<lparr> hw_fragments := states',
                           hw_complete := jm_set (text_of ''event_id'' ev) ev (hw_complete w) \<rparr>)
           | (states', result) \<Rightarrow> add_chunk_fragments env scope fs (w \<lparr> hw_fragments := states' \<rparr>)))"

fun fragment_sizes :: "transfer_env \<Rightarrow> json list \<Rightarrow> (unit, int) result" where
  "fragment_sizes env [] = Inr 0"
| "fragment_sizes env (f # fs) =
     (case decode_fragment env f of
        Inl u \<Rightarrow> Inl u
      | Inr bs \<Rightarrow> (case fragment_sizes env fs of Inl u \<Rightarrow> Inl u | Inr n \<Rightarrow> Inr (int (length bs) + n)))"

definition scope_matches :: "transfer_scope \<Rightarrow> json \<Rightarrow> bool" where
  "scope_matches scope frame =
     (str_field ''session_id'' frame = Some (ts_session scope)
      \<and> str_field ''history_generation'' frame = Some (ts_generation scope))"

text \<open>The scope, duplicate and final-tail checks of a chunk, which may set the final tail.\<close>

definition place_chunk :: "transfer_scope option \<Rightarrow> json \<Rightarrow> history_window \<Rightarrow> (string, history_window) result" where
  "place_chunk expected frame w =
     (let scope = (case hw_scope w of Some s \<Rightarrow> s
            | None \<Rightarrow> (\<lparr> ts_session = text_of ''session_id'' frame,
                         ts_generation = text_of ''history_generation'' frame \<rparr>, text_of ''snapshot_head'' frame));
          index = int_of ''chunk_index'' frame;
          final = bool_of ''final_chunk'' frame
      in if (case expected of Some s \<Rightarrow> \<not> scope_matches s frame | None \<Rightarrow> False) then Inl ''history_scope_mismatch''
         else if \<not> scope_matches (fst scope) frame
              \<or> (snd scope \<noteq> [] \<and> text_of ''snapshot_head'' frame \<noteq> snd scope)
         then Inl ''history_scope_mismatch''
         else if jm_has (hw_chunks w) index then Inl ''duplicate_chunk''
         else if (case hw_tail w of Some (n, t) \<Rightarrow> index > n \<or> final | None \<Rightarrow> False) then Inl ''invalid_final_tail''
         else if final \<and> list_ex (\<lambda>k. k > index) (jm_keys (hw_chunks w)) then Inl ''invalid_final_tail''
         else Inr (w \<lparr> hw_scope := Some scope,
               hw_tail := (if final then
                   Some (if bool_of ''eos'' frame then (index, True, None)
                         else (index, False, str_field ''next_before'' frame)) else hw_tail w),
               hw_chunks := jm_set index frame (hw_chunks w) \<rparr>))"

definition window_accept ::
  "transfer_env \<Rightarrow> string \<Rightarrow> transfer_scope option \<Rightarrow> json \<Rightarrow> history_window \<Rightarrow> history_window \<times> window_result" where
  "window_accept env in_reply_to expected frame w =
     (if hw_state w \<noteq> WsOpen then (w, WIgnored (''window_'' @ state_text (hw_state w)))
      else if str_field ''in_reply_to'' frame \<noteq> Some in_reply_to then (w, WIgnored ''request_mismatch'')
      else if \<not> accepts_value (te_lib env) sessionHistoryChunkFrameSchema frame
      then window_discard ''invalid_history_chunk''
      else case validate_history_chunk_size_pwa (te_lib env) frame of
        Inl e \<Rightarrow> window_discard ''invalid_history_window''
      | Inr n \<Rightarrow>
          (case place_chunk expected frame w of
             Inl reason \<Rightarrow> window_discard reason
           | Inr w1 \<Rightarrow>
               (let events = array_items (field ''events'' frame);
                    fragments = array_items (field ''fragments'' frame);
                    scope = (case hw_scope w1 of Some s \<Rightarrow> fst s | None \<Rightarrow> \<lparr> ts_session = [], ts_generation = [] \<rparr>)
                in case fragment_sizes env fragments of
                     Inl u \<Rightarrow> window_discard ''invalid_history_window''
                   | Inr m \<Rightarrow>
                       (let w2 = w1 \<lparr> hw_total := hw_total w1 + sum_list (map byte_length events) + m \<rparr> in
                        if hw_total w2 > MAX_WINDOW_BYTES then window_discard ''window_too_large''
                        else case add_events env scope events w2 of
                          Inl reason \<Rightarrow> window_discard reason
                        | Inr w3 \<Rightarrow>
                            (case add_chunk_fragments env scope fragments w3 of
                               Inl reason \<Rightarrow> window_discard reason
                             | Inr w4 \<Rightarrow>
                                 if (case hw_tail w4 of None \<Rightarrow> True | Some (i, t) \<Rightarrow> \<not> is_contiguous (hw_chunks w4) i)
                                    \<or> hw_fragments w4 \<noteq> []
                                 then (w4, WPending)
                                 else (case complete_window env w4 of
                                    Inl u \<Rightarrow> window_discard ''invalid_history_window''
                                  | Inr r \<Rightarrow> r))))))"

definition window_finalize :: "transfer_env \<Rightarrow> history_window \<Rightarrow> history_window \<times> (unit, window_result) result" where
  "window_finalize env w =
     (if hw_state w \<noteq> WsOpen then (w, Inr (WIgnored (''window_'' @ state_text (hw_state w))))
      else if (case hw_tail w of None \<Rightarrow> True | Some (i, t) \<Rightarrow> \<not> is_contiguous (hw_chunks w) i)
      then (fst (window_discard []), Inr (WDiscarded ''history_chunk_gap''))
      else if hw_fragments w \<noteq> [] then (fst (window_discard []), Inr (WDiscarded ''incomplete_fragment''))
      else case complete_window env w of Inl u \<Rightarrow> (w, Inl u) | Inr (w', r) \<Rightarrow> (w', Inr r))"

end
