(* ===== verification/Transport.thy ===== *)
theory Transport
  imports V2Service TimelineTransfer
begin

text \<open>
  An event from the extension to the browser: \<open>TimelineV2Service.publishFrames\<close> cuts an event
  that is too large for a frame into fragments, and the assembler of the PWA
  (\<open>timeline-transfer.ts\<close>) puts it together again, in whatever order the fragments arrive.
  This theory has no definitions of its own code: it composes \<open>V2Service\<close>, the codecs and
  \<open>TimelineTransfer\<close>.
\<close>

section \<open>Slices\<close>

function slices :: "nat \<Rightarrow> 'a list \<Rightarrow> 'a list list" where
  "slices n xs = (if xs = [] \<or> n = 0 then [] else take n xs # slices n (drop n xs))"
  by pat_completeness auto

termination
  by (relation "measure (\<lambda>(n, xs). length xs)") auto

declare slices.simps [simp del]

lemma slices_Nil [simp]: "slices n [] = []"
  by (simp add: slices.simps)

lemma concat_slices: "0 < n \<Longrightarrow> concat (slices n xs) = xs"
proof (induction n xs rule: slices.induct)
  case (1 n xs)
  then show ?case by (cases "xs = []") (subst slices.simps, simp)+
qed

lemma slices_eq_Nil: "0 < n \<Longrightarrow> slices n xs = [] \<longleftrightarrow> xs = []"
  by (subst slices.simps) simp

lemma slices_bounds: "s \<in> set (slices n xs) \<Longrightarrow> s \<noteq> [] \<and> length s \<le> n"
proof (induction n xs rule: slices.induct)
  case (1 n xs)
  then show ?case
    by (cases "xs = [] \<or> n = 0") (subst (asm) slices.simps, auto)+
qed

text \<open>Every slice but the last is full, so there are at most so many.\<close>

lemma length_slices: "0 < n \<Longrightarrow> n * length (slices n xs) < length xs + n"
proof (induction n xs rule: slices.induct)
  case (1 n xs)
  show ?case
  proof (cases "xs = []")
    case False
    then have "slices n xs = take n xs # slices n (drop n xs)" using 1(2) by (subst slices.simps) simp
    moreover have "n * length (slices n (drop n xs)) < length xs"
    proof (cases "length xs \<le> n")
      case True
      with False show ?thesis by simp
    next
      case len: False
      with 1 False have "n * length (slices n (drop n xs)) < length (drop n xs) + n" by auto
      with len show ?thesis by simp
    qed
    ultimately show ?thesis by simp
  qed (use 1(2) in simp)
qed

section \<open>The fragments of an event\<close>

definition fragment_frame :: "string \<Rightarrow> string \<Rightarrow> string \<Rightarrow> nat \<Rightarrow> byte list \<Rightarrow> bool \<Rightarrow> json" where
  "fragment_frame session generation event_id index bs final =
     JObj [(''protocol_version'', JNum (NInt 2)), (''type'', JStr ''timeline_event_fragment''),
           (''session_id'', JStr session), (''history_generation'', JStr generation),
           (''event_id'', JStr event_id), (''index'', JNum (NInt (int index))),
           (''data_base64'', JStr (b64_encode bs)), (''final'', JBool final)]"

lemma event_fragments_nth:
  "event_fragments env sv e i bs = (let ss = slices (nat MAX_FRAGMENT_DECODE_BYTES) bs in
     map (\<lambda>j. fragment_frame (session_id_of env) (vs_generation sv) e (i + j) (ss ! j) (Suc j = length ss))
         [0..<length ss])"
proof (induction env sv e i bs rule: event_fragments.induct)
  case (1 env sv e i bs)
  let ?n = "nat MAX_FRAGMENT_DECODE_BYTES"
  have n: "0 < ?n" by (simp add: MAX_FRAGMENT_DECODE_BYTES_def)
  show ?case
  proof (cases "bs = []")
    case True
    then show ?thesis by (simp add: event_fragments.simps)
  next
    case False
    let ?ss = "slices ?n (drop ?n bs)"
    have ss: "slices ?n bs = take ?n bs # ?ss" using False n by (subst slices.simps) simp
    have last: "length bs \<le> ?n \<longleftrightarrow> ?ss = []" using slices_eq_Nil [OF n, of "drop ?n bs"] by auto
    have "event_fragments env sv e i bs =
        fragment_frame (session_id_of env) (vs_generation sv) e i (take ?n bs) (length bs \<le> ?n)
        # event_fragments env sv e (Suc i) (drop ?n bs)"
      using False by (subst event_fragments.simps) (simp add: fragment_frame_def Let_def)
    then show ?thesis
      using 1 [OF refl False] by (simp add: ss last Let_def map_upt_Suc del: upt_Suc)
  qed
qed

lemma fragment_fields:
  "str_field ''session_id'' (fragment_frame s g e i bs final) = Some s"
  "str_field ''history_generation'' (fragment_frame s g e i bs final) = Some g"
  "text_of ''event_id'' (fragment_frame s g e i bs final) = e"
  "int_of ''index'' (fragment_frame s g e i bs final) = int i"
  "bool_of ''final'' (fragment_frame s g e i bs final) = final"
  "str_field ''data_base64'' (fragment_frame s g e i bs final) = Some (b64_encode bs)"
  "text_of ''data_base64'' (fragment_frame s g e i bs final) = b64_encode bs"
  by (simp_all add: fragment_frame_def text_of_def int_of_def bool_of_def str_field_def field_def)

text \<open>The text of a Base64 encoding passes the pattern of the schema.\<close>

lemma b64_alphabet_char: "n < 64 \<Longrightarrow> b64_alphabet (b64_char n)"
  by (auto simp: b64_alphabet_value)

lemma base64_text_encode: "base64_text (b64_encode bs)"
proof (induction bs rule: b64_encode.induct)
  case (2 a)
  then show ?case by (simp add: b64_alphabet_char sx_small)
next
  case (3 a b)
  then show ?case by (simp add: b64_alphabet_char sx_small b64_char_not_pad)
next
  case (4 a b c bs)
  then show ?case by (simp add: b64_alphabet_char sx_small)
qed simp

lemma fragment_accepted:
  assumes "zod (lib_accepts lib)" and "valid_id s" and "valid_id g" and "valid_id e"
    and "bs \<noteq> []" and "int (length bs) \<le> MAX_FRAGMENT_DECODE_BYTES" and "int i \<le> max_safe_integer"
  shows "accepts_value lib TimelineEventFragmentSchema (fragment_frame s g e i bs final)"
proof -
  have "3 \<le> length bs + 2" using assms(5) by (cases bs) simp_all
  then have "1 \<le> (length bs + 2) div 3" using div_le_mono [of 3 "length bs + 2" 3] by simp
  then have "4 \<le> length (b64_encode bs)" by (simp add: length_b64_encode)
  moreover have "(length bs + 2) div 3 \<le> 17067"
    using assms(6) by (simp add: MAX_FRAGMENT_DECODE_BYTES_def)
  then have "length (b64_encode bs) \<le> 68271" by (simp add: length_b64_encode)
  ultimately show ?thesis
    using assms base64_text_encode [of bs]
    by (simp add: accepts_value_def zod_determined [OF assms(1)] TimelineEventFragmentSchema_def fragment_frame_def
        spread_def frameBase_def broadcastBase_def lit_int_def lit_def id_schema_def nonNegativeInt_def
        base64_schema_def valid_id_def MAX_ID_CHARS_def Suc_le_eq MAX_FRAGMENT_DECODE_BYTES_def PROTOCOL_VERSION_V2_def)
qed

section \<open>Putting the fragments together\<close>

text \<open>What the assembler knows of an event of which the slices \<open>ks\<close> have arrived.\<close>

definition collected_state :: "byte list list \<Rightarrow> nat list \<Rightarrow> fragment_state \<Rightarrow> bool" where
  "collected_state ss ks st \<longleftrightarrow>
     (\<forall>i. jm_get (fs_entries st) i =
        (if 0 \<le> i \<and> nat i \<in> set ks then Some (ss ! nat i, Suc (nat i) = length ss) else None))
     \<and> length (fs_entries st) = length ks
     \<and> fs_final st = (if length ss - 1 \<in> set ks then Some (int (length ss) - 1) else None)
     \<and> fs_bytes st = (\<Sum>k\<leftarrow>ks. int (length (ss ! k)))"

definition collected :: "string \<Rightarrow> byte list list \<Rightarrow> nat list \<Rightarrow> assembler \<Rightarrow> bool" where
  "collected e ss ks a \<longleftrightarrow>
     (if ks = [] then a = new_assembler
      else \<exists>st. as_states a = [(e, st)] \<and> as_active a = fs_bytes st \<and> collected_state ss ks st)"

lemma collected_empty: "collected_state ss [] empty_fragment_state"
  by (simp add: collected_state_def empty_fragment_state_def)

lemma collected_lookup:
  assumes "collected e ss ks a"
  obtains st where "(case jm_get (as_states a) e of Some st \<Rightarrow> st | None \<Rightarrow> empty_fragment_state) = st"
    "state_bytes (as_states a) e = fs_bytes st" "as_active a = fs_bytes st" "collected_state ss ks st"
    "\<And>st'. jm_set e st' (as_states a) = [(e, st')]"
  using assms collected_empty [of ss]
  by (cases "ks = []") (auto simp: collected_def new_assembler_def state_bytes_def empty_fragment_state_def)

lemma some_bytes_total:
  assumes "distinct ks" and "set ks \<subseteq> {..<length ss}"
  shows "(\<Sum>k\<leftarrow>ks. int (length (ss ! k))) \<le> int (length (concat ss))"
proof -
  have "(\<Sum>k\<leftarrow>ks. int (length (ss ! k))) = (\<Sum>k\<in>set ks. int (length (ss ! k)))"
    using assms(1) by (simp add: sum_list_distinct_conv_sum_set)
  also have "\<dots> \<le> (\<Sum>k\<in>{..<length ss}. int (length (ss ! k)))"
    using assms(2) by (intro sum_mono2) auto
  also have "\<dots> = int (length (concat ss))"
    by (simp add: length_concat sum_list_sum_nth atLeast0LessThan)
  finally show ?thesis .
qed

lemma join_entries_take:
  assumes "\<And>i. i < m \<Longrightarrow> \<exists>final. jm_get entries (int i) = Some (ss ! i, final)" and "m \<le> length ss"
  shows "join_entries entries m = Some (concat (take m ss))"
  using assms
proof (induction m)
  case (Suc m)
  moreover obtain final where "jm_get entries (int m) = Some (ss ! m, final)"
    using Suc.prems(1) [of m] by auto
  moreover have "join_entries entries m = Some (concat (take m ss))"
    using Suc.prems by (intro Suc.IH) auto
  ultimately show ?case by (auto simp: take_Suc_conv_app_nth)
qed simp

lemma fragment_decoded:
  assumes "accepts_value (te_lib tenv) TimelineEventFragmentSchema (fragment_frame s g e i bs final)"
    and "zod (lib_accepts (te_lib tenv))" and "bs \<noteq> []" and "int (length bs) \<le> MAX_FRAGMENT_DECODE_BYTES"
  shows "decode_fragment tenv (fragment_frame s g e i bs final) = Inr bs"
  using assms fragment_schemas_same(1) [OF assms(2)]
  by (simp add: decode_fragment_def validate_fragment_size_pwa_def fragment_fields decode_base64_bytes_def
      atob_encode bounds_same decode_encode_base64)

lemma add_next_fragment:
  assumes dec: "decode_fragment tenv (fragment_frame s g e k (ss ! k) (Suc k = length ss)) = Inr (ss ! k)"
    and st: "(case jm_get states e of Some st \<Rightarrow> st | None \<Rightarrow> empty_fragment_state) = st" "collected_state ss ks st"
    and k: "k < length ss" "k \<notin> set ks" and ks: "distinct ks" "set ks \<subseteq> {..<length ss}"
    and n: "int (length ss) \<le> MAX_ARRAY_ITEMS_pwa" and size: "int (length (concat ss)) \<le> MAX_WINDOW_BYTES"
  shows "\<exists>st'. add_fragment tenv (fragment_frame s g e k (ss ! k) (Suc k = length ss)) states
      = Inr (jm_set e st' states, None) \<and> collected_state ss (k # ks) st'"
proof -
  have absent: "jm_get (fs_entries st) (int k) = None" and len: "length (fs_entries st) = length ks"
    and final: "fs_final st = (if length ss - 1 \<in> set ks then Some (int (length ss) - 1) else None)"
    using st(2) k(2) by (simp_all add: collected_state_def)
  have "length ks < length ss"
    using card_mono [of "{..<length ss}" "insert k (set ks)"] k ks by (simp add: distinct_card)
  moreover have "key \<le> int k" if "key \<in> set (jm_keys (fs_entries st))" "Suc k = length ss" for key
  proof -
    have "jm_get (fs_entries st) key \<noteq> None" using that(1) by (auto simp: jm_keys_def jm_get_None_iff)
    then have "0 \<le> key \<and> nat key \<in> set ks" using st(2) by (auto simp: collected_state_def split: if_splits)
    with ks(2) that(2) show ?thesis by auto
  qed
  moreover have "Suc k = length ss \<Longrightarrow> length ss - Suc 0 = k" by simp
  ultimately have ok: "new_fragment_ok st (int k) (Suc k = length ss)"
    using n final k by (auto simp: new_fragment_ok_def len list_ex_iff not_less)
  let ?st' = "st \<lparr> fs_entries := jm_set (int k) (ss ! k, Suc k = length ss) (fs_entries st),
     fs_final := (if Suc k = length ss then Some (int k) else fs_final st),
     fs_bytes := fs_bytes st + int (length (ss ! k)) \<rparr>"
  have "collected_state ss (k # ks) ?st'"
    using st(2) k absent
    by (auto simp: collected_state_def jm_length_set jm_has_def final split: if_splits)
  moreover from this have "fs_bytes ?st' \<le> MAX_WINDOW_BYTES"
    using some_bytes_total [of "k # ks" ss] k ks size by (simp add: collected_state_def)
  ultimately show ?thesis
    using dec st(1) absent ok
    by (intro exI [of _ ?st']) (simp add: add_fragment_def fragment_fields Let_def)
qed

text \<open>The event as the browser reads it from the joined bytes.\<close>

definition event_readable :: "transfer_env \<Rightarrow> transfer_scope \<Rightarrow> string \<Rightarrow> byte list \<Rightarrow> json \<Rightarrow> bool" where
  "event_readable tenv scope e bs ev \<longleftrightarrow>
     parse_timeline_event_pwa (te_lib tenv) (RawText (te_decode tenv bs)) = Inr ev
     \<and> str_field ''event_id'' ev = Some e \<and> str_field ''session_id'' ev = Some (ts_session scope)
     \<and> str_field ''history_generation'' ev = Some (ts_generation scope)"

lemma finish_collected:
  assumes "jm_get states e = Some st" and "collected_state ss ks st" and "distinct ks" and "set ks \<subseteq> {..<length ss}"
    and "ss \<noteq> []" and "event_readable tenv scope e (concat ss) ev"
  shows "finish_fragment tenv e scope states
    = (if length ks < length ss then (states, Pending) else (jm_delete e states, Complete ev))"
proof -
  have len: "length (fs_entries st) = length ks"
    and final: "fs_final st = (if length ss - 1 \<in> set ks then Some (int (length ss) - 1) else None)"
    using assms(2) by (simp_all add: collected_state_def)
  show ?thesis
  proof (cases "length ks < length ss")
    case True
    then show ?thesis using assms(1) len final by (simp add: finish_fragment_def)
  next
    case False
    moreover have "card (set ks) \<le> length ss" using card_mono [of "{..<length ss}", OF _ assms(4)] by simp
    ultimately have eq: "length ks = length ss" using assms(3) by (simp add: distinct_card)
    then have all: "set ks = {..<length ss}"
      using card_subset_eq [of "{..<length ss}" "set ks"] assms(3,4) by (simp add: distinct_card)
    have "join_entries (fs_entries st) (length ss) = Some (concat (take (length ss) ss))"
      using assms(2) all by (intro join_entries_take) (auto simp: collected_state_def)
    then show ?thesis
      using False assms(1,5,6) final len all eq
      by (simp add: finish_fragment_def event_readable_def)
  qed
qed

lemma assembler_step:
  assumes z: "zod (lib_accepts (te_lib tenv))" and ids: "valid_id s" "valid_id g" "valid_id e"
    and scope: "ts_session scope = s" "ts_generation scope = g"
    and ss: "\<forall>bs\<in>set ss. bs \<noteq> [] \<and> int (length bs) \<le> MAX_FRAGMENT_DECODE_BYTES"
    and n: "int (length ss) \<le> MAX_ARRAY_ITEMS_pwa" and size: "int (length (concat ss)) \<le> MAX_WINDOW_BYTES"
    and ev: "event_readable tenv scope e (concat ss) ev"
    and a: "collected e ss ks a" and ks: "distinct ks" "set ks \<subseteq> {..<length ss}"
    and k: "k < length ss" "k \<notin> set ks"
  shows "\<exists>a'. assembler_accept tenv scope (fragment_frame s g e k (ss ! k) (Suc k = length ss)) a
       = (a', if Suc (length ks) < length ss then Pending else Complete ev)
     \<and> (if Suc (length ks) < length ss then collected e ss (k # ks) a' else a' = new_assembler)"
proof -
  let ?f = "fragment_frame s g e k (ss ! k) (Suc k = length ss)"
  have bs: "ss ! k \<noteq> []" "int (length (ss ! k)) \<le> MAX_FRAGMENT_DECODE_BYTES"
    using ss k(1) by simp_all
  have "int k \<le> max_safe_integer"
    using k(1) n by (simp add: MAX_ARRAY_ITEMS_pwa_def max_safe_integer_def)
  from fragment_accepted [OF z ids bs this] have acc: "accepts_value (te_lib tenv) TimelineEventFragmentSchema ?f" .
  obtain st where st: "(case jm_get (as_states a) e of Some st \<Rightarrow> st | None \<Rightarrow> empty_fragment_state) = st"
    and bytes: "state_bytes (as_states a) e = fs_bytes st" "as_active a = fs_bytes st"
    and coll: "collected_state ss ks st" and set1: "\<And>st'. jm_set e st' (as_states a) = [(e, st')]"
    by (rule collected_lookup [OF a]) blast
  obtain st' where add: "add_fragment tenv ?f (as_states a) = Inr ([(e, st')], None)"
    and coll': "collected_state ss (k # ks) st'"
    using add_next_fragment [OF fragment_decoded [OF acc z bs] st coll k ks n size] set1 by auto
  have ne: "ss \<noteq> []" using k(1) by auto
  have ks': "distinct (k # ks)" "set (k # ks) \<subseteq> {..<length ss}" using k ks by auto
  have small: "\<not> fs_bytes st' > MAX_WINDOW_BYTES"
    using some_bytes_total [OF ks'] size coll' by (simp add: collected_state_def)
  have fin: "finish_fragment tenv e scope [(e, st')] =
      (if Suc (length ks) < length ss then ([(e, st')], Pending) else (jm_delete e [(e, st')], Complete ev))"
    using finish_collected [of "[(e, st')]" e st' ss "k # ks" tenv scope ev] coll' ks' ne ev by auto
  have "state_bytes [(e, st')] e = fs_bytes st'" by (simp add: state_bytes_def)
  then show ?thesis
    using acc fragment_schemas_same(1) [OF z] add fin small scope bytes coll'
    by (auto simp: assembler_accept_def fragment_fields Let_def collected_def new_assembler_def jm_delete_def
        MAX_ARRAY_ITEMS_pwa_def)
qed

text \<open>The results of a sequence of frames.\<close>

fun accept_frames ::
  "transfer_env \<Rightarrow> transfer_scope \<Rightarrow> json list \<Rightarrow> assembler \<Rightarrow> assembler \<times> transfer_result list" where
  "accept_frames tenv scope [] a = (a, [])"
| "accept_frames tenv scope (f # fs) a =
     (let (a', r) = assembler_accept tenv scope f a; (a'', rs) = accept_frames tenv scope fs a' in (a'', r # rs))"

lemma accept_rest:
  assumes z: "zod (lib_accepts (te_lib tenv))" and ids: "valid_id s" "valid_id g" "valid_id e"
    and scope: "ts_session scope = s" "ts_generation scope = g"
    and ss: "\<forall>bs\<in>set ss. bs \<noteq> [] \<and> int (length bs) \<le> MAX_FRAGMENT_DECODE_BYTES"
    and n: "int (length ss) \<le> MAX_ARRAY_ITEMS_pwa" and size: "int (length (concat ss)) \<le> MAX_WINDOW_BYTES"
    and ev: "event_readable tenv scope e (concat ss) ev"
    and "collected e ss ks a" and "distinct (ks @ js)" and "set (ks @ js) = {..<length ss}" and "js \<noteq> []"
  shows "accept_frames tenv scope (map (\<lambda>k. fragment_frame s g e k (ss ! k) (Suc k = length ss)) js) a
    = (new_assembler, replicate (length js - 1) Pending @ [Complete ev])"
  using assms(11-14)
proof (induction js arbitrary: ks a)
  case (Cons k js)
  have all: "length ks + Suc (length js) = length ss"
    using distinct_card [OF Cons.prems(2)] Cons.prems(3) by simp
  have "k \<in> set (ks @ k # js)" by simp
  then have k: "k < length ss" unfolding Cons.prems(3) by simp
  have ks: "distinct ks" "set ks \<subseteq> {..<length ss}" "k \<notin> set ks"
    using Cons.prems(2,3) by auto
  from assembler_step [OF z ids scope ss n size ev Cons.prems(1) ks(1,2) k ks(3)]
  obtain a' where step: "assembler_accept tenv scope (fragment_frame s g e k (ss ! k) (Suc k = length ss)) a
       = (a', if Suc (length ks) < length ss then Pending else Complete ev)"
    and a': "if Suc (length ks) < length ss then collected e ss (k # ks) a' else a' = new_assembler"
    by blast
  show ?case
  proof (cases "js = []")
    case True
    with step a' all show ?thesis by simp
  next
    case False
    then have "Suc (length ks) < length ss" using all by (cases js) simp_all
    moreover from False obtain m where "length js = Suc m" by (cases js) simp_all
    ultimately show ?thesis
      using step a' Cons.IH [of "k # ks" a'] Cons.prems(2,3) False by simp
  qed
qed simp

lemma mset_map_origin: "mset fs = mset (map f xs) \<Longrightarrow> \<exists>ys. mset ys = mset xs \<and> fs = map f ys"
proof (induction fs arbitrary: xs)
  case (Cons y fs)
  then have "y \<in> set (map f xs)" by (metis list.set_intros(1) set_mset_mset)
  then obtain x where x: "x \<in> set xs" "y = f x" by auto
  then have "mset (map f xs) = add_mset y (mset (map f (remove1 x xs)))"
    by (metis insert_DiffM mset_map mset_remove1 msed_map_invL image_mset_add_mset set_mset_mset)
  with Cons.prems have "mset fs = mset (map f (remove1 x xs))" by simp
  from Cons.IH [OF this] obtain ys where "mset ys = mset (remove1 x xs)" "fs = map f ys" by blast
  with x show ?case by (intro exI [of _ "x # ys"]) simp
qed simp

text \<open>
  C30: An event cut into fragments arrives whole, in any order. Fed with the fragments that
  \<open>publishFrames\<close> makes of the UTF-8 text of an event, in whatever order the relay delivers
  them, the assembler of the PWA answers "pending" to all but the last and completes the event
  with the last, whichever that is, and keeps nothing of it. The event is at most 32 MiB, and
  the browser's UTF-8 decoder, \<open>JSON.parse\<close> and schema read it from the joined bytes.
\<close>

theorem fragments_reassembled:
  assumes "zod (lib_accepts (te_lib tenv))"
    and "valid_id (session_id_of env)" and "valid_id (vs_generation sv)" and "valid_id e"
    and "scope = \<lparr> ts_session = session_id_of env, ts_generation = vs_generation sv \<rparr>"
    and "bs \<noteq> []" and "int (length bs) \<le> MAX_WINDOW_BYTES" and "event_readable tenv scope e bs ev"
    and "mset frames = mset (event_fragments env sv e 0 bs)"
  shows "accept_frames tenv scope frames new_assembler
    = (new_assembler, replicate (length frames - 1) Pending @ [Complete ev])"
proof -
  let ?n = "nat MAX_FRAGMENT_DECODE_BYTES"
  let ?ss = "slices ?n bs"
  let ?F = "\<lambda>k. fragment_frame (session_id_of env) (vs_generation sv) e k (?ss ! k) (Suc k = length ?ss)"
  have n: "0 < ?n" by (simp add: MAX_FRAGMENT_DECODE_BYTES_def)
  have whole: "concat ?ss = bs" using concat_slices [OF n] .
  have "event_fragments env sv e 0 bs = map ?F [0..<length ?ss]"
    by (simp add: event_fragments_nth Let_def)
  with assms(9) have "mset frames = mset (map ?F [0..<length ?ss])" by simp
  from mset_map_origin [OF this] obtain js where js: "mset js = mset [0..<length ?ss]" "frames = map ?F js"
    by blast
  from js(1) have set: "set js = {..<length ?ss}" by (metis atLeast_upt mset_eq_setD)
  from js(1) have dist: "distinct js" by (metis distinct_upt mset_eq_imp_distinct_iff)
  have "?ss \<noteq> []" using slices_eq_Nil [OF n, of bs] assms(6) by simp
  then have "0 \<in> set js" unfolding set by simp
  then have "js \<noteq> []" by auto
  have small: "\<forall>b\<in>set ?ss. b \<noteq> [] \<and> int (length b) \<le> MAX_FRAGMENT_DECODE_BYTES"
    using slices_bounds [of _ ?n bs] by (auto simp: MAX_FRAGMENT_DECODE_BYTES_def)
  have many: "int (length ?ss) \<le> MAX_ARRAY_ITEMS_pwa"
    using length_slices [OF n, of bs] assms(7)
    by (simp add: MAX_FRAGMENT_DECODE_BYTES_def MAX_WINDOW_BYTES_def MAX_ARRAY_ITEMS_pwa_def)
  have scope: "ts_session scope = session_id_of env" "ts_generation scope = vs_generation sv"
    by (simp_all add: assms(5))
  have start: "collected e ?ss [] new_assembler" "distinct ([] @ js)" "set ([] @ js) = {..<length ?ss}"
    using set dist by (simp_all add: collected_def)
  have "int (length (concat ?ss)) \<le> MAX_WINDOW_BYTES" "event_readable tenv scope e (concat ?ss) ev"
    using assms(7,8) by (simp_all add: whole)
  from accept_rest [OF assms(1-4) scope small many this start \<open>js \<noteq> []\<close>] show ?thesis
    by (simp add: js(2))
qed

definition demo_event :: json where
  "demo_event = JObj [(''event_id'', JStr ''e1''), (''session_id'', JStr ''other''), (''history_generation'', JStr ''g''),
     (''timestamp'', JNum (NInt 1)), (''group_id'', JStr ''g1''), (''kind'', JStr ''provider_error''),
     (''message'', JStr ''no'')]"

definition demo_transfer :: transfer_env where
  "demo_transfer = \<lparr> te_lib = demo_lib demo_event, te_decode = (\<lambda>bs. stringify demo_event) \<rparr>"

lemma demo_event_accepted: "zod_accepts timelineEventSchema (Some demo_event)"
  by code_simp

lemma demo_event_readable:
  "event_readable demo_transfer \<lparr> ts_session = ''other'', ts_generation = ''g'' \<rparr> ''e1''
     (utf8_encode (stringify demo_event)) demo_event"
proof -
  have "json_bytes demo_event \<le> 1000" by code_simp
  then show ?thesis
    using demo_event_accepted
    by (simp add: event_readable_def demo_transfer_def parse_timeline_event_pwa_def parse_raw_pwa_def demo_lib_def
        accepts_value_def validate_encoded_size_def byte_length_def length_utf8_encode json_bytes_def Let_def
        MAX_WINDOW_BYTES_def)
      (simp add: demo_event_def str_field_def field_def)
qed

theorem fragments_reassembled_witness:
  "accept_frames demo_transfer \<lparr> ts_session = ''other'', ts_generation = ''g'' \<rparr>
     (event_fragments (demo_service_env 0) demo_fresh ''e1'' 0 (utf8_encode (stringify demo_event))) new_assembler
   = (new_assembler, [Complete demo_event])"
proof -
  let ?bs = "utf8_encode (stringify demo_event)"
  let ?fs = "event_fragments (demo_service_env 0) demo_fresh ''e1'' 0 ?bs"
  have small: "length ?bs \<le> 1000" unfolding length_utf8_encode by code_simp
  have full: "?bs \<noteq> []" by (simp add: utf8_encode_def demo_event_def utf8_char_def Let_def)
  then have one: "length ?fs = 1"
    using small by (subst event_fragments.simps)
      (simp add: MAX_FRAGMENT_DECODE_BYTES_def event_fragments.simps Let_def)
  have ids: "valid_id (session_id_of (demo_service_env 0))" "valid_id (vs_generation demo_fresh)" "valid_id ''e1''"
    "session_id_of (demo_service_env 0) = ''other''" "vs_generation demo_fresh = ''g''"
    by (simp_all add: valid_id_def session_id_of_def demo_service_env_def demo_view_def demo_fresh_def)
  have "zod (lib_accepts (te_lib demo_transfer))" by (simp add: demo_transfer_def demo_lib_zod)
  from fragments_reassembled [OF this ids(1-3) _ full _ demo_event_readable, of ?fs] small ids(4,5) one
  show ?thesis by (simp add: MAX_WINDOW_BYTES_def)
qed

end
