(* ===== verification/ServiceFrames.thy ===== *)
theory ServiceFrames
  imports Transport
begin

text \<open>
  Type soundness of the service: in every run whose inputs are well typed (client frames of
  the client schema, ids of the bounded kind) each frame that \<open>TimelineV2Service\<close> returns is a
  frame of the server schema.
\<close>

section \<open>Evaluating the schemas on frames with unknown ids\<close>

lemma id_schema_accepts [simp]: "zod_accepts id_schema (Some (JStr s)) = valid_id s"
  by (simp add: id_schema_def valid_id_def MAX_ID_CHARS_def Suc_le_eq)

lemma id_schema_absent [simp]: "\<not> zod_accepts id_schema None"
  by (simp add: id_schema_def)

lemma lit_accepts [simp]: "zod_accepts (lit s) v = (v = Some (JStr s))"
  by (simp add: lit_def)

lemma lit_int_accepts [simp]: "zod_accepts (lit_int n) v = (v = Some (JNum (NInt n)))"
  by (simp add: lit_int_def)

lemma id_schema_value: "zod_accepts id_schema v = (\<exists>s. v = Some (JStr s) \<and> valid_id s)"
  by (auto simp: id_schema_def valid_id_def MAX_ID_CHARS_def Suc_le_eq split: option.splits json.splits)

lemmas shape_defs = spread_def frameBase_def responseDirect_def broadcastBase_def PROTOCOL_VERSION_V2_def

lemma server_frame_option:
  "s \<in> set (options_of ServerFrameSchema) \<Longrightarrow> zod_accepts s v \<Longrightarrow> zod_accepts ServerFrameSchema v"
  by (auto simp: ServerFrameSchema_def)

definition server_frame :: "json \<Rightarrow> bool" where
  "server_frame f \<longleftrightarrow> zod_accepts ServerFrameSchema (Some f)"

lemma server_frameI: "zod_accepts s (Some f) \<Longrightarrow> s \<in> set (options_of ServerFrameSchema) \<Longrightarrow> server_frame f"
  by (simp add: server_frame_def server_frame_option)

lemma options_members:
  "pong_frame \<in> set (options_of ServerFrameSchema)" "cancelled \<in> set (options_of ServerFrameSchema)"
  "reset_frame \<in> set (options_of ServerFrameSchema)" "sessionReady \<in> set (options_of ServerFrameSchema)"
  "protocolError \<in> set (options_of ServerFrameSchema)" "userMessageStatus \<in> set (options_of ServerFrameSchema)"
  "userMessageStarted \<in> set (options_of ServerFrameSchema)" "modelsList \<in> set (options_of ServerFrameSchema)"
  "timelineEventFrame \<in> set (options_of ServerFrameSchema)"
  "TimelineEventFragmentSchema \<in> set (options_of ServerFrameSchema)"
  by (simp_all add: ServerFrameSchema_def)

section \<open>The frames one by one\<close>

lemma pong_ok: "valid_id c \<Longrightarrow> valid_id i \<Longrightarrow>
    server_frame (direct c [(''type'', JStr ''pong''), (''in_reply_to'', JStr i)])"
  by (rule server_frameI [OF _ options_members(1)]) (simp add: direct_def pong_frame_def shape_defs)

lemma cancelled_ok: "valid_id c \<Longrightarrow> valid_id i \<Longrightarrow>
    server_frame (direct c [(''type'', JStr ''cancelled''), (''in_reply_to'', JStr i)])"
  by (rule server_frameI [OF _ options_members(2)]) (simp add: direct_def cancelled_def shape_defs)

lemma ready_ok:
  assumes "valid_id i" "valid_id c" "valid_id s" "valid_id g" "valid_id u"
  shows "server_frame (JObj [(''protocol_version'', JNum (NInt 2)), (''type'', JStr ''session_ready''),
     (''in_reply_to'', JStr i), (''target_channel_id'', JStr c), (''session_id'', JStr s),
     (''history_generation'', JStr g), (''self_sender_ref'', JStr u)])"
  by (rule server_frameI [OF _ options_members(4)]) (simp add: assms sessionReady_def shape_defs)

definition reset_reasons :: "string set" where
  "reset_reasons = {''generation_changed'', ''branch_changed'', ''session_replaced'', ''conflict'', ''invalid_cursor''}"

lemma reset_ok:
  assumes "valid_id c" "valid_id s" "valid_id g" "reason \<in> reset_reasons"
  shows "server_frame (JObj [(''protocol_version'', JNum (NInt 2)), (''type'', JStr ''reset''),
     (''target_channel_id'', JStr c), (''session_id'', JStr s), (''history_generation'', JStr g),
     (''reason'', JStr reason)])"
  using assms(4)
  by (intro server_frameI [OF _ options_members(3)])
     (auto simp: assms(1-3) reset_reasons_def reset_frame_def shape_defs)

definition error_codes :: "string set" where
  "error_codes = {''protocol_upgrade_required'', ''invalid_message'', ''unsupported_type'', ''invalid_channel'',
     ''invalid_generation'', ''invalid_cursor'', ''reset_required'', ''too_large'', ''internal_error''}"

definition message_ok :: "string \<Rightarrow> bool" where
  "message_ok m \<longleftrightarrow> m \<noteq> [] \<and> int (length m) \<le> MAX_TEXT_CHARS"

lemma message_accepts [simp]: "zod_accepts nonEmptyText (Some (JStr m)) = message_ok m"
  by (cases m) (auto simp: nonEmptyText_def boundedText_def message_ok_def)

lemma error_ok:
  assumes "valid_id i" "code \<in> error_codes" "message_ok m" "\<And>c. channel = Some c \<Longrightarrow> c = [] \<or> valid_id c"
  shows "server_frame (service_error i code m channel)"
proof (rule server_frameI [OF _ options_members(5)])
  have code: "code \<in> error_codes" by (rule assms(2))
  show "zod_accepts protocolError (Some (service_error i code m channel))"
    using assms(1,3,4) code [unfolded error_codes_def]
    by (cases channel)
       (auto simp: protocolError_def protocolErrorFields_def service_error_def shape_defs simp del:)
qed

definition opt_id :: "string option \<Rightarrow> bool" where
  "opt_id v \<longleftrightarrow> (case v of Some s \<Rightarrow> s = [] \<or> valid_id s | None \<Rightarrow> True)"

lemma truthy_member_cases:
  assumes "opt_id v"
  obtains "truthy_member k v = []" | t where "truthy_member k v = [(k, JStr t)]" "valid_id t"
proof (cases "\<exists>t. v = Some t \<and> t \<noteq> []")
  case True
  then obtain t where "v = Some t" "t \<noteq> []" by blast
  with assms that(2) [of t] show thesis by (simp add: opt_id_def truthy_member_def)
next
  case False
  then have "truthy_member k v = []" by (cases v) (simp_all add: truthy_member_def)
  then show thesis by (rule that(1))
qed

definition reply_ids :: "service_env \<Rightarrow> service \<Rightarrow> string list \<Rightarrow> bool" where
  "reply_ids env sv ids \<longleftrightarrow>
     valid_id (session_id_of env) \<and> valid_id (vs_generation sv) \<and> list_all valid_id ids"

text \<open>The four shapes of \<open>user_message_status\<close> with their spreads computed.\<close>

definition status_shape :: "string \<Rightarrow> shape" where
  "status_shape status =
     [(''protocol_version'', lit_int 2), (''type'', lit ''user_message_status''), (''target_channel_id'', id_schema),
      (''in_reply_to'', id_schema), (''session_id'', id_schema), (''history_generation'', id_schema),
      (''client_request_id'', id_schema), (''status'', lit status)]"

lemma status_shapes:
  "userMessageStatus = ZUnion [ZStrict (status_shape ''received''),
     ZStrict (status_shape ''accepted'' @ [(''message_id'', ZOptional id_schema), (''group_id'', ZOptional id_schema)]),
     ZStrict (status_shape ''committed'' @ [(''message_id'', id_schema), (''group_id'', ZOptional id_schema)]),
     ZStrict (status_shape ''unknown_delivery'')]"
  by code_simp

lemma status_schema:
  "zod_accepts (ZStrict (status_shape ''received'')) v \<Longrightarrow> zod_accepts userMessageStatus v"
  "zod_accepts (ZStrict (status_shape ''unknown_delivery'')) v \<Longrightarrow> zod_accepts userMessageStatus v"
  "zod_accepts (ZStrict (status_shape ''accepted'' @ [(''message_id'', ZOptional id_schema), (''group_id'', ZOptional id_schema)])) v
     \<Longrightarrow> zod_accepts userMessageStatus v"
  "zod_accepts (ZStrict (status_shape ''committed'' @ [(''message_id'', id_schema), (''group_id'', ZOptional id_schema)])) v
     \<Longrightarrow> zod_accepts userMessageStatus v"
  by (simp_all add: status_shapes del: zod_accepts.simps(11) append_Cons append_Nil)

lemmas status_simps = status_shape_def direct_def status_members_def reply_ids_def

lemma status_received:
  "reply_ids env sv [c, i, client] \<Longrightarrow> server_frame (direct c (status_members env sv i client ''received''))"
  by (rule server_frameI [OF status_schema(1) options_members(6)]) (simp add: status_simps)

lemma status_unknown:
  "reply_ids env sv [c, i, client] \<Longrightarrow> server_frame (direct c (status_members env sv i client ''unknown_delivery''))"
  by (rule server_frameI [OF status_schema(2) options_members(6)]) (simp add: status_simps)

lemma status_accepted:
  assumes "reply_ids env sv [c, i, client]" and "opt_id mid" and "opt_id gid"
  shows "server_frame (direct c (status_members env sv i client ''accepted''
     @ truthy_member ''message_id'' mid @ truthy_member ''group_id'' gid))"
  by (rule server_frameI [OF status_schema(3) options_members(6)], insert assms(1),
      rule truthy_member_cases [OF assms(2), of "''message_id''"];
      rule truthy_member_cases [OF assms(3), of "''group_id''"]; simp add: status_simps)

lemma status_committed:
  assumes "reply_ids env sv [c, i, client]" and "valid_id m" and "opt_id gid"
  shows "server_frame (direct c (status_members env sv i client ''committed''
     @ [(''message_id'', JStr m)] @ truthy_member ''group_id'' gid))"
  by (rule server_frameI [OF status_schema(4) options_members(6)], insert assms(1,2),
      rule truthy_member_cases [OF assms(3), of "''group_id''"]; simp add: status_simps)

lemma timeline_event_ok:
  assumes "valid_id (session_id_of env)" "valid_id (vs_generation sv)" "zod_accepts TimelineEventSchema (Some ev)"
  shows "server_frame (JObj [(''protocol_version'', JNum (NInt 2)), (''type'', JStr ''timeline_event''),
     (''session_id'', JStr (session_id_of env)), (''history_generation'', JStr (vs_generation sv)), (''event'', ev)])"
  using assms
  by (intro server_frameI [OF _ options_members(9)]) (simp add: timelineEventFrame_def shape_defs)

section \<open>Messages of a started user message\<close>

text \<open>What the runtime promises of a started message: the blocks are those of a user event.\<close>

definition started_typed :: "started_message \<Rightarrow> bool" where
  "started_typed sm \<longleftrightarrow>
     valid_id (st_event sm) \<and> valid_id (st_group sm)
     \<and> zod_accepts (z_max MAX_ARRAY_ITEMS (ZArray userBlock None)) (Some (JArr (st_blocks sm)))
     \<and> (let co = st_correlation sm in
        co_origin co \<in> {''pwa'', ''extension'', ''unknown''} \<and> co_delivery co \<in> {''normal'', ''queued'', ''unknown''}
        \<and> opt_id (co_client_request co) \<and> (case co_request co of Some i \<Rightarrow> valid_id i | None \<Rightarrow> True)
        \<and> opt_id (co_sender co)
        \<and> (co_origin co = ''pwa'' \<longleftrightarrow> (\<exists>s. co_sender co = Some s \<and> s \<noteq> [])))"

lemma started_message_ok:
  assumes "started_typed sm"
  shows "zod_accepts startedMessage (Some (JObj ([(''id'', JStr (st_event sm)), (''group_id'', JStr (st_group sm)),
            (''blocks'', JArr (st_blocks sm)), (''origin'', JStr (co_origin (st_correlation sm)))]
          @ truthy_member ''sender_ref'' (co_sender (st_correlation sm))
          @ [(''delivery'', JStr (co_delivery (st_correlation sm)))])))"
  using assms
  by (cases "co_sender (st_correlation sm)")
     (auto simp: started_typed_def startedMessage_def truthy_member_def sender_rule_def field_def opt_id_def Let_def
       simp del: z_max.simps)

lemma started_ok:
  assumes "started_typed sm" "valid_id c" "valid_id i" "valid_id (session_id_of env)" "valid_id g"
  shows "server_frame (direct c [(''type'', JStr ''user_message_started''), (''in_reply_to'', JStr i),
     (''session_id'', JStr (session_id_of env)), (''history_generation'', JStr g),
     (''message'', JObj ([(''id'', JStr (st_event sm)), (''group_id'', JStr (st_group sm)),
            (''blocks'', JArr (st_blocks sm)), (''origin'', JStr (co_origin (st_correlation sm)))]
          @ truthy_member ''sender_ref'' (co_sender (st_correlation sm))
          @ [(''delivery'', JStr (co_delivery (st_correlation sm)))]))])"
  using assms started_message_ok [OF assms(1)]
  by (intro server_frameI [OF _ options_members(7)]) (simp add: userMessageStarted_def direct_def shape_defs)

section \<open>Models\<close>

definition models_typed :: "(string \<times> json) list \<Rightarrow> bool" where
  "models_typed ms \<longleftrightarrow> distinct (map fst ms)
     \<and> zod_accepts (ZStrict [(''models'', z_max MAX_ARRAY_ITEMS (ZArray wireModel None)), (''current'', ZOptional wireModel)])
         (Some (JObj ms))"

lemma models_ok:
  assumes "models_typed ms" "valid_id c" "valid_id i"
  shows "server_frame (direct c ((''type'', JStr ''models_list'') # ms @ [(''in_reply_to'', JStr i)]))"
proof (rule server_frameI [OF _ options_members(8)])
  have keys: "map_of ms k = None" if "k \<notin> {''models'', ''current''}" for k
    using assms(1) that by (auto simp: models_typed_def map_of_eq_None_iff)
  show "zod_accepts modelsList (Some (direct c ((''type'', JStr ''models_list'') # ms @ [(''in_reply_to'', JStr i)])))"
    using assms
    by (auto simp: modelsList_def direct_def shape_defs models_typed_def map_add_def keys split: option.splits
        simp del: z_max.simps)
qed

section \<open>What the client schema says of a frame\<close>

definition client_frame :: "json \<Rightarrow> bool" where
  "client_frame f \<longleftrightarrow> zod_accepts ClientFrameSchema (Some f)"

definition is_id_schema :: "ztype \<Rightarrow> bool" where
  "is_id_schema t = (t = id_schema)"

lemma client_ids:
  "always ''id'' is_id_schema ClientFrameSchema"
  "\<forall>s\<in>set (options_of ClientFrameSchema). always ''type'' (\<lambda>t. t = lit ''pair_request'') s \<or> always ''channel_id'' is_id_schema s"
  "list_all (always ''client_request_id'' is_id_schema) (narrow ''type'' ''user_message'' ClientFrameSchema)"
  "list_all (always ''client_request_id'' is_id_schema) (narrow ''type'' ''user_message_observed'' ClientFrameSchema)"
  by code_simp+

lemma always_id:
  assumes "always k is_id_schema s" and "zod_accepts s (Some f)"
  obtains x where "str_field k f = Some x" "valid_id x" "text_or_empty k f = x"
proof -
  obtain x where "field k f = Some (JStr x)" "valid_id x"
    using always_sound [OF assms] by (auto simp: is_id_schema_def id_schema_value)
  with that show thesis by (simp add: str_field_def text_or_empty_def)
qed

lemma client_frame_id: "client_frame f \<Longrightarrow> valid_id (text_or_empty ''id'' f) \<and> str_field ''id'' f = Some (text_or_empty ''id'' f)"
  unfolding client_frame_def by (rule always_id [OF client_ids(1)]) auto

lemma client_frame_channel:
  assumes "client_frame f" and "text_or_empty ''type'' f \<noteq> ''pair_request''"
  shows "str_field ''channel_id'' f = Some (text_or_empty ''channel_id'' f) \<and> valid_id (text_or_empty ''channel_id'' f)"
proof -
  obtain s where s: "s \<in> set (options_of ClientFrameSchema)" "zod_accepts s (Some f)"
    using assms(1) by (auto simp: client_frame_def ClientFrameSchema_def)
  have "\<not> always ''type'' (\<lambda>t. t = lit ''pair_request'') s"
  proof
    assume "always ''type'' (\<lambda>t. t = lit ''pair_request'') s"
    from always_sound [OF this s(2)] have "field ''type'' f = Some (JStr ''pair_request'')" by auto
    with assms(2) show False by (simp add: text_or_empty_def str_field_def)
  qed
  with client_ids(2) s(1) have "always ''channel_id'' is_id_schema s" by blast
  then show ?thesis by (rule always_id [OF _ s(2)]) simp
qed

lemma client_frame_request:
  assumes "client_frame f" and "text_or_empty ''type'' f \<in> {''user_message'', ''user_message_observed''}"
  shows "valid_id (text_or_empty ''client_request_id'' f)"
proof -
  obtain x where x: "x \<in> {''user_message'', ''user_message_observed''}" "field ''type'' f = Some (JStr x)"
    using assms(2) by (auto simp: text_or_empty_def str_field_def split: option.splits json.splits)
  then obtain s where "s \<in> set (narrow ''type'' x ClientFrameSchema)" "zod_accepts s (Some f)"
    using narrow_sound assms(1) unfolding client_frame_def by blast
  moreover from this x(1) client_ids(3,4) have "always ''client_request_id'' is_id_schema s"
    by (auto simp: list_all_iff)
  ultimately show ?thesis by (metis always_id)
qed

section \<open>Well-typed records\<close>

definition record_typed :: "idem_record \<Rightarrow> bool" where
  "record_typed r \<longleftrightarrow> opt_id (ir_message_id r) \<and> opt_id (ir_group_id r)
     \<and> (ir_status r = Committed \<longrightarrow> (\<exists>m. ir_message_id r = Some m \<and> valid_id m))"

definition state_typed :: "session_state \<Rightarrow> bool" where
  "state_typed st \<longleftrightarrow> (\<forall>(k, r) \<in> set (ss_records st). record_typed r)
     \<and> (\<forall>(k, c) \<in> set (ss_channels st). valid_id (ch_channel c))"

fun op_typed :: "session_input \<Rightarrow> bool" where
  "op_typed (InUpdate k s m g t0 t1) =
     (opt_id m \<and> opt_id g \<and> (s = Committed \<longrightarrow> (\<exists>x. m = Some x \<and> valid_id x)))"
| "op_typed _ = True"

lemma state_typed_subset:
  "state_typed st \<Longrightarrow> set (ss_records st') \<subseteq> set (ss_records st) \<Longrightarrow> set (ss_channels st') \<subseteq> set (ss_channels st) \<Longrightarrow>
   state_typed st'"
  by (auto simp: state_typed_def)

lemma state_typed_prune: "state_typed st \<Longrightarrow> state_typed (prune st t)"
  by (rule state_typed_subset [OF _ set_prune]) simp_all

lemma record_typed_get: "state_typed st \<Longrightarrow> jm_get (ss_records st) k = Some r \<Longrightarrow> record_typed r"
  by (auto simp: state_typed_def dest!: jm_get_SomeD)

lemma begin_typed:
  assumes "state_typed st"
  shows "state_typed (fst (begin_request sha st rq t0 t1))
    \<and> (\<forall>r. snd (begin_request sha st rq t0 t1) = Inr (BeginReplay r) \<longrightarrow> record_typed r)"
proof (cases "valid_id (rq_sender rq) \<and> valid_id (rq_client rq)")
  case False
  then obtain e where "begin_request sha st rq t0 t1 = (prune st t0, Inl e)"
    using begin_request_invalid by blast
  then show ?thesis using state_typed_prune [OF assms] by simp
next
  case True
  have now: "state_typed (prune st t0)" using assms by (rule state_typed_prune)
  show ?thesis
  proof (cases "jm_get (ss_records (prune st t0)) (record_key st (rq_sender rq) (rq_client rq))")
    case (Some old)
    moreover from record_typed_get [OF now Some] have "record_typed (old \<lparr> ir_touched := t1 \<rparr>)"
      by (simp add: record_typed_def)
    ultimately show ?thesis
      using True now
      by (auto simp: begin_request_existing Let_def state_typed_def jm_delete_entries dest!: jm_set_entries)
  next
    case None
    with True now show ?thesis
      by (auto simp: begin_request_fresh Let_def state_typed_def record_typed_def opt_id_def
          dest!: subsetD [OF set_prune_capacity] jm_set_entries)
  qed
qed

lemma update_typed:
  assumes "state_typed st" and "op_typed (InUpdate k s m g t0 t1)"
  shows "state_typed (fst (update_record st k s m g t0 t1))"
proof -
  have now: "state_typed (prune st t0)" using assms(1) by (rule state_typed_prune)
  show ?thesis
  proof (cases "jm_get (ss_records (prune st t0)) k")
    case (Some old)
    from record_typed_get [OF now Some] assms(2)
    have "record_typed (old \<lparr> ir_status := s, ir_message_id := override m (ir_message_id old),
        ir_group_id := override g (ir_group_id old), ir_touched := t1 \<rparr>)"
      by (auto simp: record_typed_def override_def split: option.splits)
    with Some now show ?thesis
      by (auto simp: update_record_def Let_def state_typed_def jm_delete_entries dest!: jm_set_entries)
  qed (use now in \<open>simp add: update_record_def Let_def\<close>)
qed

lemma session_step_typed: "state_typed st \<Longrightarrow> op_typed op \<Longrightarrow> state_typed (session_step sha st op)"
proof (cases op)
  case (InHello s c t)
  then show "state_typed st \<Longrightarrow> ?thesis"
    by (auto simp: hello_def state_typed_def assert_id_def valid_id_def Let_def dest!: jm_set_entries)
next
  case (InTouch s c t)
  then show "state_typed st \<Longrightarrow> ?thesis"
    by (auto simp: touch_def get_channel_def state_typed_def Let_def split: option.splits
        dest!: jm_set_entries jm_get_SomeD)
qed (auto simp: begin_typed update_typed set_generation_def remove_channel_def remove_owner_def get_record_def
      forget_def snapshot_def Let_def state_typed_prune jm_delete_def intro: state_typed_subset simp del: op_typed.simps)

lemma run_typed: "state_typed st \<Longrightarrow> list_all op_typed ops \<Longrightarrow> state_typed (run (session_step sha) st ops)"
  by (induction ops arbitrary: st) (auto intro: session_step_typed)

section \<open>The pager\<close>

definition cursor_typed :: "cursor_state \<Rightarrow> bool" where
  "cursor_typed cs \<longleftrightarrow> valid_id (cs_session cs) \<and> valid_id (cs_generation cs)"

definition cursors_typed :: "(string, cursor_state) js_map \<Rightarrow> bool" where
  "cursors_typed m \<longleftrightarrow> (\<forall>(k, cs) \<in> set m. cursor_typed cs)"

definition pager_typed :: "pager \<Rightarrow> bool" where
  "pager_typed pg \<longleftrightarrow> cursors_typed (pg_cursors pg)"

lemma cursors_typed_set: "cursors_typed m \<Longrightarrow> cursor_typed cs \<Longrightarrow> cursors_typed (jm_set k cs m)"
  by (auto simp: cursors_typed_def dest!: jm_set_entries)

lemma cursors_typed_delete: "cursors_typed m \<Longrightarrow> cursors_typed (jm_delete k m)"
  by (auto simp: cursors_typed_def jm_delete_entries)

lemma pager_typed_cursors: "cursors_typed m \<Longrightarrow> pager_typed (pg \<lparr> pg_cursors := m \<rparr>)"
  by (simp add: pager_typed_def)

lemma pager_typed_set:
  "pager_typed pg \<Longrightarrow> cursor_typed cs \<Longrightarrow> pager_typed (pg \<lparr> pg_cursors := jm_set k cs (pg_cursors pg) \<rparr>)"
  by (simp add: pager_typed_def cursors_typed_set)

lemma pager_typed_busy [simp]: "pager_typed (pg \<lparr> pg_initial_busy := b \<rparr>) = pager_typed pg"
  by (simp add: pager_typed_def)

lemma pager_typed_get: "pager_typed pg \<Longrightarrow> jm_get (pg_cursors pg) k = Some cs \<Longrightarrow> cursor_typed cs"
  by (auto simp: pager_typed_def cursors_typed_def dest!: jm_get_SomeD)

lemma pager_typed_set_busy: "pager_typed pg \<Longrightarrow> pager_typed (set_busy c b pg)"
  by (auto simp: set_busy_def cursor_typed_def split: option.split intro!: pager_typed_set dest: pager_typed_get)

definition request_typed :: "sync_request \<Rightarrow> bool" where
  "request_typed rq \<longleftrightarrow> valid_id (rq_id rq) \<and> valid_id (rq_channel rq)"

lemma protocol_error_ok:
  assumes "request_typed rq" "code \<in> error_codes" "message_ok m"
  shows "server_frame (protocol_error rq code m)"
proof -
  have "protocol_error rq code m = service_error (rq_id rq) code m (Some (rq_channel rq))"
    using assms(1) by (simp add: protocol_error_def service_error_def request_typed_def valid_id_def)
  with error_ok [of "rq_id rq" code m "Some (rq_channel rq)"] assms show ?thesis
    by (simp add: request_typed_def)
qed

lemma reset_json_ok:
  "request_typed rq \<Longrightarrow> valid_id s \<Longrightarrow> valid_id g \<Longrightarrow> reason \<in> reset_reasons \<Longrightarrow> server_frame (reset_json rq s g reason)"
  unfolding reset_json_def request_typed_def by (rule reset_ok) simp_all

lemma snapshot_reasons: "snapshot_invalid_reason v cs = Some r \<Longrightarrow> r \<in> reset_reasons"
  by (auto simp: snapshot_invalid_reason_def reset_reasons_def split: if_splits)

lemma chunk_frames_ok:
  assumes "zod (lib_accepts lib)" and "chunk_frames lib rq cs nb i ps = Some fs" and "f \<in> set fs"
  shows "server_frame f"
  using assms(2,3)
proof (induction ps arbitrary: i fs)
  case (Cons p ps)
  have enc: "server_frame g" if "encode_server_frame lib g = Inr t" for g t
  proof -
    from that obtain j where j: "parse_frame lib (RawValue g) ToPwa = Inr j"
      by (auto simp: encode_server_frame_def encode_frame_def split: sum.splits)
    then have "j = g \<and> accepts_value lib ServerFrameSchema j"
      by (auto simp: parse_frame_iff [OF assms(1)] parse_raw_def Let_def frame_schema_def split: if_splits)
    then show ?thesis by (auto simp: server_frame_def accepts_value_def zod_determined [OF assms(1)])
  qed
  with Cons show ?case by (auto simp: Let_def split: if_splits sum.splits)
qed simp

lemma fragment_window_ok:
  "zod (lib_accepts lib) \<Longrightarrow> fragment_window lib rq cs rs nb = Some fs \<Longrightarrow> f \<in> set fs \<Longrightarrow> server_frame f"
  by (auto simp: fragment_window_def Let_def split: option.splits dest: chunk_frames_ok)

lemma texts_ok:
  "message_ok ''history recovery failed''" "message_ok ''window exceeds 33554432 bytes''"
  "message_ok ''history chunk exceeds 512 KiB''" "message_ok ''session has no current snapshot head''"
  "message_ok ''initial cursor is busy''" "message_ok ''cursor is busy''" "message_ok ''session_hello required''"
  "message_ok ''frame is not implemented''" "message_ok ''unknown observed request''"
  "message_ok ''client_request_id payload conflict''" "message_ok ''no active request to cancel''"
  "message_ok ''pairing is handled before session_hello''" "message_ok ''model listing is unavailable''"
  "message_ok ''Could not list available models.''" "message_ok ''session action is unavailable''"
  "message_ok ''Could not execute session action.''"
  "message_ok ''The image queue is full; retry after queued work drains.''"
  by (simp_all add: message_ok_def MAX_TEXT_CHARS_def)

lemma codes_ok:
  "''internal_error'' \<in> error_codes" "''too_large'' \<in> error_codes" "''reset_required'' \<in> error_codes"
  "''invalid_cursor'' \<in> error_codes" "''invalid_channel'' \<in> error_codes" "''invalid_message'' \<in> error_codes"
  "''unsupported_type'' \<in> error_codes" "''protocol_upgrade_required'' \<in> error_codes"
  "''invalid_cursor'' \<in> reset_reasons" "''session_replaced'' \<in> reset_reasons" "''generation_changed'' \<in> reset_reasons"
  by (simp_all add: error_codes_def reset_reasons_def)

definition page_ok :: "session_view \<times> pager \<times> json list \<Rightarrow> bool" where
  "page_ok out \<longleftrightarrow> pager_typed (fst (snd out)) \<and> list_all server_frame (snd (snd out))"

lemma page_typed:
  assumes "zod (lib_accepts (pe_lib env))" "request_typed rq" "cursor_typed cs" "pager_typed pg"
  shows "page_ok (page env rq cs v pg)"
  using assms(2-4) protocol_error_ok [OF assms(2)] reset_json_ok [OF assms(2)] snapshot_reasons
    fragment_window_ok [OF assms(1)]
  by (auto simp: page_def page_ok_def Let_def texts_ok codes_ok cursor_typed_def list_all_iff
      pager_typed_def
      split: option.split window.split prod.split intro!: cursors_typed_set cursors_typed_delete)

lemma pager_sync_typed:
  assumes z: "zod (lib_accepts (pe_lib env))" and rq: "request_typed rq" and pg: "pager_typed pg"
    and v: "valid_id (sv_session v)" "valid_id (sv_generation v)"
  shows "page_ok (pager_sync env rq v pg)"
proof -
  note frames = protocol_error_ok [OF rq] reset_json_ok [OF rq v] texts_ok codes_ok
  have initial: "page_ok (sync_initial env rq v (pg \<lparr> pg_initial_busy := True \<rparr>))"
    using page_typed [OF z rq] pg frames v
    by (auto simp: sync_initial_def Let_def page_ok_def cursor_typed_def)
  show ?thesis
  proof (cases "rq_before rq")
    case None
    with initial pg frames show ?thesis
      by (auto simp: pager_sync_def page_ok_def split: prod.splits)
  next
    case (Some c)
    show ?thesis
    proof (cases "jm_get (pg_cursors pg) c")
      case None
      with Some pg frames show ?thesis by (simp add: pager_sync_def page_ok_def)
    next
      case cs: (Some cs)
      let ?cs = "cs \<lparr> cs_busy := True, cs_used := True \<rparr>"
      let ?taken = "pg \<lparr> pg_cursors := jm_set c ?cs (pg_cursors pg) \<rparr>"
      have typed: "cursor_typed ?cs" "pager_typed ?taken"
        using pager_typed_get [OF pg cs] pg by (auto simp: cursor_typed_def intro!: pager_typed_set)
      have "page_ok (page env rq ?cs v ?taken)" by (rule page_typed [OF z rq typed])
      with Some cs typed pg frames snapshot_reasons [of v ?cs] show ?thesis
        by (auto simp: pager_sync_def page_ok_def Let_def split: prod.splits option.splits intro: pager_typed_set_busy)
    qed
  qed
qed

section \<open>The service\<close>

definition channels_typed :: "(string, string) js_map \<Rightarrow> bool" where
  "channels_typed m \<longleftrightarrow> (\<forall>(k, c) \<in> set m. valid_id c)"

definition service_typed :: "service \<Rightarrow> bool" where
  "service_typed sv \<longleftrightarrow> valid_id (vs_sender sv) \<and> valid_id (vs_generation sv) \<and> channels_typed (vs_channels sv)
     \<and> pager_typed (vs_pager sv) \<and> state_typed (vs_state sv)"

definition env_typed :: "service_env \<Rightarrow> bool" where
  "env_typed env \<longleftrightarrow> zod (lib_accepts (pe_lib (ve_pager env))) \<and> valid_id (session_id_of env)
     \<and> (case ve_cancel env of Some (Inl d) \<Rightarrow> int (length d) + 15 \<le> MAX_TEXT_CHARS | _ \<Rightarrow> True)
     \<and> (case ve_models env of Some (Inr ms) \<Rightarrow> models_typed ms | _ \<Rightarrow> True)"

definition answer_typed :: "service_answer \<Rightarrow> bool" where
  "answer_typed a \<longleftrightarrow> service_typed (fst a) \<and> (\<forall>fs. snd (snd a) = Inr fs \<longrightarrow> list_all server_frame fs)"

lemma channels_typed_set: "channels_typed m \<Longrightarrow> valid_id c \<Longrightarrow> channels_typed (jm_set k c m)"
  by (auto simp: channels_typed_def dest!: jm_set_entries)

lemma channels_typed_delete: "channels_typed m \<Longrightarrow> channels_typed (jm_delete k m)"
  by (auto simp: channels_typed_def jm_delete_entries)

lemma channels_typed_get: "channels_typed m \<Longrightarrow> jm_get m k = Some c \<Longrightarrow> valid_id c"
  by (auto simp: channels_typed_def dest!: jm_get_SomeD)

lemma service_typed_state: "service_typed sv \<Longrightarrow> state_typed st \<Longrightarrow> service_typed (sv \<lparr> vs_state := st \<rparr>)"
  by (simp add: service_typed_def)

lemma found_typed:
  assumes "service_typed sv" and "find_record env n client sv = (sv', found)"
  shows "service_typed sv' \<and> vs_generation sv' = vs_generation sv \<and> (\<forall>r c. found = Some (r, c) \<longrightarrow> valid_id c)"
  using assms found_state [OF assms(2)] find_record_Some [of env n client sv]
  by (auto simp: service_typed_def state_typed_prune dest: channels_typed_get)

lemma update_state_typed:
  "service_typed sv \<Longrightarrow> op_typed (InUpdate k s m g t0 t1) \<Longrightarrow>
   service_typed (sv \<lparr> vs_state := fst (update_record (vs_state sv) k s m g t0 t1) \<rparr>)"
  by (rule service_typed_state) (auto simp: service_typed_def simp del: op_typed.simps intro: update_typed)

lemma reply_idsI:
  "env_typed env \<Longrightarrow> service_typed sv \<Longrightarrow> list_all valid_id ids \<Longrightarrow> reply_ids env sv ids"
  by (simp add: reply_ids_def env_typed_def service_typed_def)

lemma unknown_delivery_typed:
  assumes "service_typed sv" and "env_typed env" and "valid_id client"
  shows "service_typed (fst (unknown_delivery env n client sv))
    \<and> list_all server_frame (snd (unknown_delivery env n client sv))"
proof -
  obtain sv1 found where f: "find_record env n client sv = (sv1, found)" by fastforce
  note t = found_typed [OF assms(1) f]
  then have "service_typed (sv1 \<lparr> vs_state := fst (update_record (vs_state sv1) k UnknownDelivery None None t0 t1) \<rparr>)"
    for k t0 t1
    by (intro update_state_typed) (simp_all add: opt_id_def)
  then show ?thesis
    using t f assms(2,3) status_unknown reply_idsI
    by (auto simp: unknown_delivery_def remember_unknown_delivery_def case_prod_unfold Let_def split: option.split)
qed

lemma status_reply_typed:
  assumes "reply_ids env sv [text_or_empty ''channel_id'' frame, text_or_empty ''id'' frame,
      text_or_empty ''client_request_id'' frame]"
  shows "server_frame (status_reply env sv frame ''received'' None None)"
    and "opt_id m \<Longrightarrow> opt_id g \<Longrightarrow> server_frame (status_reply env sv frame ''accepted'' m g)"
    and "m = Some x \<Longrightarrow> valid_id x \<Longrightarrow> opt_id g \<Longrightarrow> server_frame (status_reply env sv frame ''committed'' m g)"
  using status_received [OF assms] status_accepted [OF assms] status_committed [OF assms]
  by (simp_all add: status_reply_def truthy_member_def [of "''message_id''"] truthy_member_def [of _ None] valid_id_def
      split: option.split)

lemma replay_typed:
  assumes "service_typed sv" and "env_typed env" and "record_typed r"
    and "list_all valid_id [text_or_empty ''channel_id'' frame, text_or_empty ''id'' frame,
      text_or_empty ''client_request_id'' frame]"
  shows "service_typed (fst (replay env frame r sv)) \<and> list_all server_frame (snd (replay env frame r sv))"
  using assms(1,3,4) unknown_delivery_typed [OF assms(1,2)] status_reply_typed [OF reply_idsI [OF assms(2,1,4)]]
  by (cases "ir_status r") (auto simp: replay_def record_typed_def opt_id_def)

lemma refuse_typed:
  assumes "client_frame frame" "text_or_empty ''type'' frame \<noteq> ''pair_request''" "code \<in> error_codes" "message_ok m"
  shows "server_frame (refuse frame code m)"
  unfolding refuse_def
  using client_frame_id [OF assms(1)] client_frame_channel [OF assms(1,2)] assms(3,4)
  by (intro error_ok) auto

lemma after_delivery_typed:
  assumes "service_typed sv" and "env_typed env" and "client_frame frame" and "text_or_empty ''type'' frame = ''user_message''"
  shows "service_typed (fst (after_delivery env frame r sv)) \<and> list_all server_frame (snd (after_delivery env frame r sv))"
proof -
  have ids: "list_all valid_id [text_or_empty ''channel_id'' frame, text_or_empty ''id'' frame,
      text_or_empty ''client_request_id'' frame]"
    using client_frame_id [OF assms(3)] client_frame_channel [OF assms(3)] client_frame_request [OF assms(3)] assms(4)
    by simp
  have upd: "service_typed (sv \<lparr> vs_state := fst (update_record (vs_state sv) k Queued None None t0 t1) \<rparr>)" for k t0 t1
    by (rule update_state_typed [OF assms(1)]) (simp add: opt_id_def)
  have "state_typed (fst (forget (vs_state sv) k))" for k
    using session_step_typed [of "vs_state sv" "InForget k"] assms(1) by (simp add: service_typed_def)
  then have "service_typed (sv \<lparr> vs_state := fst (forget (vs_state sv) k), vs_channels := jm_delete c (vs_channels sv) \<rparr>)" for k c
    using assms(1) by (simp add: service_typed_def channels_typed_delete)
  then show ?thesis
    using assms unknown_delivery_typed [OF assms(1,2)] ids upd refuse_typed [OF assms(3)] texts_ok codes_ok
      status_reply_typed(1) [OF reply_idsI [OF assms(2,1) ids]]
      status_reply_typed(2) [OF reply_idsI [OF assms(2) upd ids]]
    by (cases "ve_user_message env") (auto simp: after_delivery_def Let_def opt_id_def)
qed

lemma guarded_typed:
  assumes "service_typed sv" and "env_typed env" and "client_frame frame" and "text_or_empty ''type'' frame \<noteq> ''pair_request''"
    and "\<And>sv'. service_typed sv' \<Longrightarrow> answer_typed (handler sv')"
  shows "answer_typed (guarded env frame sv handler)"
proof (rule guarded_cases)
  fix sv' refused assume er: "ensure_ready env frame sv = (sv', Some refused)"
  have "server_frame (service_error (reply_id frame) ''invalid_channel'' ''session_hello required'' (str_field ''channel_id'' frame))"
    using client_frame_id [OF assms(3)] client_frame_channel [OF assms(3,4)] texts_ok codes_ok
    by (intro error_ok) (auto simp: reply_id_def)
  moreover have "server_frame (reset_reply env sv c ''generation_changed'')" if "valid_id c" for c
    unfolding reset_reply_def using that assms(1,2) codes_ok
    by (intro reset_ok) (auto simp: service_typed_def env_typed_def)
  ultimately have "server_frame refused"
    using er client_frame_channel [OF assms(3,4)]
    by (auto simp: ensure_ready_def Let_def split: option.splits if_splits)
  with assms(1) show "answer_typed (sv, [], Inr [refused])" by (simp add: answer_typed_def)
next
  fix c
  have "state_typed (fst (touch (vs_state sv) (vs_sender sv) c (ve_clock env 0)))"
    using session_step_typed [of "vs_state sv" "InTouch (vs_sender sv) c (ve_clock env 0)"] assms(1)
    by (simp add: service_typed_def)
  with assms(1,5) show "answer_typed (handler (sv \<lparr> vs_state := fst (touch (vs_state sv) (vs_sender sv) c (ve_clock env 0)) \<rparr>))"
    by (simp add: service_typed_state)
qed

lemma answer_typedI: "service_typed sv \<Longrightarrow> list_all server_frame fs \<Longrightarrow> answer_typed (sv, es, Inr fs)"
  by (simp add: answer_typed_def)

lemma answer_typed_throw: "service_typed sv \<Longrightarrow> answer_typed (sv, es, Inl e)"
  by (simp add: answer_typed_def)

lemma user_message_typed:
  assumes "service_typed sv" and "env_typed env" and "client_frame frame" and "text_or_empty ''type'' frame = ''user_message''"
  shows "answer_typed (handle_user_message env frame sv)"
  unfolding handle_user_message_def
proof (rule guarded_typed [OF assms(1-3)])
  have ty: "text_or_empty ''type'' frame \<noteq> ''pair_request''" using assms(4) by simp
  then show "text_or_empty ''type'' frame \<noteq> ''pair_request''" .
  fix sv' assume sv': "service_typed sv'"
  have ids: "list_all valid_id [text_or_empty ''channel_id'' frame, text_or_empty ''id'' frame,
      text_or_empty ''client_request_id'' frame]"
    using client_frame_id [OF assms(3)] client_frame_channel [OF assms(3)] client_frame_request [OF assms(3)] assms(4)
    by simp
  obtain st begun where b: "begin_of env frame sv' = (st, begun)" by fastforce
  have "state_typed st \<and> (\<forall>r. begun = Inr (BeginReplay r) \<longrightarrow> record_typed r)"
    using begin_typed [of "vs_state sv'"] sv' b unfolding begin_of_def service_typed_def
    by (metis fst_conv snd_conv)
  then have st: "service_typed (sv' \<lparr> vs_state := st \<rparr>)" and r: "begun = Inr (BeginReplay r) \<Longrightarrow> record_typed r" for r
    using sv' by (auto intro: service_typed_state)
  have "service_typed (sv' \<lparr> vs_state := st, vs_channels := jm_set client c (vs_channels sv') \<rparr>)" if "valid_id c" for client c
    using st that by (simp add: service_typed_def channels_typed_set)
  with st r ids show "answer_typed (let (st, begun) = begin_of env frame sv'; sv1 = sv' \<lparr> vs_state := st \<rparr>
      in case begun of Inl e \<Rightarrow> (sv1, [], Inl e)
         | Inr (BeginNew r) \<Rightarrow>
             let sv2 = sv1 \<lparr> vs_channels := jm_set (text_or_empty ''client_request_id'' frame)
                          (text_or_empty ''channel_id'' frame) (vs_channels sv1) \<rparr>;
                 (sv3, frames) = after_delivery env frame r sv2
             in (sv3, [CallUserMessage frame (message_correlation sv2 frame)], Inr frames)
         | Inr (BeginReplay r) \<Rightarrow> let (sv2, frames) = replay env frame r sv1 in (sv2, [], Inr frames)
         | Inr (BeginConflict r) \<Rightarrow>
             (sv1, [], Inr [refuse frame ''invalid_message'' ''client_request_id payload conflict'']))"
    using b replay_typed [OF st assms(2) r ids] after_delivery_typed [OF _ assms(2-4)] refuse_typed [OF assms(3) ty]
      texts_ok codes_ok
    by (auto simp: Let_def case_prod_unfold split: sum.split begin_result.split intro!: answer_typedI answer_typed_throw)
qed

lemma handle_typed:
  assumes sv: "service_typed sv" and env: "env_typed env" and frame: "client_frame frame"
  shows "answer_typed (handle env frame sv)"
proof -
  let ?t = "text_or_empty ''type'' frame"
  have id: "valid_id (text_or_empty ''id'' frame)" using client_frame_id [OF frame] by simp
  consider "?t = ''pair_request''" | "?t = ''user_message''" | "?t \<noteq> ''pair_request''" "?t \<noteq> ''user_message''" by blast
  then show ?thesis
  proof cases
    case 1
    then show ?thesis
      using sv id texts_ok codes_ok by (auto simp: handle_def intro!: answer_typedI error_ok)
  next
    case 2
    then show ?thesis using user_message_typed [OF assms] by (simp add: handle_def)
  next
    case 3
    have c: "valid_id (text_or_empty ''channel_id'' frame)"
      "str_field ''channel_id'' frame = Some (text_or_empty ''channel_id'' frame)"
      using client_frame_channel [OF frame 3(1)] by simp_all
    note g = guarded_typed [OF sv env frame 3(1)]
    note refuse = refuse_typed [OF frame 3(1)] texts_ok codes_ok
    have hello: "state_typed (fst (hello (vs_state sv) s k t))" for s k t
      using session_step_typed [of "vs_state sv" "InHello s k t"] sv by (simp add: service_typed_def)
    have "answer_typed (ready env frame sv)"
      using sv env id c hello
      by (auto simp: ready_def Let_def case_prod_unfold service_typed_def env_typed_def split: sum.split
          intro!: answer_typedI answer_typed_throw ready_ok)
    moreover have "answer_typed (handle_history env frame sv)"
      unfolding handle_history_def
    proof (rule g)
      fix sv' assume sv': "service_typed sv'"
      let ?v = "ve_view env \<lparr> sv_generation := vs_generation sv' \<rparr>"
      have "page_ok (pager_sync (ve_pager env) (sync_of frame) ?v (vs_pager sv'))"
        using env sv' id c
        by (intro pager_sync_typed) (auto simp: env_typed_def service_typed_def request_typed_def sync_of_def session_id_of_def)
      with sv' show "answer_typed (let (view, pg, frames) = pager_sync (ve_pager env) (sync_of frame) ?v (vs_pager sv')
          in (sv' \<lparr> vs_pager := pg \<rparr>, [], Inr frames))"
        by (auto simp: page_ok_def answer_typed_def service_typed_def split: prod.splits)
    qed
    moreover have "answer_typed (handle_ping env frame sv)"
      unfolding handle_ping_def by (rule g) (use id c in \<open>auto intro!: answer_typedI pong_ok\<close>)
    moreover have "answer_typed (handle_cancel env frame sv)"
      unfolding handle_cancel_def
    proof (rule g)
      fix sv' assume "service_typed sv'"
      moreover have "message_ok (''cancel failed: '' @ d)" if "ve_cancel env = Some (Inl d)" for d
        using env that by (simp add: env_typed_def message_ok_def)
      ultimately show "answer_typed (case ve_cancel env of
          None \<Rightarrow> (sv', [], Inr [refuse frame ''internal_error'' ''no active request to cancel''])
        | Some (Inl detail) \<Rightarrow> (sv', [CallCancel], Inr [refuse frame ''internal_error'' (''cancel failed: '' @ detail)])
        | Some (Inr False) \<Rightarrow> (sv', [CallCancel], Inr [refuse frame ''internal_error'' ''no active request to cancel''])
        | Some (Inr True) \<Rightarrow> (sv', [CallCancel], Inr [direct (text_or_empty ''channel_id'' frame)
               [(''type'', JStr ''cancelled''), (''in_reply_to'', JStr (text_or_empty ''id'' frame))]]))"
        using id c refuse by (auto split: option.split sum.split bool.split intro!: answer_typedI cancelled_ok)
    qed
    moreover have "answer_typed (handle_action env frame sv)"
      unfolding handle_action_def
      by (rule g) (use refuse in \<open>auto split: option.split sum.split intro!: answer_typedI\<close>)
    moreover have "answer_typed (require_ready env frame sv)"
      unfolding require_ready_def
      by (rule g) (use client_frame_id [OF frame] c texts_ok codes_ok in \<open>auto simp: reply_id_def intro!: answer_typedI error_ok\<close>)
    moreover have "answer_typed (handle_list_models env frame sv)"
      unfolding handle_list_models_def
      by (rule g) (use id c refuse env in \<open>auto simp: env_typed_def split: option.split sum.split intro!: answer_typedI models_ok\<close>)
    moreover have "answer_typed (handle_queued_message_clear env frame sv)"
      unfolding handle_queued_message_clear_def
      by (rule g) (auto split: option.split sum.split intro!: answer_typedI answer_typed_throw)
    moreover have "answer_typed (handle_observed env frame sv)"
      unfolding handle_observed_def
    proof (rule g)
      fix sv' assume sv': "service_typed sv'"
      have pruned: "state_typed (prune (vs_state sv') t)" for t
        using sv' by (simp add: service_typed_def state_typed_prune)
      then have "state_typed (fst (forget (prune (vs_state sv') t) k))" for t k
        using session_step_typed [of "prune (vs_state sv') t" "InForget k"] by simp
      with sv' pruned refuse show "answer_typed (let client = text_or_empty ''client_request_id'' frame;
            (st, found) = get_record (vs_state sv') (service_key sv' client) (ve_clock env 1);
            sv1 = sv' \<lparr> vs_state := st \<rparr>;
            unknown = (sv1, [], Inr [refuse frame ''invalid_message'' ''unknown observed request''])
        in case found of None \<Rightarrow> unknown
           | Some r \<Rightarrow> if ir_sender r \<noteq> vs_sender sv' then unknown
               else (sv1 \<lparr> vs_state := fst (forget st (ir_key r)), vs_channels := jm_delete client (vs_channels sv1) \<rparr>, [], Inr []))"
        by (auto simp: get_record_def Let_def service_typed_def channels_typed_delete split: option.split intro!: answer_typedI)
    qed
    ultimately show ?thesis
      using 3 sv by (auto simp: handle_def Let_def answer_typed_throw)
  qed
qed

section \<open>Every frame of every run\<close>

definition input_typed :: "service_input \<Rightarrow> bool" where
  "input_typed i \<longleftrightarrow>
     (case i of
        SvHandle frame \<Rightarrow> client_frame frame
      | SvStarted sm \<Rightarrow> started_typed sm
      | SvCommit client m g \<Rightarrow> valid_id client \<and> valid_id m \<and> opt_id g
      | SvCanDrain client \<Rightarrow> True
      | SvUnknown client \<Rightarrow> valid_id client
      | SvRefresh g \<Rightarrow> opt_id (Some g)
      | SvReset reason \<Rightarrow> reason \<in> {''generation_changed'', ''branch_changed'', ''session_replaced''})"

definition service_frames :: "service \<Rightarrow> service_env \<times> service_input \<Rightarrow> json list" where
  "service_frames sv ei =
     (case ei of (env, i) \<Rightarrow>
        (case i of
           SvHandle frame \<Rightarrow> (case snd (snd (handle env frame sv)) of Inr fs \<Rightarrow> fs | Inl e \<Rightarrow> [])
         | SvStarted sm \<Rightarrow> snd (started env sm sv)
         | SvCommit client m g \<Rightarrow> snd (commit env client m g sv)
         | SvCanDrain client \<Rightarrow> []
         | SvUnknown client \<Rightarrow> snd (unknown_delivery env 0 client sv)
         | SvRefresh g \<Rightarrow> []
         | SvReset reason \<Rightarrow> snd (service_reset env reason sv)))"

lemma started_typed_frames:
  assumes sv: "service_typed sv" and env: "env_typed env" and sm: "started_typed sm"
  shows "service_typed (fst (started env sm sv)) \<and> list_all server_frame (snd (started env sm sv))"
proof (cases "\<exists>client. co_client_request (st_correlation sm) = Some client \<and> client \<noteq> []")
  case False
  with sv show ?thesis by (auto simp: started_def Let_def split: option.split)
next
  case True
  then obtain client where client: "co_client_request (st_correlation sm) = Some client" "client \<noteq> []" by blast
  with sm have id: "valid_id client" and ids: "valid_id (st_event sm)" "valid_id (st_group sm)"
    by (simp_all add: started_typed_def opt_id_def Let_def)
  let ?i = "case co_request (st_correlation sm) of Some i \<Rightarrow> i | None \<Rightarrow> client"
  have i: "valid_id ?i" using sm id by (simp add: started_typed_def Let_def split: option.splits)
  obtain sv1 found where f: "find_record env 0 client sv = (sv1, found)" by fastforce
  note t = found_typed [OF sv f]
  have upd: "service_typed (sv1 \<lparr> vs_state := fst (update_record (vs_state sv1) k Accepted (Some (st_event sm)) (Some (st_group sm)) t0 t1) \<rparr>)"
    for k t0 t1
    using t ids by (intro update_state_typed) (simp_all add: opt_id_def)
  have status: "server_frame (direct c (status_members env sv2 ?i client ''accepted''
      @ [(''message_id'', JStr (st_event sm)), (''group_id'', JStr (st_group sm))]))"
    if "valid_id c" "service_typed sv2" for c sv2
    using status_accepted [OF reply_idsI [OF env that(2)], of c ?i client "Some (st_event sm)" "Some (st_group sm)"] that i id ids
    by (simp add: opt_id_def truthy_member_def valid_id_def)
  show ?thesis
  proof (cases found)
    case None
    with t f client show ?thesis by (simp add: started_def Let_def)
  next
    case (Some rc)
    obtain r c where rc: "rc = (r, c)" by (cases rc)
    with t Some have c: "valid_id c" by simp
    have "server_frame (direct c [(''type'', JStr ''user_message_started''), (''in_reply_to'', JStr ?i),
       (''session_id'', JStr (session_id_of env)), (''history_generation'', JStr (vs_generation sv1)),
       (''message'', JObj ([(''id'', JStr (st_event sm)), (''group_id'', JStr (st_group sm)),
            (''blocks'', JArr (st_blocks sm)), (''origin'', JStr (co_origin (st_correlation sm)))]
          @ truthy_member ''sender_ref'' (co_sender (st_correlation sm))
          @ [(''delivery'', JStr (co_delivery (st_correlation sm)))]))])"
      using env t by (intro started_ok [OF sm c i]) (auto simp: env_typed_def service_typed_def)
    with f Some rc client upd status [OF c upd] show ?thesis
      by (simp add: started_def Let_def)
  qed
qed

lemma commit_typed_frames:
  assumes sv: "service_typed sv" and env: "env_typed env" and ids: "valid_id client" "valid_id m" "opt_id g"
  shows "service_typed (fst (commit env client m g sv)) \<and> list_all server_frame (snd (commit env client m g sv))"
proof -
  obtain sv1 found where f: "find_record env 0 client sv = (sv1, found)" by fastforce
  note t = found_typed [OF sv f]
  have upd: "service_typed (sv1 \<lparr> vs_state := fst (update_record (vs_state sv1) k Committed (Some m) g t0 t1) \<rparr>)"
    for k t0 t1
    using t ids by (intro update_state_typed) (simp_all add: opt_id_def)
  have "server_frame (direct c (status_members env sv2 client client ''committed''
      @ (''message_id'', JStr m) # truthy_member ''group_id'' g))"
    if "valid_id c" "service_typed sv2" for c sv2
    using status_committed [OF reply_idsI [OF env that(2)] ids(2,3), of c client client] that ids by simp
  with t f upd show ?thesis
    by (auto simp: commit_def case_prod_unfold Let_def split: option.split)
qed

lemma step_typed:
  assumes sv: "service_typed sv" and env: "env_typed env" and i: "input_typed i"
  shows "service_typed (service_step sv (env, i)) \<and> list_all server_frame (service_frames sv (env, i))"
proof (cases i)
  case (SvHandle frame)
  then show ?thesis
    using handle_typed [OF sv env, of frame] i
    by (auto simp: input_typed_def service_step_def service_frames_def answer_typed_def split: sum.split)
next
  case (SvCanDrain client)
  then show ?thesis
    using found_typed [OF sv, of env 0 client]
    by (simp add: service_step_def service_frames_def can_drain_def Let_def case_prod_unfold)
      (metis prod.collapse)
next
  case (SvRefresh g)
  then show ?thesis
    using sv i
    by (auto simp: service_step_def service_frames_def refresh_generation_def input_typed_def opt_id_def
        service_typed_def channels_typed_def set_generation_def state_typed_def)
next
  case (SvReset reason)
  have "valid_id (ch_channel c)" if "c \<in> set (jm_values (ss_channels (vs_state sv)))" for c
    using sv that by (auto simp: service_typed_def state_typed_def jm_values_def)
  moreover have "state_typed (prune (vs_state sv) t)" for t
    using sv by (simp add: service_typed_def state_typed_prune)
  ultimately show ?thesis
    using sv env i SvReset
    by (auto simp: service_step_def service_frames_def service_reset_def snapshot_def Let_def list_all_iff
        reset_reply_def input_typed_def env_typed_def service_typed_def reset_reasons_def intro!: reset_ok)
qed (use started_typed_frames [OF sv env] commit_typed_frames [OF sv env] unknown_delivery_typed [OF sv env] i in
    \<open>simp_all add: service_step_def service_frames_def input_typed_def\<close>)

text \<open>
  C31: Type soundness. In every run of a new service whose inputs are well typed (client frames
  that pass the client schema, started messages and commits with bounded ids), every frame that
  any operation returns passes the server schema: status replies on every branch, errors,
  resets and all the chunks of the history pages.
\<close>

theorem service_frames_typed:
  assumes "new_service sender g session_id = Inr sv0" and "valid_id sender" and "valid_id (vs_generation sv0)"
    and "\<forall>(env', i') \<in> set ops. env_typed env' \<and> input_typed i'"
    and "env_typed env" and "input_typed i"
    and "f \<in> set (service_frames (run service_step sv0 ops) (env, i))"
  shows "accepts_value (pe_lib (ve_pager env)) ServerFrameSchema f"
proof -
  have "service_typed sv0"
    using assms(1-3)
    by (auto simp: new_service_def new_session_state_def service_typed_def Let_def channels_typed_def pager_typed_def
        cursors_typed_def new_pager_def state_typed_def split: if_splits)
  then have "service_typed (run service_step sv0 ops)"
    using assms(4) by (induction ops arbitrary: sv0) (auto simp: step_typed)
  with step_typed [OF this assms(5,6)] assms(7) have "server_frame f" by (simp add: list_all_iff)
  with assms(5) show ?thesis
    by (simp add: server_frame_def accepts_value_def env_typed_def zod_determined)
qed

definition demo_commit :: service_input where
  "demo_commit = SvCommit ''m1'' ''e1'' None"

lemma demo_env_typed: "env_typed (demo_service_env t)"
  by (simp add: env_typed_def demo_service_env_def demo_pager_env_def demo_lib_zod session_id_of_def demo_view_def
      valid_id_def)

lemma demo_frames_typed: "client_frame demo_hello" "client_frame demo_message"
  by code_simp+

theorem service_frames_typed_witness:
  "list_all (\<lambda>f. zod_accepts ServerFrameSchema (Some f)) (service_frames (run service_step demo_fresh
     [(demo_service_env 0, SvHandle demo_hello), (demo_service_env 9, SvHandle demo_message)]) (demo_service_env 20, demo_commit))"
  unfolding list_all_iff
proof
  let ?ops = "[(demo_service_env 0, SvHandle demo_hello), (demo_service_env 9, SvHandle demo_message)]"
  fix f assume f: "f \<in> set (service_frames (run service_step demo_fresh ?ops) (demo_service_env 20, demo_commit))"
  have "accepts_value (pe_lib (ve_pager (demo_service_env 20))) ServerFrameSchema f"
    by (rule service_frames_typed [OF demo_fresh_new _ _ _ demo_env_typed _ f])
       (simp_all add: demo_fresh_def valid_id_def input_typed_def demo_commit_def demo_frames_typed demo_env_typed opt_id_def)
  then show "zod_accepts ServerFrameSchema (Some f)"
    by (simp add: accepts_value_def demo_service_env_def demo_pager_env_def demo_lib_def)
qed

section \<open>Published events\<close>

lemma utf8_length_escape: "utf8_length (escape_char c) \<le> 6"
  by (auto simp: escape_char_def utf8_length_def hex_digit_def Let_def)

lemma utf8_length_quote: "utf8_length (quote_text s) \<le> 6 * length s + 2"
proof -
  have "utf8_length (concat (map escape_char s)) \<le> 6 * length s"
  proof (induction s)
    case (Cons c s)
    then show ?case using utf8_length_escape [of c] by simp
  qed (simp add: utf8_length_def)
  then show ?thesis by (simp add: quote_text_def utf8_length_def)
qed

lemma utf8_length_digits: "utf8_length (digits_of n) \<le> n + 1"
proof (induction n rule: digits_of.induct)
  case (1 n)
  have "utf8_length [char_of (48 + m)] = 1" if "m < 10" for m :: nat
    using that by (simp add: utf8_length_def)
  moreover have "utf8_length (digits_of n) = utf8_length (digits_of (n div 10)) + utf8_length [char_of (48 + n mod 10)]" if "\<not> n < 10"
    using that by (subst digits_of.simps) simp
  moreover have "n div 10 + 2 \<le> n + 1" if "\<not> n < 10" using that by linarith
  ultimately show ?case
    using 1 by (cases "n < 10") (simp add: digits_of.simps, fastforce)
qed

lemma fragment_frame_bytes:
  assumes "valid_id s" "valid_id g" "valid_id e" "length bs \<le> 51200" "i \<le> 4096"
  shows "byte_length (fragment_frame s g e i bs final) \<le> MAX_FRAME_BYTES"
proof -
  have "(length bs + 2) div 3 \<le> 17067" using assms(4) by simp
  then have "length (b64_encode bs) \<le> 68268" by (simp add: length_b64_encode)
  then have q: "utf8_length (quote_text (b64_encode bs)) \<le> 409610" "utf8_length (quote_text s) \<le> 1538"
    "utf8_length (quote_text g) \<le> 1538" "utf8_length (quote_text e) \<le> 1538"
    using utf8_length_quote [of "b64_encode bs"] utf8_length_quote [of s] utf8_length_quote [of g] utf8_length_quote [of e]
      assms(1-3) by (simp_all add: valid_id_def)
  have d: "utf8_length (int_text (int i)) \<le> 4097"
    using utf8_length_digits [of i] assms(5) by (simp add: int_text_def)
  have k: "utf8_length (quote_text t) \<le> 200" if "length t \<le> 33" for t
    using utf8_length_quote [of t] that by simp
  have c: "utf8_length (x # xs) \<le> 2 + utf8_length xs" for x xs by (simp add: utf8_length_def)
  have keys: "utf8_length (quote_text ''protocol_version'') \<le> 200" "utf8_length (quote_text ''type'') \<le> 200"
    "utf8_length (quote_text ''timeline_event_fragment'') \<le> 200" "utf8_length (quote_text ''session_id'') \<le> 200"
    "utf8_length (quote_text ''history_generation'') \<le> 200" "utf8_length (quote_text ''event_id'') \<le> 200"
    "utf8_length (quote_text ''index'') \<le> 200" "utf8_length (quote_text ''data_base64'') \<le> 200"
    "utf8_length (quote_text ''final'') \<le> 200"
    by (rule k, simp)+
  have two: "utf8_length (int_text 2) \<le> 10" by code_simp
  have bools: "utf8_length ''true}'' = 5" "utf8_length ''false}'' = 6" by code_simp+
  have cons: "utf8_length (CHR '':'' # xs) = Suc (utf8_length xs)" "utf8_length (CHR '','' # xs) = Suc (utf8_length xs)"
    "utf8_length (CHR ''{'' # xs) = Suc (utf8_length xs)" "utf8_length ''}'' = 1" for xs
    by (simp_all add: utf8_length_def)
  have "utf8_length (stringify (fragment_frame s g e i bs final)) \<le> 500000"
    using q d keys two by (cases final) (simp_all add: fragment_frame_def cons bools)
  then show ?thesis by (simp add: byte_length_def json_bytes_def MAX_FRAME_BYTES_def)
qed

lemma event_id_valid:
  "zod_accepts TimelineEventSchema (Some ev) \<Longrightarrow> valid_id (text_or_empty ''event_id'' ev)"
proof -
  have "always ''event_id'' is_id_schema TimelineEventSchema" by code_simp
  moreover assume "zod_accepts TimelineEventSchema (Some ev)"
  ultimately show ?thesis by (rule always_id) simp
qed

lemma encode_server_frameI:
  assumes "zod (lib_accepts lib)" and "server_frame f" and "is_record f" and "byte_length f \<le> MAX_FRAME_BYTES"
    and "frame_fits f"
  shows "encode_server_frame lib f = Inr (stringify f)"
proof -
  have "parse_frame lib (RawValue f) ToPwa = Inr f"
    using assms by (simp add: parse_frame_iff [OF assms(1)] parse_raw_def frame_schema_def server_frame_def
        accepts_value_def zod_determined [OF assms(1)])
  then show ?thesis by (simp add: encode_server_frame_def encode_frame_def)
qed

lemma b64_decoded_length: "base64_decoded_length (b64_encode bs) = int (length bs)"
  using atob_base64_text [OF base64_text_encode [of bs]] by (simp add: atob_encode)

text \<open>
  C32: Whatever event the service publishes, the frames it makes of it pass the encoder: the
  event's own frame when that is within 2 MiB, and otherwise fragments that each carry at most
  50 KiB and are themselves within every bound of the codec. No event of up to 32 MiB is lost
  at the encoder.
\<close>

theorem published_frames_encode:
  assumes "zod (lib_accepts (pe_lib (ve_pager env)))" and "valid_id (session_id_of env)" and "valid_id (vs_generation sv)"
    and "byte_length ev \<le> MAX_WINDOW_DECODE_BYTES" and "f \<in> set (publish_frames env ev sv)"
  shows "encode_server_frame (pe_lib (ve_pager env)) f = Inr (stringify f)"
proof -
  let ?lib = "pe_lib (ve_pager env)"
  let ?complete = "JObj [(''protocol_version'', JNum (NInt 2)), (''type'', JStr ''timeline_event''),
     (''session_id'', JStr (session_id_of env)), (''history_generation'', JStr (vs_generation sv)), (''event'', ev)]"
  have acc: "zod_accepts TimelineEventSchema (Some ev)"
    using assms(5) by (auto simp: publish_frames_def accepts_value_def zod_determined [OF assms(1)] split: if_splits)
  show ?thesis
  proof (cases "byte_length ?complete \<le> MAX_FRAME_BYTES")
    case True
    with assms(5) have f: "f = ?complete" by (auto simp: publish_frames_def Let_def split: if_splits)
    show ?thesis
      unfolding f
      by (rule encode_server_frameI [OF assms(1) timeline_event_ok [OF assms(2,3) acc] _ True])
         (simp_all add: is_record_def frame_fits_def str_field_def field_def)
  next
    case False
    let ?n = "nat MAX_FRAGMENT_DECODE_BYTES"
    let ?ss = "slices ?n (utf8_encode (stringify ev))"
    have n: "0 < ?n" "?n = 51200" by (simp_all add: MAX_FRAGMENT_DECODE_BYTES_def)
    from False assms(5) have "f \<in> set (event_fragments env sv (text_or_empty ''event_id'' ev) 0 (utf8_encode (stringify ev)))"
      by (auto simp: publish_frames_def Let_def split: if_splits)
    then obtain j where j: "j < length ?ss" and f: "f = fragment_frame (session_id_of env) (vs_generation sv)
        (text_or_empty ''event_id'' ev) j (?ss ! j) (Suc j = length ?ss)"
      by (auto simp: event_fragments_nth Let_def)
    have slice: "?ss ! j \<noteq> []" "length (?ss ! j) \<le> 51200"
      using slices_bounds [OF nth_mem [OF j]] n(2) by simp_all
    have "?n * length ?ss < length (utf8_encode (stringify ev)) + ?n" by (rule length_slices [OF n(1)])
    then have few: "length ?ss \<le> 4096"
      using assms(4) by (simp add: n(2) length_utf8_encode byte_length_def json_bytes_def MAX_WINDOW_DECODE_BYTES_def)
    note id = event_id_valid [OF acc]
    have "server_frame f"
      using fragment_accepted [OF assms(1-3) id slice(1), of j "Suc j = length ?ss"] slice few j
      by (intro server_frameI [OF _ options_members(10)])
         (simp_all add: f accepts_value_def zod_determined [OF assms(1)] MAX_FRAGMENT_DECODE_BYTES_def max_safe_integer_def)
    moreover have "byte_length f \<le> MAX_FRAME_BYTES"
      unfolding f using assms(2,3) id slice few j by (intro fragment_frame_bytes) simp_all
    moreover have "frame_fits f"
      using slice(2) by (simp add: f frame_fits_def fragment_fits_def fragment_fields b64_decoded_length
          MAX_FRAGMENT_DECODE_BYTES_def) (simp add: fragment_frame_def str_field_def field_def)
    moreover have "is_record f" by (simp add: f fragment_frame_def is_record_def)
    ultimately show ?thesis by (intro encode_server_frameI [OF assms(1)])
  qed
qed

theorem published_frames_encode_witness:
  "list_all (\<lambda>f. encode_server_frame (demo_lib demo_pong) f = Inr (stringify f))
     (publish_frames (demo_service_env 0) demo_event demo_fresh)"
  unfolding list_all_iff
proof
  fix f assume f: "f \<in> set (publish_frames (demo_service_env 0) demo_event demo_fresh)"
  have lib: "pe_lib (ve_pager (demo_service_env 0)) = demo_lib demo_pong"
    by (simp add: demo_service_env_def demo_pager_env_def)
  have "byte_length demo_event \<le> MAX_WINDOW_DECODE_BYTES" by code_simp
  from published_frames_encode [OF _ _ _ this f] demo_env_typed [of 0] show "encode_server_frame (demo_lib demo_pong) f = Inr (stringify f)"
    by (simp add: lib env_typed_def demo_lib_zod demo_fresh_def valid_id_def)
qed

end
