(* ===== verification/Routing.thy ===== *)
theory Routing
  imports PwaCodec
begin

text \<open>
  The routes that carry the frames between the PWA and the extension.

  PWA: \<open>pwa/src/lib/remote-pi/protocol.ts\<close> (validation of what the Relay sends) and
  \<open>peer-channel.ts\<close>. Extension: \<open>transport/peer_channel.ts\<close> and \<open>runtime/owner_router.ts\<close>, with
  the bindings of the Owners kept by \<open>index.ts\<close>. Between them the Relay (\<open>relay/src/peers/registry.rs\<close>)
  adds the Owner to a route, after it has authenticated it.

  \<open>route_lib\<close> holds what the code calls: the codec's library, the \<open>TextDecoder\<close> of the browser,
  \<open>Buffer.from(ct, "base64").toString("utf8")\<close> of Node, and the number of arguments the engine
  lets a call have.
\<close>

record route_lib =
  rt_codec :: codec_lib
  rt_text :: "byte list \<Rightarrow> string"
  rt_buffer_text :: "string \<Rightarrow> string"
  rt_max_arguments :: nat

section \<open>Validation in the PWA\<close>

definition parse_json_text :: "route_lib \<Rightarrow> string \<Rightarrow> json option" where
  "parse_json_text lib t = lib_parse (rt_codec lib) t"

definition is_id :: "json option \<Rightarrow> bool" where
  "is_id v = (case v of Some (JStr s) \<Rightarrow> s \<noteq> [] \<and> length s \<le> 256 | _ \<Rightarrow> False)"

definition is_hex :: "char \<Rightarrow> bool" where
  "is_hex c = ((CHR ''0'' \<le> c \<and> c \<le> CHR ''9'') \<or> (CHR ''a'' \<le> c \<and> c \<le> CHR ''f'') \<or> (CHR ''A'' \<le> c \<and> c \<le> CHR ''F''))"

text \<open>The pattern of a UUID: what may stand at each of its 36 positions.\<close>

definition uuid_class :: "nat \<Rightarrow> char \<Rightarrow> bool" where
  "uuid_class i c =
     (if i = 8 \<or> i = 13 \<or> i = 18 \<or> i = 23 then c = CHR ''-''
      else if i = 14 then CHR ''1'' \<le> c \<and> c \<le> CHR ''8''
      else if i = 19 then c \<in> set ''89abAB''
      else is_hex c)"

definition uuid_text :: "string \<Rightarrow> bool" where
  "uuid_text s = (length s = 36 \<and> list_all (\<lambda>(i, c). uuid_class i c) (enumerate 0 s))"

definition is_uuid :: "json option \<Rightarrow> bool" where
  "is_uuid v = (case v of Some (JStr s) \<Rightarrow> uuid_text s | _ \<Rightarrow> False)"

definition members :: "json \<Rightarrow> (string \<times> json) list" where
  "members j = (case j of JObj ms \<Rightarrow> ms | _ \<Rightarrow> [])"

definition has_only_keys :: "json \<Rightarrow> string list \<Rightarrow> bool" where
  "has_only_keys j allowed = list_all (\<lambda>(k, v). List.member allowed k) (members j)"

datatype scalar = ScString | ScNumber | ScBoolean

fun has_type :: "scalar \<Rightarrow> json \<Rightarrow> bool" where
  "has_type ScString (JStr s) = True"
| "has_type ScNumber (JNum n) = True"
| "has_type ScBoolean (JBool b) = True"
| "has_type _ _ = False"

definition scalar_ok :: "json \<Rightarrow> string \<Rightarrow> scalar \<Rightarrow> bool" where
  "scalar_ok j k t = (case field k j of None \<Rightarrow> True | Some v \<Rightarrow> has_type t v)"

definition decode_metadata :: "json option \<Rightarrow> json option" where
  "decode_metadata value =
     (case value of None \<Rightarrow> None | Some j \<Rightarrow>
        if is_record j
          \<and> has_only_keys j [''kind'', ''name'', ''cwd'', ''pid'', ''started_at'', ''model'', ''thinking'', ''working'']
          \<and> (field ''kind'' j = Some (JStr ''daemon'') \<or> field ''kind'' j = Some (JStr ''interactive''))
          \<and> scalar_ok j ''name'' ScString \<and> scalar_ok j ''cwd'' ScString \<and> scalar_ok j ''pid'' ScNumber
          \<and> scalar_ok j ''started_at'' ScNumber \<and> scalar_ok j ''model'' ScString
          \<and> scalar_ok j ''thinking'' ScString \<and> scalar_ok j ''working'' ScBoolean
        then Some j else None)"

definition decode_endpoint :: "json \<Rightarrow> json option" where
  "decode_endpoint j =
     (if is_record j \<and> is_uuid (field ''endpoint_id'' j) \<and> is_uuid (field ''runtime_instance_id'' j)
      then (case (decode_metadata (field ''metadata'' j), field ''endpoint_id'' j, field ''runtime_instance_id'' j) of
              (Some m, Some e, Some r) \<Rightarrow>
                Some (JObj [(''endpoint_id'', e), (''runtime_instance_id'', r), (''metadata'', m)])
            | _ \<Rightarrow> None)
      else None)"

definition route_keys :: "string list" where
  "route_keys = [''type'', ''purpose'', ''device_id'', ''endpoint_id'', ''runtime_instance_id'',
     ''target_owner_id'', ''source_owner_id'', ''ct'']"

definition is_purpose :: "json option \<Rightarrow> bool" where
  "is_purpose v = (v = Some (JStr ''pairing'') \<or> v = Some (JStr ''session''))"

definition decode_route :: "json \<Rightarrow> json option" where
  "decode_route j =
     (if is_record j \<and> field ''type'' j = Some (JStr ''route'') \<and> is_purpose (field ''purpose'' j)
        \<and> is_id (field ''device_id'' j) \<and> is_uuid (field ''endpoint_id'' j)
        \<and> is_uuid (field ''runtime_instance_id'' j) \<and> str_field ''ct'' j \<noteq> None
        \<and> has_only_keys j route_keys
        \<and> (field ''target_owner_id'' j = None \<or> is_id (field ''target_owner_id'' j))
        \<and> (field ''source_owner_id'' j = None \<or> is_id (field ''source_owner_id'' j))
      then Some j else None)"

definition decode_control_frame :: "json \<Rightarrow> json option" where
  "decode_control_frame j =
     (case (str_field ''type'' j, field ''device_id'' j) of
        (Some t, Some d) \<Rightarrow>
          if \<not> is_id (Some d) then None
          else if t = ''endpoints'' \<and> has_only_keys j [''type'', ''device_id'', ''endpoints'']
              \<and> (\<exists>es. field ''endpoints'' j = Some (JArr es)) then
            (case field ''endpoints'' j of
               Some (JArr es) \<Rightarrow>
                 (case those (map decode_endpoint es) of
                    None \<Rightarrow> None
                  | Some fs \<Rightarrow> Some (JObj [(''type'', JStr ''endpoints''), (''device_id'', d), (''endpoints'', JArr fs)]))
             | _ \<Rightarrow> None)
          else if (t = ''endpoint_announced'' \<or> t = ''endpoint_updated'')
              \<and> has_only_keys j [''type'', ''device_id'', ''endpoint_id'', ''runtime_instance_id'', ''metadata'']
              \<and> is_uuid (field ''endpoint_id'' j) \<and> is_uuid (field ''runtime_instance_id'' j) then
            (case (decode_metadata (field ''metadata'' j), field ''endpoint_id'' j, field ''runtime_instance_id'' j) of
               (Some m, Some e, Some r) \<Rightarrow>
                 Some (JObj [(''type'', JStr t), (''device_id'', d), (''endpoint_id'', e),
                   (''runtime_instance_id'', r), (''metadata'', m)])
             | _ \<Rightarrow> None)
          else if t = ''endpoint_ended''
              \<and> has_only_keys j [''type'', ''device_id'', ''endpoint_id'', ''runtime_instance_id'']
              \<and> is_uuid (field ''endpoint_id'' j) \<and> is_uuid (field ''runtime_instance_id'' j) then
            (case (field ''endpoint_id'' j, field ''runtime_instance_id'' j) of
               (Some e, Some r) \<Rightarrow> Some (JObj [(''type'', JStr ''endpoint_ended''), (''device_id'', d),
                 (''endpoint_id'', e), (''runtime_instance_id'', r)])
             | _ \<Rightarrow> None)
          else None
      | _ \<Rightarrow> None)"

datatype relay_frame = FrRoute json | FrControl json

definition decode_relay_frame :: "json \<Rightarrow> relay_frame option" where
  "decode_relay_frame j =
     (case decode_route j of
        Some r \<Rightarrow> Some (FrRoute r)
      | None \<Rightarrow> map_option FrControl (decode_control_frame j))"

definition encode_route_payload :: "byte list \<Rightarrow> string" where
  "encode_route_payload payload = b64_encode payload"

definition decode_route_payload :: "json \<Rightarrow> byte list option" where
  "decode_route_payload route =
     (case str_field ''ct'' route of
        None \<Rightarrow> None
      | Some ct \<Rightarrow> (case decode_base64 ct (Some Base64Standard) of Inl e \<Rightarrow> None | Inr bs \<Rightarrow> Some bs))"

definition encode_control_frame :: "json \<Rightarrow> string" where
  "encode_control_frame j = stringify j"

definition decode_challenge :: "route_lib \<Rightarrow> string \<Rightarrow> string option" where
  "decode_challenge lib t =
     (case parse_json_text lib t of
        None \<Rightarrow> None
      | Some j \<Rightarrow>
          if is_record j \<and> has_only_keys j [''type'', ''nonce''] \<and> field ''type'' j = Some (JStr ''challenge'') then
            (case str_field ''nonce'' j of
               None \<Rightarrow> None
             | Some n \<Rightarrow> (case decode_base64 n (Some Base64Standard) of Inl e \<Rightarrow> None | Inr bs \<Rightarrow> Some n))
          else None)"

section \<open>The channel of the PWA\<close>

record route_identity =
  ri_device :: string
  ri_endpoint :: string
  ri_runtime :: string

definition route_members :: "string \<Rightarrow> route_identity \<Rightarrow> (string \<times> json) list" where
  "route_members purpose ri = [(''type'', JStr ''route''), (''purpose'', JStr purpose),
     (''device_id'', JStr (ri_device ri)), (''endpoint_id'', JStr (ri_endpoint ri)),
     (''runtime_instance_id'', JStr (ri_runtime ri))]"

text \<open>
  \<open>send\<close>: the route it gives to the Relay client, \<open>None\<close> when it fails. The payload is spread into
  the arguments of one call of \<open>String.fromCharCode\<close>, which throws past what the engine allows.
\<close>

definition pwa_purpose :: "json \<Rightarrow> string" where
  "pwa_purpose frame = (if str_field ''type'' frame = Some ''pair_request'' then ''pairing'' else ''session'')"

definition pwa_send :: "route_lib \<Rightarrow> route_identity \<Rightarrow> json \<Rightarrow> json option" where
  "pwa_send lib ri frame =
     (case encode_client_frame_pwa (rt_codec lib) frame of
        Inl e \<Rightarrow> None
      | Inr payload \<Rightarrow>
          if rt_max_arguments lib < length payload then None
          else Some (JObj (route_members (pwa_purpose frame) ri @ [(''ct'', JStr (b64_encode payload))])))"

datatype channel_event = ChMalformed | ChPairOk json | ChPairError json | ChFrame json

text \<open>A JavaScript value as an input of the codec: a string is text to parse.\<close>

definition raw_of_value :: "json \<Rightarrow> raw" where
  "raw_of_value j = (case j of JStr t \<Rightarrow> RawText t | _ \<Rightarrow> RawValue j)"

definition server_purpose :: "json \<Rightarrow> string" where
  "server_purpose frame =
     (if str_field ''type'' frame = Some ''pair_ok'' \<or> str_field ''type'' frame = Some ''pair_error''
      then ''pairing'' else ''session'')"

text \<open>\<open>handleRoute\<close>: the callbacks it makes, in order.\<close>

definition pwa_handle_route ::
  "route_lib \<Rightarrow> route_identity \<Rightarrow> string \<Rightarrow> string \<Rightarrow> json \<Rightarrow> channel_event list" where
  "pwa_handle_route lib ri owner channel route =
     (if field ''device_id'' route \<noteq> Some (JStr (ri_device ri))
        \<or> field ''endpoint_id'' route \<noteq> Some (JStr (ri_endpoint ri))
        \<or> field ''runtime_instance_id'' route \<noteq> Some (JStr (ri_runtime ri))
        \<or> field ''target_owner_id'' route \<noteq> Some (JStr owner)
        \<or> field ''source_owner_id'' route \<noteq> None
      then []
      else case decode_route_payload route of
        None \<Rightarrow> [ChMalformed]
      | Some payload \<Rightarrow>
          (case parse_json_text lib (rt_text lib payload) of
             None \<Rightarrow> [ChMalformed]
           | Some value \<Rightarrow>
               (case decode_server_frame_pwa (rt_codec lib) (raw_of_value value) of
                  Inl e \<Rightarrow> [ChMalformed]
                | Inr frame \<Rightarrow>
                    if field ''purpose'' route \<noteq> Some (JStr (server_purpose frame)) then []
                    else (if str_field ''type'' frame = Some ''pair_ok'' then [ChPairOk frame] else [])
                      @ (if str_field ''type'' frame = Some ''pair_error'' then [ChPairError frame] else [])
                      @ (case field ''target_channel_id'' frame of
                           Some c \<Rightarrow> if c \<noteq> JStr channel then [] else [ChFrame frame]
                         | None \<Rightarrow> [ChFrame frame]))))"

section \<open>The channel of the extension\<close>

text \<open>\<open>parseIncomingRoute\<close>. It throws on the line \<open>null\<close>: reading a member of it is a TypeError.\<close>

definition parse_incoming_route ::
  "route_lib \<Rightarrow> string \<Rightarrow> route_identity \<Rightarrow> string option \<Rightarrow> (unit, json option) result" where
  "parse_incoming_route lib line host owner =
     (case lib_parse (rt_codec lib) line of
        None \<Rightarrow> Inr None
      | Some JNull \<Rightarrow> Inl ()
      | Some route \<Rightarrow>
          if field ''type'' route \<noteq> Some (JStr ''route'') \<or> \<not> is_purpose (field ''purpose'' route)
            \<or> str_field ''ct'' route = None
            \<or> field ''device_id'' route \<noteq> Some (JStr (ri_device host))
            \<or> field ''endpoint_id'' route \<noteq> Some (JStr (ri_endpoint host))
            \<or> field ''runtime_instance_id'' route \<noteq> Some (JStr (ri_runtime host))
            \<or> str_field ''source_owner_id'' route = None
            \<or> field ''target_owner_id'' route \<noteq> None
          then Inr None
          else case owner of
                 None \<Rightarrow> Inr (Some route)
               | Some w \<Rightarrow> if str_field ''source_owner_id'' route \<noteq> Some w then Inr None else Inr (Some route))"

definition host_route :: "route_identity \<Rightarrow> string \<Rightarrow> string \<Rightarrow> string \<Rightarrow> json" where
  "host_route host owner purpose ct =
     JObj (route_members purpose host @ [(''target_owner_id'', JStr owner), (''ct'', JStr ct)])"

text \<open>\<open>sendV2\<close> and \<open>sendRoute\<close>: the line that goes out, \<open>None\<close> when encoding or sending throws.\<close>

definition send_v2 :: "route_lib \<Rightarrow> bool \<Rightarrow> route_identity \<Rightarrow> string \<Rightarrow> json \<Rightarrow> string option" where
  "send_v2 lib is_open host owner msg =
     (case encode_server_frame (rt_codec lib) msg of
        Inl e \<Rightarrow> None
      | Inr t \<Rightarrow>
          if is_open then Some (stringify (host_route host owner (server_purpose msg) (b64_encode (utf8_encode t))))
          else None)"

definition send_route :: "bool \<Rightarrow> route_identity \<Rightarrow> string \<Rightarrow> string \<Rightarrow> string \<Rightarrow> (unit, string) result" where
  "send_route is_open host owner purpose ct =
     (if is_open then Inr (stringify (host_route host owner purpose ct)) else Inl ())"

definition upgrade_reply :: "route_lib \<Rightarrow> string \<Rightarrow> json option" where
  "upgrade_reply lib ct =
     (case lib_parse (rt_codec lib) (rt_buffer_text lib ct) of
        None \<Rightarrow> None
      | Some raw \<Rightarrow>
          (case str_field ''id'' raw of
             None \<Rightarrow> None
           | Some i \<Rightarrow>
               if i = [] then None
               else Some (JObj ([(''protocol_version'', JNum (NInt 2)), (''type'', JStr ''protocol_error'')]
                 @ (case str_field ''channel_id'' raw of
                      Some c \<Rightarrow> if c = [] then [] else [(''target_channel_id'', JStr c)]
                    | None \<Rightarrow> [])
                 @ [(''in_reply_to'', JStr i), (''code'', JStr ''protocol_upgrade_required''),
                    (''message'', JStr ''Protocol v2 is required'')]))))"

definition decode_ct :: "route_lib \<Rightarrow> json \<Rightarrow> (decode_error, json) result" where
  "decode_ct lib route =
     decode_client_frame (rt_codec lib)
       (RawText (rt_buffer_text lib (case str_field ''ct'' route of Some ct \<Rightarrow> ct | None \<Rightarrow> [])))"

text \<open>
  \<open>onLine\<close>: the frame given to \<open>onMessage\<close>, and the frame to send back. \<open>throws\<close> says whether
  \<open>onMessage\<close> throws on a frame: it is called inside the same \<open>try\<close>.
\<close>

definition on_line ::
  "route_lib \<Rightarrow> route_identity \<Rightarrow> string \<Rightarrow> (json \<Rightarrow> bool) \<Rightarrow> string \<Rightarrow> (unit, json option \<times> json option) result" where
  "on_line lib host owner throws line =
     (case parse_incoming_route lib line host (Some owner) of
        Inl u \<Rightarrow> Inl u
      | Inr None \<Rightarrow> Inr (None, None)
      | Inr (Some outer) \<Rightarrow>
          (let reply = Option.bind (str_field ''ct'' outer) (upgrade_reply lib)
           in case decode_ct lib outer of
                Inl e \<Rightarrow> Inr (None, reply)
              | Inr frame \<Rightarrow>
                  if str_field ''type'' frame = Some ''pair_request'' then Inr (None, None)
                  else if field ''purpose'' outer \<noteq> Some (JStr ''session'') then Inr (None, None)
                  else Inr (Some frame, if throws frame then reply else None)))"

section \<open>Frames cross the Relay\<close>

text \<open>
  The route that the Relay forwards to a host: the one of the Owner with the identity that the
  Owner has authenticated with. Ids are canonical already; the Relay rewrites others.
\<close>

definition relay_forward :: "string \<Rightarrow> json \<Rightarrow> json" where
  "relay_forward owner route =
     JObj (filter (\<lambda>(k, v). k \<noteq> ''ct'') (members route) @ (''source_owner_id'', JStr owner)
       # filter (\<lambda>(k, v). k = ''ct'') (members route))"

definition owner_route :: "route_identity \<Rightarrow> string \<Rightarrow> string \<Rightarrow> string \<Rightarrow> json" where
  "owner_route host owner purpose ct =
     JObj (route_members purpose host @ [(''source_owner_id'', JStr owner), (''ct'', JStr ct)])"

lemma relay_forward_route:
  "relay_forward owner (JObj (route_members purpose ri @ [(''ct'', JStr ct)])) = owner_route ri owner purpose ct"
  by (simp add: relay_forward_def owner_route_def members_def route_members_def)

lemma route_fields [simp]:
  "field ''type'' (JObj (route_members p ri @ ms)) = Some (JStr ''route'')"
  "field ''purpose'' (JObj (route_members p ri @ ms)) = Some (JStr p)"
  "field ''device_id'' (JObj (route_members p ri @ ms)) = Some (JStr (ri_device ri))"
  "field ''endpoint_id'' (JObj (route_members p ri @ ms)) = Some (JStr (ri_endpoint ri))"
  "field ''runtime_instance_id'' (JObj (route_members p ri @ ms)) = Some (JStr (ri_runtime ri))"
  "field ''target_owner_id'' (JObj (route_members p ri @ ms)) = map_of ms ''target_owner_id''"
  "field ''source_owner_id'' (JObj (route_members p ri @ ms)) = map_of ms ''source_owner_id''"
  "field ''ct'' (JObj (route_members p ri @ ms)) = map_of ms ''ct''"
  by (simp_all add: route_members_def field_def)

lemma purposes [simp]: "is_purpose (Some (JStr (pwa_purpose f)))" "is_purpose (Some (JStr (server_purpose f)))"
  by (simp_all add: is_purpose_def pwa_purpose_def server_purpose_def)

lemma parse_owner_route:
  assumes "lib_parse (rt_codec lib) line = Some (owner_route ri owner (pwa_purpose f) ct)"
    and "w = None \<or> w = Some owner"
  shows "parse_incoming_route lib line ri w = Inr (Some (owner_route ri owner (pwa_purpose f) ct))"
  using assms by (auto simp: parse_incoming_route_def owner_route_def str_field_def)

lemma encoded_client_text:
  assumes "zod (lib_accepts lib)" and "encode_client_frame_pwa lib f = Inr bs"
  shows "bs = utf8_encode (stringify f)"
  using assms(2) by (auto simp: encode_client_frame_pwa_def encode_frame_pwa_eq [OF assms(1)] encode_frame_def
      parse_frame_iff [OF assms(1)] parse_raw_def Let_def split: sum.splits if_splits)

lemma encoded_server_text:
  assumes "zod (lib_accepts lib)" and "encode_server_frame lib f = Inr t"
  shows "t = stringify f"
  using assms(2) by (auto simp: encode_server_frame_def encode_frame_def
      parse_frame_iff [OF assms(1)] parse_raw_def Let_def split: sum.splits if_splits)

text \<open>The library reads back what was written for a value.\<close>

definition reads_back :: "route_lib \<Rightarrow> json \<Rightarrow> bool" where
  "reads_back lib j \<longleftrightarrow> lib_parse (rt_codec lib) (stringify j) = Some j"

definition reads_text :: "route_lib \<Rightarrow> string \<Rightarrow> bool" where
  "reads_text lib t \<longleftrightarrow> rt_text lib (utf8_encode t) = t \<and> rt_buffer_text lib (b64_encode (utf8_encode t)) = t"

lemma client_frame_crosses:
  assumes z: "zod (lib_accepts (rt_codec lib))" and "reads_back lib f" and "reads_text lib (stringify f)"
    and sent: "pwa_send lib ri f = Some route"
  shows "relay_forward owner route = owner_route ri owner (pwa_purpose f) (b64_encode (utf8_encode (stringify f)))"
    and "decode_ct lib (owner_route ri owner (pwa_purpose f) (b64_encode (utf8_encode (stringify f)))) = Inr f"
proof -
  from sent obtain bs where enc: "encode_client_frame_pwa (rt_codec lib) f = Inr bs"
    and route: "route = JObj (route_members (pwa_purpose f) ri @ [(''ct'', JStr (b64_encode bs))])"
    by (auto simp: pwa_send_def split: sum.splits if_splits)
  note bs = encoded_client_text [OF z enc]
  show "relay_forward owner route = owner_route ri owner (pwa_purpose f) (b64_encode (utf8_encode (stringify f)))"
    by (simp only: route bs relay_forward_route)
  from enc obtain t where e: "encode_frame (rt_codec lib) f ToExtension = Inr t"
    by (auto simp: encode_client_frame_pwa_def encode_frame_pwa_eq [OF z] split: sum.splits)
  then have "t = stringify f" by (auto simp: encode_frame_def
        parse_frame_iff [OF z] parse_raw_def Let_def split: sum.splits if_splits)
  with e assms(2) encode_decode(1) [OF z, of f ToExtension t]
  have "parse_frame (rt_codec lib) (RawText (stringify f)) ToExtension = Inr f" by (simp add: reads_back_def)
  then show "decode_ct lib (owner_route ri owner (pwa_purpose f) (b64_encode (utf8_encode (stringify f)))) = Inr f"
    using assms(3) by (simp add: decode_ct_def decode_client_frame_def owner_route_def str_field_def reads_text_def)
qed

lemma server_frame_decoded:
  assumes z: "zod (lib_accepts lib)" and enc: "encode_server_frame lib f = Inr t"
  shows "decode_server_frame_pwa lib (RawValue f) = Inr f" and "is_record f"
proof -
  from enc have "parse_frame lib (RawValue f) ToPwa = Inr f"
    by (auto simp: encode_server_frame_def encode_frame_def parse_frame_iff [OF z] parse_raw_def Let_def
        split: sum.splits if_splits)
  then show "decode_server_frame_pwa lib (RawValue f) = Inr f" and "is_record f"
    using parse_frame_same [OF z, of "RawValue f" ToPwa]
    by (auto simp: decode_server_frame_pwa_def frame_schema_pwa_def parse_frame_iff [OF z] parse_raw_def
        split: if_splits)
qed

definition identity_ok :: "route_identity \<Rightarrow> string \<Rightarrow> bool" where
  "identity_ok ri owner \<longleftrightarrow> is_id (Some (JStr (ri_device ri))) \<and> uuid_text (ri_endpoint ri)
     \<and> uuid_text (ri_runtime ri) \<and> is_id (Some (JStr owner))"

definition channel_events :: "string \<Rightarrow> json \<Rightarrow> channel_event list" where
  "channel_events channel f =
     (if str_field ''type'' f = Some ''pair_ok'' then [ChPairOk f] else [])
     @ (if str_field ''type'' f = Some ''pair_error'' then [ChPairError f] else [])
     @ (if field ''target_channel_id'' f \<in> {None, Some (JStr channel)} then [ChFrame f] else [])"

lemma stringify_nonempty: "is_record f \<Longrightarrow> stringify f \<noteq> []"
  by (cases f) (simp_all add: is_record_def)

lemma utf8_nonempty: "t \<noteq> [] \<Longrightarrow> utf8_encode t \<noteq> []"
  by (cases t) (simp_all add: utf8_encode_def utf8_char_def Let_def)

lemma host_route_accepted:
  assumes "identity_ok ri owner"
  shows "decode_relay_frame (host_route ri owner (server_purpose f) ct) = Some (FrRoute (host_route ri owner (server_purpose f) ct))"
  using assms by (simp add: decode_relay_frame_def decode_route_def host_route_def identity_ok_def is_record_def
      is_uuid_def str_field_def has_only_keys_def members_def route_keys_def route_members_def field_def)

lemma host_route_handled:
  assumes z: "zod (lib_accepts (rt_codec lib))" and "reads_back lib f" and "reads_text lib (stringify f)"
    and enc: "encode_server_frame (rt_codec lib) f = Inr t"
  shows "pwa_handle_route lib ri owner channel (host_route ri owner (server_purpose f) (b64_encode (utf8_encode t)))
    = channel_events channel f"
proof -
  have t: "t = stringify f" by (rule encoded_server_text [OF z enc])
  note dec = server_frame_decoded [OF z enc]
  then have "utf8_encode t \<noteq> []" using t by (simp add: stringify_nonempty utf8_nonempty)
  then have "decode_route_payload (host_route ri owner (server_purpose f) (b64_encode (utf8_encode t)))
      = Some (utf8_encode (stringify f))"
    by (simp add: decode_route_payload_def host_route_def str_field_def decode_encode_base64 t)
  moreover have "raw_of_value f = RawValue f" using dec(2) by (cases f) (simp_all add: is_record_def raw_of_value_def)
  ultimately show ?thesis
    using assms(2, 3) dec(1) unfolding pwa_handle_route_def
    by (simp add: reads_text_def reads_back_def parse_json_text_def channel_events_def)
      (auto simp: host_route_def split: option.split)
qed

text \<open>
  C33: frames cross the Relay. The route that the PWA sends for a client frame, forwarded with the
  Owner's identity, gives both listeners of the host exactly that frame: the Owner's channel
  passes it to the service, or leaves it to the router when it is a pair request. The line that
  the host sends for a server frame passes the validation of the PWA and makes exactly the
  callbacks of that frame. \<open>JSON.parse\<close> and the text decoders read back what was written.
\<close>

theorem routes_cross:
  assumes "zod (lib_accepts (rt_codec lib))" and "reads_back lib f" and "reads_text lib (stringify f)"
    and "reads_back lib (owner_route ri owner (pwa_purpose f) (b64_encode (utf8_encode (stringify f))))"
    and "identity_ok ri owner"
  shows "(pwa_send lib ri f = Some route \<longrightarrow>
       on_line lib ri owner (\<lambda>_. False) (stringify (relay_forward owner route))
         = Inr (if str_field ''type'' f = Some ''pair_request'' then None else Some f, None)
       \<and> (\<exists>r. parse_incoming_route lib (stringify (relay_forward owner route)) ri None = Inr (Some r)
            \<and> decode_ct lib r = Inr f \<and> str_field ''source_owner_id'' r = Some owner
            \<and> field ''purpose'' r = Some (JStr (pwa_purpose f))))
     \<and> (send_v2 lib True ri owner f = Some line \<longrightarrow>
       (\<exists>j. line = stringify j \<and> decode_relay_frame j = Some (FrRoute j)
          \<and> pwa_handle_route lib ri owner channel j = channel_events channel f))"
proof (intro conjI impI)
  assume sent: "pwa_send lib ri f = Some route"
  let ?r = "owner_route ri owner (pwa_purpose f) (b64_encode (utf8_encode (stringify f)))"
  note crosses = client_frame_crosses [OF assms(1-3) sent]
  have parsed: "lib_parse (rt_codec lib) (stringify (relay_forward owner route)) = Some ?r"
    using assms(4) unfolding crosses(1) reads_back_def .
  have fields: "field ''purpose'' ?r = Some (JStr (pwa_purpose f))" "str_field ''source_owner_id'' ?r = Some owner"
    by (simp_all add: owner_route_def str_field_def)
  show "on_line lib ri owner (\<lambda>_. False) (stringify (relay_forward owner route))
      = Inr (if str_field ''type'' f = Some ''pair_request'' then None else Some f, None)"
    using parse_owner_route [OF parsed, of "Some owner"] crosses(2) fields(1)
    by (simp add: on_line_def Let_def) (simp add: pwa_purpose_def)
  show "\<exists>r. parse_incoming_route lib (stringify (relay_forward owner route)) ri None = Inr (Some r)
      \<and> decode_ct lib r = Inr f \<and> str_field ''source_owner_id'' r = Some owner
      \<and> field ''purpose'' r = Some (JStr (pwa_purpose f))"
    using parse_owner_route [OF parsed, of None] crosses(2) fields by auto
next
  assume "send_v2 lib True ri owner f = Some line"
  then obtain t where enc: "encode_server_frame (rt_codec lib) f = Inr t"
    and line: "line = stringify (host_route ri owner (server_purpose f) (b64_encode (utf8_encode t)))"
    by (auto simp: send_v2_def split: sum.splits)
  show "\<exists>j. line = stringify j \<and> decode_relay_frame j = Some (FrRoute j)
      \<and> pwa_handle_route lib ri owner channel j = channel_events channel f"
    using line host_route_accepted [OF assms(5)] host_route_handled [OF assms(1-3) enc] by blast
qed

definition demo_identity :: route_identity where
  "demo_identity = \<lparr> ri_device = ''d'', ri_endpoint = ''00000000-0000-4000-8000-000000000001'',
     ri_runtime = ''00000000-0000-4000-8000-000000000002'' \<rparr>"

definition demo_route :: json where
  "demo_route = owner_route demo_identity ''o'' ''session'' (b64_encode (utf8_encode (stringify demo_pong)))"

definition demo_routing :: route_lib where
  "demo_routing = \<lparr>
     rt_codec = \<lparr> lib_accepts = zod_accepts,
       lib_parse = (\<lambda>t. if t = stringify demo_pong then Some demo_pong
                        else if t = stringify demo_route then Some demo_route else None),
       lib_utf8 = (\<lambda>_. None) \<rparr>,
     rt_text = (\<lambda>_. stringify demo_pong), rt_buffer_text = (\<lambda>_. stringify demo_pong),
     rt_max_arguments = 65536 \<rparr>"

lemma routes_cross_witness:
  "\<exists>line j. send_v2 demo_routing True demo_identity ''o'' demo_pong = Some line \<and> line = stringify j
     \<and> pwa_handle_route demo_routing demo_identity ''o'' ''c'' j = [ChFrame demo_pong]"
proof -
  have purpose: "pwa_purpose demo_pong = ''session''" by code_simp
  have laws: "zod (lib_accepts (rt_codec demo_routing))" "reads_back demo_routing demo_pong"
    "reads_text demo_routing (stringify demo_pong)"
    by (simp_all add: demo_routing_def zod_exec.zod_axioms reads_back_def reads_text_def)
  have "stringify demo_route \<noteq> stringify demo_pong" by code_simp
  then have route: "reads_back demo_routing (owner_route demo_identity ''o'' (pwa_purpose demo_pong)
      (b64_encode (utf8_encode (stringify demo_pong))))"
    by (simp add: reads_back_def demo_routing_def purpose demo_route_def [symmetric])
  have ids: "identity_ok demo_identity ''o''" by code_simp
  have "parse_frame (rt_codec demo_routing) (RawValue demo_pong) ToPwa = Inr demo_pong"
    using demo_pong_accepted demo_pong_bytes
    by (simp add: parse_frame_iff demo_routing_def zod_exec.zod_axioms parse_raw_def byte_length_def
        accepts_value_def frame_schema_def MAX_FRAME_BYTES_def is_record_def demo_pong_def
        frame_fits_def str_field_def field_def)
  then have sent: "send_v2 demo_routing True demo_identity ''o'' demo_pong
      = Some (stringify (host_route demo_identity ''o'' (server_purpose demo_pong) (b64_encode (utf8_encode (stringify demo_pong)))))"
    by (simp add: send_v2_def encode_server_frame_def encode_frame_def)
  have "channel_events ''c'' demo_pong = [ChFrame demo_pong]" by code_simp
  with sent show ?thesis using routes_cross [OF laws route ids, of JNull _ "''c''"] by auto
qed

text \<open>A frame larger than the engine's limit on arguments is not sent, whatever the codec allows.\<close>

lemma large_frame_not_sent:
  assumes "encode_client_frame_pwa (rt_codec lib) f = Inr payload" and "rt_max_arguments lib < length payload"
  shows "pwa_send lib ri f = None"
  using assms by (simp add: pwa_send_def)

lemma null_line_throws:
  "lib_parse (rt_codec lib) line = Some JNull \<Longrightarrow> parse_incoming_route lib line host owner = Inl ()"
  by (simp add: parse_incoming_route_def)

end
