(* ===== verification/OwnerRouter.thy ===== *)
theory OwnerRouter
  imports Routing SchemaAgreement OwnerStorage
begin

text \<open>
  \<open>installOwnerRouter\<close> of \<open>pi-extension/src/runtime/owner_router.ts\<close> beside the channels of the bound
  Owners (\<open>transport/peer_channel.ts\<close>) and the map of bindings of \<open>index.ts\<close>: which service gets
  which frame, over all interleavings of lines, lookups, pairings and lost connections.
\<close>

section \<open>The router of the extension\<close>

text \<open>
  The frames of an Owner without a binding go through \<open>installOwnerRouter\<close>: its listener looks the
  Owner up among the stored peers, and binds it when that answers. The others go through the
  channel of their binding. \<open>rr_relay\<close> is the connection in use, \<open>rr_lookups\<close> are the running
  lookups with the connection and the frame they were started for; arrivals are numbered.
  \<open>rr_delivered\<close> lists the calls of a binding's service, \<open>rr_pairs\<close> those of the pairing coordinator.
\<close>

record lookup =
  lk_arrival :: nat
  lk_relay :: nat
  lk_owner :: string
  lk_frame :: json

record handover =
  dl_arrival :: nat
  dl_owner :: string
  dl_binding :: nat
  dl_frame :: json

record router =
  rr_relay :: "nat option"
  rr_relays :: nat
  rr_bindings :: "(string, nat) js_map"
  rr_next :: nat
  rr_arrivals :: nat
  rr_lookups :: "lookup list"
  rr_delivered :: "handover list"
  rr_pairs :: "(nat \<times> string \<times> json) list"

definition new_router :: router where
  "new_router = \<lparr> rr_relay = None, rr_relays = 0, rr_bindings = [], rr_next = 0, rr_arrivals = 0,
     rr_lookups = [], rr_delivered = [], rr_pairs = [] \<rparr>"

text \<open>\<open>attachOwner\<close> of index.ts: it replaces a binding; without a session there is none.\<close>

definition attach_binding :: "string \<Rightarrow> bool \<Rightarrow> router \<Rightarrow> router" where
  "attach_binding owner ready st =
     (let st1 = st \<lparr> rr_bindings := jm_delete owner (rr_bindings st) \<rparr>
      in if \<not> ready then st1
         else st1 \<lparr> rr_bindings := jm_set owner (rr_next st1) (rr_bindings st1), rr_next := Suc (rr_next st1) \<rparr>)"

definition route_client_frame :: "nat \<Rightarrow> string \<Rightarrow> json \<Rightarrow> router \<Rightarrow> router" where
  "route_client_frame n owner frame st =
     (case jm_get (rr_bindings st) owner of
        None \<Rightarrow> st
      | Some b \<Rightarrow> st \<lparr> rr_delivered := rr_delivered st
          @ [\<lparr> dl_arrival = n, dl_owner = owner, dl_binding = b, dl_frame = frame \<rparr>] \<rparr>)"

text \<open>The listener of the router, for a line of connection \<open>relay\<close>.\<close>

definition router_line :: "route_lib \<Rightarrow> route_identity \<Rightarrow> nat \<Rightarrow> nat \<Rightarrow> string \<Rightarrow> router \<Rightarrow> router" where
  "router_line lib host n relay line st =
     (if rr_relay st \<noteq> Some relay then st
      else case parse_incoming_route lib line host None of
        Inl u \<Rightarrow> st
      | Inr None \<Rightarrow> st
      | Inr (Some route) \<Rightarrow>
          (case str_field ''source_owner_id'' route of
             None \<Rightarrow> st
           | Some owner \<Rightarrow>
               if owner = [] then st
               else case decode_ct lib route of
                 Inl e \<Rightarrow> st
               | Inr frame \<Rightarrow>
                   if (str_field ''type'' frame = Some ''pair_request'')
                      \<noteq> (field ''purpose'' route = Some (JStr ''pairing'')) then st
                   else if str_field ''type'' frame = Some ''pair_request''
                     then st \<lparr> rr_pairs := rr_pairs st @ [(n, owner, frame)] \<rparr>
                   else if jm_has (rr_bindings st) owner then st
                   else st \<lparr> rr_lookups := rr_lookups st
                     @ [\<lparr> lk_arrival = n, lk_relay = relay, lk_owner = owner, lk_frame = frame \<rparr>] \<rparr>))"

text \<open>The listener of a binding's channel.\<close>

definition channel_line :: "route_lib \<Rightarrow> route_identity \<Rightarrow> nat \<Rightarrow> string \<Rightarrow> string \<Rightarrow> router \<Rightarrow> router" where
  "channel_line lib host n line owner st =
     (case on_line lib host owner (\<lambda>_. False) line of
        Inr (Some frame, reply) \<Rightarrow> route_client_frame n owner frame st
      | _ \<Rightarrow> st)"

text \<open>The router listens first; the channels that listen when the line arrives follow.\<close>

definition emit_line :: "route_lib \<Rightarrow> route_identity \<Rightarrow> nat \<Rightarrow> nat \<Rightarrow> string \<Rightarrow> router \<Rightarrow> router" where
  "emit_line lib host n relay line st =
     fold (channel_line lib host n line) (jm_keys (rr_bindings st)) (router_line lib host n relay line st)"

text \<open>A lookup answers.\<close>

definition lookup_answered :: "nat \<Rightarrow> bool \<Rightarrow> bool \<Rightarrow> router \<Rightarrow> router" where
  "lookup_answered n known ready st =
     (case find (\<lambda>l. lk_arrival l = n) (rr_lookups st) of
        None \<Rightarrow> st
      | Some l \<Rightarrow>
          (let st1 = st \<lparr> rr_lookups := filter (\<lambda>k. lk_arrival k \<noteq> n) (rr_lookups st) \<rparr>
           in if \<not> known \<or> rr_relay st1 \<noteq> Some (lk_relay l) then st1
              else route_client_frame n (lk_owner l) (lk_frame l) (attach_binding (lk_owner l) ready st1)))"

text \<open>
  The connection is up (\<open>onConnected\<close>) or down (\<open>onDisconnected\<close>, which detaches all Owners); a
  pairing binds an Owner; an Owner is closed.
\<close>

datatype router_event =
    RtConnect
  | RtDisconnect
  | RtLine string
  | RtLookup nat bool bool
  | RtAttach string bool
  | RtDetach string

fun router_step :: "route_lib \<Rightarrow> route_identity \<Rightarrow> router \<Rightarrow> router_event \<Rightarrow> router" where
  "router_step lib host st RtConnect = st \<lparr> rr_relay := Some (rr_relays st), rr_relays := Suc (rr_relays st) \<rparr>"
| "router_step lib host st RtDisconnect = st \<lparr> rr_relay := None, rr_bindings := [] \<rparr>"
| "router_step lib host st (RtLine line) =
     (let n = rr_arrivals st; st1 = st \<lparr> rr_arrivals := Suc n \<rparr>
      in case rr_relay st of None \<Rightarrow> st1 | Some relay \<Rightarrow> emit_line lib host n relay line st1)"
| "router_step lib host st (RtLookup n known ready) = lookup_answered n known ready st"
| "router_step lib host st (RtAttach owner ready) = attach_binding owner ready st"
| "router_step lib host st (RtDetach owner) = st \<lparr> rr_bindings := jm_delete owner (rr_bindings st) \<rparr>"

text \<open>\<open>findKnownOwner\<close> of index.ts, over the stored peers: a record whose key cannot be read is passed over.\<close>

fun first_with_key :: "string \<Rightarrow> peer_record list \<Rightarrow> peer_record option" where
  "first_with_key canonical [] = None"
| "first_with_key canonical (r # rs) =
     (if canonicalize_ed25519_public_key (pr_epk r) ''stored Owner public key'' = Inr canonical then Some r
      else first_with_key canonical rs)"

definition find_known_owner :: "peer_record list \<Rightarrow> string \<Rightarrow> peer_record option" where
  "find_known_owner peers owner =
     (case canonicalize_ed25519_public_key owner ''Relay Owner key'' of
        Inl e \<Rightarrow> None
      | Inr canonical \<Rightarrow> first_with_key canonical peers)"

lemma first_with_key_None: "first_with_key canonical peers = None \<longleftrightarrow>
    (\<forall>r \<in> set peers. canonicalize_ed25519_public_key (pr_epk r) ''stored Owner public key'' \<noteq> Inr canonical)"
  by (induction peers) auto

lemma known_owner_iff: "find_known_owner peers owner \<noteq> None \<longleftrightarrow>
    (\<exists>r \<in> set peers. \<exists>key. canonicalize_ed25519_public_key owner ''Relay Owner key'' = Inr key
        \<and> canonicalize_ed25519_public_key (pr_epk r) ''stored Owner public key'' = Inr key)"
  by (cases "canonicalize_ed25519_public_key owner ''Relay Owner key''")
    (simp_all add: find_known_owner_def first_with_key_None del: not_None_eq)

subsection \<open>Every frame at most once, to its own Owner\<close>

text \<open>What line \<open>n\<close> of a run carries: a session frame of an Owner for this host.\<close>

definition carries :: "route_lib \<Rightarrow> route_identity \<Rightarrow> string \<Rightarrow> string \<Rightarrow> json \<Rightarrow> bool" where
  "carries lib host line owner frame \<longleftrightarrow>
     (\<exists>route. parse_incoming_route lib line host None = Inr (Some route)
        \<and> str_field ''source_owner_id'' route = Some owner \<and> decode_ct lib route = Inr frame
        \<and> field ''purpose'' route = Some (JStr ''session'') \<and> str_field ''type'' frame \<noteq> Some ''pair_request'')"

lemma parse_for_owner:
  "parse_incoming_route lib line host (Some owner) = Inr (Some route) \<longleftrightarrow>
     parse_incoming_route lib line host None = Inr (Some route) \<and> str_field ''source_owner_id'' route = Some owner"
  by (auto simp: parse_incoming_route_def split: option.splits json.splits if_splits)

lemma on_line_frame:
  "on_line lib host owner throws line = Inr (Some frame, reply) \<Longrightarrow> carries lib host line owner frame"
  by (auto simp: on_line_def carries_def parse_for_owner Let_def split: sum.splits option.splits if_splits)

lemma parsed_purpose:
  "parse_incoming_route lib line host None = Inr (Some route) \<Longrightarrow> is_purpose (field ''purpose'' route)"
  by (auto simp: parse_incoming_route_def split: option.splits json.splits if_splits)

lemma carries_unique: "carries lib host line owner frame \<Longrightarrow> carries lib host line owner' frame' \<Longrightarrow> owner' = owner \<and> frame' = frame"
  by (auto simp: carries_def)

lemma on_line_carries:
  "on_line lib host owner (\<lambda>_. False) line = Inr (Some frame, reply) \<longleftrightarrow>
     carries lib host line owner frame \<and> reply = None"
proof
  assume l: "on_line lib host owner (\<lambda>_. False) line = Inr (Some frame, reply)"
  then have "reply = None" by (auto simp: on_line_def Let_def split: sum.splits option.splits if_splits)
  with on_line_frame [OF l] show "carries lib host line owner frame \<and> reply = None" by simp
next
  assume r: "carries lib host line owner frame \<and> reply = None"
  then obtain route where "parse_incoming_route lib line host (Some owner) = Inr (Some route)"
    "decode_ct lib route = Inr frame" "field ''purpose'' route = Some (JStr ''session'')"
    "str_field ''type'' frame \<noteq> Some ''pair_request''"
    by (auto simp: carries_def parse_for_owner)
  with r show "on_line lib host owner (\<lambda>_. False) line = Inr (Some frame, reply)" by (simp add: on_line_def Let_def)
qed

lemma channel_line_none: "\<nexists>frame. carries lib host line owner frame \<Longrightarrow> channel_line lib host n line owner st = st"
  using on_line_frame [of lib host owner "\<lambda>_. False" line]
  by (auto simp: channel_line_def split: sum.split option.split prod.split)

lemma channel_line_some:
  "carries lib host line owner frame \<Longrightarrow> channel_line lib host n line owner st = route_client_frame n owner frame st"
  using on_line_carries [of lib host owner line frame None] by (simp add: channel_line_def)

lemma fold_channels_none:
  "(\<And>owner frame. owner \<in> set ks \<Longrightarrow> \<not> carries lib host line owner frame)
   \<Longrightarrow> fold (channel_line lib host n line) ks st = st"
  by (induction ks arbitrary: st) (simp_all add: channel_line_none)

lemma fold_channels_one:
  assumes "distinct ks" and "owner \<in> set ks" and "carries lib host line owner frame"
  shows "fold (channel_line lib host n line) ks st = route_client_frame n owner frame st"
proof -
  from assms(1, 2) obtain xs ys where ks: "ks = xs @ owner # ys" "owner \<notin> set xs" "owner \<notin> set ys"
    by (auto simp: in_set_conv_decomp)
  then have "\<And>w f. w \<in> set xs \<union> set ys \<Longrightarrow> \<not> carries lib host line w f"
    using carries_unique [OF assms(3)] by auto
  then show ?thesis using assms(3) by (simp add: ks(1) fold_channels_none channel_line_some)
qed

text \<open>What a line does: its frame goes to the binding of its Owner, or waits for the lookup, or nothing.\<close>

lemma router_line_cases:
  "router_line lib host n relay line st = st
   \<or> (\<exists>p. router_line lib host n relay line st = st \<lparr> rr_pairs := rr_pairs st @ [p] \<rparr>)
   \<or> (\<exists>owner frame. carries lib host line owner frame \<and> \<not> jm_has (rr_bindings st) owner
        \<and> router_line lib host n relay line st = st \<lparr> rr_lookups := rr_lookups st
            @ [\<lparr> lk_arrival = n, lk_relay = relay, lk_owner = owner, lk_frame = frame \<rparr>] \<rparr>)"
proof (cases "\<exists>route owner frame. rr_relay st = Some relay
    \<and> parse_incoming_route lib line host None = Inr (Some route)
    \<and> str_field ''source_owner_id'' route = Some owner \<and> decode_ct lib route = Inr frame")
  case False
  then have "router_line lib host n relay line st = st"
    by (auto simp: router_line_def split: sum.split option.split)
  then show ?thesis ..
next
  case True
  then obtain route owner frame where r: "rr_relay st = Some relay"
      "parse_incoming_route lib line host None = Inr (Some route)"
      "str_field ''source_owner_id'' route = Some owner" "decode_ct lib route = Inr frame" by blast
  show ?thesis
  proof (cases "owner = [] \<or> str_field ''type'' frame = Some ''pair_request''
      \<or> field ''purpose'' route = Some (JStr ''pairing'') \<or> jm_has (rr_bindings st) owner")
    case True
    with r show ?thesis by (auto simp: router_line_def)
  next
    case False
    with parsed_purpose [OF r(2)] have "field ''purpose'' route = Some (JStr ''session'')"
      by (auto simp: is_purpose_def)
    with r False have "carries lib host line owner frame" by (auto simp: carries_def)
    with r False show ?thesis by (auto simp: router_line_def)
  qed
qed

subsection \<open>The invariant\<close>

fun lines_of :: "router_event list \<Rightarrow> string list" where
  "lines_of [] = []"
| "lines_of (RtLine line # es) = line # lines_of es"
| "lines_of (_ # es) = lines_of es"

lemma lines_of_append [simp]: "lines_of (xs @ ys) = lines_of xs @ lines_of ys"
  by (induction xs rule: lines_of.induct) auto

text \<open>Line \<open>n\<close> of a run carries this frame of this Owner.\<close>

definition carried :: "route_lib \<Rightarrow> route_identity \<Rightarrow> string list \<Rightarrow> nat \<Rightarrow> string \<Rightarrow> json \<Rightarrow> bool" where
  "carried lib host ls n owner frame \<longleftrightarrow> n < length ls \<and> carries lib host (ls ! n) owner frame"

text \<open>The Owner was bound by a pairing, or found among the stored peers for a line of its own.\<close>

definition admitted :: "route_lib \<Rightarrow> route_identity \<Rightarrow> router_event list \<Rightarrow> string \<Rightarrow> bool" where
  "admitted lib host es owner \<longleftrightarrow> RtAttach owner True \<in> set es
     \<or> (\<exists>n frame. RtLookup n True True \<in> set es \<and> carried lib host (lines_of es) n owner frame)"

lemma carried_mono: "carried lib host ls n owner frame \<Longrightarrow> carried lib host (ls @ ls') n owner frame"
  by (simp add: carried_def nth_append)

lemma admitted_mono: "admitted lib host es owner \<Longrightarrow> admitted lib host (es @ es') owner"
  by (auto simp: admitted_def intro: carried_mono)

definition lookups_ok :: "route_lib \<Rightarrow> route_identity \<Rightarrow> router_event list \<Rightarrow> lookup list \<Rightarrow> bool" where
  "lookups_ok lib host es ls \<longleftrightarrow> (\<forall>l \<in> set ls. carried lib host (lines_of es) (lk_arrival l) (lk_owner l) (lk_frame l))"

definition deliveries_ok :: "route_lib \<Rightarrow> route_identity \<Rightarrow> router_event list \<Rightarrow> handover list \<Rightarrow> bool" where
  "deliveries_ok lib host es ds \<longleftrightarrow>
     (\<forall>d \<in> set ds. carried lib host (lines_of es) (dl_arrival d) (dl_owner d) (dl_frame d)
        \<and> admitted lib host es (dl_owner d))"

definition bindings_ok :: "route_lib \<Rightarrow> route_identity \<Rightarrow> router_event list \<Rightarrow> (string, nat) js_map \<Rightarrow> bool" where
  "bindings_ok lib host es m \<longleftrightarrow> jm_ok m \<and> (\<forall>owner \<in> fst ` set m. admitted lib host es owner)"

definition once_ok :: "router \<Rightarrow> bool" where
  "once_ok st \<longleftrightarrow> distinct (map lk_arrival (rr_lookups st) @ map dl_arrival (rr_delivered st))"

definition router_ok :: "route_lib \<Rightarrow> route_identity \<Rightarrow> router_event list \<Rightarrow> router \<Rightarrow> bool" where
  "router_ok lib host es st \<longleftrightarrow> rr_arrivals st = length (lines_of es)
     \<and> lookups_ok lib host es (rr_lookups st) \<and> deliveries_ok lib host es (rr_delivered st)
     \<and> bindings_ok lib host es (rr_bindings st) \<and> once_ok st"

lemma router_ok_new: "router_ok lib host [] new_router"
  by (simp add: router_ok_def new_router_def lookups_ok_def deliveries_ok_def bindings_ok_def once_ok_def)

lemma parts_mono:
  "lookups_ok lib host es ls \<Longrightarrow> lookups_ok lib host (es @ es') ls"
  "deliveries_ok lib host es ds \<Longrightarrow> deliveries_ok lib host (es @ es') ds"
  "bindings_ok lib host es m \<Longrightarrow> bindings_ok lib host (es @ es') m"
  by (auto simp: lookups_ok_def deliveries_ok_def bindings_ok_def intro: carried_mono admitted_mono)

lemma arrivals_below:
  assumes "router_ok lib host es st"
  shows "n \<in> set (map lk_arrival (rr_lookups st) @ map dl_arrival (rr_delivered st)) \<Longrightarrow> n < length (lines_of es)"
  using assms by (auto simp: router_ok_def lookups_ok_def deliveries_ok_def carried_def)

lemma bound_admitted:
  "bindings_ok lib host es m \<Longrightarrow> jm_get m owner = Some b \<Longrightarrow> admitted lib host es owner"
  using jm_get_None_iff [of m owner] by (auto simp: bindings_ok_def)

text \<open>A line.\<close>

lemma line_keeps:
  assumes ok: "router_ok lib host es st"
  shows "router_ok lib host (es @ [RtLine line]) (router_step lib host st (RtLine line))"
proof (cases "rr_relay st")
  case None
  with ok show ?thesis by (simp add: router_ok_def parts_mono once_ok_def)
next
  case (Some relay)
  let ?n = "rr_arrivals st"
  let ?es = "es @ [RtLine line]"
  let ?st = "st \<lparr> rr_arrivals := Suc ?n \<rparr>"
  let ?r = "router_line lib host ?n relay line ?st"
  have n: "?n = length (lines_of es)" using ok by (simp add: router_ok_def)
  have base: "router_ok lib host ?es ?st"
    using ok by (simp add: router_ok_def parts_mono once_ok_def)
  have fresh: "?n \<notin> set (map lk_arrival (rr_lookups st) @ map dl_arrival (rr_delivered st))"
    using arrivals_below [OF ok, of ?n] n by auto
  have step: "router_step lib host st (RtLine line) = fold (channel_line lib host ?n line) (jm_keys (rr_bindings st)) ?r"
    using Some by (simp add: emit_line_def Let_def)
  have keys: "distinct (jm_keys (rr_bindings st))" "set (jm_keys (rr_bindings st)) = fst ` set (rr_bindings st)"
    using ok by (simp_all add: router_ok_def bindings_ok_def jm_ok_def jm_keys_def)
  show ?thesis
  proof (cases "\<exists>owner frame b. carries lib host line owner frame \<and> jm_get (rr_bindings st) owner = Some b")
    case True
    then obtain owner frame b where c: "carries lib host line owner frame" and b: "jm_get (rr_bindings st) owner = Some b"
      by blast
    then have here: "carried lib host (lines_of ?es) ?n owner frame" by (simp add: carried_def n)
    have bound: "owner \<in> set (jm_keys (rr_bindings st))" using b keys(2) jm_get_None_iff [of "rr_bindings st" owner] by auto
    have "?r = ?st \<or> (\<exists>p. ?r = ?st \<lparr> rr_pairs := rr_pairs ?st @ [p] \<rparr>)"
    proof (rule ccontr)
      assume "\<not> ?thesis"
      then obtain w f where "carries lib host line w f" "\<not> jm_has (rr_bindings st) w"
        using router_line_cases [of lib host ?n relay line ?st] by auto
      with carries_unique [OF c] b jm_get_None_iff [of "rr_bindings st" w] show False by (auto simp: jm_has_iff)
    qed
    then have unread: "rr_bindings ?r = rr_bindings st" "rr_lookups ?r = rr_lookups st"
      "rr_delivered ?r = rr_delivered st" "rr_arrivals ?r = Suc ?n" by auto
    have "router_step lib host st (RtLine line) = route_client_frame ?n owner frame ?r"
      unfolding step by (rule fold_channels_one [OF keys(1) bound c])
    then have "router_step lib host st (RtLine line) = ?r \<lparr> rr_delivered := rr_delivered st
        @ [\<lparr> dl_arrival = ?n, dl_owner = owner, dl_binding = b, dl_frame = frame \<rparr>] \<rparr>"
      using b by (simp add: route_client_frame_def unread)
    moreover have "admitted lib host ?es owner"
      using bound_admitted [of lib host ?es "rr_bindings st"] base b by (simp add: router_ok_def)
    ultimately show ?thesis
      using base here fresh unread by (auto simp: router_ok_def deliveries_ok_def once_ok_def)
  next
    case False
    have "router_step lib host st (RtLine line) = ?r"
      unfolding step
    proof (rule fold_channels_none)
      fix owner frame assume "owner \<in> set (jm_keys (rr_bindings st))"
      with keys(2) jm_get_None_iff [of "rr_bindings st" owner] False show "\<not> carries lib host line owner frame" by auto
    qed
    moreover consider "?r = ?st" | p where "?r = ?st \<lparr> rr_pairs := rr_pairs ?st @ [p] \<rparr>"
      | owner frame where "carries lib host line owner frame" "?r = ?st \<lparr> rr_lookups := rr_lookups ?st
            @ [\<lparr> lk_arrival = ?n, lk_relay = relay, lk_owner = owner, lk_frame = frame \<rparr>] \<rparr>"
      using router_line_cases [of lib host ?n relay line ?st] by blast
    then have "router_ok lib host ?es ?r"
    proof cases
      case 3
      then have "carried lib host (lines_of ?es) ?n owner frame" by (simp add: carried_def n)
      with 3(2) base fresh show ?thesis by (auto simp: router_ok_def lookups_ok_def once_ok_def)
    qed (use base in \<open>simp_all add: router_ok_def once_ok_def\<close>)
    ultimately show ?thesis by simp
  qed
qed

text \<open>A lookup answers, an Owner is bound or detached.\<close>

lemma bindings_set: "bindings_ok lib host es m \<Longrightarrow> admitted lib host es owner \<Longrightarrow> bindings_ok lib host es (jm_set owner b m)"
  by (auto simp: bindings_ok_def jm_set_keys)

lemma bindings_delete: "bindings_ok lib host es m \<Longrightarrow> bindings_ok lib host es (jm_delete owner m)"
  by (auto simp: bindings_ok_def jm_delete_keys)

lemma attach_keeps:
  assumes "router_ok lib host es st" and "ready \<Longrightarrow> admitted lib host es owner"
  shows "router_ok lib host es (attach_binding owner ready st)"
  using assms by (auto simp: attach_binding_def Let_def router_ok_def once_ok_def intro: bindings_set bindings_delete)

lemma attach_binding_fields [simp]:
  "rr_lookups (attach_binding owner ready st) = rr_lookups st"
  "rr_delivered (attach_binding owner ready st) = rr_delivered st"
  "rr_relay (attach_binding owner ready st) = rr_relay st"
  "jm_get (rr_bindings (attach_binding owner ready st)) owner = (if ready then Some (rr_next st) else None)"
  by (simp_all add: attach_binding_def Let_def)

lemma route_keeps:
  assumes ok: "router_ok lib host es st" and "carried lib host (lines_of es) n owner frame"
    and fresh: "n \<notin> set (map lk_arrival (rr_lookups st) @ map dl_arrival (rr_delivered st))"
  shows "router_ok lib host es (route_client_frame n owner frame st)"
proof (cases "jm_get (rr_bindings st) owner")
  case None
  with ok show ?thesis by (simp add: route_client_frame_def)
next
  case (Some b)
  with ok have "admitted lib host es owner" by (auto simp: router_ok_def intro: bound_admitted)
  with assms Some show ?thesis by (auto simp: route_client_frame_def router_ok_def deliveries_ok_def once_ok_def)
qed

lemma without_lookup:
  assumes "router_ok lib host es st"
  shows "router_ok lib host es (st \<lparr> rr_lookups := filter P (rr_lookups st) \<rparr>)"
  using assms by (auto simp: router_ok_def lookups_ok_def once_ok_def distinct_map_filter)

lemma lookup_keeps:
  assumes ok: "router_ok lib host es st"
  shows "router_ok lib host (es @ [RtLookup n known ready]) (lookup_answered n known ready st)"
proof (cases "find (\<lambda>l. lk_arrival l = n) (rr_lookups st)")
  case None
  with ok show ?thesis by (simp add: lookup_answered_def router_ok_def parts_mono)
next
  case (Some l)
  then have l: "l \<in> set (rr_lookups st)" "lk_arrival l = n" by (auto dest: find_SomeD)
  let ?es = "es @ [RtLookup n known ready]"
  let ?st = "st \<lparr> rr_lookups := filter (\<lambda>k. lk_arrival k \<noteq> n) (rr_lookups st) \<rparr>"
  have base: "router_ok lib host ?es ?st"
    using without_lookup [OF ok, of "\<lambda>k. lk_arrival k \<noteq> n"] by (simp add: router_ok_def parts_mono once_ok_def)
  have c: "carried lib host (lines_of ?es) n (lk_owner l) (lk_frame l)"
    using ok l by (auto simp: router_ok_def lookups_ok_def)
  have fresh: "n \<notin> set (map lk_arrival (rr_lookups ?st) @ map dl_arrival (rr_delivered ?st))"
    using ok l by (auto simp: router_ok_def once_ok_def)
  show ?thesis
  proof (cases "known \<and> rr_relay st = Some (lk_relay l)")
    case True
    then have "ready \<Longrightarrow> admitted lib host ?es (lk_owner l)" using c by (auto simp: admitted_def)
    then have "router_ok lib host ?es (attach_binding (lk_owner l) ready ?st)" by (rule attach_keeps [OF base])
    then have "router_ok lib host ?es (route_client_frame n (lk_owner l) (lk_frame l) (attach_binding (lk_owner l) ready ?st))"
      using c fresh by (intro route_keeps) simp_all
    with True Some show ?thesis by (simp add: lookup_answered_def)
  next
    case False
    with base Some show ?thesis by (auto simp: lookup_answered_def)
  qed
qed

lemma router_step_keeps:
  assumes ok: "router_ok lib host es st"
  shows "router_ok lib host (es @ [e]) (router_step lib host st e)"
proof (cases e)
  case (RtLine line)
  with line_keeps [OF ok] show ?thesis by simp
next
  case (RtLookup n known ready)
  with lookup_keeps [OF ok] show ?thesis by simp
next
  case (RtAttach owner ready)
  have "router_ok lib host (es @ [e]) st" using ok RtAttach by (simp add: router_ok_def parts_mono)
  then have "router_ok lib host (es @ [e]) (attach_binding owner ready st)"
    by (rule attach_keeps) (simp add: RtAttach admitted_def)
  with RtAttach show ?thesis by simp
next
  case (RtDetach owner)
  with ok show ?thesis by (simp add: router_ok_def once_ok_def parts_mono bindings_delete)
next
  case RtDisconnect
  with ok show ?thesis by (simp add: router_ok_def once_ok_def parts_mono) (simp add: bindings_ok_def)
qed (use ok in \<open>simp add: router_ok_def once_ok_def parts_mono\<close>)

text \<open>
  The history of the events is part of the state of this machine, so its steps are those of the
  router with the history appended.
\<close>

definition history_step ::
  "route_lib \<Rightarrow> route_identity \<Rightarrow> router_event list \<times> router \<Rightarrow> router_event \<Rightarrow> router_event list \<times> router" where
  "history_step lib host s e = (fst s @ [e], router_step lib host (snd s) e)"

interpretation owner_router: invariant_machine "history_step lib host" "\<lambda>_ _. True" "\<lambda>(es, st). router_ok lib host es st"
  for lib host
  by unfold_locales (auto simp: history_step_def router_step_keeps)

lemma run_history: "run (history_step lib host) (es0, st) es = (es0 @ es, run (router_step lib host) st es)"
  by (induction es arbitrary: es0 st) (simp_all add: history_step_def)

lemma reached_router: "router_ok lib host es (run (router_step lib host) new_router es)"
  using owner_router.run_keeps [of lib host "([], new_router)" es]
  by (simp add: router_ok_new run_history trace_ok_all)

lemma disjoint_member: "A \<inter> B = {} \<Longrightarrow> x \<in> B \<Longrightarrow> x \<notin> A"
  by blast

lemma count_list_distinct: "distinct xs \<Longrightarrow> x \<in> set xs \<Longrightarrow> count_list xs x = 1"
  by (induction xs) auto

text \<open>
  C34: every frame reaches its own Owner's service, at most once. Whatever lines, lookups,
  pairings and lost connections interleave: a call of a service hands over the frame that one
  line carried, which named this host and Owner as a session route; the Owner was bound by a
  pairing or found among the stored peers for a line of its own; and no line is handed over
  twice, though the router and the channel both listen, nor is it while its lookup runs.
\<close>

theorem routed_once:
  assumes "st = run (router_step lib host) new_router es" and "d \<in> set (rr_delivered st)"
  shows "carried lib host (lines_of es) (dl_arrival d) (dl_owner d) (dl_frame d)
    \<and> admitted lib host es (dl_owner d)
    \<and> count_list (map dl_arrival (rr_delivered st)) (dl_arrival d) = 1
    \<and> dl_arrival d \<notin> set (map lk_arrival (rr_lookups st))"
proof -
  have "router_ok lib host es st" unfolding assms(1) by (rule reached_router)
  then have parts: "deliveries_ok lib host es (rr_delivered st)" "once_ok st" by (simp_all add: router_ok_def)
  from parts(2) have "distinct (map dl_arrival (rr_delivered st))"
    and apart: "set (map lk_arrival (rr_lookups st)) \<inter> set (map dl_arrival (rr_delivered st)) = {}"
    unfolding once_ok_def distinct_append by (rule conjunct1 [OF conjunct2], rule conjunct2 [OF conjunct2])
  moreover have here: "dl_arrival d \<in> set (map dl_arrival (rr_delivered st))" using assms(2) by simp
  ultimately have "count_list (map dl_arrival (rr_delivered st)) (dl_arrival d) = 1"
    by (intro count_list_distinct)
  moreover from apart here have "dl_arrival d \<notin> set (map lk_arrival (rr_lookups st))" by (rule disjoint_member)
  ultimately show ?thesis using parts(1) assms(2) by (simp add: deliveries_ok_def)
qed

subsection \<open>Frames that are served\<close>

text \<open>A bound Owner's frame is handed over at once, a known Owner's when its lookup answers.\<close>

lemma find_unique:
  assumes "x \<in> set xs" and "P x" and "\<And>y. y \<in> set xs \<Longrightarrow> P y \<Longrightarrow> y = x"
  shows "find P xs = Some x"
proof (cases "find P xs")
  case None
  with assms(1, 2) show ?thesis by (simp add: find_None_iff)
next
  case (Some y)
  with assms(3) find_SomeD [OF Some] show ?thesis by simp
qed

lemma lookup_served:
  assumes "router_ok lib host es st" and "l \<in> set (rr_lookups st)" and "rr_relay st = Some (lk_relay l)"
  shows "rr_delivered (lookup_answered (lk_arrival l) True True st) = rr_delivered st
      @ [\<lparr> dl_arrival = lk_arrival l, dl_owner = lk_owner l, dl_binding = rr_next st, dl_frame = lk_frame l \<rparr>]"
    and "jm_get (rr_bindings (lookup_answered (lk_arrival l) True True st)) (lk_owner l) = Some (rr_next st)"
    and "rr_next (lookup_answered (lk_arrival l) True True st) = Suc (rr_next st)"
    and "rr_relay (lookup_answered (lk_arrival l) True True st) = rr_relay st"
    and "rr_lookups (lookup_answered (lk_arrival l) True True st)
      = filter (\<lambda>k. lk_arrival k \<noteq> lk_arrival l) (rr_lookups st)"
proof -
  have inj: "inj_on lk_arrival (set (rr_lookups st))"
    using assms(1) by (simp add: router_ok_def once_ok_def distinct_map)
  have "find (\<lambda>k. lk_arrival k = lk_arrival l) (rr_lookups st) = Some l"
    by (rule find_unique) (use assms(2) inj in \<open>auto dest: inj_onD\<close>)
  then have "lookup_answered (lk_arrival l) True True st
      = route_client_frame (lk_arrival l) (lk_owner l) (lk_frame l) (attach_binding (lk_owner l) True
          (st \<lparr> rr_lookups := filter (\<lambda>k. lk_arrival k \<noteq> lk_arrival l) (rr_lookups st) \<rparr>))"
    using assms(3) by (simp add: lookup_answered_def)
  then show "rr_delivered (lookup_answered (lk_arrival l) True True st) = rr_delivered st
      @ [\<lparr> dl_arrival = lk_arrival l, dl_owner = lk_owner l, dl_binding = rr_next st, dl_frame = lk_frame l \<rparr>]"
    and "jm_get (rr_bindings (lookup_answered (lk_arrival l) True True st)) (lk_owner l) = Some (rr_next st)"
    and "rr_next (lookup_answered (lk_arrival l) True True st) = Suc (rr_next st)"
    and "rr_relay (lookup_answered (lk_arrival l) True True st) = rr_relay st"
    and "rr_lookups (lookup_answered (lk_arrival l) True True st)
      = filter (\<lambda>k. lk_arrival k \<noteq> lk_arrival l) (rr_lookups st)"
    by (simp_all add: route_client_frame_def attach_binding_def Let_def)
qed

text \<open>
  The lookup does not ask again whether the Owner has been bound meanwhile. Two frames of an
  unbound Owner, say the hellos of two tabs, bind it twice: the second binding replaces the first,
  and with it the service that has just greeted the first tab.
\<close>

lemma rebinding_replaces:
  assumes "router_ok lib host es st" and "l \<in> set (rr_lookups st)" and "k \<in> set (rr_lookups st)"
    and "lk_arrival l \<noteq> lk_arrival k" and "lk_owner k = lk_owner l"
    and "rr_relay st = Some (lk_relay l)" and "lk_relay k = lk_relay l"
    and "st' = run (router_step lib host) st [RtLookup (lk_arrival l) True True, RtLookup (lk_arrival k) True True]"
  shows "map dl_binding (rr_delivered st') = map dl_binding (rr_delivered st) @ [rr_next st, Suc (rr_next st)]
    \<and> jm_get (rr_bindings st') (lk_owner l) = Some (Suc (rr_next st))"
proof -
  let ?st = "lookup_answered (lk_arrival l) True True st"
  note first = lookup_served [OF assms(1, 2, 6)]
  have "k \<in> set (rr_lookups ?st)" "rr_relay ?st = Some (lk_relay k)"
    using assms(3, 4, 6, 7) first(4, 5) by auto
  note second = lookup_served [OF lookup_keeps [OF assms(1), of "lk_arrival l" True True] this]
  show ?thesis using first second assms(5, 8) by simp
qed

definition ping_line :: json where
  "ping_line = owner_route demo_identity ''o'' ''session'' ''ct''"

definition ping_routing :: route_lib where
  "ping_routing = \<lparr>
     rt_codec = \<lparr> lib_accepts = zod_accepts,
       lib_parse = (\<lambda>t. if t = ''line'' then Some ping_line else if t = ''ping'' then Some demo_ping else None),
       lib_utf8 = (\<lambda>_. None) \<rparr>,
     rt_text = (\<lambda>_. []), rt_buffer_text = (\<lambda>_. ''ping''), rt_max_arguments = 65536 \<rparr>"

definition ping_run :: "router_event list" where
  "ping_run = [RtConnect, RtLine ''line'', RtLookup 0 True True, RtLine ''line'']"

lemma ping_carried: "carries ping_routing demo_identity ''line'' ''o'' demo_ping"
proof -
  have "parse_incoming_route ping_routing ''line'' demo_identity None = Inr (Some ping_line)"
    by (simp add: parse_incoming_route_def ping_routing_def ping_line_def owner_route_def str_field_def is_purpose_def)
  moreover have "decode_ct ping_routing ping_line = Inr demo_ping"
    using demo_ping_client
    by (simp add: decode_ct_def decode_client_frame_def ping_routing_def parse_frame_iff zod_exec.zod_axioms
        parse_raw_def utf8_length_def MAX_FRAME_BYTES_def accepts_value_def frame_schema_def frame_fits_def
        demo_ping_def str_field_def field_def)
  ultimately show ?thesis
    by (auto simp: carries_def ping_line_def owner_route_def str_field_def) (simp add: demo_ping_def field_def)
qed

lemma ping_router_line:
  "router_line ping_routing demo_identity n r ''line'' st =
     (if rr_relay st \<noteq> Some r \<or> jm_has (rr_bindings st) ''o'' then st
      else st \<lparr> rr_lookups := rr_lookups st
        @ [\<lparr> lk_arrival = n, lk_relay = r, lk_owner = ''o'', lk_frame = demo_ping \<rparr>] \<rparr>)"
  using ping_carried by (auto simp: carries_def router_line_def)

lemma ping_delivered: "rr_delivered (run (router_step ping_routing demo_identity) new_router ping_run)
  = [\<lparr> dl_arrival = 0, dl_owner = ''o'', dl_binding = 0, dl_frame = demo_ping \<rparr>,
     \<lparr> dl_arrival = 1, dl_owner = ''o'', dl_binding = 0, dl_frame = demo_ping \<rparr>]"
  by (simp add: ping_run_def new_router_def emit_line_def Let_def ping_router_line jm_keys_def lookup_answered_def
      attach_binding_def route_client_frame_def channel_line_some [OF ping_carried] jm_has_iff jm_delete_def)

lemma routed_once_witness:
  "carried ping_routing demo_identity [''line'', ''line''] 1 ''o'' demo_ping
   \<and> admitted ping_routing demo_identity ping_run ''o''"
proof -
  have "\<lparr> dl_arrival = 1, dl_owner = ''o'', dl_binding = 0, dl_frame = demo_ping \<rparr>
      \<in> set (rr_delivered (run (router_step ping_routing demo_identity) new_router ping_run))"
    by (simp add: ping_delivered)
  from routed_once [OF refl this] show ?thesis by (simp add: ping_run_def)
qed

end
