(* ===== verification/PwaTimeline.thy ===== *)
theory PwaTimeline
  imports PwaCodec
begin

text \<open>
  \<open>TimelineRuntime\<close> of \<open>pwa/src/lib/pwa/timeline-runtime.ts\<close>: the timeline that the PWA shows for
  one session, with the messages of the user that are on their way, the output that streams in,
  and the committed events.

  Events, partials and frames are JSON values. \<open>tv_uuid\<close> gives the values of \<open>randomId()\<close>, counted
  by \<open>tl_fresh\<close>; \<open>tv_now\<close> is \<open>Date.now()\<close> of the call; \<open>tv_collate\<close> is \<open>localeCompare\<close>.
\<close>

record timeline_env =
  tv_lib :: codec_lib
  tv_uuid :: "nat \<Rightarrow> string"
  tv_now :: int
  tv_collate :: "string \<Rightarrow> string \<Rightarrow> int"

record live_scope =
  lv_device :: string
  lv_endpoint :: string
  lv_runtime :: string
  lv_session :: string
  lv_generation :: string
  lv_self :: string
  lv_channel :: string

datatype delivery_state = DvPending | DvReceived | DvAccepted | DvCommitted | DvUnknown

record user_pending =
  pm_request :: string
  pm_text :: string
  pm_images :: "json list"
  pm_cancelable :: "bool option"
  pm_created :: int
  pm_delivery :: delivery_state
  pm_request_id :: string
  pm_message :: "string option"

text \<open>The \<open>id\<close> of a pending item is \<open>pending:\<close> and the client request id.\<close>

record partial_view =
  pv_partial :: json
  pv_created :: int

datatype view_item = VwEvent json | VwPending user_pending | VwPartial partial_view

record timeline =
  tl_scope :: "live_scope option"
  tl_events :: "(string, json) js_map"
  tl_partials :: "(string, partial_view) js_map"
  tl_pending :: "(string, user_pending) js_map"
  tl_history :: "json list"
  tl_unknown :: "user_pending list"
  tl_queued :: "string list"
  tl_snapshot :: "string option"
  tl_snapshot_items :: "(string, json) js_map"
  tl_observed :: "json list"
  tl_fresh :: nat

record timeline_change =
  ch_items :: "view_item list"
  ch_observed :: "json list"
  ch_unknown :: "user_pending list"
  ch_reset :: "json option"

definition new_timeline :: timeline where
  "new_timeline = \<lparr> tl_scope = None, tl_events = [], tl_partials = [], tl_pending = [], tl_history = [],
     tl_unknown = [], tl_queued = [], tl_snapshot = None, tl_snapshot_items = [], tl_observed = [], tl_fresh = 0 \<rparr>"

section \<open>Reading members\<close>

definition text_member :: "string \<Rightarrow> json \<Rightarrow> string" where
  "text_member k j = (case str_field k j of Some s \<Rightarrow> s | None \<Rightarrow> [])"

definition int_member :: "string \<Rightarrow> json \<Rightarrow> int" where
  "int_member k j = (case field k j of Some (JNum (NInt i)) \<Rightarrow> i | _ \<Rightarrow> 0)"

definition set_member :: "string \<Rightarrow> json \<Rightarrow> json \<Rightarrow> json" where
  "set_member k v j = (case j of JObj ms \<Rightarrow> JObj (jm_set k v ms) | _ \<Rightarrow> j)"

definition item_id :: "view_item \<Rightarrow> string" where
  "item_id i = (case i of VwEvent e \<Rightarrow> text_member ''event_id'' e
     | VwPartial p \<Rightarrow> text_member ''partial_id'' (pv_partial p) | VwPending p \<Rightarrow> pm_request p)"

definition item_time :: "view_item \<Rightarrow> int" where
  "item_time i = (case i of VwEvent e \<Rightarrow> int_member ''timestamp'' e | VwPartial p \<Rightarrow> pv_created p | VwPending p \<Rightarrow> pm_created p)"

definition compare_items :: "timeline_env \<Rightarrow> view_item \<Rightarrow> view_item \<Rightarrow> int" where
  "compare_items env a b =
     (let d = item_time a - item_time b in if d \<noteq> 0 then d else tv_collate env (item_id a) (item_id b))"

text \<open>\<open>Array.prototype.sort\<close>: stable.\<close>

fun insert_item :: "('a \<Rightarrow> 'a \<Rightarrow> int) \<Rightarrow> 'a \<Rightarrow> 'a list \<Rightarrow> 'a list" where
  "insert_item cmp x [] = [x]"
| "insert_item cmp x (y # ys) = (if cmp x y < 0 then x # y # ys else y # insert_item cmp x ys)"

definition stable_sort :: "('a \<Rightarrow> 'a \<Rightarrow> int) \<Rightarrow> 'a list \<Rightarrow> 'a list" where
  "stable_sort cmp xs = foldl (\<lambda>ys x. insert_item cmp x ys) [] xs"

definition matches_scope :: "live_scope option \<Rightarrow> json \<Rightarrow> bool" where
  "matches_scope scope frame =
     (case scope of None \<Rightarrow> False
      | Some s \<Rightarrow> str_field ''session_id'' frame = Some (lv_session s)
          \<and> str_field ''history_generation'' frame = Some (lv_generation s))"

definition merge_partial :: "json option \<Rightarrow> json \<Rightarrow> json" where
  "merge_partial previous next =
     (case previous of None \<Rightarrow> next
      | Some prev \<Rightarrow>
          if field ''blocks'' next \<noteq> None then next
          else case str_field ''delta'' next of
            None \<Rightarrow> (case field ''delta'' prev of None \<Rightarrow> next | Some d \<Rightarrow> set_member ''delta'' d next)
          | Some d \<Rightarrow> set_member ''delta'' (JStr (text_member ''delta'' prev @ d)) next)"

section \<open>What a call returns\<close>

definition view_items :: "timeline \<Rightarrow> view_item list" where
  "view_items st = map VwEvent (jm_values (tl_events st)) @ map VwPending (jm_values (tl_pending st))
     @ map VwPending (tl_unknown st) @ map VwPartial (jm_values (tl_partials st))"

definition change :: "timeline_env \<Rightarrow> timeline \<Rightarrow> timeline \<times> timeline_change" where
  "change env st =
     (st \<lparr> tl_observed := [] \<rparr>,
      \<lparr> ch_items = stable_sort (compare_items env) (view_items st), ch_observed = tl_observed st,
        ch_unknown = tl_unknown st, ch_reset = None \<rparr>)"

definition pending_items :: "timeline \<Rightarrow> user_pending list" where
  "pending_items st = jm_values (tl_pending st) @ tl_unknown st"

section \<open>The scope\<close>

definition as_unknown :: "user_pending \<Rightarrow> user_pending" where
  "as_unknown p = p \<lparr> pm_delivery := DvUnknown \<rparr>"

definition clear_transient :: "timeline \<Rightarrow> timeline" where
  "clear_transient st = st \<lparr> tl_partials := [], tl_queued := [], tl_snapshot_items := [], tl_snapshot := None,
     tl_unknown := tl_unknown st @ map as_unknown (jm_values (tl_pending st)), tl_pending := [] \<rparr>"

definition scope_changed :: "live_scope option \<Rightarrow> live_scope \<Rightarrow> bool" where
  "scope_changed old scope =
     (case old of None \<Rightarrow> True
      | Some s \<Rightarrow> lv_device s \<noteq> lv_device scope \<or> lv_endpoint s \<noteq> lv_endpoint scope
          \<or> lv_runtime s \<noteq> lv_runtime scope \<or> lv_session s \<noteq> lv_session scope
          \<or> lv_generation s \<noteq> lv_generation scope)"

definition forget_events :: "timeline \<Rightarrow> timeline" where
  "forget_events st = st \<lparr> tl_events := [], tl_history := [] \<rparr>"

definition set_scope :: "live_scope \<Rightarrow> timeline \<Rightarrow> timeline" where
  "set_scope scope st =
     (if scope_changed (tl_scope st) scope then forget_events (clear_transient st) else st) \<lparr> tl_scope := Some scope \<rparr>"

definition invalidate_scope :: "timeline \<Rightarrow> timeline" where
  "invalidate_scope st = forget_events ((clear_transient st) \<lparr> tl_scope := None \<rparr>)"

definition clear_timeline :: "timeline \<Rightarrow> timeline" where
  "clear_timeline st = st \<lparr> tl_scope := None, tl_events := [], tl_partials := [], tl_pending := [],
     tl_history := [], tl_unknown := [] \<rparr>"

definition mark_disconnected :: "timeline \<Rightarrow> timeline" where
  "mark_disconnected st = clear_transient st"

section \<open>Messages of the user\<close>

definition user_message_frame :: "live_scope \<Rightarrow> string \<Rightarrow> string \<Rightarrow> string \<Rightarrow> json list \<Rightarrow> json" where
  "user_message_frame scope request_id request message_text images =
     JObj ([(''protocol_version'', JNum (NInt 2)), (''type'', JStr ''user_message''), (''id'', JStr request_id),
       (''channel_id'', JStr (lv_channel scope)), (''history_generation'', JStr (lv_generation scope)),
       (''client_request_id'', JStr request), (''text'', JStr message_text)]
       @ (if images = [] then [] else [(''images'', JArr images)]))"

text \<open>\<open>sendUser\<close>: the frame to send, or \<open>None\<close>. \<open>ids\<close> are the client request id and the request id.\<close>

definition send_user ::
  "timeline_env \<Rightarrow> string \<Rightarrow> json list \<Rightarrow> (string \<times> string) option \<Rightarrow> timeline \<Rightarrow> timeline \<times> json option" where
  "send_user env message_text images ids st =
     (case tl_scope st of None \<Rightarrow> (st, None)
      | Some scope \<Rightarrow>
          if length images > 1 \<or> (list_all is_space message_text \<and> images = []) then (st, None)
          else
            let (request, request_id, fresh) = (case ids of
                  Some (c, r) \<Rightarrow> (c, r, tl_fresh st)
                | None \<Rightarrow> (tv_uuid env (tl_fresh st), tv_uuid env (Suc (tl_fresh st)), Suc (Suc (tl_fresh st))))
            in (st \<lparr> tl_fresh := fresh, tl_pending := jm_set request
                  \<lparr> pm_request = request, pm_text = message_text, pm_images = images, pm_cancelable = None,
                    pm_created = tv_now env, pm_delivery = DvPending, pm_request_id = request_id, pm_message = None \<rparr>
                  (tl_pending st) \<rparr>,
                Some (user_message_frame scope request_id request message_text images)))"

definition move_to_unknown :: "user_pending \<Rightarrow> timeline \<Rightarrow> timeline" where
  "move_to_unknown p st =
     st \<lparr> tl_pending := jm_delete (pm_request p) (tl_pending st), tl_unknown := tl_unknown st @ [as_unknown p] \<rparr>"

definition mark_unknown_delivery :: "string \<Rightarrow> timeline \<Rightarrow> timeline" where
  "mark_unknown_delivery request st =
     (case jm_get (tl_pending st) request of None \<Rightarrow> st | Some p \<Rightarrow> move_to_unknown p st)"

fun remove_first :: "string \<Rightarrow> user_pending list \<Rightarrow> user_pending list" where
  "remove_first request [] = []"
| "remove_first request (p # ps) = (if pm_request p = request then ps else p # remove_first request ps)"

definition retry_unknown :: "timeline_env \<Rightarrow> string \<Rightarrow> timeline \<Rightarrow> timeline \<times> json option" where
  "retry_unknown env request st =
     (case (tl_scope st, find (\<lambda>p. pm_request p = request) (tl_unknown st)) of
        (Some scope, Some previous) \<Rightarrow>
          (let request_id = tv_uuid env (tl_fresh st)
           in (st \<lparr> tl_fresh := Suc (tl_fresh st), tl_unknown := remove_first request (tl_unknown st),
                 tl_pending := jm_set request (previous \<lparr> pm_request_id := request_id, pm_delivery := DvPending \<rparr>)
                   (tl_pending st) \<rparr>,
               Some (user_message_frame scope request_id request (pm_text previous) (pm_images previous))))
      | _ \<Rightarrow> (st, None))"

section \<open>Committed events\<close>

definition is_user_event :: "string \<Rightarrow> json \<Rightarrow> bool" where
  "is_user_event message e = (str_field ''kind'' e = Some ''user'' \<and> str_field ''message_id'' e = Some message)"

definition observed_frame :: "live_scope \<Rightarrow> string \<Rightarrow> string \<Rightarrow> string \<Rightarrow> json" where
  "observed_frame scope frame_id request message =
     JObj [(''protocol_version'', JNum (NInt 2)), (''type'', JStr ''user_message_observed''), (''id'', JStr frame_id),
       (''channel_id'', JStr (lv_channel scope)), (''history_generation'', JStr (lv_generation scope)),
       (''client_request_id'', JStr request), (''message_id'', JStr message), (''status'', JStr ''committed'')]"

definition drop_message :: "timeline_env \<Rightarrow> string \<Rightarrow> string \<Rightarrow> timeline \<Rightarrow> timeline" where
  "drop_message env message request st =
     (let st1 = st \<lparr> tl_pending := jm_delete request (tl_pending st),
                     tl_unknown := filter (\<lambda>p. pm_request p \<noteq> request) (tl_unknown st) \<rparr>
      in case tl_scope st1 of None \<Rightarrow> st1
         | Some scope \<Rightarrow> st1 \<lparr> tl_observed := tl_observed st1
               @ [observed_frame scope (tv_uuid env (tl_fresh st1)) request message],
             tl_fresh := Suc (tl_fresh st1) \<rparr>)"

definition message_requests :: "string \<Rightarrow> timeline \<Rightarrow> string list" where
  "message_requests message st =
     map fst (filter (\<lambda>(k, p). pm_message p = Some message)
       (tl_pending st @ map (\<lambda>p. (pm_request p, p)) (tl_unknown st)))"

definition reconcile_user_message :: "timeline_env \<Rightarrow> string \<Rightarrow> timeline \<Rightarrow> timeline" where
  "reconcile_user_message env message st =
     (if find (is_user_event message) (jm_values (tl_events st)) = None then st
      else fold (drop_message env message) (message_requests message st) st)"

text \<open>The streamed output that an event replaces.\<close>

definition supersedes :: "json \<Rightarrow> json \<Rightarrow> bool" where
  "supersedes e partial =
     (field ''group_id'' partial = field ''group_id'' e
      \<and> (if str_field ''kind'' e = Some ''tool'' then str_field ''kind'' partial = Some ''tool''
         else str_field ''kind'' partial = Some ''assistant'' \<or> str_field ''kind'' partial = Some ''thinking''))"

definition ends_output :: "json \<Rightarrow> bool" where
  "ends_output e = (str_field ''kind'' e = Some ''assistant'' \<or> str_field ''kind'' e = Some ''provider_error''
     \<or> str_field ''kind'' e = Some ''tool'')"

definition store_event :: "timeline_env \<Rightarrow> json \<Rightarrow> timeline \<Rightarrow> timeline" where
  "store_event env e st =
     (let st1 = st \<lparr> tl_events := jm_set (text_member ''event_id'' e) e (tl_events st) \<rparr>;
          st2 = (if str_field ''kind'' e = Some ''user''
                 then reconcile_user_message env (text_member ''message_id'' e) st1 else st1)
      in if ends_output e
         then st2 \<lparr> tl_partials := filter (\<lambda>(k, p). \<not> supersedes e (pv_partial p)) (tl_partials st2) \<rparr>
         else st2)"

definition commit_parsed :: "timeline_env \<Rightarrow> json \<Rightarrow> timeline \<Rightarrow> timeline" where
  "commit_parsed env e st =
     (if (case jm_get (tl_events st) (text_member ''event_id'' e) of
            Some previous \<Rightarrow> stringify previous \<noteq> stringify e | None \<Rightarrow> False)
      then st else store_event env e st)"

definition parse_event :: "timeline_env \<Rightarrow> json \<Rightarrow> json option" where
  "parse_event env e = ok_of (parse_timeline_event_pwa (tv_lib env) (RawValue e))"

definition commit_event :: "timeline_env \<Rightarrow> json \<Rightarrow> timeline \<Rightarrow> timeline" where
  "commit_event env e st =
     (case parse_event env e of
        None \<Rightarrow> st
      | Some parsed \<Rightarrow> if matches_scope (tl_scope st) parsed then commit_parsed env parsed st else st)"

text \<open>Without a scope, the history is taken as it comes.\<close>

definition in_scope :: "live_scope option \<Rightarrow> json \<Rightarrow> bool" where
  "in_scope scope e = (scope = None \<or> matches_scope scope e)"

definition parsed_in_scope :: "timeline_env \<Rightarrow> live_scope option \<Rightarrow> json list \<Rightarrow> json list" where
  "parsed_in_scope env scope events = filter (in_scope scope) (List.map_filter (parse_event env) events)"

definition replace_history :: "timeline_env \<Rightarrow> json list \<Rightarrow> timeline \<Rightarrow> timeline" where
  "replace_history env events st =
     (let hist = parsed_in_scope env (tl_scope st) events
      in fold (commit_parsed env) hist (st \<lparr> tl_history := hist, tl_events := [] \<rparr>))"

definition prepend_history :: "timeline_env \<Rightarrow> json list \<Rightarrow> timeline \<Rightarrow> timeline" where
  "prepend_history env events st = fold (commit_parsed env) (parsed_in_scope env (tl_scope st) events) st"

section \<open>Frames of the server\<close>

text \<open>The queue of the agent, in chunks.\<close>

definition queue_snapshot_chunk :: "json \<Rightarrow> timeline \<Rightarrow> timeline" where
  "queue_snapshot_chunk frame st =
     (let restart = (tl_snapshot st \<noteq> str_field ''snapshot_id'' frame \<or> field ''chunk_index'' frame = Some (JNum (NInt 0)));
          st1 = (if restart then st \<lparr> tl_snapshot := str_field ''snapshot_id'' frame, tl_snapshot_items := [] \<rparr> else st)
      in st1 \<lparr> tl_snapshot_items := fold (\<lambda>item. jm_set (text_member ''id'' item) item)
           (array_items (field ''items'' frame)) (tl_snapshot_items st1) \<rparr>)"

definition leave_queue :: "string list \<Rightarrow> string \<Rightarrow> timeline \<Rightarrow> timeline" where
  "leave_queue next_ids request st =
     (if \<not> List.member next_ids request
         \<and> Option.bind (jm_get (tl_pending st) request) pm_message = None
      then st \<lparr> tl_pending := jm_delete request (tl_pending st) \<rparr> else st)"

definition enter_queue :: "live_scope \<Rightarrow> json \<Rightarrow> timeline \<Rightarrow> timeline" where
  "enter_queue scope item st =
     (let i = text_member ''id'' item; own = (str_field ''sender_ref'' item = Some (lv_self scope))
      in case jm_get (tl_pending st) i of
           Some existing \<Rightarrow> st \<lparr> tl_pending := jm_set i (existing \<lparr> pm_text := text_member ''text'' item,
               pm_images := array_items (field ''images'' item), pm_cancelable := Some own,
               pm_delivery := DvAccepted \<rparr>) (tl_pending st) \<rparr>
         | None \<Rightarrow> st \<lparr> tl_unknown := filter (\<lambda>p. pm_request p \<noteq> i) (tl_unknown st),
               tl_pending := jm_set i \<lparr> pm_request = i, pm_text = text_member ''text'' item,
                 pm_images = array_items (field ''images'' item), pm_cancelable = Some own,
                 pm_created = int_member ''created_at'' item, pm_delivery = DvAccepted, pm_request_id = i,
                 pm_message = None \<rparr> (tl_pending st) \<rparr>)"

definition queue_snapshot_final :: "live_scope \<Rightarrow> timeline \<Rightarrow> timeline" where
  "queue_snapshot_final scope st =
     (let items = jm_values (tl_snapshot_items st);
          ids = remdups (map (text_member ''id'') items);
          st1 = fold (leave_queue ids) (tl_queued st) st;
          st2 = fold (enter_queue scope) items st1
      in st2 \<lparr> tl_queued := ids, tl_snapshot_items := [], tl_snapshot := None \<rparr>)"

definition receive_queue :: "json \<Rightarrow> timeline \<Rightarrow> timeline" where
  "receive_queue frame st =
     (case tl_scope st of None \<Rightarrow> st
      | Some scope \<Rightarrow>
          if \<not> matches_scope (tl_scope st) frame then st
          else let st1 = queue_snapshot_chunk frame st
            in if field ''final'' frame \<noteq> Some (JBool True) then st1 else queue_snapshot_final scope st1)"

definition pending_of_request :: "json option \<Rightarrow> timeline \<Rightarrow> user_pending option" where
  "pending_of_request reply st =
     (case reply of Some (JStr i) \<Rightarrow> find (\<lambda>p. pm_request_id p = i) (jm_values (tl_pending st)) | _ \<Rightarrow> None)"

definition receive_error :: "json \<Rightarrow> timeline \<Rightarrow> timeline" where
  "receive_error frame st =
     (case pending_of_request (field ''in_reply_to'' frame) st of None \<Rightarrow> st | Some p \<Rightarrow> move_to_unknown p st)"

definition delivery_of :: "string \<Rightarrow> delivery_state" where
  "delivery_of s = (if s = ''received'' then DvReceived else if s = ''accepted'' then DvAccepted
     else if s = ''committed'' then DvCommitted else DvUnknown)"

definition update_pending :: "string \<Rightarrow> user_pending \<Rightarrow> timeline \<Rightarrow> timeline" where
  "update_pending request p st = st \<lparr> tl_pending := jm_set request p (tl_pending st) \<rparr>"

definition receive_status :: "timeline_env \<Rightarrow> json \<Rightarrow> timeline \<Rightarrow> timeline" where
  "receive_status env frame st =
     (if \<not> matches_scope (tl_scope st) frame then st
      else let request = text_member ''client_request_id'' frame
      in case jm_get (tl_pending st) request of None \<Rightarrow> st
         | Some p \<Rightarrow>
             (let status = delivery_of (text_member ''status'' frame); message = text_member ''message_id'' frame;
                  p1 = p \<lparr> pm_delivery := status, pm_message := (if message = [] then pm_message p else Some message) \<rparr>;
                  st1 = update_pending request p1 st;
                  st2 = (if message = [] then st1 else reconcile_user_message env message st1)
              in if status = DvUnknown \<and> jm_has (tl_pending st2) request then
                   (let st3 = move_to_unknown p1 st2
                    in case pm_message p1 of None \<Rightarrow> st3 | Some m \<Rightarrow> if m = [] then st3 else reconcile_user_message env m st3)
                 else st2))"

definition receive_started :: "timeline_env \<Rightarrow> json \<Rightarrow> timeline \<Rightarrow> timeline" where
  "receive_started env frame st =
     (if \<not> matches_scope (tl_scope st) frame then st
      else case pending_of_request (field ''in_reply_to'' frame) st of None \<Rightarrow> st
      | Some p \<Rightarrow>
          (let message = (case field ''message'' frame of Some j \<Rightarrow> text_member ''id'' j | None \<Rightarrow> [])
           in reconcile_user_message env message
                (update_pending (pm_request p) (p \<lparr> pm_delivery := DvAccepted, pm_message := Some message \<rparr>) st)))"

definition receive_partial :: "timeline_env \<Rightarrow> json \<Rightarrow> timeline \<Rightarrow> timeline" where
  "receive_partial env frame st =
     (if \<not> matches_scope (tl_scope st) frame then st
      else case ok_of (parse_timeline_partial_pwa (tv_lib env) (RawValue frame)) of
        None \<Rightarrow> st
      | Some partial \<Rightarrow>
          (let i = text_member ''partial_id'' partial; previous = jm_get (tl_partials st) i
           in st \<lparr> tl_partials := jm_set i
                \<lparr> pv_partial = merge_partial (map_option pv_partial previous) partial,
                  pv_created = (case previous of Some v \<Rightarrow> pv_created v | None \<Rightarrow> tv_now env) \<rparr>
                (tl_partials st) \<rparr>))"

text \<open>\<open>commit\<close> takes the observed frames along into its own change, which \<open>receive\<close> drops.\<close>

definition receive_event :: "timeline_env \<Rightarrow> json \<Rightarrow> timeline \<Rightarrow> timeline" where
  "receive_event env frame st =
     (if \<not> matches_scope (tl_scope st) frame then st
      else case field ''event'' frame of None \<Rightarrow> st | Some e \<Rightarrow> fst (change env (commit_event env e st)))"

definition receive_state :: "timeline_env \<Rightarrow> json \<Rightarrow> timeline \<Rightarrow> timeline" where
  "receive_state env frame st =
     (let t = text_member ''type'' frame
      in if t = ''session_ready'' then st
         else if t = ''reset'' then invalidate_scope st
         else if t = ''queued_message_state'' then receive_queue frame st
         else if t = ''protocol_error'' \<and> field ''in_reply_to'' frame \<notin> {None, Some (JStr [])} then receive_error frame st
         else if t = ''user_message_status'' then receive_status env frame st
         else if t = ''user_message_started'' then receive_started env frame st
         else if t = ''timeline_partial'' then receive_partial env frame st
         else if t = ''timeline_event'' then receive_event env frame st
         else st)"

definition receive :: "timeline_env \<Rightarrow> json \<Rightarrow> timeline \<Rightarrow> timeline \<times> timeline_change" where
  "receive env frame st =
     (case change env (receive_state env frame st) of
        (st1, c) \<Rightarrow> (st1, if text_member ''type'' frame = ''reset'' then c \<lparr> ch_reset := Some frame \<rparr> else c))"

section \<open>The machine\<close>

text \<open>Every call of the runtime; each answers with its change.\<close>

datatype timeline_event =
    TvScope live_scope
  | TvInvalidate
  | TvClear
  | TvDisconnected
  | TvSend string "json list" "(string \<times> string) option"
  | TvUnknown string
  | TvRetry string
  | TvReceive json
  | TvCommit json
  | TvReplace "json list"
  | TvPrepend "json list"

fun timeline_state :: "timeline_env \<Rightarrow> timeline \<Rightarrow> timeline_event \<Rightarrow> timeline" where
  "timeline_state env st (TvScope scope) = set_scope scope st"
| "timeline_state env st TvInvalidate = invalidate_scope st"
| "timeline_state env st TvClear = clear_timeline st"
| "timeline_state env st TvDisconnected = mark_disconnected st"
| "timeline_state env st (TvSend t images ids) = fst (send_user env t images ids st)"
| "timeline_state env st (TvUnknown request) = mark_unknown_delivery request st"
| "timeline_state env st (TvRetry request) = fst (retry_unknown env request st)"
| "timeline_state env st (TvReceive frame) = receive_state env frame st"
| "timeline_state env st (TvCommit e) = commit_event env e st"
| "timeline_state env st (TvReplace events) = replace_history env events st"
| "timeline_state env st (TvPrepend events) = prepend_history env events st"

definition timeline_step :: "timeline \<Rightarrow> timeline_env \<times> timeline_event \<Rightarrow> timeline" where
  "timeline_step st i = fst (change (fst i) (timeline_state (fst i) st (snd i)))"

section \<open>The messages on their way\<close>

text \<open>
  A client request id belongs to one message: the keys of the map are those of their messages,
  and none of them is also among the messages of unknown delivery.
\<close>

definition requests_ok :: "timeline \<Rightarrow> bool" where
  "requests_ok st \<longleftrightarrow> jm_ok (tl_pending st) \<and> (\<forall>(k, p) \<in> set (tl_pending st). pm_request p = k)
     \<and> distinct (map pm_request (tl_unknown st))
     \<and> (\<forall>p \<in> set (tl_unknown st). \<not> jm_has (tl_pending st) (pm_request p))"

definition formal :: "string \<Rightarrow> timeline \<Rightarrow> bool" where
  "formal message st \<longleftrightarrow> (\<exists>e \<in> set (jm_values (tl_events st)). is_user_event message e)"

text \<open>No message is shown on its way once it is shown as committed.\<close>

definition shown_once :: "timeline \<Rightarrow> bool" where
  "shown_once st \<longleftrightarrow> (\<forall>p \<in> set (pending_items st). \<forall>m. pm_message p = Some m \<longrightarrow> \<not> formal m st)"

definition events_in_scope :: "timeline \<Rightarrow> bool" where
  "events_in_scope st \<longleftrightarrow> jm_ok (tl_events st) \<and> (\<forall>(k, e) \<in> set (tl_events st). text_member ''event_id'' e = k)
     \<and> (\<forall>e \<in> set (jm_values (tl_events st)). in_scope (tl_scope st) e)"

definition timeline_inv :: "timeline \<Rightarrow> bool" where
  "timeline_inv st \<longleftrightarrow> requests_ok st \<and> shown_once st \<and> events_in_scope st"

lemma find_formal: "(find (is_user_event message) (jm_values (tl_events st)) = None) = (\<not> formal message st)"
  by (auto simp: formal_def find_None_iff)

lemma pending_items_alt: "p \<in> set (pending_items st) \<longleftrightarrow> p \<in> snd ` set (tl_pending st) \<or> p \<in> set (tl_unknown st)"
  by (auto simp: pending_items_def jm_values_def)

subsection \<open>Dropping the messages that are committed\<close>

definition without_requests :: "string set \<Rightarrow> timeline \<Rightarrow> timeline" where
  "without_requests rs st = st \<lparr> tl_pending := filter (\<lambda>(k, p). k \<notin> rs) (tl_pending st),
     tl_unknown := filter (\<lambda>p. pm_request p \<notin> rs) (tl_unknown st) \<rparr>"

lemma drop_fields [simp]:
  "tl_scope (drop_message env m r st) = tl_scope st" "tl_events (drop_message env m r st) = tl_events st"
  "tl_partials (drop_message env m r st) = tl_partials st" "tl_queued (drop_message env m r st) = tl_queued st"
  "tl_pending (drop_message env m r st) = filter (\<lambda>(k, p). k \<notin> {r}) (tl_pending st)"
  "tl_unknown (drop_message env m r st) = filter (\<lambda>p. pm_request p \<notin> {r}) (tl_unknown st)"
  "tl_snapshot_items (drop_message env m r st) = tl_snapshot_items st"
  by (auto simp: drop_message_def Let_def jm_delete_def case_prod_unfold split: option.split intro!: filter_cong)

lemma drops_fields [simp]:
  "tl_scope (fold (drop_message env m) rs st) = tl_scope st" "tl_events (fold (drop_message env m) rs st) = tl_events st"
  "tl_partials (fold (drop_message env m) rs st) = tl_partials st"
  "tl_queued (fold (drop_message env m) rs st) = tl_queued st"
  "tl_snapshot_items (fold (drop_message env m) rs st) = tl_snapshot_items st"
  by (induction rs arbitrary: st) simp_all

lemma drops_messages:
  "tl_pending (fold (drop_message env m) rs st) = filter (\<lambda>(k, p). k \<notin> set rs) (tl_pending st)"
  "tl_unknown (fold (drop_message env m) rs st) = filter (\<lambda>p. pm_request p \<notin> set rs) (tl_unknown st)"
  by (induction rs arbitrary: st) (auto intro!: filter_cong)

lemma message_requests_pending:
  assumes "requests_ok st" and "(k, p) \<in> set (tl_pending st)"
  shows "k \<in> set (message_requests m st) \<longleftrightarrow> pm_message p = Some m"
proof
  assume "k \<in> set (message_requests m st)"
  then consider q where "(k, q) \<in> set (tl_pending st)" "pm_message q = Some m"
    | q where "q \<in> set (tl_unknown st)" "pm_request q = k" by (auto simp: message_requests_def)
  then show "pm_message p = Some m"
  proof cases
    case 1
    with assms have "q = p" by (auto simp: requests_ok_def jm_ok_def dest: eq_key_imp_eq_value)
    with 1 show ?thesis by simp
  next
    case 2
    with assms show ?thesis by (force simp: requests_ok_def jm_has_iff)
  qed
next
  assume "pm_message p = Some m"
  with assms(2) show "k \<in> set (message_requests m st)" by (force simp: message_requests_def)
qed

lemma message_requests_unknown:
  assumes "requests_ok st" and "p \<in> set (tl_unknown st)"
  shows "pm_request p \<in> set (message_requests m st) \<longleftrightarrow> pm_message p = Some m"
proof
  assume "pm_request p \<in> set (message_requests m st)"
  then consider q where "(pm_request p, q) \<in> set (tl_pending st)"
    | q where "q \<in> set (tl_unknown st)" "pm_request q = pm_request p" "pm_message q = Some m"
    by (auto simp: message_requests_def)
  then show "pm_message p = Some m"
  proof cases
    case 1
    with assms show ?thesis by (force simp: requests_ok_def jm_has_iff)
  next
    case 2
    with assms have "q = p" by (auto simp: requests_ok_def distinct_map dest: inj_onD)
    with 2 show ?thesis by simp
  qed
next
  assume "pm_message p = Some m"
  with assms(2) show "pm_request p \<in> set (message_requests m st)" by (force simp: message_requests_def)
qed

lemma reconcile_fields [simp]:
  "tl_scope (reconcile_user_message env m st) = tl_scope st" "tl_events (reconcile_user_message env m st) = tl_events st"
  "tl_partials (reconcile_user_message env m st) = tl_partials st"
  "tl_queued (reconcile_user_message env m st) = tl_queued st"
  "tl_snapshot_items (reconcile_user_message env m st) = tl_snapshot_items st"
  by (simp_all add: reconcile_user_message_def)

lemma reconcile_messages:
  assumes "requests_ok st"
  shows "tl_pending (reconcile_user_message env m st)
      = filter (\<lambda>(k, p). \<not> (formal m st \<and> pm_message p = Some m)) (tl_pending st)"
    and "tl_unknown (reconcile_user_message env m st)
      = filter (\<lambda>p. \<not> (formal m st \<and> pm_message p = Some m)) (tl_unknown st)"
  using message_requests_pending [OF assms, of _ _ m] message_requests_unknown [OF assms, of _ m]
  by (auto simp: reconcile_user_message_def find_formal drops_messages intro!: filter_cong)

lemma requests_ok_filter:
  assumes "requests_ok st" and "tl_pending st' = filter P (tl_pending st)" and "tl_unknown st' = filter Q (tl_unknown st)"
  shows "requests_ok st'"
  using assms by (auto simp: requests_ok_def jm_ok_filter distinct_map_filter jm_has_iff)

lemma formal_events: "tl_events st' = tl_events st \<Longrightarrow> formal m st' = formal m st"
  by (simp add: formal_def)

lemma reconcile_requests_ok: "requests_ok st \<Longrightarrow> requests_ok (reconcile_user_message env m st)"
  by (rule requests_ok_filter [OF _ reconcile_messages]) simp_all

subsection \<open>Committing\<close>

definition shown_but :: "string \<Rightarrow> timeline \<Rightarrow> bool" where
  "shown_but m st \<longleftrightarrow> (\<forall>p \<in> set (pending_items st). \<forall>n. pm_message p = Some n \<longrightarrow> n \<noteq> m \<longrightarrow> \<not> formal n st)"

lemma shown_once_but: "shown_once st \<Longrightarrow> shown_but m st"
  by (simp add: shown_once_def shown_but_def)

lemma reconcile_shown:
  assumes "requests_ok st" and "shown_but m st"
  shows "shown_once (reconcile_user_message env m st)"
  unfolding shown_once_def
proof (intro ballI allI impI)
  fix p n assume p: "p \<in> set (pending_items (reconcile_user_message env m st))" and n: "pm_message p = Some n"
  then have "p \<in> set (pending_items st)" "\<not> (formal m st \<and> n = m)"
    by (auto simp: pending_items_alt reconcile_messages [OF assms(1)])
  moreover from this(1) assms(2) n have "n \<noteq> m \<Longrightarrow> \<not> formal n st" by (simp add: shown_but_def)
  ultimately have "\<not> formal n st" by blast
  then show "\<not> formal n (reconcile_user_message env m st)" by (simp add: formal_def)
qed

lemma store_event_fields [simp]:
  "tl_scope (store_event env e st) = tl_scope st"
  "tl_events (store_event env e st) = jm_set (text_member ''event_id'' e) e (tl_events st)"
  "tl_queued (store_event env e st) = tl_queued st"
  by (simp_all add: store_event_def Let_def)

lemma is_user_event_message: "is_user_event n e \<Longrightarrow> str_field ''kind'' e = Some ''user'' \<and> n = text_member ''message_id'' e"
  by (simp add: is_user_event_def text_member_def)

lemma formal_stored:
  "formal n (st \<lparr> tl_events := jm_set i e (tl_events st) \<rparr>) \<Longrightarrow> formal n st \<or> is_user_event n e"
  by (auto simp: formal_def jm_values_def dest: jm_set_entries)

lemma items_partials [simp]:
  "requests_ok (st \<lparr> tl_partials := ps \<rparr>) = requests_ok st" "shown_once (st \<lparr> tl_partials := ps \<rparr>) = shown_once st"
  "events_in_scope (st \<lparr> tl_partials := ps \<rparr>) = events_in_scope st"
  by (simp_all add: requests_ok_def shown_once_def events_in_scope_def pending_items_def formal_def)

lemma store_event_keeps:
  assumes inv: "timeline_inv st" and scope: "in_scope (tl_scope st) e"
  shows "timeline_inv (store_event env e st)"
proof -
  let ?i = "text_member ''event_id'' e"
  let ?m = "text_member ''message_id'' e"
  let ?st1 = "st \<lparr> tl_events := jm_set ?i e (tl_events st) \<rparr>"
  let ?user = "str_field ''kind'' e = Some ''user''"
  let ?st2 = "if ?user then reconcile_user_message env ?m ?st1 else ?st1"
  have requests: "requests_ok ?st1" and shown: "shown_once st" and scoped: "events_in_scope st"
    using inv by (simp_all add: timeline_inv_def requests_ok_def)
  have old: "\<not> formal n st" if "p \<in> set (pending_items ?st1)" "pm_message p = Some n" for p n
    using shown that by (simp add: shown_once_def pending_items_def)
  have new: "str_field ''kind'' e = Some ''user'' \<and> n = ?m"
    if "p \<in> set (pending_items ?st1)" "pm_message p = Some n" "formal n ?st1" for p n
    using formal_stored [OF that(3)] old [OF that(1, 2)] is_user_event_message [of n e] by blast
  have "shown_but ?m ?st1" unfolding shown_but_def using new by blast
  moreover have "shown_once ?st1" if "\<not> ?user" unfolding shown_once_def using new that by blast
  ultimately have "requests_ok ?st2 \<and> shown_once ?st2"
    using requests reconcile_shown reconcile_requests_ok by auto
  moreover have "events_in_scope (store_event env e st)"
    using scoped scope by (auto simp: events_in_scope_def jm_values_def dest: jm_set_entries)
  ultimately show ?thesis by (simp add: timeline_inv_def store_event_def Let_def)
qed

lemma commit_parsed_keeps:
  "timeline_inv st \<Longrightarrow> in_scope (tl_scope st) e \<Longrightarrow> timeline_inv (commit_parsed env e st)"
  by (simp add: commit_parsed_def store_event_keeps)

lemma commit_parsed_scope [simp]: "tl_scope (commit_parsed env e st) = tl_scope st"
  by (simp add: commit_parsed_def)

lemma commits_keep:
  "timeline_inv st \<Longrightarrow> (\<And>e. e \<in> set es \<Longrightarrow> in_scope (tl_scope st) e) \<Longrightarrow> timeline_inv (fold (commit_parsed env) es st)"
  by (induction es arbitrary: st) (simp_all add: commit_parsed_keeps)

lemma parsed_in_scopeD: "e \<in> set (parsed_in_scope env scope events) \<Longrightarrow> in_scope scope e"
  by (simp add: parsed_in_scope_def)

lemma commit_event_keeps: "timeline_inv st \<Longrightarrow> timeline_inv (commit_event env e st)"
  by (auto simp: commit_event_def in_scope_def intro: commit_parsed_keeps split: option.split)

lemma replace_history_keeps:
  assumes "timeline_inv st"
  shows "timeline_inv (replace_history env events st)"
proof -
  have "timeline_inv (st \<lparr> tl_history := hist, tl_events := [] \<rparr>)" for hist
    using assms by (simp add: timeline_inv_def requests_ok_def shown_once_def formal_def events_in_scope_def jm_values_def)
  then show ?thesis
    unfolding replace_history_def Let_def by (rule commits_keep) (simp add: parsed_in_scopeD)
qed

lemma prepend_history_keeps: "timeline_inv st \<Longrightarrow> timeline_inv (prepend_history env events st)"
  unfolding prepend_history_def by (rule commits_keep) (auto dest: parsed_in_scopeD)

subsection \<open>The other operations\<close>

lemma requests_transient:
  assumes "requests_ok st"
  shows "requests_ok (clear_transient st)"
proof -
  have keys: "map pm_request (jm_values (tl_pending st)) = jm_keys (tl_pending st)"
    using assms by (auto simp: requests_ok_def jm_values_def jm_keys_def)
  have "map pm_request (map as_unknown ps) = map pm_request ps" for ps by (simp add: as_unknown_def)
  with keys assms show ?thesis
    by (auto simp: requests_ok_def clear_transient_def jm_keys_def jm_ok_def jm_has_iff simp del: map_map)
qed

lemma shown_same:
  assumes "shown_once st" and "tl_events st' = tl_events st"
    and "\<And>p. p \<in> set (pending_items st') \<Longrightarrow> \<exists>q \<in> set (pending_items st). pm_message q = pm_message p"
  shows "shown_once st'"
  unfolding shown_once_def
proof (intro ballI allI impI)
  fix p m assume p: "p \<in> set (pending_items st')" and m: "pm_message p = Some m"
  from assms(3) [OF p] m obtain q where "q \<in> set (pending_items st)" "pm_message q = Some m" by auto
  with assms(1) show "\<not> formal m st'" unfolding formal_events [OF assms(2)] by (simp add: shown_once_def)
qed

lemma shown_transient: "shown_once st \<Longrightarrow> shown_once (clear_transient st)"
proof (erule shown_same)
  fix p assume "p \<in> set (pending_items (clear_transient st))"
  then have "p \<in> set (tl_unknown st) \<or> p \<in> as_unknown ` set (jm_values (tl_pending st))"
    by (auto simp: pending_items_def clear_transient_def jm_values_def)
  then show "\<exists>q \<in> set (pending_items st). pm_message q = pm_message p"
    by (auto simp: pending_items_def as_unknown_def)
qed (simp add: clear_transient_def)

lemma transient_keeps: "timeline_inv st \<Longrightarrow> timeline_inv (clear_transient st)"
  by (simp add: timeline_inv_def requests_transient shown_transient) (simp add: events_in_scope_def clear_transient_def)

lemma forget_keeps:
  "requests_ok st \<Longrightarrow> timeline_inv ((forget_events st) \<lparr> tl_scope := scope \<rparr>)"
  "requests_ok st \<Longrightarrow> timeline_inv (forget_events (st \<lparr> tl_scope := scope \<rparr>))"
  by (simp_all add: timeline_inv_def forget_events_def requests_ok_def shown_once_def formal_def events_in_scope_def
      jm_values_def)

lemma same_scope: "\<not> scope_changed old scope \<Longrightarrow> in_scope old e = in_scope (Some scope) e"
  by (auto simp: scope_changed_def in_scope_def matches_scope_def split: option.splits)

lemma set_scope_keeps: "timeline_inv st \<Longrightarrow> timeline_inv (set_scope scope st)"
proof (cases "scope_changed (tl_scope st) scope")
  case True
  assume "timeline_inv st"
  then have "requests_ok (clear_transient st)" by (simp add: timeline_inv_def requests_transient)
  with True show ?thesis by (simp add: set_scope_def forget_keeps)
next
  case False
  assume "timeline_inv st"
  with False show ?thesis
    by (auto simp: set_scope_def timeline_inv_def requests_ok_def shown_once_def formal_def pending_items_def
        events_in_scope_def same_scope [OF False])
qed

lemma invalidate_keeps: "timeline_inv st \<Longrightarrow> timeline_inv (invalidate_scope st)"
proof -
  assume "timeline_inv st"
  then have "requests_ok (clear_transient st)" by (simp add: timeline_inv_def requests_transient)
  then show ?thesis by (simp add: invalidate_scope_def forget_keeps)
qed

lemma clear_keeps: "timeline_inv (clear_timeline st)"
  by (simp add: clear_timeline_def timeline_inv_def requests_ok_def shown_once_def pending_items_def
      events_in_scope_def jm_values_def)

lemma new_timeline_inv: "timeline_inv new_timeline"
  by (simp add: new_timeline_def timeline_inv_def requests_ok_def shown_once_def pending_items_def
      events_in_scope_def jm_values_def)

definition tracked :: "string \<Rightarrow> timeline \<Rightarrow> bool" where
  "tracked r st \<longleftrightarrow> jm_has (tl_pending st) r \<or> r \<in> pm_request ` set (tl_unknown st)"

lemma requests_set:
  assumes "requests_ok st" and "pm_request p = r" and "r \<notin> pm_request ` set (tl_unknown st)"
  shows "requests_ok (st \<lparr> tl_pending := jm_set r p (tl_pending st) \<rparr>)"
proof -
  have "\<forall>q \<in> set (tl_unknown st). pm_request q \<noteq> r" using assms(3) by auto
  with assms show ?thesis by (auto simp: requests_ok_def jm_has_iff jm_set_keys dest: jm_set_entries)
qed

lemma items_set:
  "q \<in> set (pending_items (st \<lparr> tl_pending := jm_set r p (tl_pending st) \<rparr>)) \<Longrightarrow> q = p \<or> q \<in> set (pending_items st)"
  by (auto simp: pending_items_def jm_values_def image_iff dest: jm_set_entries)

lemma events_scope_same:
  "tl_events st' = tl_events st \<Longrightarrow> tl_scope st' = tl_scope st \<Longrightarrow> events_in_scope st' = events_in_scope st"
  by (simp add: events_in_scope_def)

lemma pending_request:
  assumes "requests_ok st" and "jm_get (tl_pending st) r = Some p"
  shows "pm_request p = r" and "r \<notin> pm_request ` set (tl_unknown st)" and "p \<in> set (pending_items st)"
  using assms jm_get_SomeD [OF assms(2)] by (auto simp: requests_ok_def jm_has_iff pending_items_alt image_iff) force+

text \<open>A message that is new, or that keeps what it knows of its id.\<close>

lemma set_pending_keeps:
  assumes inv: "timeline_inv st" and "pm_request p = r" and "r \<notin> pm_request ` set (tl_unknown st)"
    and msg: "pm_message p = None \<or> (\<exists>q \<in> set (pending_items st). pm_message q = pm_message p)"
  shows "timeline_inv (st \<lparr> tl_pending := jm_set r p (tl_pending st) \<rparr>)"
proof -
  let ?st = "st \<lparr> tl_pending := jm_set r p (tl_pending st) \<rparr>"
  have "shown_once ?st"
    unfolding shown_once_def
  proof (intro ballI allI impI)
    fix q m assume q: "q \<in> set (pending_items ?st)" and m: "pm_message q = Some m"
    with items_set [OF q] msg obtain q' where "q' \<in> set (pending_items st)" "pm_message q' = Some m" by auto
    with inv have "\<not> formal m st" by (simp add: timeline_inv_def shown_once_def)
    then show "\<not> formal m ?st" by (simp add: formal_def)
  qed
  moreover have "requests_ok ?st" using inv assms(2, 3) by (intro requests_set) (simp_all add: timeline_inv_def)
  moreover have "events_in_scope ?st" using inv by (simp add: timeline_inv_def events_scope_same [of ?st st])
  ultimately show ?thesis by (simp add: timeline_inv_def)
qed

lemma timeline_inv_cong:
  assumes "tl_scope st' = tl_scope st" "tl_events st' = tl_events st" "tl_pending st' = tl_pending st" "tl_unknown st' = tl_unknown st"
  shows "timeline_inv st' = timeline_inv st"
  using assms by (simp add: timeline_inv_def requests_ok_def shown_once_def formal_def pending_items_def events_in_scope_def)

definition send_request :: "timeline_env \<Rightarrow> (string \<times> string) option \<Rightarrow> timeline \<Rightarrow> string" where
  "send_request env ids st = (case ids of Some (c, r) \<Rightarrow> c | None \<Rightarrow> tv_uuid env (tl_fresh st))"

lemma send_user_keeps:
  assumes inv: "timeline_inv st" and fresh: "\<not> tracked (send_request env ids st) st"
  shows "timeline_inv (fst (send_user env t images ids st))"
proof -
  obtain request request_id n where ids: "(case ids of
        Some (c, r) \<Rightarrow> (c, r, tl_fresh st)
      | None \<Rightarrow> (tv_uuid env (tl_fresh st), tv_uuid env (Suc (tl_fresh st)), Suc (Suc (tl_fresh st)))) = (request, request_id, n)"
    by (cases "case ids of
        Some (c, r) \<Rightarrow> (c, r, tl_fresh st)
      | None \<Rightarrow> (tv_uuid env (tl_fresh st), tv_uuid env (Suc (tl_fresh st)), Suc (Suc (tl_fresh st)))")
  then have r: "request = send_request env ids st" by (auto simp: send_request_def split: option.splits)
  with fresh have free: "request \<notin> pm_request ` set (tl_unknown st)" by (simp add: tracked_def)
  show ?thesis
  proof (cases "fst (send_user env t images ids st) = st")
    case True
    with inv show ?thesis by simp
  next
    case False
    let ?p = "\<lparr> pm_request = request, pm_text = t, pm_images = images, pm_cancelable = None,
        pm_created = tv_now env, pm_delivery = DvPending, pm_request_id = request_id, pm_message = None \<rparr>"
    have "timeline_inv (st \<lparr> tl_pending := jm_set request ?p (tl_pending st) \<rparr>)"
      using inv free by (intro set_pending_keeps) simp_all
    moreover from False have "fst (send_user env t images ids st)
        = st \<lparr> tl_fresh := n, tl_pending := jm_set request ?p (tl_pending st) \<rparr>"
      using ids by (auto simp: send_user_def split: option.splits if_splits)
    ultimately show ?thesis
      using timeline_inv_cong [of "fst (send_user env t images ids st)"
          "st \<lparr> tl_pending := jm_set request ?p (tl_pending st) \<rparr>"] by simp
  qed
qed

lemma move_to_unknown_keeps:
  assumes inv: "timeline_inv st" and p: "jm_get (tl_pending st) (pm_request p) = Some q" and m: "pm_message p = pm_message q"
  shows "timeline_inv (move_to_unknown p st)"
proof -
  have ok: "requests_ok st" using inv by (simp add: timeline_inv_def)
  note q = pending_request [OF ok p]
  have "requests_ok (move_to_unknown p st)"
    using ok q(2) by (auto simp: requests_ok_def move_to_unknown_def as_unknown_def jm_has_iff jm_delete_keys jm_delete_entries)
  moreover have "shown_once (move_to_unknown p st)"
  proof (rule shown_same [of st])
    fix x assume "x \<in> set (pending_items (move_to_unknown p st))"
    then have "x \<in> set (pending_items st) \<or> x = as_unknown p"
      by (auto simp: pending_items_alt move_to_unknown_def jm_delete_entries)
    with q(3) m show "\<exists>y \<in> set (pending_items st). pm_message y = pm_message x" by (auto simp: as_unknown_def)
  qed (use inv in \<open>simp_all add: timeline_inv_def move_to_unknown_def\<close>)
  moreover have "events_in_scope (move_to_unknown p st)"
    using inv by (simp add: timeline_inv_def move_to_unknown_def events_in_scope_def)
  ultimately show ?thesis by (simp add: timeline_inv_def)
qed

lemma mark_unknown_keeps: "timeline_inv st \<Longrightarrow> timeline_inv (mark_unknown_delivery r st)"
proof (cases "jm_get (tl_pending st) r")
  case (Some p)
  assume inv: "timeline_inv st"
  with Some have "pm_request p = r" by (auto simp: timeline_inv_def dest: pending_request)
  with inv Some show ?thesis by (auto simp: mark_unknown_delivery_def intro: move_to_unknown_keeps)
qed (simp add: mark_unknown_delivery_def)

lemma remove_first_filter:
  "distinct (map pm_request ps) \<Longrightarrow> remove_first r ps = filter (\<lambda>p. pm_request p \<noteq> r) ps"
proof (induction ps)
  case (Cons p ps)
  show ?case
  proof (cases "pm_request p = r")
    case True
    with Cons.prems have "r \<notin> pm_request ` set ps" by simp
    then have "\<forall>q \<in> set ps. pm_request q \<noteq> r" by blast
    with True show ?thesis by (simp add: filter_id_conv)
  qed (use Cons in simp)
qed simp

lemma unknown_filter_keeps: "timeline_inv st \<Longrightarrow> timeline_inv (st \<lparr> tl_unknown := filter P (tl_unknown st) \<rparr>)"
proof -
  let ?st = "st \<lparr> tl_unknown := filter P (tl_unknown st) \<rparr>"
  assume inv: "timeline_inv st"
  have "shown_once ?st"
    by (rule shown_same [of st]) (use inv in \<open>auto simp: timeline_inv_def pending_items_def\<close>)
  with inv show ?thesis
    by (auto simp: timeline_inv_def requests_ok_def distinct_map_filter events_in_scope_def)
qed

lemma retry_keeps: "timeline_inv st \<Longrightarrow> timeline_inv (fst (retry_unknown env r st))"
proof (cases "tl_scope st = None \<or> find (\<lambda>p. pm_request p = r) (tl_unknown st) = None")
  case True
  moreover assume "timeline_inv st"
  ultimately show ?thesis by (auto simp: retry_unknown_def split: option.split)
next
  case False
  assume inv: "timeline_inv st"
  from False obtain scope p where p: "tl_scope st = Some scope" "find (\<lambda>p. pm_request p = r) (tl_unknown st) = Some p"
    by auto
  then have mem: "p \<in> set (tl_unknown st)" "pm_request p = r" by (auto dest: find_SomeD)
  let ?p = "p \<lparr> pm_request_id := tv_uuid env (tl_fresh st), pm_delivery := DvPending \<rparr>"
  let ?st1 = "st \<lparr> tl_unknown := filter (\<lambda>p. pm_request p \<noteq> r) (tl_unknown st) \<rparr>"
  let ?st = "?st1 \<lparr> tl_pending := jm_set r ?p (tl_pending ?st1) \<rparr>"
  have ok: "requests_ok st" "requests_ok ?st1"
    using inv unknown_filter_keeps [OF inv, of "\<lambda>p. pm_request p \<noteq> r"] by (simp_all add: timeline_inv_def)
  have "requests_ok ?st" using mem by (intro requests_set [OF ok(2)]) auto
  moreover have "shown_once ?st"
  proof (rule shown_same [of st])
    fix q assume "q \<in> set (pending_items ?st)"
    then have "q = ?p \<or> q \<in> set (pending_items ?st1)" by (rule items_set)
    with mem(1) show "\<exists>y \<in> set (pending_items st). pm_message y = pm_message q"
      by (auto simp: pending_items_def)
  qed (use inv in \<open>simp_all add: timeline_inv_def\<close>)
  moreover have "events_in_scope ?st" using inv by (simp add: timeline_inv_def events_in_scope_def)
  ultimately have "timeline_inv ?st" by (simp add: timeline_inv_def)
  moreover have "fst (retry_unknown env r st) = ?st \<lparr> tl_fresh := Suc (tl_fresh st) \<rparr>"
    using p ok(1) by (simp add: retry_unknown_def requests_ok_def remove_first_filter Let_def)
  ultimately show ?thesis using timeline_inv_cong [of "?st \<lparr> tl_fresh := Suc (tl_fresh st) \<rparr>" ?st] by simp
qed

lemma reconcile_keeps: "timeline_inv st \<Longrightarrow> timeline_inv (reconcile_user_message env m st)"
  by (simp add: timeline_inv_def reconcile_requests_ok reconcile_shown shown_once_but
      events_scope_same [of "reconcile_user_message env m st" st])

lemma update_reconcile_keeps:
  assumes inv: "timeline_inv st" and p: "jm_get (tl_pending st) r = Some p" and "pm_request p' = r"
    and m: "pm_message p' = Some m"
  shows "timeline_inv (reconcile_user_message env m (update_pending r p' st))"
proof -
  have ok: "requests_ok st" using inv by (simp add: timeline_inv_def)
  have "requests_ok (update_pending r p' st)"
    unfolding update_pending_def using assms(3) by (rule requests_set [OF ok _ pending_request(2) [OF ok p]])
  moreover have "shown_but m (update_pending r p' st)"
    unfolding shown_but_def
  proof (intro ballI allI impI)
    fix q n assume q: "q \<in> set (pending_items (update_pending r p' st))" and n: "pm_message q = Some n" "n \<noteq> m"
    from items_set [OF q [unfolded update_pending_def]] n m have "q \<in> set (pending_items st)" by auto
    with inv n(1) have "\<not> formal n st" by (simp add: timeline_inv_def shown_once_def)
    then show "\<not> formal n (update_pending r p' st)" by (simp add: formal_def update_pending_def)
  qed
  moreover have "events_in_scope (update_pending r p' st)"
    using inv by (simp add: timeline_inv_def update_pending_def events_in_scope_def)
  ultimately show ?thesis
    by (simp add: timeline_inv_def reconcile_requests_ok reconcile_shown
        events_scope_same [of "reconcile_user_message env m (update_pending r p' st)" "update_pending r p' st"])
qed

lemma update_same_keeps:
  assumes inv: "timeline_inv st" and p: "jm_get (tl_pending st) r = Some p" and "pm_request p' = r"
    and "pm_message p' = pm_message p"
  shows "timeline_inv (update_pending r p' st)"
proof -
  have ok: "requests_ok st" using inv by (simp add: timeline_inv_def)
  show ?thesis
    unfolding update_pending_def using assms(3, 4) pending_request [OF ok p]
    by (intro set_pending_keeps [OF inv]) auto
qed

lemma pending_of_requestD: "pending_of_request reply st = Some p \<Longrightarrow> p \<in> set (jm_values (tl_pending st))"
  by (auto simp: pending_of_request_def split: option.splits json.splits dest: find_SomeD)

lemma value_key:
  assumes "requests_ok st" and "p \<in> set (jm_values (tl_pending st))"
  shows "jm_get (tl_pending st) (pm_request p) = Some p"
  using assms by (auto simp: requests_ok_def jm_values_def jm_get_Some_iff)

lemma receive_error_keeps: "timeline_inv st \<Longrightarrow> timeline_inv (receive_error frame st)"
proof (cases "pending_of_request (field ''in_reply_to'' frame) st")
  case (Some p)
  assume inv: "timeline_inv st"
  then have "jm_get (tl_pending st) (pm_request p) = Some p"
    using pending_of_requestD [OF Some] by (simp add: timeline_inv_def value_key)
  with inv Some show ?thesis by (simp add: receive_error_def move_to_unknown_keeps)
qed (simp add: receive_error_def)

lemma receive_started_keeps: "timeline_inv st \<Longrightarrow> timeline_inv (receive_started env frame st)"
proof (cases "pending_of_request (field ''in_reply_to'' frame) st")
  case (Some p)
  assume inv: "timeline_inv st"
  then have "jm_get (tl_pending st) (pm_request p) = Some p"
    using pending_of_requestD [OF Some] by (simp add: timeline_inv_def value_key)
  with inv Some show ?thesis by (auto simp: receive_started_def Let_def intro: update_reconcile_keeps)
qed (simp add: receive_started_def)

lemma reconcile_subset: "set (tl_pending (reconcile_user_message env m st)) \<subseteq> set (tl_pending st)"
  by (auto simp: reconcile_user_message_def drops_messages)

lemma reconcile_told:
  "timeline_inv st \<Longrightarrow> timeline_inv (case told of None \<Rightarrow> st | Some m \<Rightarrow> if m = [] then st else reconcile_user_message env m st)"
  by (simp add: reconcile_keeps split: option.split)

lemma receive_status_keeps: "timeline_inv st \<Longrightarrow> timeline_inv (receive_status env frame st)"
proof (cases "matches_scope (tl_scope st) frame \<and> jm_get (tl_pending st) (text_member ''client_request_id'' frame) \<noteq> None")
  case False
  then show "timeline_inv st \<Longrightarrow> ?thesis" by (auto simp: receive_status_def Let_def)
next
  case True
  assume inv: "timeline_inv st"
  let ?r = "text_member ''client_request_id'' frame"
  let ?m = "text_member ''message_id'' frame"
  let ?d = "delivery_of (text_member ''status'' frame)"
  from True obtain p where p: "jm_get (tl_pending st) ?r = Some p" by auto
  let ?p = "p \<lparr> pm_delivery := ?d, pm_message := if ?m = [] then pm_message p else Some ?m \<rparr>"
  let ?st1 = "update_pending ?r ?p st"
  let ?st2 = "if ?m = [] then ?st1 else reconcile_user_message env ?m ?st1"
  have req: "pm_request p = ?r" using inv p by (auto simp: timeline_inv_def dest: pending_request)
  have inv1: "timeline_inv ?st2"
  proof (cases "?m = []")
    case True
    with inv p req show ?thesis by (simp add: update_same_keeps)
  next
    case False
    with inv p req show ?thesis by (simp add: update_reconcile_keeps)
  qed
  have ok1: "requests_ok ?st1"
    unfolding update_pending_def using inv req p
    by (intro requests_set) (auto simp: timeline_inv_def dest: pending_request)
  have get: "jm_get (tl_pending ?st2) ?r = Some ?p" if "jm_has (tl_pending ?st2) ?r"
  proof -
    have sub: "set (tl_pending ?st2) \<subseteq> set (tl_pending ?st1)" by (simp add: reconcile_subset)
    from that obtain q where "(?r, q) \<in> set (tl_pending ?st2)" by (auto simp: jm_has_iff)
    moreover from this sub have "(?r, q) \<in> set (tl_pending ?st1)" by blast
    then have "jm_get (tl_pending ?st1) ?r = Some q" using ok1 by (simp add: requests_ok_def jm_get_Some_iff)
    then have "q = ?p" by (simp add: update_pending_def)
    ultimately show ?thesis using inv1 by (simp add: timeline_inv_def requests_ok_def jm_get_Some_iff)
  qed
  have inv3: "timeline_inv (move_to_unknown ?p ?st2)" if "jm_has (tl_pending ?st2) ?r"
  proof -
    have req': "pm_request ?p = ?r" using req by simp
    have "jm_get (tl_pending ?st2) (pm_request ?p) = Some ?p" unfolding req' by (rule get [OF that])
    from move_to_unknown_keeps [OF inv1 this refl] show ?thesis .
  qed
  have eq: "receive_status env frame st =
      (if ?d = DvUnknown \<and> jm_has (tl_pending ?st2) ?r
       then (case pm_message ?p of None \<Rightarrow> move_to_unknown ?p ?st2
         | Some m \<Rightarrow> if m = [] then move_to_unknown ?p ?st2 else reconcile_user_message env m (move_to_unknown ?p ?st2))
       else ?st2)"
    by (simp only: receive_status_def Let_def p conjunct1 [OF True] option.case simp_thms if_False)
  show ?thesis
  proof (cases "?d = DvUnknown \<and> jm_has (tl_pending ?st2) ?r")
    case True
    show ?thesis unfolding eq if_P [OF True] by (rule reconcile_told [OF inv3 [OF conjunct2 [OF True]]])
  next
    case False
    show ?thesis unfolding eq if_not_P [OF False] by (rule inv1)
  qed
qed

lemma items_snapshot [simp]:
  "timeline_inv (st \<lparr> tl_queued := q \<rparr>) = timeline_inv st"
  "timeline_inv (st \<lparr> tl_snapshot := x \<rparr>) = timeline_inv st"
  "timeline_inv (st \<lparr> tl_snapshot := x, tl_snapshot_items := y \<rparr>) = timeline_inv st"
  "timeline_inv (st \<lparr> tl_snapshot_items := y \<rparr>) = timeline_inv st"
  "timeline_inv (st \<lparr> tl_queued := q, tl_snapshot_items := y, tl_snapshot := x \<rparr>) = timeline_inv st"
  "timeline_inv (st \<lparr> tl_observed := o' \<rparr>) = timeline_inv st"
  "timeline_inv (st \<lparr> tl_partials := ps \<rparr>) = timeline_inv st"
  by (rule timeline_inv_cong; simp)+

lemma leave_queue_keeps: "timeline_inv st \<Longrightarrow> timeline_inv (leave_queue ids r st)"
proof -
  assume inv: "timeline_inv st"
  let ?st = "st \<lparr> tl_pending := jm_delete r (tl_pending st) \<rparr>"
  have "requests_ok ?st"
    using inv by (auto simp: timeline_inv_def requests_ok_def jm_has_iff jm_delete_keys jm_delete_entries)
  moreover have "shown_once ?st"
  proof (rule shown_same [of st])
    fix p assume "p \<in> set (pending_items ?st)"
    then have "p \<in> set (pending_items st)" by (auto simp: pending_items_alt jm_delete_entries)
    then show "\<exists>q \<in> set (pending_items st). pm_message q = pm_message p" by blast
  qed (use inv in \<open>simp_all add: timeline_inv_def\<close>)
  ultimately have "timeline_inv ?st" using inv by (simp add: timeline_inv_def events_in_scope_def)
  with inv show ?thesis by (simp add: leave_queue_def)
qed

lemma enter_queue_keeps: "timeline_inv st \<Longrightarrow> timeline_inv (enter_queue scope item st)"
proof (cases "jm_get (tl_pending st) (text_member ''id'' item)")
  case None
  assume inv: "timeline_inv st"
  let ?p = "\<lparr> pm_request = text_member ''id'' item, pm_text = text_member ''text'' item,
      pm_images = array_items (field ''images'' item),
      pm_cancelable = Some (str_field ''sender_ref'' item = Some (lv_self scope)),
      pm_created = int_member ''created_at'' item, pm_delivery = DvAccepted,
      pm_request_id = text_member ''id'' item, pm_message = None \<rparr>"
  from unknown_filter_keeps [OF inv, of "\<lambda>p. pm_request p \<noteq> text_member ''id'' item"]
  have "timeline_inv (st \<lparr> tl_unknown := filter (\<lambda>p. pm_request p \<noteq> text_member ''id'' item) (tl_unknown st) \<rparr>)" .
  moreover have "text_member ''id'' item \<notin> pm_request ` {x \<in> set (tl_unknown st). pm_request x \<noteq> text_member ''id'' item}"
    by auto
  ultimately show ?thesis
    using set_pending_keeps [of "st \<lparr> tl_unknown := filter (\<lambda>p. pm_request p \<noteq> text_member ''id'' item) (tl_unknown st) \<rparr>"
        ?p "text_member ''id'' item"] None
    by (simp add: enter_queue_def Let_def)
next
  case (Some p)
  assume inv: "timeline_inv st"
  then have "pm_request p = text_member ''id'' item" using Some by (auto simp: timeline_inv_def dest: pending_request)
  with update_same_keeps [OF inv Some] Some show ?thesis by (simp add: enter_queue_def update_pending_def Let_def)
qed

lemma fold_keeps: "P st \<Longrightarrow> (\<And>x st. P st \<Longrightarrow> P (f x st)) \<Longrightarrow> P (fold f xs st)"
  by (induction xs arbitrary: st) simp_all

lemma receive_queue_keeps:
  assumes "timeline_inv st"
  shows "timeline_inv (receive_queue frame st)"
proof -
  have chunk: "timeline_inv (queue_snapshot_chunk frame st)" using assms by (simp add: queue_snapshot_chunk_def Let_def)
  have "timeline_inv (queue_snapshot_final scope st)" if "timeline_inv st" for scope st
    using that by (auto simp: queue_snapshot_final_def Let_def intro!: fold_keeps [of timeline_inv] leave_queue_keeps enter_queue_keeps)
  with assms chunk show ?thesis by (simp add: receive_queue_def Let_def split: option.split)
qed

lemma receive_state_keeps: "timeline_inv st \<Longrightarrow> timeline_inv (receive_state env frame st)"
  by (simp add: receive_state_def Let_def invalidate_keeps receive_queue_keeps receive_error_keeps
      receive_status_keeps receive_started_keeps receive_partial_def receive_event_def change_def
      commit_event_keeps split: option.split)

fun timeline_adm :: "timeline \<Rightarrow> timeline_env \<times> timeline_event \<Rightarrow> bool" where
  "timeline_adm st (env, TvSend t images ids) = (\<not> tracked (send_request env ids st) st)"
| "timeline_adm st _ = True"

lemma timeline_step_keeps: "timeline_inv st \<Longrightarrow> timeline_adm st i \<Longrightarrow> timeline_inv (timeline_step st i)"
proof -
  assume inv: "timeline_inv st" and adm: "timeline_adm st i"
  obtain env e where i: "i = (env, e)" by (cases i)
  have "timeline_inv (timeline_state env st e)"
    using inv adm i by (cases e) (simp_all add: set_scope_keeps invalidate_keeps clear_keeps mark_disconnected_def
        transient_keeps send_user_keeps mark_unknown_keeps retry_keeps receive_state_keeps commit_event_keeps
        replace_history_keeps prepend_history_keeps)
  then show ?thesis by (simp add: timeline_step_def i change_def)
qed

interpretation pwa_timeline: invariant_machine timeline_step timeline_adm timeline_inv
  by unfold_locales (rule timeline_step_keeps)

section \<open>No message of the user is lost\<close>

definition known_as :: "string \<Rightarrow> string \<Rightarrow> timeline \<Rightarrow> bool" where
  "known_as r m st \<longleftrightarrow> (\<exists>p \<in> set (pending_items st). pm_request p = r \<and> pm_message p = Some m)"

lemma known_asI: "p \<in> set (pending_items st) \<Longrightarrow> pm_request p = r \<Longrightarrow> pm_message p = Some m \<Longrightarrow> known_as r m st"
  by (auto simp: known_as_def)

lemma tracked_items: "requests_ok st \<Longrightarrow> tracked r st \<longleftrightarrow> (\<exists>p \<in> set (pending_items st). pm_request p = r)"
proof -
  assume ok: "requests_ok st"
  have "fst ` set (tl_pending st) = pm_request ` snd ` set (tl_pending st)"
    unfolding image_image by (rule image_cong) (use ok in \<open>auto simp: requests_ok_def\<close>)
  moreover have "set (pending_items st) = snd ` set (tl_pending st) \<union> set (tl_unknown st)"
    by (simp add: pending_items_def jm_values_def)
  ultimately have "tracked r st \<longleftrightarrow> r \<in> pm_request ` set (pending_items st)"
    by (simp add: tracked_def jm_has_iff image_Un)
  then show ?thesis by auto
qed

text \<open>The events that a call brings along, and the message ids that a frame tells.\<close>

fun events_of :: "timeline_event \<Rightarrow> json list" where
  "events_of (TvCommit e) = [e]"
| "events_of (TvReplace es) = es"
| "events_of (TvPrepend es) = es"
| "events_of (TvReceive frame) = (case field ''event'' frame of Some e \<Rightarrow> [e] | None \<Rightarrow> [])"
| "events_of _ = []"

definition evidence :: "string \<Rightarrow> timeline \<Rightarrow> json list \<Rightarrow> bool" where
  "evidence m st es \<longleftrightarrow> formal m st \<or> (\<exists>e \<in> set es. is_user_event m e)"

definition told :: "string \<Rightarrow> string \<Rightarrow> timeline \<Rightarrow> timeline_event \<Rightarrow> bool" where
  "told r m st e \<longleftrightarrow> (case e of
     TvReceive frame \<Rightarrow>
       (str_field ''type'' frame = Some ''user_message_status'' \<and> text_member ''client_request_id'' frame = r
          \<and> text_member ''message_id'' frame = m)
       \<or> (str_field ''type'' frame = Some ''user_message_started''
          \<and> map_option pm_request (pending_of_request (field ''in_reply_to'' frame) st) = Some r
          \<and> (case field ''message'' frame of Some j \<Rightarrow> text_member ''id'' j | None \<Rightarrow> []) = m)
   | _ \<Rightarrow> False)"

definition committed_as :: "string \<Rightarrow> timeline \<Rightarrow> timeline_event \<Rightarrow> bool" where
  "committed_as r st e \<longleftrightarrow> (\<exists>m. (known_as r m st \<or> told r m st e) \<and> evidence m st (events_of e))"

definition left_queue :: "string \<Rightarrow> timeline \<Rightarrow> timeline_event \<Rightarrow> bool" where
  "left_queue r st e \<longleftrightarrow> (case e of
     TvReceive frame \<Rightarrow> str_field ''type'' frame = Some ''queued_message_state'' \<and> field ''final'' frame = Some (JBool True)
       \<and> r \<in> set (tl_queued st)
       \<and> r \<notin> set (map (text_member ''id'') (jm_values (tl_snapshot_items (queue_snapshot_chunk frame st))))
   | _ \<Rightarrow> False)"

lemma evidence_nil: "formal m st \<Longrightarrow> evidence m st es"
  by (simp add: evidence_def)

lemma reconcile_tracked:
  assumes "requests_ok st" and "tracked r st"
  shows "tracked r (reconcile_user_message env m st) \<or> (known_as r m st \<and> formal m st)"
proof -
  from assms obtain p where p: "p \<in> set (pending_items st)" "pm_request p = r" by (auto simp: tracked_items)
  show ?thesis
  proof (cases "formal m st \<and> pm_message p = Some m")
    case True
    with p show ?thesis by (auto simp: known_as_def)
  next
    case False
    with p(1) have "p \<in> set (pending_items (reconcile_user_message env m st))"
      by (auto simp: pending_items_alt reconcile_messages [OF assms(1)])
    with p(2) show ?thesis using reconcile_requests_ok [OF assms(1)] by (auto simp: tracked_items)
  qed
qed

lemma reconcile_items: "set (pending_items (reconcile_user_message env m st)) \<subseteq> set (pending_items st)"
  by (auto simp: pending_items_alt reconcile_user_message_def drops_messages)

lemma known_subset: "set (pending_items st') \<subseteq> set (pending_items st) \<Longrightarrow> known_as r m st' \<Longrightarrow> known_as r m st"
  by (auto simp: known_as_def)

lemma store_items: "set (pending_items (store_event env e st)) \<subseteq> set (pending_items st)"
proof -
  have "set (pending_items (reconcile_user_message env m (st \<lparr> tl_events := x \<rparr>))) \<subseteq> set (pending_items st)" for m x
    using reconcile_items [of env m "st \<lparr> tl_events := x \<rparr>"] by (simp add: pending_items_def)
  then show ?thesis by (simp add: store_event_def Let_def) (simp add: pending_items_def)
qed

lemma commit_items: "set (pending_items (commit_parsed env e st)) \<subseteq> set (pending_items st)"
  using store_items [of env e st] by (simp add: commit_parsed_def)

lemma store_formal: "formal m (store_event env e st) \<Longrightarrow> formal m st \<or> is_user_event m e"
  by (auto simp: formal_def jm_values_def dest: jm_set_entries)

lemma commit_formal: "formal m (commit_parsed env e st) \<Longrightarrow> formal m st \<or> is_user_event m e"
  using store_formal [of m env e st] by (simp add: commit_parsed_def split: if_splits)

lemma tracked_cong:
  "tl_pending st' = tl_pending st \<Longrightarrow> tl_unknown st' = tl_unknown st \<Longrightarrow> tracked r st' = tracked r st"
  by (simp add: tracked_def)

lemma store_tracked:
  assumes "requests_ok st" and "tracked r st"
  shows "tracked r (store_event env e st) \<or> (\<exists>m. known_as r m st \<and> (formal m st \<or> is_user_event m e))"
proof -
  let ?st1 = "st \<lparr> tl_events := jm_set (text_member ''event_id'' e) e (tl_events st) \<rparr>"
  let ?m = "text_member ''message_id'' e"
  let ?st2 = "if str_field ''kind'' e = Some ''user'' then reconcile_user_message env ?m ?st1 else ?st1"
  have "requests_ok ?st1" "tracked r ?st1" using assms by (simp_all add: requests_ok_def tracked_def)
  then have "tracked r ?st2 \<or> (known_as r ?m ?st1 \<and> formal ?m ?st1)" using reconcile_tracked [of ?st1 r env ?m] by auto
  moreover have "known_as r ?m ?st1 \<Longrightarrow> known_as r ?m st" by (simp add: known_as_def pending_items_def)
  moreover have "tracked r (store_event env e st) = tracked r ?st2"
    by (rule tracked_cong) (simp_all add: store_event_def Let_def)
  ultimately show ?thesis by (auto dest: formal_stored)
qed

lemma commit_tracked:
  assumes "requests_ok st" and "tracked r st"
  shows "tracked r (commit_parsed env e st) \<or> (\<exists>m. known_as r m st \<and> (formal m st \<or> is_user_event m e))"
  using store_tracked [OF assms, of env e] assms(2) by (simp add: commit_parsed_def)

lemma commits_tracked:
  assumes "timeline_inv st" and "tracked r st" and "\<And>e. e \<in> set es \<Longrightarrow> in_scope (tl_scope st) e"
  shows "tracked r (fold (commit_parsed env) es st) \<or> (\<exists>m. known_as r m st \<and> evidence m st es)"
  using assms
proof (induction es arbitrary: st)
  case (Cons e es)
  let ?st = "commit_parsed env e st"
  have ok: "requests_ok st" using Cons.prems(1) by (simp add: timeline_inv_def)
  show ?case
  proof (cases "tracked r ?st")
    case True
    have "timeline_inv ?st" using Cons.prems by (intro commit_parsed_keeps) auto
    from Cons.IH [OF this True] Cons.prems(3)
    have "tracked r (fold (commit_parsed env) es ?st) \<or> (\<exists>m. known_as r m ?st \<and> evidence m ?st es)" by simp
    moreover have "known_as r m ?st \<Longrightarrow> known_as r m st" for m by (rule known_subset [OF commit_items])
    moreover have "evidence m ?st es \<Longrightarrow> evidence m st (e # es)" for m
      by (auto simp: evidence_def dest: commit_formal)
    ultimately show ?thesis by auto
  next
    case False
    with commit_tracked [OF ok Cons.prems(2), of env e] show ?thesis by (auto simp: evidence_def)
  qed
qed simp

lemma parse_event_same: "parse_event env e = Some e' \<Longrightarrow> e' = e"
  by (auto simp: parse_event_def parse_timeline_event_pwa_def parse_raw_pwa_def Let_def split: sum.splits if_splits)

lemma parsed_events: "e \<in> set (parsed_in_scope env scope events) \<Longrightarrow> e \<in> set events"
  by (auto simp: parsed_in_scope_def map_filter_def dest: parse_event_same)

text \<open>The operations that keep every message.\<close>

lemma transient_tracked:
  assumes ok: "requests_ok st" and t: "tracked r st"
  shows "tracked r (clear_transient st)"
proof -
  from assms obtain p where p: "p \<in> set (pending_items st)" "pm_request p = r" by (auto simp: tracked_items)
  then have "p \<in> set (tl_unknown (clear_transient st)) \<or> as_unknown p \<in> set (tl_unknown (clear_transient st))"
    by (auto simp: pending_items_def clear_transient_def)
  moreover have "pm_request (as_unknown p) = r" using p(2) by (simp add: as_unknown_def)
  ultimately have "\<exists>q \<in> set (tl_unknown (clear_transient st)). pm_request q = r" using p(2) by blast
  then show ?thesis by (auto simp: tracked_def)
qed

lemma set_pending_tracked: "tracked r st \<Longrightarrow> tracked r (st \<lparr> tl_pending := jm_set k p (tl_pending st) \<rparr>)"
  by (auto simp: tracked_def jm_has_iff jm_set_keys)

lemma set_pending_tracks: "tracked k (st \<lparr> tl_pending := jm_set k p (tl_pending st) \<rparr>)"
  by (auto simp: tracked_def jm_has_iff jm_set_keys)

lemma move_tracked: "tracked r st \<Longrightarrow> tracked r (move_to_unknown p st)"
  by (auto simp: tracked_def move_to_unknown_def as_unknown_def jm_has_iff jm_delete_keys)

lemma send_tracked:
  "tracked r st \<Longrightarrow> tracked r (fst (send_user env t images ids st))"
  by (auto simp: send_user_def tracked_def jm_has_iff jm_set_keys split: option.split)

lemma sent_tracked:
  "snd (send_user env t images ids st) \<noteq> None \<Longrightarrow> tracked (send_request env ids st) (fst (send_user env t images ids st))"
  by (auto simp: send_user_def send_request_def tracked_def jm_has_iff jm_set_keys split: option.splits if_splits)

lemma retry_tracked:
  assumes "requests_ok st" and "tracked r st"
  shows "tracked r (fst (retry_unknown env k st))"
proof (cases "tl_scope st = None \<or> find (\<lambda>p. pm_request p = k) (tl_unknown st) = None")
  case True
  with assms(2) show ?thesis by (auto simp: retry_unknown_def split: option.split)
next
  case False
  then obtain scope p where p: "tl_scope st = Some scope" "find (\<lambda>p. pm_request p = k) (tl_unknown st) = Some p" by auto
  with assms show ?thesis
    by (auto simp: retry_unknown_def tracked_def requests_ok_def remove_first_filter Let_def jm_has_iff jm_set_keys)
qed

lemma leave_tracked: "tracked r st \<Longrightarrow> tracked r (leave_queue ids k st) \<or> (k = r \<and> r \<notin> set ids)"
  by (auto simp: leave_queue_def tracked_def jm_has_iff jm_delete_keys)

lemma leaves_tracked:
  "tracked r st \<Longrightarrow> tracked r (fold (leave_queue ids) ks st) \<or> (r \<in> set ks \<and> r \<notin> set ids)"
proof (induction ks arbitrary: st)
  case (Cons k ks)
  from leave_tracked [OF Cons.prems, of ids k] Cons.IH [of "leave_queue ids k st"] show ?case by auto
qed simp

lemma enter_tracked: "tracked r st \<Longrightarrow> tracked r (enter_queue scope item st)"
  by (auto simp: enter_queue_def Let_def tracked_def jm_has_iff jm_set_keys split: option.split)

lemma queue_tracked:
  assumes "tracked r st" and "text_member ''type'' frame = ''queued_message_state''"
  shows "tracked r (receive_queue frame st) \<or> left_queue r st (TvReceive frame)"
proof -
  let ?st1 = "queue_snapshot_chunk frame st"
  let ?ids = "remdups (map (text_member ''id'') (jm_values (tl_snapshot_items ?st1)))"
  have chunk: "tl_pending ?st1 = tl_pending st" "tl_unknown ?st1 = tl_unknown st" "tl_queued ?st1 = tl_queued st"
    by (simp_all add: queue_snapshot_chunk_def Let_def)
  with assms(1) have t1: "tracked r ?st1" by (simp add: tracked_def)
  have final: "tracked r (queue_snapshot_final scope ?st1) \<or> (r \<in> set (tl_queued st) \<and> r \<notin> set ?ids)" for scope
  proof -
    let ?st2 = "fold (leave_queue ?ids) (tl_queued ?st1) ?st1"
    let ?st3 = "fold (enter_queue scope) (jm_values (tl_snapshot_items ?st1)) ?st2"
    have "tracked r ?st2 \<Longrightarrow> tracked r ?st3" by (rule fold_keeps [of "tracked r"]) (auto intro: enter_tracked)
    moreover have "tracked r (queue_snapshot_final scope ?st1) = tracked r ?st3"
      by (rule tracked_cong) (simp_all add: queue_snapshot_final_def Let_def)
    ultimately show ?thesis using leaves_tracked [OF t1, of ?ids "tl_queued ?st1"] chunk(3) by auto
  qed
  have "str_field ''type'' frame = Some ''queued_message_state''"
    using assms(2) by (auto simp: text_member_def split: option.splits)
  with final t1 assms(1) show ?thesis
    by (auto simp: receive_queue_def Let_def left_queue_def split: option.split)
qed

text \<open>The frames that may tell a message its id.\<close>

lemma update_known:
  "known_as r m (update_pending k p st) \<Longrightarrow> known_as r m st \<or> (pm_request p = r \<and> pm_message p = Some m)"
  unfolding update_pending_def known_as_def using items_set by blast

lemma moved_items: "set (pending_items (move_to_unknown p st)) \<subseteq> insert (as_unknown p) (set (pending_items st))"
proof
  fix x assume "x \<in> set (pending_items (move_to_unknown p st))"
  then consider k where "(k, x) \<in> set (jm_delete (pm_request p) (tl_pending st))" | "x \<in> set (tl_unknown st)" | "x = as_unknown p"
    by (auto simp: pending_items_alt move_to_unknown_def)
  then show "x \<in> insert (as_unknown p) (set (pending_items st))"
  proof cases
    case 1
    then have "(k, x) \<in> set (tl_pending st)" by (simp add: jm_delete_entries)
    then have "x \<in> snd ` set (tl_pending st)" by (rule image_eqI [rotated]) simp
    then show ?thesis by (simp add: pending_items_alt)
  qed (simp_all add: pending_items_alt)
qed

lemma moved_known: "known_as r m (move_to_unknown p st) \<Longrightarrow> known_as r m st \<or> (pm_request p = r \<and> pm_message p = Some m)"
  using moved_items [of p st] by (auto simp: known_as_def as_unknown_def)

lemma told_status:
  "text_member ''type'' frame = ''user_message_status'' \<Longrightarrow> text_member ''client_request_id'' frame = r
   \<Longrightarrow> told r (text_member ''message_id'' frame) st (TvReceive frame)"
  by (auto simp: told_def text_member_def split: option.splits)

lemma optional_step:
  assumes "\<And>m. P (f m)" and "P x"
  shows "P (case told_id of None \<Rightarrow> x | Some m \<Rightarrow> if m = [] then x else f m)"
  using assms by (simp split: option.split)

lemma status_tracked:
  assumes inv: "timeline_inv st" and t: "tracked r st" and type: "text_member ''type'' frame = ''user_message_status''"
  shows "tracked r (receive_status env frame st) \<or> committed_as r st (TvReceive frame)"
proof (cases "matches_scope (tl_scope st) frame \<and> jm_get (tl_pending st) (text_member ''client_request_id'' frame) \<noteq> None")
  case False
  with t show ?thesis by (auto simp: receive_status_def Let_def)
next
  case True
  let ?k = "text_member ''client_request_id'' frame"
  let ?m = "text_member ''message_id'' frame"
  let ?d = "delivery_of (text_member ''status'' frame)"
  from True obtain p where p: "jm_get (tl_pending st) ?k = Some p" by auto
  let ?p = "p \<lparr> pm_delivery := ?d, pm_message := if ?m = [] then pm_message p else Some ?m \<rparr>"
  let ?st1 = "update_pending ?k ?p st"
  let ?st2 = "if ?m = [] then ?st1 else reconcile_user_message env ?m ?st1"
  have ok: "requests_ok st" using inv by (simp add: timeline_inv_def)
  note pr = pending_request [OF ok p]
  have ok1: "requests_ok ?st1" unfolding update_pending_def using pr by (intro requests_set [OF ok]) simp_all
  have formal1: "formal m ?st1 = formal m st" for m by (simp add: formal_def update_pending_def)
  have known1: "known_as r m ?st1 \<Longrightarrow> known_as r m st \<or> told r m st (TvReceive frame)" for m
    using update_known [of r m ?k ?p st] pr told_status [OF type, of r st] by (auto simp: known_as_def split: if_splits)
  have known2: "known_as r m ?st2 \<Longrightarrow> known_as r m ?st1" for m
    by (rule known_subset [OF _ ]) (use reconcile_items in auto)
  have gone: "committed_as r st (TvReceive frame)" if "known_as r m ?st1" "formal m st" for m
    using known1 [OF that(1)] that(2) by (auto simp: committed_as_def intro: evidence_nil)
  have "tracked r ?st1" unfolding update_pending_def by (rule set_pending_tracked [OF t])
  then have t2: "tracked r ?st2 \<or> committed_as r st (TvReceive frame)"
    using reconcile_tracked [OF ok1, of r env ?m] gone formal1 by auto
  let ?x = "move_to_unknown ?p ?st2"
  let ?y = "case pm_message ?p of None \<Rightarrow> ?x | Some m \<Rightarrow> if m = [] then ?x else reconcile_user_message env m ?x"
  have eq: "receive_status env frame st = (if ?d = DvUnknown \<and> jm_has (tl_pending ?st2) ?k then ?y else ?st2)"
    by (simp only: receive_status_def Let_def p conjunct1 [OF True] option.case simp_thms if_False)
  show ?thesis
  proof (cases "?d = DvUnknown \<and> jm_has (tl_pending ?st2) ?k")
    case False
    show ?thesis unfolding eq if_not_P [OF False] by (rule t2)
  next
    case unknown: True
    have okx: "requests_ok ?x" if "tracked r ?st2"
    proof -
      have ok2: "requests_ok ?st2" using ok1 reconcile_requests_ok by auto
      from unknown have "?k \<notin> pm_request ` set (tl_unknown ?st2)" using ok2 by (auto simp: requests_ok_def)
      with ok2 pr(1) show ?thesis
        by (auto simp: requests_ok_def move_to_unknown_def as_unknown_def jm_has_iff jm_delete_keys jm_delete_entries
            simp del: if_split)
    qed
    have step: "tracked r (reconcile_user_message env m ?x) \<or> committed_as r st (TvReceive frame)"
      if t: "tracked r ?st2" for m
    proof -
      have "formal m ?x = formal m st" by (simp add: formal_def move_to_unknown_def update_pending_def)
      moreover have "known_as r m ?x \<Longrightarrow> known_as r m ?st1"
      proof -
        assume "known_as r m ?x"
        then have "known_as r m ?st2 \<or> (pm_request ?p = r \<and> pm_message ?p = Some m)" by (rule moved_known)
        moreover have "?p \<in> set (pending_items ?st1)"
          using jm_get_SomeD [of "jm_set ?k ?p (tl_pending st)" ?k ?p]
          by (auto simp: pending_items_alt update_pending_def image_iff intro!: bexI [of _ "(?k, ?p)"])
        ultimately show ?thesis using known2 known_asI by blast
      qed
      ultimately show ?thesis
        using reconcile_tracked [OF okx [OF t] move_tracked [OF t], of env m] gone [of m] by auto
    qed
    have "tracked r ?y \<or> committed_as r st (TvReceive frame)" if "tracked r ?st2"
      by (rule optional_step [of "\<lambda>z. tracked r z \<or> committed_as r st (TvReceive frame)"])
        (rule step [OF that], rule disjI1 [OF move_tracked [OF that]])
    with t2 have "tracked r ?y \<or> committed_as r st (TvReceive frame)" by blast
    then show ?thesis unfolding eq if_P [OF unknown] .
  qed
qed

lemma started_tracked:
  assumes inv: "timeline_inv st" and t: "tracked r st" and type: "text_member ''type'' frame = ''user_message_started''"
  shows "tracked r (receive_started env frame st) \<or> committed_as r st (TvReceive frame)"
proof (cases "pending_of_request (field ''in_reply_to'' frame) st")
  case None
  with t show ?thesis by (simp add: receive_started_def)
next
  case (Some p)
  define m where "m = (case field ''message'' frame of Some j \<Rightarrow> text_member ''id'' j | None \<Rightarrow> [])"
  define p1 where "p1 = p \<lparr> pm_delivery := DvAccepted, pm_message := Some m \<rparr>"
  let ?st1 = "update_pending (pm_request p) p1 st"
  have ok: "requests_ok st" using inv by (simp add: timeline_inv_def)
  have "jm_get (tl_pending st) (pm_request p) = Some p" using pending_of_requestD [OF Some] ok by (simp add: value_key)
  from pending_request [OF ok this] have ok1: "requests_ok ?st1"
    unfolding update_pending_def p1_def by (intro requests_set [OF ok]) simp_all
  have t1: "tracked r ?st1" unfolding update_pending_def by (rule set_pending_tracked [OF t])
  have "str_field ''type'' frame = Some ''user_message_started''"
    using type by (auto simp: text_member_def split: option.splits)
  then have tells: "pm_request p = r \<Longrightarrow> told r m st (TvReceive frame)" using Some by (simp add: told_def m_def)
  have "known_as r m ?st1 \<Longrightarrow> known_as r m st \<or> told r m st (TvReceive frame)"
    using update_known [of r m "pm_request p" p1 st] tells by (auto simp: p1_def)
  moreover have "formal m ?st1 = formal m st" by (simp add: formal_def update_pending_def)
  ultimately have "tracked r (reconcile_user_message env m ?st1) \<or> committed_as r st (TvReceive frame)"
    using reconcile_tracked [OF ok1 t1, of env m] by (auto simp: committed_as_def intro: evidence_nil)
  moreover have "receive_started env frame st
      = (if matches_scope (tl_scope st) frame then reconcile_user_message env m ?st1 else st)"
    using Some by (simp add: receive_started_def Let_def m_def p1_def)
  ultimately show ?thesis using t by simp
qed

lemma error_tracked: "tracked r st \<Longrightarrow> tracked r (receive_error frame st)"
  by (simp add: receive_error_def move_tracked split: option.split)

lemma fold_committed:
  assumes "timeline_inv st" and "tracked r st" and "\<And>e. e \<in> set es \<Longrightarrow> in_scope (tl_scope st) e"
    and "set es \<subseteq> set (events_of ev)" and "\<And>m. formal m st \<Longrightarrow> formal m st0" and "\<And>m. known_as r m st \<Longrightarrow> known_as r m st0"
  shows "tracked r (fold (commit_parsed env) es st) \<or> committed_as r st0 ev"
proof -
  have "evidence m st es \<Longrightarrow> evidence m st0 (events_of ev)" for m
    using assms(4, 5) by (auto simp: evidence_def)
  with commits_tracked [OF assms(1-3)] assms(6) show ?thesis unfolding committed_as_def by blast
qed

lemma commit_event_tracked:
  assumes "timeline_inv st" and "tracked r st" and "e \<in> set (events_of ev)"
  shows "tracked r (commit_event env e st) \<or> committed_as r st ev"
proof -
  have "tracked r (fold (commit_parsed env) [e'] st) \<or> committed_as r st ev"
    if "parse_event env e = Some e'" "matches_scope (tl_scope st) e'" for e'
    using assms parse_event_same [OF that(1)] that(2) by (intro fold_committed) (simp_all add: in_scope_def)
  with assms(2) show ?thesis by (simp add: commit_event_def split: option.split)
qed

lemma event_tracked:
  assumes "timeline_inv st" and "tracked r st"
  shows "tracked r (receive_event env frame st) \<or> committed_as r st (TvReceive frame)"
proof (cases "field ''event'' frame")
  case None
  with assms(2) show ?thesis by (simp add: receive_event_def)
next
  case (Some e)
  have "tracked r (fst (change env st')) = tracked r st'" for st' by (simp add: change_def tracked_def)
  moreover have "tracked r (commit_event env e st) \<or> committed_as r st (TvReceive frame)"
    using assms Some by (intro commit_event_tracked) simp_all
  ultimately show ?thesis using Some assms(2) by (simp add: receive_event_def)
qed

lemma replace_tracked:
  assumes "timeline_inv st" and "tracked r st"
  shows "tracked r (replace_history env es st) \<or> committed_as r st (TvReplace es)"
proof -
  define st0 where "st0 = st \<lparr> tl_history := parsed_in_scope env (tl_scope st) es, tl_events := [] \<rparr>"
  have "timeline_inv st0"
    using assms(1) by (simp add: st0_def timeline_inv_def requests_ok_def shown_once_def formal_def events_in_scope_def jm_values_def)
  moreover have "tracked r st0" using assms(2) by (simp add: st0_def tracked_def)
  moreover have "\<not> formal m st0" for m by (simp add: st0_def formal_def jm_values_def)
  moreover have "known_as r m st0 = known_as r m st" for m by (simp add: st0_def known_as_def pending_items_def)
  moreover have "tl_scope st0 = tl_scope st" by (simp add: st0_def)
  ultimately have "tracked r (fold (commit_parsed env) (parsed_in_scope env (tl_scope st) es) st0) \<or> committed_as r st (TvReplace es)"
    by (intro fold_committed) (auto dest: parsed_in_scopeD parsed_events)
  then show ?thesis by (simp add: replace_history_def st0_def Let_def)
qed

lemma prepend_tracked:
  assumes "timeline_inv st" and "tracked r st"
  shows "tracked r (prepend_history env es st) \<or> committed_as r st (TvPrepend es)"
  unfolding prepend_history_def using assms by (intro fold_committed) (auto dest: parsed_in_scopeD parsed_events)

lemma receive_tracked:
  assumes inv: "timeline_inv st" and t: "tracked r st"
  shows "tracked r (receive_state env frame st) \<or> committed_as r st (TvReceive frame) \<or> left_queue r st (TvReceive frame)"
proof -
  have ok: "requests_ok st" using inv by (simp add: timeline_inv_def)
  have "tracked r (invalidate_scope st) = tracked r (clear_transient st)" by (simp add: invalidate_scope_def forget_events_def tracked_def)
  then have "tracked r (invalidate_scope st)" using transient_tracked [OF ok t] by simp
  moreover have "tracked r (receive_partial env frame st)"
    using t by (simp add: receive_partial_def tracked_def Let_def split: option.split)
  ultimately show ?thesis
    using queue_tracked [OF t, of frame] status_tracked [OF inv t, of frame env] started_tracked [OF inv t, of frame env]
      event_tracked [OF inv t, of env frame] error_tracked [OF t, of frame] t
    by (auto simp: receive_state_def Let_def)
qed

lemma step_tracked:
  assumes inv: "timeline_inv st" and t: "tracked r st" and "snd i \<noteq> TvClear"
  shows "tracked r (timeline_step st i) \<or> committed_as r st (snd i) \<or> left_queue r st (snd i)"
proof -
  obtain env e where i: "i = (env, e)" by (cases i)
  have ok: "requests_ok st" using inv by (simp add: timeline_inv_def)
  have transient: "tracked r (clear_transient st)" by (rule transient_tracked [OF ok t])
  have "tracked r (set_scope scope st)" for scope
  proof (cases "scope_changed (tl_scope st) scope")
    case True
    have "tracked r (set_scope scope st) = tracked r (clear_transient st)"
      by (rule tracked_cong) (simp_all add: set_scope_def True forget_events_def)
    with transient show ?thesis by simp
  next
    case False
    with t show ?thesis by (simp add: set_scope_def tracked_def)
  qed
  moreover have "tracked r (invalidate_scope st) = tracked r (clear_transient st)"
    by (rule tracked_cong) (simp_all add: invalidate_scope_def forget_events_def)
  moreover have "tracked r (mark_unknown_delivery k st)" for k
    using t by (simp add: mark_unknown_delivery_def move_tracked split: option.split)
  moreover have commit_tracks: "tracked r (commit_event env x st) \<or> committed_as r st (TvCommit x)" for x
    using inv t by (intro commit_event_tracked) simp_all
  ultimately have state: "tracked r (timeline_state env st e) \<or> committed_as r st e \<or> left_queue r st e"
  proof (cases e)
    case (TvCommit x)
    from commit_tracks [of x] show ?thesis unfolding TvCommit timeline_state.simps by blast
  next
    case (TvReplace es)
    from replace_tracked [OF inv t, of env es] show ?thesis unfolding TvReplace timeline_state.simps by blast
  next
    case (TvPrepend es)
    from prepend_tracked [OF inv t, of env es] show ?thesis unfolding TvPrepend timeline_state.simps by blast
  qed (use assms(3) transient send_tracked [OF t, of env] retry_tracked [OF ok t, of env] receive_tracked [OF inv t, of env] i
      in \<open>simp_all add: mark_disconnected_def\<close>)
  then show ?thesis by (simp add: i timeline_step_def change_def tracked_def)
qed

lemma run_tracked:
  assumes "timeline_inv st" and "trace_ok timeline_step timeline_adm st post" and "tracked r st" and "TvClear \<notin> snd ` set post"
  shows "tracked r (run timeline_step st post)
    \<or> (\<exists>mid i rest. post = mid @ i # rest \<and> (committed_as r (run timeline_step st mid) (snd i) \<or> left_queue r (run timeline_step st mid) (snd i)))"
  using assms
proof (induction post arbitrary: st)
  case (Cons i post)
  let ?st = "timeline_step st i"
  consider "tracked r ?st" | "committed_as r st (snd i) \<or> left_queue r st (snd i)"
    using step_tracked [OF Cons.prems(1, 3), of i] Cons.prems(4) by auto
  then show ?case
  proof cases
    case 1
    have "timeline_inv ?st" using Cons.prems(1, 2) by (simp add: timeline_step_keeps)
    from Cons.IH [OF this _ 1] Cons.prems(2, 4) consider "tracked r (run timeline_step ?st post)"
      | mid i' rest where "post = mid @ i' # rest"
          "committed_as r (run timeline_step ?st mid) (snd i') \<or> left_queue r (run timeline_step ?st mid) (snd i')" by auto
    then show ?thesis
    proof cases
      case 1
      then show ?thesis by simp
    next
      case 2
      then show ?thesis by (intro disjI2 exI [of _ "i # mid"] exI [of _ i'] exI [of _ rest]) simp
    qed
  next
    case 2
    then show ?thesis by (intro disjI2 exI [of _ "[]"] exI [of _ i] exI [of _ post]) simp
  qed
qed simp

text \<open>
  C35: A message that the user has sent stays in the view, as pending or as of unknown delivery,
  through every reconnect, reset, change of scope, error, retry and reload of the history: it goes
  only when a user event with the message id that the server gave for it is known or arrives, when
  the agent has taken it off its queue, or when the owner clears the timeline.
\<close>

theorem message_never_lost:
  assumes "trace_ok timeline_step timeline_adm new_timeline (pre @ (env, TvSend t images ids) # post)"
    and "snd (send_user env t images ids (run timeline_step new_timeline pre)) \<noteq> None"
    and "r = send_request env ids (run timeline_step new_timeline pre)"
    and "st = run timeline_step new_timeline (pre @ [(env, TvSend t images ids)])"
    and "TvClear \<notin> snd ` set post"
  shows "tracked r (run timeline_step st post)
    \<or> (\<exists>mid i rest. post = mid @ i # rest
        \<and> (committed_as r (run timeline_step st mid) (snd i) \<or> left_queue r (run timeline_step st mid) (snd i)))"
proof -
  let ?pre = "run timeline_step new_timeline pre"
  have st: "st = timeline_step ?pre (env, TvSend t images ids)" using assms(4) by (simp add: run_append)
  have "timeline_inv ?pre" "timeline_inv st" "trace_ok timeline_step timeline_adm st post"
    using assms(1) st pwa_timeline.run_keeps [OF new_timeline_inv] timeline_step_keeps by (auto simp: trace_ok_append)
  moreover have "tracked r st"
    using sent_tracked [OF assms(2)] assms(3) by (simp add: st timeline_step_def change_def tracked_def)
  ultimately show ?thesis using assms(5) by (intro run_tracked)
qed

section \<open>What is shown\<close>

lemma set_insert_item: "set (insert_item cmp x ys) = insert x (set ys)"
  by (induction ys) auto

lemma set_stable_sort: "set (stable_sort cmp xs) = set xs"
proof -
  have "set (foldl (\<lambda>ys x. insert_item cmp x ys) zs xs) = set zs \<union> set xs" for zs
    by (induction xs arbitrary: zs) (auto simp: set_insert_item)
  then show ?thesis by (simp add: stable_sort_def)
qed

lemma shown_items:
  "VwPending p \<in> set (ch_items (snd (change env st))) \<longleftrightarrow> p \<in> set (pending_items st)"
  "VwEvent e \<in> set (ch_items (snd (change env st))) \<longleftrightarrow> e \<in> set (jm_values (tl_events st))"
  by (auto simp: change_def set_stable_sort view_items_def pending_items_def)

lemma one_entry_per_request:
  assumes "requests_ok st" and "p \<in> set (pending_items st)" and "q \<in> set (pending_items st)" and "pm_request p = pm_request q"
  shows "p = q"
proof -
  have get: "jm_get (tl_pending st) (pm_request x) = Some x" if "x \<in> set (jm_values (tl_pending st))" for x
    by (rule value_key [OF assms(1) that])
  have apart: "x \<notin> set (jm_values (tl_pending st))" if "y \<in> set (tl_unknown st)" "pm_request x = pm_request y" for x y
  proof
    assume "x \<in> set (jm_values (tl_pending st))"
    from pending_request(2) [OF assms(1) get [OF this]] that show False by simp
  qed
  consider "p \<in> set (jm_values (tl_pending st))" "q \<in> set (jm_values (tl_pending st))"
    | "p \<in> set (tl_unknown st)" "q \<in> set (tl_unknown st)"
    using assms(2, 3) apart [of p q] apart [of q p] assms(4) unfolding pending_items_def set_append by (metis UnE)
  then show ?thesis
  proof cases
    case 1
    have "jm_get (tl_pending st) (pm_request q) = Some p" using get [OF 1(1)] unfolding assms(4) .
    from trans [OF sym [OF this] get [OF 1(2)]] have "Some p = Some q" .
    then show ?thesis by (rule option.inject [THEN iffD1])
  next
    case 2
    have "inj_on pm_request (set (tl_unknown st))" using assms(1) by (simp add: requests_ok_def distinct_map)
    from inj_onD [OF this assms(4) 2] show ?thesis .
  qed
qed

text \<open>
  C36: In every view that a call answers with, a message of the user is shown once: one entry for
  each client request id, and none for a message whose user event is shown; each event id is shown
  once, and every event is of the session and the history generation in use.
\<close>

theorem view_consistent:
  assumes "trace_ok timeline_step timeline_adm new_timeline (calls @ [(env, e)])"
    and "st = timeline_state env (run timeline_step new_timeline calls) e"
    and "items = set (ch_items (snd (change env st)))"
  shows "(\<forall>p q. VwPending p \<in> items \<and> VwPending q \<in> items \<and> pm_request p = pm_request q \<longrightarrow> p = q)
    \<and> (\<forall>p m ev. VwPending p \<in> items \<and> pm_message p = Some m \<and> VwEvent ev \<in> items \<longrightarrow> \<not> is_user_event m ev)
    \<and> (\<forall>ev ev'. VwEvent ev \<in> items \<and> VwEvent ev' \<in> items \<and> text_member ''event_id'' ev = text_member ''event_id'' ev' \<longrightarrow> ev = ev')
    \<and> (\<forall>ev scope. VwEvent ev \<in> items \<and> tl_scope st = Some scope
        \<longrightarrow> str_field ''session_id'' ev = Some (lv_session scope) \<and> str_field ''history_generation'' ev = Some (lv_generation scope))"
proof -
  have "timeline_inv (timeline_step (run timeline_step new_timeline calls) (env, e))"
    using pwa_timeline.run_keeps [OF new_timeline_inv assms(1)] by (simp add: run_append)
  then have inv: "timeline_inv st" by (simp add: assms(2) timeline_step_def change_def)
  have keys: "ev = ev'" if "ev \<in> set (jm_values (tl_events st))" "ev' \<in> set (jm_values (tl_events st))"
      "text_member ''event_id'' ev = text_member ''event_id'' ev'" for ev ev'
  proof -
    from that inv have "(text_member ''event_id'' ev, ev) \<in> set (tl_events st)" "(text_member ''event_id'' ev, ev') \<in> set (tl_events st)"
      by (auto simp: timeline_inv_def events_in_scope_def jm_values_def)
    with inv show ?thesis by (auto simp: timeline_inv_def events_in_scope_def jm_ok_def dest: eq_key_imp_eq_value)
  qed
  have requests: "requests_ok st" and shown: "shown_once st" and scoped: "events_in_scope st"
    using inv by (simp_all add: timeline_inv_def)
  have once: "\<not> is_user_event m ev"
    if "p \<in> set (pending_items st)" "pm_message p = Some m" "ev \<in> set (jm_values (tl_events st))" for p m ev
    using shown that unfolding shown_once_def formal_def by blast
  have "matches_scope (Some scope) ev" if "ev \<in> set (jm_values (tl_events st))" "tl_scope st = Some scope" for ev scope
    using scoped that by (auto simp: events_in_scope_def in_scope_def)
  then have scope: "str_field ''session_id'' ev = Some (lv_session scope) \<and> str_field ''history_generation'' ev = Some (lv_generation scope)"
    if "ev \<in> set (jm_values (tl_events st))" "tl_scope st = Some scope" for ev scope
    using that unfolding matches_scope_def by simp
  show ?thesis
    unfolding assms(3) shown_items
  proof (intro conjI allI impI; elim conjE)
    fix p q assume "p \<in> set (pending_items st)" "q \<in> set (pending_items st)" "pm_request p = pm_request q"
    then show "p = q" by (rule one_entry_per_request [OF requests])
  next
    fix p m ev assume "p \<in> set (pending_items st)" "pm_message p = Some m" "ev \<in> set (jm_values (tl_events st))"
    then show "\<not> is_user_event m ev" by (rule once)
  next
    fix ev ev' assume "ev \<in> set (jm_values (tl_events st))" "ev' \<in> set (jm_values (tl_events st))"
      "text_member ''event_id'' ev = text_member ''event_id'' ev'"
    then show "ev = ev'" by (rule keys)
  next
    fix ev s assume "ev \<in> set (jm_values (tl_events st))" "tl_scope st = Some s"
    then show "str_field ''session_id'' ev = Some (lv_session s)" using scope by blast
  next
    fix ev s assume "ev \<in> set (jm_values (tl_events st))" "tl_scope st = Some s"
    then show "str_field ''history_generation'' ev = Some (lv_generation s)" using scope by blast
  qed
qed

subsection \<open>Witnesses\<close>

definition demo_view_env :: timeline_env where
  "demo_view_env = \<lparr> tv_lib = demo_lib JNull, tv_uuid = (\<lambda>n. ''u'' @ replicate n (CHR ''x'')), tv_now = 1700000000000,
     tv_collate = (\<lambda>a b. 0) \<rparr>"

definition demo_live :: live_scope where
  "demo_live = \<lparr> lv_device = ''d'', lv_endpoint = ''e'', lv_runtime = ''r'', lv_session = ''s'', lv_generation = ''g'',
     lv_self = ''me'', lv_channel = ''c'' \<rparr>"

theorem message_never_lost_witness:
  "tracked ''u'' (run timeline_step (run timeline_step new_timeline
       [(demo_view_env, TvScope demo_live), (demo_view_env, TvSend ''hello'' [] None)])
     [(demo_view_env, TvDisconnected), (demo_view_env, TvRetry ''u''), (demo_view_env, TvInvalidate)])"
proof -
  let ?pre = "[(demo_view_env, TvScope demo_live)]" and ?i = "(demo_view_env, TvSend ''hello'' [] None)"
  let ?post = "[(demo_view_env, TvDisconnected), (demo_view_env, TvRetry ''u''), (demo_view_env, TvInvalidate)]"
  have ok: "trace_ok timeline_step timeline_adm new_timeline (?pre @ ?i # ?post)" by code_simp
  have sent: "snd (send_user demo_view_env ''hello'' [] None (run timeline_step new_timeline ?pre)) \<noteq> None" by code_simp
  have r: "''u'' = send_request demo_view_env None (run timeline_step new_timeline ?pre)" by code_simp
  have clear: "TvClear \<notin> snd ` set ?post" by simp
  let ?st = "run timeline_step new_timeline (?pre @ [?i])"
  have "tl_events (run timeline_step ?st []) = []"
    "tl_events (run timeline_step ?st [(demo_view_env, TvDisconnected)]) = []"
    "tl_events (run timeline_step ?st [(demo_view_env, TvDisconnected), (demo_view_env, TvRetry ''u'')]) = []" by code_simp+
  then have "\<not> formal m (run timeline_step ?st [])"
    "\<not> formal m (run timeline_step ?st [(demo_view_env, TvDisconnected)])"
    "\<not> formal m (run timeline_step ?st [(demo_view_env, TvDisconnected), (demo_view_env, TvRetry ''u'')])" for m
    by (simp_all add: formal_def jm_values_def)
  with message_never_lost [OF ok sent r refl clear] show ?thesis
    by (auto simp: Cons_eq_append_conv committed_as_def evidence_def left_queue_def told_def)
qed

definition demo_user_event :: json where
  "demo_user_event = JObj [(''event_id'', JStr ''m1''), (''session_id'', JStr ''s''), (''history_generation'', JStr ''g''),
     (''timestamp'', JNum (NInt 5)), (''group_id'', JStr ''g1''), (''kind'', JStr ''user''),
     (''message_id'', JStr ''m1''), (''blocks'', JArr [JObj [(''type'', JStr ''text''), (''text'', JStr ''hello'')]]),
     (''origin'', JStr ''unknown''), (''delivery'', JStr ''unknown''), (''status'', JStr ''committed'')]"

definition demo_status :: json where
  "demo_status = JObj [(''type'', JStr ''user_message_status''), (''session_id'', JStr ''s''), (''history_generation'', JStr ''g''),
     (''client_request_id'', JStr ''u''), (''status'', JStr ''accepted''), (''message_id'', JStr ''m1'')]"

definition demo_live_event :: json where
  "demo_live_event = JObj [(''type'', JStr ''timeline_event''), (''session_id'', JStr ''s''), (''history_generation'', JStr ''g''),
     (''event'', demo_user_event)]"

definition demo_calls :: "(timeline_env \<times> timeline_event) list" where
  "demo_calls = [(demo_view_env, TvScope demo_live), (demo_view_env, TvSend ''hello'' [] None),
     (demo_view_env, TvSend ''again'' [] None)]"

theorem view_consistent_witness:
  "VwEvent demo_user_event \<in> set (ch_items (snd (receive demo_view_env demo_status
       (run timeline_step new_timeline (demo_calls @ [(demo_view_env, TvCommit demo_user_event)])))))
   \<and> \<not> (\<exists>p. VwPending p \<in> set (ch_items (snd (receive demo_view_env demo_status
         (run timeline_step new_timeline (demo_calls @ [(demo_view_env, TvCommit demo_user_event)])))))
       \<and> pm_message p = Some ''m1'')"
proof -
  let ?calls = "demo_calls @ [(demo_view_env, TvCommit demo_user_event)]"
  let ?run = "run timeline_step new_timeline ?calls"
  have ok: "trace_ok timeline_step timeline_adm new_timeline (?calls @ [(demo_view_env, TvReceive demo_status)])" by code_simp
  have items: "set (ch_items (snd (receive demo_view_env demo_status ?run)))
      = set (ch_items (snd (change demo_view_env (receive_state demo_view_env demo_status ?run))))"
    by (simp add: receive_def demo_status_def text_member_def str_field_def field_def split: prod.split)
  have "jm_values (tl_events (receive_state demo_view_env demo_status ?run)) = [demo_user_event]" by code_simp
  then have ev: "VwEvent demo_user_event \<in> set (ch_items (snd (change demo_view_env (receive_state demo_view_env demo_status ?run))))"
    by (simp add: shown_items)
  moreover have "is_user_event ''m1'' demo_user_event" by code_simp
  ultimately show ?thesis using view_consistent [OF ok refl refl] unfolding items by auto
qed

text \<open>
  \<open>receive\<close> answers a live event without the observed frames of the messages that it commits:
  \<open>commit\<close> has taken them along in a change of its own, which \<open>receive\<close> drops.
\<close>

lemma live_event_not_observed:
  assumes "text_member ''type'' frame = ''timeline_event''" and "matches_scope (tl_scope st) frame"
    and "field ''event'' frame = Some e"
  shows "ch_observed (snd (receive env frame st)) = []"
  using assms by (simp add: receive_def receive_state_def receive_event_def change_def Let_def)

lemma live_event_drops_pending:
  "known_as ''u'' ''m1'' (receive_state demo_view_env demo_status (run timeline_step new_timeline demo_calls))"
  "\<not> tracked ''u'' (fst (receive demo_view_env demo_live_event
     (fst (receive demo_view_env demo_status (run timeline_step new_timeline demo_calls)))))"
  by code_simp+

end
