(* ===== verification/StreamDisplay.thy ===== *)
theory StreamDisplay
  imports PwaTimeline "HOL-Library.Sublist"
begin

text \<open>
  \<open>StreamDisplayBuffer\<close> of \<open>pwa/src/lib/pwa/stream-display-buffer.ts\<close>: the view of the timeline with
  the output of the agent paced, some graphemes a tick. The timeline stays authoritative; the
  buffer holds a cursor for each stream.

  \<open>dv_segment\<close> splits a text into graphemes (\<open>Intl.Segmenter\<close>, or code points without it) and
  \<open>dv_collate\<close> is \<open>localeCompare\<close>. The code compares events and images by object identity, which values
  do not show: \<open>dv_same_event\<close> and \<open>dv_same_images\<close> say which are the same object at that call.
\<close>

record display_env =
  dv_segment :: "string \<Rightarrow> string list"
  dv_collate :: "string \<Rightarrow> string \<Rightarrow> int"
  dv_same_event :: "json \<Rightarrow> json \<Rightarrow> bool"
  dv_same_images :: "json list \<Rightarrow> json list \<Rightarrow> bool"

definition DRAIN_TICKS :: nat where
  "DRAIN_TICKS = 8"

definition MAX_RELEASE_PER_TICK :: nat where
  "MAX_RELEASE_PER_TICK = 64"

record stream_state =
  ss_partial :: partial_view
  ss_target :: string
  ss_graphemes :: "string list"
  ss_count :: nat
  ss_visible :: string
  ss_ticks :: nat
  ss_seen :: bool

text \<open>The \<open>id\<close> of a pending token is \<open>pending:\<close> and the client request id.\<close>

record pending_token =
  tk_request :: string
  tk_text :: string
  tk_images :: "json list"
  tk_created :: int
  tk_delivery :: delivery_state
  tk_cancelable :: "bool option"
  tk_message :: "string option"

datatype non_stream_token = TkEvent string json | TkPending pending_token

record display_change =
  dc_items :: "view_item list"
  dc_render :: bool
  dc_pending :: bool

record display =
  di_authoritative :: "view_item list"
  di_displayed :: "view_item list"
  di_tokens :: "non_stream_token list"
  di_streams :: "(string, stream_state) js_map"

definition new_display :: display where
  "new_display = \<lparr> di_authoritative = [], di_displayed = [], di_tokens = [], di_streams = [] \<rparr>"

section \<open>Reading partials\<close>

fun join_lines :: "string list \<Rightarrow> string" where
  "join_lines [] = []"
| "join_lines [t] = t"
| "join_lines (t # ts) = t @ CHR 0x0A # join_lines ts"

definition has_blocks :: "json \<Rightarrow> bool" where
  "has_blocks partial = (field ''blocks'' partial \<noteq> None)"

definition partial_text :: "json \<Rightarrow> string" where
  "partial_text partial =
     (if has_blocks partial then join_lines (map (text_member ''text'') (array_items (field ''blocks'' partial)))
      else text_member ''delta'' partial)"

definition streams_immediately :: "json \<Rightarrow> bool" where
  "streams_immediately partial = (str_field ''kind'' partial = Some ''tool'' \<or> has_blocks partial)"

definition partial_id :: "partial_view \<Rightarrow> string" where
  "partial_id v = text_member ''partial_id'' (pv_partial v)"

definition append_target_graphemes :: "display_env \<Rightarrow> stream_state \<Rightarrow> string \<Rightarrow> string list" where
  "append_target_graphemes env s target =
     (let suffix = drop (length (ss_target s)) target
      in if ss_graphemes s = [] then dv_segment env suffix
         else butlast (ss_graphemes s) @ dv_segment env (last (ss_graphemes s) @ suffix))"

definition compare_shown :: "display_env \<Rightarrow> view_item \<Rightarrow> view_item \<Rightarrow> int" where
  "compare_shown env a b =
     (let d = item_time a - item_time b in if d \<noteq> 0 then d else dv_collate env (item_id a) (item_id b))"

definition matches_formal :: "json \<Rightarrow> json \<Rightarrow> bool" where
  "matches_formal partial event =
     (field ''group_id'' partial = field ''group_id'' event
      \<and> (if str_field ''kind'' event = Some ''assistant''
         then str_field ''kind'' partial = Some ''assistant'' \<or> str_field ''kind'' partial = Some ''thinking''
         else str_field ''kind'' event = Some ''tool'' \<and> str_field ''kind'' partial = Some ''tool''))"

section \<open>Comparing views\<close>

fun same_item :: "display_env \<Rightarrow> view_item \<Rightarrow> view_item \<Rightarrow> bool" where
  "same_item env (VwEvent e) (VwEvent e') = (item_id (VwEvent e) = item_id (VwEvent e') \<and> dv_same_event env e e')"
| "same_item env (VwPending p) (VwPending q) = (pm_request p = pm_request q \<and> pm_delivery p = pm_delivery q
     \<and> pm_text p = pm_text q \<and> pm_created p = pm_created q \<and> pm_message p = pm_message q
     \<and> pm_cancelable p = pm_cancelable q \<and> dv_same_images env (pm_images p) (pm_images q))"
| "same_item env (VwPartial v) (VwPartial w) =
     (item_id (VwPartial v) = item_id (VwPartial w) \<and> partial_text (pv_partial v) = partial_text (pv_partial w))"
| "same_item env _ _ = False"

definition same_items :: "display_env \<Rightarrow> view_item list \<Rightarrow> view_item list \<Rightarrow> bool" where
  "same_items env as bs = list_all2 (same_item env) as bs"

definition pending_token_of :: "user_pending \<Rightarrow> pending_token" where
  "pending_token_of p = \<lparr> tk_request = pm_request p, tk_text = pm_text p, tk_images = pm_images p,
     tk_created = pm_created p, tk_delivery = pm_delivery p, tk_cancelable = pm_cancelable p, tk_message = pm_message p \<rparr>"

fun token_of :: "view_item \<Rightarrow> non_stream_token option" where
  "token_of (VwEvent e) = Some (TkEvent (text_member ''event_id'' e) e)"
| "token_of (VwPending p) = Some (TkPending (pending_token_of p))"
| "token_of (VwPartial v) = None"

definition non_stream_tokens :: "view_item list \<Rightarrow> non_stream_token list" where
  "non_stream_tokens items = List.map_filter token_of items"

fun same_token :: "display_env \<Rightarrow> non_stream_token \<Rightarrow> non_stream_token \<Rightarrow> bool" where
  "same_token env (TkEvent i e) (TkEvent j e') = (i = j \<and> dv_same_event env e e')"
| "same_token env (TkPending p) (TkPending q) = (tk_request p = tk_request q \<and> tk_text p = tk_text q
     \<and> dv_same_images env (tk_images p) (tk_images q) \<and> tk_created p = tk_created q \<and> tk_delivery p = tk_delivery q
     \<and> tk_cancelable p = tk_cancelable q \<and> tk_message p = tk_message q)"
| "same_token env _ _ = False"

definition same_non_stream_tokens :: "display_env \<Rightarrow> non_stream_token list \<Rightarrow> non_stream_token list \<Rightarrow> bool" where
  "same_non_stream_tokens env as bs = list_all2 (same_token env) as bs"

section \<open>The streams\<close>

definition projected_partial :: "stream_state \<Rightarrow> partial_view" where
  "projected_partial s =
     (if has_blocks (pv_partial (ss_partial s)) then ss_partial s
      else (ss_partial s) \<lparr> pv_partial := set_member ''delta'' (JStr (ss_visible s)) (pv_partial (ss_partial s)) \<rparr>)"

definition expected_visible :: "stream_state \<Rightarrow> string" where
  "expected_visible s = concat (take (ss_count s) (ss_graphemes s))"

definition is_drained :: "stream_state \<Rightarrow> bool" where
  "is_drained s = (length (ss_graphemes s) \<le> ss_count s \<and> ss_visible s = ss_target s)"

definition has_pending :: "display \<Rightarrow> bool" where
  "has_pending d = list_ex (\<lambda>s. \<not> is_drained s) (jm_values (di_streams d))"

definition formal_events :: "view_item list \<Rightarrow> json list" where
  "formal_events items = List.map_filter (\<lambda>i. case i of VwEvent e \<Rightarrow> Some e | _ \<Rightarrow> None) items"

definition is_formal :: "view_item list \<Rightarrow> partial_view \<Rightarrow> bool" where
  "is_formal items v = list_ex (matches_formal (pv_partial v)) (formal_events items)"

definition partials_of :: "view_item list \<Rightarrow> partial_view list" where
  "partials_of items = List.map_filter (\<lambda>i. case i of VwPartial v \<Rightarrow> Some v | _ \<Rightarrow> None) items"

definition current_partials :: "view_item list \<Rightarrow> (string, partial_view) js_map" where
  "current_partials items = fold (\<lambda>v. jm_set (partial_id v) v) (partials_of items) []"

section \<open>The snapshot\<close>

definition snapshot_item :: "(string, stream_state) js_map \<Rightarrow> view_item \<Rightarrow> view_item option" where
  "snapshot_item streams i =
     (case i of
        VwEvent e \<Rightarrow> if list_ex (\<lambda>s. matches_formal (pv_partial (ss_partial s)) e) (jm_values streams) then None else Some i
      | VwPending p \<Rightarrow> Some i
      | VwPartial v \<Rightarrow> map_option (\<lambda>s. VwPartial (projected_partial s)) (jm_get streams (partial_id v)))"

definition build_snapshot :: "display_env \<Rightarrow> display \<Rightarrow> view_item list" where
  "build_snapshot env d =
     stable_sort (compare_shown env)
       (List.map_filter (snapshot_item (di_streams d)) (di_authoritative d)
        @ map (\<lambda>s. VwPartial (projected_partial s))
            (filter (\<lambda>s. \<not> ss_seen s \<and> is_formal (di_authoritative d) (ss_partial s)) (jm_values (di_streams d))))"

definition display_change_of :: "display_env \<Rightarrow> view_item list \<Rightarrow> bool \<Rightarrow> display \<Rightarrow> display_change" where
  "display_change_of env previous force d =
     \<lparr> dc_items = di_displayed d, dc_render = (force \<or> \<not> same_items env previous (di_displayed d)), dc_pending = has_pending d \<rparr>"

definition unchanged :: "display \<Rightarrow> display_change" where
  "unchanged d = \<lparr> dc_items = di_displayed d, dc_render = False, dc_pending = has_pending d \<rparr>"

definition rebuilt :: "display_env \<Rightarrow> display \<Rightarrow> display" where
  "rebuilt env d = d \<lparr> di_displayed := build_snapshot env d, di_tokens := non_stream_tokens (di_authoritative d) \<rparr>"

definition rebuild :: "display_env \<Rightarrow> view_item list \<Rightarrow> bool \<Rightarrow> display \<Rightarrow> display \<times> display_change" where
  "rebuild env previous force d = (rebuilt env d, display_change_of env previous force (rebuilt env d))"

section \<open>A new view of the timeline\<close>

definition new_stream :: "display_env \<Rightarrow> partial_view \<Rightarrow> stream_state" where
  "new_stream env v =
     (let target = partial_text (pv_partial v); graphemes = dv_segment env target;
          immediate = streams_immediately (pv_partial v);
          n = (if immediate then length graphemes else min 2 (length graphemes))
      in \<lparr> ss_partial = v, ss_target = target, ss_graphemes = graphemes, ss_count = n,
           ss_visible = concat (take n graphemes), ss_ticks = (if immediate then DRAIN_TICKS else 0), ss_seen = True \<rparr>)"

text \<open>What an update of a known partial does to its stream, and whether the view must be built again.\<close>

definition retarget :: "display_env \<Rightarrow> partial_view \<Rightarrow> stream_state \<Rightarrow> stream_state \<times> bool" where
  "retarget env v s =
     (let target = partial_text (pv_partial v); changed = (ss_target s \<noteq> target);
          immediate = streams_immediately (pv_partial v); graphemes = dv_segment env target
      in if changed \<and> immediate then
           (s \<lparr> ss_target := target, ss_graphemes := graphemes, ss_count := length graphemes, ss_visible := target,
                ss_ticks := DRAIN_TICKS \<rparr>, True)
         else if changed \<and> prefix (ss_target s) target then
           (let appended = append_target_graphemes env s target
            in (s \<lparr> ss_target := target, ss_graphemes := appended, ss_count := min (ss_count s) (length appended),
                    ss_ticks := 0 \<rparr>, False))
         else if changed then
           (let n = min 2 (length graphemes)
            in (s \<lparr> ss_target := target, ss_graphemes := graphemes, ss_count := n, ss_visible := concat (take n graphemes),
                    ss_ticks := 0 \<rparr>, True))
         else if immediate \<and> \<not> streams_immediately (pv_partial (ss_partial s)) then
           (s \<lparr> ss_count := length (ss_graphemes s), ss_visible := target, ss_ticks := DRAIN_TICKS \<rparr>, True)
         else (s, False))"

definition update_stream :: "display_env \<Rightarrow> partial_view \<Rightarrow> stream_state \<Rightarrow> stream_state \<times> bool" where
  "update_stream env v s = (case retarget env v s of (s', n) \<Rightarrow> (s' \<lparr> ss_partial := v, ss_seen := True \<rparr>, n))"

definition ingest_partial ::
  "display_env \<Rightarrow> partial_view \<Rightarrow> (string, stream_state) js_map \<times> bool \<Rightarrow> (string, stream_state) js_map \<times> bool" where
  "ingest_partial env v acc =
     (case jm_get (fst acc) (partial_id v) of
        None \<Rightarrow> (jm_set (partial_id v) (new_stream env v) (fst acc), True)
      | Some s \<Rightarrow> (jm_set (partial_id v) (fst (update_stream env v s)) (fst acc), snd acc \<or> snd (update_stream env v s)))"

definition stream_over :: "view_item list \<Rightarrow> stream_state \<Rightarrow> bool" where
  "stream_over items s = (\<not> ss_seen s \<and> \<not> is_formal items (ss_partial s) \<or> is_formal items (ss_partial s) \<and> is_drained s)"

definition mark_unseen :: "(string, stream_state) js_map \<Rightarrow> (string, stream_state) js_map" where
  "mark_unseen streams = map (\<lambda>(k, s). (k, s \<lparr> ss_seen := False \<rparr>)) streams"

definition ingest :: "display_env \<Rightarrow> view_item list \<Rightarrow> display \<Rightarrow> display \<times> display_change" where
  "ingest env items d =
     (let changed = \<not> same_non_stream_tokens env (di_tokens d) (non_stream_tokens items);
          merged = fold (ingest_partial env) (jm_values (current_partials items)) (mark_unseen (di_streams d), changed);
          d1 = d \<lparr> di_authoritative := items, di_streams := filter (\<lambda>(k, s). \<not> stream_over items s) (fst merged) \<rparr>
      in if snd merged \<or> list_ex (stream_over items) (jm_values (fst merged))
         then rebuild env (di_displayed d) True d1 else (d1, unchanged d1))"

definition whole_stream :: "display_env \<Rightarrow> partial_view \<Rightarrow> stream_state" where
  "whole_stream env v =
     (let target = partial_text (pv_partial v); graphemes = dv_segment env target
      in \<lparr> ss_partial = v, ss_target = target, ss_graphemes = graphemes, ss_count = length graphemes,
           ss_visible = target, ss_ticks = DRAIN_TICKS, ss_seen = True \<rparr>)"

definition reset_display :: "display_env \<Rightarrow> view_item list \<Rightarrow> display \<Rightarrow> display \<times> display_change" where
  "reset_display env items d =
     (let streams = fold (\<lambda>v. jm_set (partial_id v) (whole_stream env v)) (partials_of items) []
      in rebuild env (di_displayed d) True
           (d \<lparr> di_authoritative := items, di_streams := filter (\<lambda>(k, s). \<not> is_formal items (ss_partial s)) streams \<rparr>))"

section \<open>A tick\<close>

text \<open>\<open>Math.ceil(backlog / ticksLeft)\<close> of two small positive integers.\<close>

definition release_count :: "stream_state \<Rightarrow> nat" where
  "release_count s =
     (let backlog = length (ss_graphemes s) - ss_count s; left = max 1 (DRAIN_TICKS + 1 - Suc (ss_ticks s))
      in min MAX_RELEASE_PER_TICK (max 1 ((backlog + left - 1) div left)))"

definition advance_stream :: "stream_state \<Rightarrow> stream_state" where
  "advance_stream s =
     (if ss_count s < length (ss_graphemes s) then
        (let s1 = s \<lparr> ss_ticks := Suc (ss_ticks s), ss_count := min (length (ss_graphemes s)) (ss_count s + release_count s) \<rparr>
         in s1 \<lparr> ss_visible := expected_visible s1 \<rparr>)
      else s \<lparr> ss_visible := expected_visible s \<rparr>)"

definition stream_moves :: "stream_state \<Rightarrow> bool" where
  "stream_moves s = (ss_count s < length (ss_graphemes s) \<or> ss_visible s \<noteq> expected_visible s)"

definition advance :: "display_env \<Rightarrow> display \<Rightarrow> display \<times> display_change" where
  "advance env d =
     (let streams = map (\<lambda>(k, s). (k, advance_stream s)) (di_streams d);
          over = (\<lambda>s. is_formal (di_authoritative d) (ss_partial s) \<and> is_drained s);
          d1 = d \<lparr> di_streams := filter (\<lambda>(k, s). \<not> over s) streams \<rparr>
      in if list_ex stream_moves (jm_values (di_streams d)) \<or> list_ex over (jm_values streams)
         then rebuild env (di_displayed d) True d1 else (d1, unchanged d1))"

section \<open>The machine\<close>

datatype display_event = DsIngest "view_item list" | DsReset "view_item list" | DsAdvance

fun display_call :: "display_env \<Rightarrow> display \<Rightarrow> display_event \<Rightarrow> display \<times> display_change" where
  "display_call env d (DsIngest items) = ingest env items d"
| "display_call env d (DsReset items) = reset_display env items d"
| "display_call env d DsAdvance = advance env d"

definition display_step :: "display \<Rightarrow> display_env \<times> display_event \<Rightarrow> display" where
  "display_step d i = fst (display_call (fst i) d (snd i))"

section \<open>Graphemes and cursors\<close>

text \<open>
  What the buffer relies on: the segments of a text make up the text, and objects that are the same
  are equal.
\<close>

definition env_ok :: "display_env \<Rightarrow> bool" where
  "env_ok env \<longleftrightarrow> (\<forall>t. concat (dv_segment env t) = t) \<and> (\<forall>a b. dv_same_event env a b \<longrightarrow> a = b)
     \<and> (\<forall>a b. dv_same_images env a b \<longrightarrow> a = b)"

text \<open>What is visible is the beginning of the text, and all of it where nothing streams.\<close>

definition good_stream :: "stream_state \<Rightarrow> bool" where
  "good_stream s \<longleftrightarrow> concat (ss_graphemes s) = ss_target s \<and> ss_target s = partial_text (pv_partial (ss_partial s))
     \<and> prefix (ss_visible s) (ss_target s) \<and> ss_count s \<le> length (ss_graphemes s)
     \<and> (streams_immediately (pv_partial (ss_partial s)) \<longrightarrow> is_drained s)"

lemma prefix_concat_take: "prefix (concat (take n xss)) (concat xss)"
proof -
  have "concat xss = concat (take n xss) @ concat (drop n xss)" by (simp add: concat_append [symmetric] del: concat_append)
  then show ?thesis by (auto simp: prefix_def)
qed

lemma segments: "env_ok env \<Longrightarrow> concat (dv_segment env t) = t"
  by (simp add: env_ok_def)

lemma concat_appended:
  assumes "env_ok env" and "concat (ss_graphemes s) = ss_target s" and "prefix (ss_target s) target"
  shows "concat (append_target_graphemes env s target) = target"
proof -
  from assms(3) obtain rest where rest: "target = ss_target s @ rest" by (auto simp: prefix_def)
  show ?thesis
  proof (cases "ss_graphemes s" rule: rev_cases)
    case Nil
    with assms rest show ?thesis by (simp add: append_target_graphemes_def segments)
  next
    case (snoc gs g)
    with assms(2) have "concat gs @ g = ss_target s" by simp
    with snoc assms(1) rest show ?thesis by (simp add: append_target_graphemes_def segments)
  qed
qed

lemma good_new: "env_ok env \<Longrightarrow> good_stream (new_stream env v)"
proof -
  assume ok: "env_ok env"
  let ?t = "partial_text (pv_partial v)"
  have "prefix (concat (take n (dv_segment env ?t))) ?t" for n
    using prefix_concat_take [of n "dv_segment env ?t"] by (simp add: segments [OF ok])
  then show ?thesis by (simp add: good_stream_def new_stream_def Let_def segments [OF ok] is_drained_def)
qed

lemma good_whole: "env_ok env \<Longrightarrow> good_stream (whole_stream env v)"
  by (simp add: good_stream_def whole_stream_def Let_def segments is_drained_def)

lemma good_update:
  assumes ok: "env_ok env" and good: "good_stream s"
  shows "good_stream (fst (update_stream env v s))"
proof -
  let ?t = "partial_text (pv_partial v)"
  consider "ss_target s \<noteq> ?t \<and> streams_immediately (pv_partial v)"
    | "ss_target s \<noteq> ?t \<and> \<not> streams_immediately (pv_partial v) \<and> prefix (ss_target s) ?t"
    | "ss_target s \<noteq> ?t \<and> \<not> streams_immediately (pv_partial v) \<and> \<not> prefix (ss_target s) ?t"
    | "ss_target s = ?t \<and> streams_immediately (pv_partial v) \<and> \<not> streams_immediately (pv_partial (ss_partial s))"
    | "ss_target s = ?t \<and> (streams_immediately (pv_partial v) \<longrightarrow> streams_immediately (pv_partial (ss_partial s)))"
    by blast
  then show ?thesis
  proof cases
    case 1
    then show ?thesis by (simp add: update_stream_def retarget_def Let_def good_stream_def segments [OF ok] is_drained_def)
  next
    case 2
    then have "prefix (ss_visible s) ?t" using good by (auto simp: good_stream_def intro: prefix_order.trans)
    with 2 good show ?thesis
      by (simp add: update_stream_def retarget_def Let_def good_stream_def concat_appended [OF ok])
  next
    case 3
    have "prefix (concat (take n (dv_segment env ?t))) ?t" for n
      using prefix_concat_take [of n "dv_segment env ?t"] by (simp add: segments [OF ok])
    with 3 show ?thesis by (simp add: update_stream_def retarget_def Let_def good_stream_def segments [OF ok])
  next
    case 4
    with good show ?thesis by (simp add: update_stream_def retarget_def Let_def good_stream_def is_drained_def)
  next
    case 5
    then have "retarget env v s = (s, False)" by (auto simp: retarget_def Let_def)
    with 5 good show ?thesis by (auto simp: update_stream_def good_stream_def is_drained_def)
  qed
qed

lemma update_partial [simp]: "ss_partial (fst (update_stream env v s)) = v" "ss_seen (fst (update_stream env v s))"
  by (simp_all add: update_stream_def split: prod.split)

text \<open>An update that needs no new view shows the same text.\<close>

lemma update_same_text: "\<not> snd (update_stream env v s) \<Longrightarrow> ss_visible (fst (update_stream env v s)) = ss_visible s"
  by (auto simp: update_stream_def retarget_def Let_def split: if_splits)

lemma expected_all: "good_stream s \<Longrightarrow> length (ss_graphemes s) \<le> ss_count s \<Longrightarrow> expected_visible s = ss_target s"
  by (simp add: good_stream_def expected_visible_def)

lemma advance_fields [simp]:
  "ss_partial (advance_stream s) = ss_partial s" "ss_seen (advance_stream s) = ss_seen s"
  "ss_target (advance_stream s) = ss_target s" "ss_graphemes (advance_stream s) = ss_graphemes s"
  by (simp_all add: advance_stream_def Let_def)

lemma advance_visible: "ss_visible (advance_stream s) = expected_visible (advance_stream s)"
  by (simp add: advance_stream_def Let_def expected_visible_def)

lemma advance_count: "ss_count s \<le> length (ss_graphemes s) \<Longrightarrow>
    ss_count (advance_stream s) \<le> length (ss_graphemes s) \<and> ss_count s \<le> ss_count (advance_stream s)"
  by (simp add: advance_stream_def Let_def)

lemma good_advance:
  assumes "good_stream s"
  shows "good_stream (advance_stream s)"
proof -
  have "prefix (expected_visible x) (ss_target s)" if "ss_graphemes x = ss_graphemes s" for x
    using prefix_concat_take [of "ss_count x" "ss_graphemes s"] assms that by (simp add: expected_visible_def good_stream_def)
  then have pre: "prefix (ss_visible (advance_stream s)) (ss_target s)" by (simp add: advance_visible)
  have drained: "is_drained (advance_stream s)" if "is_drained s"
    using that assms by (simp add: is_drained_def advance_stream_def expected_all)
  show ?thesis
    using assms pre drained advance_count [of s] by (simp add: good_stream_def)
qed

lemma advance_idle: "\<not> stream_moves s \<Longrightarrow> advance_stream s = s"
  by (simp add: stream_moves_def advance_stream_def)

subsection \<open>Catching up\<close>

lemma release_spec:
  assumes "ss_count s < length (ss_graphemes s)"
  shows "ss_count (advance_stream s) = min (length (ss_graphemes s)) (ss_count s + release_count s)"
  using assms by (simp add: advance_stream_def Let_def)

text \<open>With \<open>n\<close> ticks left of which the drain window has \<open>left\<close>, a tick leaves what \<open>n - 1\<close> ticks can show.\<close>

lemma release_enough:
  assumes "ss_count s < length (ss_graphemes s)" and "length (ss_graphemes s) - ss_count s \<le> 64 * Suc n" and "8 \<le> ss_ticks s + Suc n"
  shows "length (ss_graphemes s) - ss_count s \<le> 64 * n + release_count s"
proof -
  define b where "b = length (ss_graphemes s) - ss_count s"
  define left where "left = max 1 (8 - ss_ticks s)"
  have left: "1 \<le> left" "left \<le> Suc n" "left = max 1 (DRAIN_TICKS + 1 - Suc (ss_ticks s))"
    using assms(3) by (auto simp: left_def DRAIN_TICKS_def)
  let ?c = "(b + left - 1) div left"
  have r: "release_count s = min 64 (max 1 ?c)"
    by (simp add: release_count_def Let_def b_def left(3) MAX_RELEASE_PER_TICK_def)
  show ?thesis
  proof (cases "?c < 64")
    case True
    have "b \<le> left * ?c"
    proof -
      have "b + left - 1 < left * Suc ?c" using left(1) dividend_less_times_div [of left "b + left - 1"] by simp
      with left(1) show ?thesis by (simp add: algebra_simps)
    qed
    then have small: "b \<le> (left - 1) * ?c + ?c" using left(1) by (cases left) (simp_all add: algebra_simps)
    have "(left - 1) * ?c \<le> n * 64" using True left(2) by (intro mult_mono) simp_all
    with small have "b \<le> n * 64 + ?c" by linarith
    moreover have "?c \<le> release_count s" using True r by simp
    ultimately have "b \<le> 64 * n + release_count s" by linarith
    then show ?thesis by (simp add: b_def)
  next
    case False
    with r assms(2) show ?thesis by (simp add: b_def)
  qed
qed

lemma advance_ticks: "ss_count s < length (ss_graphemes s) \<Longrightarrow> ss_ticks (advance_stream s) = Suc (ss_ticks s)"
  by (simp add: advance_stream_def Let_def)

lemma advances_all:
  assumes "length (ss_graphemes s) - ss_count s \<le> 64 * n" and "8 \<le> ss_ticks s + n \<or> length (ss_graphemes s) \<le> ss_count s"
  shows "length (ss_graphemes s) \<le> ss_count ((advance_stream ^^ n) s)"
  using assms
proof (induction n arbitrary: s)
  case (Suc n)
  have step: "(advance_stream ^^ Suc n) s = (advance_stream ^^ n) (advance_stream s)" by (simp add: funpow_swap1)
  show ?case
  proof (cases "ss_count s < length (ss_graphemes s)")
    case True
    with Suc.prems have r: "length (ss_graphemes s) - ss_count s \<le> 64 * n + release_count s"
      by (intro release_enough) auto
    have "length (ss_graphemes s) - ss_count (advance_stream s) \<le> 64 * n"
      using r unfolding release_spec [OF True] by linarith
    moreover have "8 \<le> ss_ticks (advance_stream s) + n" using Suc.prems(2) True by (simp add: advance_ticks)
    ultimately show ?thesis using Suc.IH [of "advance_stream s"] step by simp
  next
    case False
    then have "length (ss_graphemes s) \<le> ss_count (advance_stream s)" by (simp add: advance_stream_def)
    then show ?thesis using Suc.IH [of "advance_stream s"] step by simp
  qed
qed simp

lemma advances_good: "good_stream s \<Longrightarrow> good_stream ((advance_stream ^^ n) s)"
  by (induction n) (simp_all add: good_advance)

lemma advances_fields [simp]:
  "ss_partial ((advance_stream ^^ n) s) = ss_partial s" "ss_seen ((advance_stream ^^ n) s) = ss_seen s"
  "ss_target ((advance_stream ^^ n) s) = ss_target s" "ss_graphemes ((advance_stream ^^ n) s) = ss_graphemes s"
  by (induction n) simp_all

lemma advances_drained:
  assumes "good_stream s" and "length (ss_graphemes s) - ss_count s \<le> 64 * n" and "8 \<le> n"
  shows "is_drained ((advance_stream ^^ n) s)"
proof -
  let ?s = "(advance_stream ^^ n) s"
  have count: "length (ss_graphemes ?s) \<le> ss_count ?s" using advances_all [of s n] assms(2, 3) by simp
  obtain m where "n = Suc m" using assms(3) by (cases n) auto
  then have "ss_visible ?s = expected_visible ?s" by (simp add: advance_visible)
  also have "\<dots> = ss_target ?s" by (rule expected_all [OF advances_good [OF assms(1)] count])
  finally show ?thesis using count by (simp add: is_drained_def)
qed

section \<open>What the view shows\<close>

definition same_lane :: "partial_view \<Rightarrow> partial_view \<Rightarrow> bool" where
  "same_lane v w \<longleftrightarrow> field ''group_id'' (pv_partial v) = field ''group_id'' (pv_partial w)
     \<and> str_field ''kind'' (pv_partial v) = str_field ''kind'' (pv_partial w)"

text \<open>The timeline has one partial for each id, and an id stays with its group and kind.\<close>

fun display_adm :: "display \<Rightarrow> display_env \<times> display_event \<Rightarrow> bool" where
  "display_adm d (env, DsIngest items) \<longleftrightarrow> env_ok env \<and> distinct (map partial_id (partials_of items))
     \<and> list_all (\<lambda>v. case jm_get (di_streams d) (partial_id v) of None \<Rightarrow> True | Some s \<Rightarrow> same_lane v (ss_partial s)) (partials_of items)"
| "display_adm d (env, DsReset items) \<longleftrightarrow> env_ok env \<and> distinct (map partial_id (partials_of items))"
| "display_adm d (env, DsAdvance) \<longleftrightarrow> True"

definition streams_ok :: "view_item list \<Rightarrow> (string, stream_state) js_map \<Rightarrow> bool" where
  "streams_ok items streams \<longleftrightarrow> jm_ok streams \<and> (\<forall>k s. jm_get streams k = Some s \<longrightarrow>
     partial_id (ss_partial s) = k \<and> good_stream s \<and> \<not> stream_over items s
     \<and> (ss_seen s \<longrightarrow> ss_partial s \<in> set (partials_of items)))"

definition covered :: "view_item list \<Rightarrow> (string, stream_state) js_map \<Rightarrow> bool" where
  "covered items streams \<longleftrightarrow> (\<forall>v \<in> set (partials_of items).
     is_formal items v \<or> (\<exists>s. jm_get streams (partial_id v) = Some s \<and> ss_seen s \<and> ss_partial s = v))"

definition hides :: "(string, stream_state) js_map \<Rightarrow> json \<Rightarrow> bool" where
  "hides streams e \<longleftrightarrow> (\<exists>k s. jm_get streams k = Some s \<and> matches_formal (pv_partial (ss_partial s)) e)"

definition view_ok :: "display \<Rightarrow> bool" where
  "view_ok d \<longleftrightarrow> di_tokens d = non_stream_tokens (di_authoritative d)
     \<and> (\<forall>e. VwEvent e \<in> set (di_displayed d) \<longleftrightarrow> VwEvent e \<in> set (di_authoritative d) \<and> \<not> hides (di_streams d) e)
     \<and> (\<forall>t. (\<exists>p. VwPending p \<in> set (di_displayed d) \<and> pending_token_of p = t)
            \<longleftrightarrow> (\<exists>p. VwPending p \<in> set (di_authoritative d) \<and> pending_token_of p = t))
     \<and> (\<forall>v. VwPartial v \<in> set (di_displayed d) \<longrightarrow>
            (\<exists>s. jm_get (di_streams d) (partial_id v) = Some s \<and> partial_text (pv_partial v) = ss_visible s))
     \<and> (\<forall>k s. jm_get (di_streams d) k = Some s \<longrightarrow> (\<exists>v. VwPartial v \<in> set (di_displayed d) \<and> partial_id v = k))"

definition display_inv :: "display \<Rightarrow> bool" where
  "display_inv d \<longleftrightarrow> streams_ok (di_authoritative d) (di_streams d) \<and> covered (di_authoritative d) (di_streams d) \<and> view_ok d"

lemma streams_okD:
  assumes "streams_ok items streams" and "jm_get streams k = Some s"
  shows "partial_id (ss_partial s) = k" and "good_stream s" and "\<not> stream_over items s"
    and "ss_seen s \<Longrightarrow> ss_partial s \<in> set (partials_of items)"
  using assms by (auto simp: streams_ok_def)

lemma set_map_filter: "y \<in> set (List.map_filter f xs) \<longleftrightarrow> (\<exists>x \<in> set xs. f x = Some y)"
  by (induction xs) (auto simp: map_filter_simps split: option.split)

lemma in_partials [simp]: "v \<in> set (partials_of items) \<longleftrightarrow> VwPartial v \<in> set items"
proof -
  have "(case i of VwPartial v \<Rightarrow> Some v | _ \<Rightarrow> None) = Some v \<longleftrightarrow> i = VwPartial v" for i by (cases i) auto
  then show ?thesis by (simp add: partials_of_def set_map_filter)
qed

lemma field_set_member: "k \<noteq> k' \<Longrightarrow> field k (set_member k' v j) = field k j"
  using jm_get_set [of k' v _ k] by (cases j) (auto simp: field_def set_member_def jm_get_def)

lemma field_member_set: "is_record j \<Longrightarrow> field k (set_member k v j) = Some v"
  using jm_get_set [of k v _ k] by (cases j) (auto simp: field_def set_member_def jm_get_def is_record_def)

lemma projected_id [simp]: "partial_id (projected_partial s) = partial_id (ss_partial s)"
  by (simp add: projected_partial_def partial_id_def text_member_def str_field_def field_set_member)

lemma no_record: "\<not> is_record j \<Longrightarrow> set_member k v j = j \<and> field k j = None"
  by (cases j) (simp_all add: is_record_def set_member_def field_def)

lemma projected_text:
  assumes good: "good_stream s"
  shows "partial_text (pv_partial (projected_partial s)) = ss_visible s"
proof (cases "has_blocks (pv_partial (ss_partial s))")
  case True
  with good show ?thesis by (simp add: good_stream_def streams_immediately_def is_drained_def projected_partial_def)
next
  case False
  let ?p = "pv_partial (ss_partial s)"
  have shown: "partial_text (pv_partial (projected_partial s)) = text_member ''delta'' (set_member ''delta'' (JStr (ss_visible s)) ?p)"
    using False by (simp add: projected_partial_def partial_text_def has_blocks_def field_set_member)
  show ?thesis
  proof (cases "is_record ?p")
    case True
    then show ?thesis unfolding shown by (simp add: text_member_def str_field_def field_member_set)
  next
    case bare: False
    then have "partial_text ?p = []" using no_record [OF bare, of "''delta''"] False
      by (simp add: partial_text_def text_member_def str_field_def)
    with good have "ss_visible s = []" by (auto simp: good_stream_def)
    then show ?thesis unfolding shown using no_record [OF bare, of "''delta''"] by (simp add: text_member_def str_field_def)
  qed
qed

lemma in_values: "jm_ok m \<Longrightarrow> s \<in> set (jm_values m) \<longleftrightarrow> (\<exists>k. jm_get m k = Some s)"
  by (force simp: jm_values_def jm_get_Some_iff)

lemma set_snapshot:
  assumes "jm_ok (di_streams d)"
  shows "VwEvent e \<in> set (build_snapshot env d) \<longleftrightarrow> VwEvent e \<in> set (di_authoritative d) \<and> \<not> hides (di_streams d) e"
    and "VwPending p \<in> set (build_snapshot env d) \<longleftrightarrow> VwPending p \<in> set (di_authoritative d)"
    and "VwPartial v \<in> set (build_snapshot env d) \<longleftrightarrow>
      (\<exists>w s. VwPartial w \<in> set (di_authoritative d) \<and> jm_get (di_streams d) (partial_id w) = Some s \<and> v = projected_partial s)
      \<or> (\<exists>k s. jm_get (di_streams d) k = Some s \<and> \<not> ss_seen s \<and> is_formal (di_authoritative d) (ss_partial s) \<and> v = projected_partial s)"
proof -
  have item: "x \<in> set (build_snapshot env d) \<longleftrightarrow> (\<exists>i \<in> set (di_authoritative d). snapshot_item (di_streams d) i = Some x)
      \<or> (\<exists>k s. jm_get (di_streams d) k = Some s \<and> \<not> ss_seen s \<and> is_formal (di_authoritative d) (ss_partial s) \<and> x = VwPartial (projected_partial s))" for x
    by (auto simp: build_snapshot_def set_stable_sort set_map_filter in_values [OF assms])
  have event: "snapshot_item (di_streams d) i = Some (VwEvent e) \<longleftrightarrow> i = VwEvent e \<and> \<not> hides (di_streams d) e" for i
  proof (cases i)
    case (VwEvent e')
    have "list_ex (\<lambda>s. matches_formal (pv_partial (ss_partial s)) e') (jm_values (di_streams d)) \<longleftrightarrow> hides (di_streams d) e'"
      unfolding list_ex_iff Bex_def in_values [OF assms] hides_def by blast
    with VwEvent show ?thesis by (auto simp: snapshot_item_def)
  qed (simp_all add: snapshot_item_def)
  have message: "snapshot_item (di_streams d) i = Some (VwPending p) \<longleftrightarrow> i = VwPending p" for i
    by (cases i) (auto simp: snapshot_item_def)
  have partial: "snapshot_item (di_streams d) i = Some (VwPartial v) \<longleftrightarrow>
      (\<exists>w s. i = VwPartial w \<and> jm_get (di_streams d) (partial_id w) = Some s \<and> v = projected_partial s)" for i
    by (cases i) (auto simp: snapshot_item_def)
  show "VwEvent e \<in> set (build_snapshot env d) \<longleftrightarrow> VwEvent e \<in> set (di_authoritative d) \<and> \<not> hides (di_streams d) e"
    unfolding item event by auto
  show "VwPending p \<in> set (build_snapshot env d) \<longleftrightarrow> VwPending p \<in> set (di_authoritative d)"
    unfolding item message by auto
  show "VwPartial v \<in> set (build_snapshot env d) \<longleftrightarrow>
      (\<exists>w s. VwPartial w \<in> set (di_authoritative d) \<and> jm_get (di_streams d) (partial_id w) = Some s \<and> v = projected_partial s)
      \<or> (\<exists>k s. jm_get (di_streams d) k = Some s \<and> \<not> ss_seen s \<and> is_formal (di_authoritative d) (ss_partial s) \<and> v = projected_partial s)"
    unfolding item partial by auto
qed

lemma rebuilt_fields [simp]:
  "di_authoritative (rebuilt env d) = di_authoritative d" "di_streams (rebuilt env d) = di_streams d"
  "di_displayed (rebuilt env d) = build_snapshot env d" "di_tokens (rebuilt env d) = non_stream_tokens (di_authoritative d)"
  by (simp_all add: rebuilt_def)

lemma rebuilt_shows:
  assumes ok: "streams_ok (di_authoritative d) (di_streams d)"
  shows "view_ok (rebuilt env d)"
proof -
  have map: "jm_ok (di_streams d)" using ok by (simp add: streams_ok_def)
  have partials: "\<exists>s. jm_get (di_streams d) (partial_id v) = Some s \<and> partial_text (pv_partial v) = ss_visible s"
    if "VwPartial v \<in> set (build_snapshot env d)" for v
  proof -
    from that obtain k s where "jm_get (di_streams d) k = Some s" "v = projected_partial s"
      unfolding set_snapshot(3) [OF map] by blast
    with streams_okD [OF ok this(1)] show ?thesis by (auto simp: projected_text)
  qed
  have streams: "\<exists>v. VwPartial v \<in> set (build_snapshot env d) \<and> partial_id v = k" if s: "jm_get (di_streams d) k = Some s" for k s
  proof -
    note sk = streams_okD [OF ok s]
    have "VwPartial (projected_partial s) \<in> set (build_snapshot env d)"
    proof (cases "ss_seen s")
      case True
      then have "VwPartial (ss_partial s) \<in> set (di_authoritative d)" using sk(4) by simp
      then show ?thesis unfolding set_snapshot(3) [OF map] using s sk(1) by blast
    next
      case False
      with sk(3) have "is_formal (di_authoritative d) (ss_partial s)" by (simp add: stream_over_def)
      then show ?thesis unfolding set_snapshot(3) [OF map] using s False by blast
    qed
    with sk(1) show ?thesis by (intro exI [of _ "projected_partial s"]) simp
  qed
  show ?thesis
    unfolding view_ok_def rebuilt_fields set_snapshot(1, 2) [OF map] using partials streams by blast
qed

lemma rebuild_inv:
  "streams_ok (di_authoritative d) (di_streams d) \<Longrightarrow> covered (di_authoritative d) (di_streams d)
   \<Longrightarrow> display_inv (fst (rebuild env previous force d))"
  by (simp add: rebuild_def display_inv_def rebuilt_shows)

section \<open>Every call keeps the view right\<close>

lemma get_map_values: "jm_get (map (\<lambda>(k, s). (k, f s)) m) k = map_option f (jm_get m k)"
  by (induction m) auto

lemma ok_map_values: "jm_ok (map (\<lambda>(k, s). (k, f s)) m) = jm_ok m"
  by (simp add: jm_ok_def case_prod_unfold comp_def)

lemma get_filter_values:
  "jm_ok m \<Longrightarrow> jm_get (filter (\<lambda>(k, s). P s) m) k = (case jm_get m k of None \<Rightarrow> None | Some s \<Rightarrow> if P s then Some s else None)"
  by (simp add: jm_get_filter split: option.split)

lemma fold_set_distinct:
  assumes "distinct (map h vs)"
  shows "fold (\<lambda>v. jm_set (h v) (f v)) vs [] = map (\<lambda>v. (h v, f v)) vs"
proof -
  have "fold (\<lambda>v. jm_set (h v) (f v)) vs m = m @ map (\<lambda>v. (h v, f v)) vs"
    if "distinct (map h vs)" "h ` set vs \<inter> fst ` set m = {}" for m
    using that by (induction vs arbitrary: m) (auto simp: jm_set_absent)
  from this [of "[]"] assms show ?thesis by simp
qed

lemma current_distinct:
  "distinct (map partial_id (partials_of items)) \<Longrightarrow> jm_values (current_partials items) = partials_of items"
  by (simp add: current_partials_def fold_set_distinct [where f = "\<lambda>v. v"] jm_values_def comp_def)

subsection \<open>A tick\<close>

lemma advance_streams_ok:
  assumes ok: "streams_ok items streams" and cov: "covered items streams"
    and streams': "streams' = filter (\<lambda>(k, s). \<not> (is_formal items (ss_partial s) \<and> is_drained s)) (map (\<lambda>(k, s). (k, advance_stream s)) streams)"
  shows "streams_ok items streams' \<and> covered items streams'"
proof -
  have map: "jm_ok streams" using ok by (simp add: streams_ok_def)
  then have get: "jm_get streams' k = (case jm_get streams k of None \<Rightarrow> None
      | Some s \<Rightarrow> if is_formal items (ss_partial s) \<and> is_drained (advance_stream s) then None else Some (advance_stream s))" for k
    unfolding streams' by (subst get_filter_values) (auto simp: ok_map_values get_map_values split: option.split)
  have "jm_ok streams'" unfolding streams' using map by (intro jm_ok_filter) (simp add: ok_map_values)
  moreover have "partial_id (ss_partial s') = k \<and> good_stream s' \<and> \<not> stream_over items s'
      \<and> (ss_seen s' \<longrightarrow> ss_partial s' \<in> set (partials_of items))" if "jm_get streams' k = Some s'" for k s'
  proof -
    from that obtain s where s: "jm_get streams k = Some s" "s' = advance_stream s"
      "\<not> (is_formal items (ss_partial s) \<and> is_drained (advance_stream s))"
      unfolding get by (auto split: option.splits if_splits)
    note sk = streams_okD [OF ok s(1)]
    have "\<not> stream_over items s'" using s sk(3) by (auto simp: stream_over_def)
    with s(2) sk show ?thesis by (simp add: good_advance)
  qed
  moreover have "covered items streams'"
    unfolding covered_def
  proof
    fix v assume "v \<in> set (partials_of items)"
    with cov consider "is_formal items v" | s where "jm_get streams (partial_id v) = Some s" "ss_seen s" "ss_partial s = v"
      unfolding covered_def by blast
    then show "is_formal items v \<or> (\<exists>s. jm_get streams' (partial_id v) = Some s \<and> ss_seen s \<and> ss_partial s = v)"
    proof cases
      case 2
      then show ?thesis unfolding get by (cases "is_formal items v") auto
    qed simp
  qed
  ultimately show ?thesis by (simp add: streams_ok_def)
qed

lemma advance_streams:
  "di_streams (fst (advance env d)) = filter (\<lambda>(k, s). \<not> (is_formal (di_authoritative d) (ss_partial s) \<and> is_drained s))
     (map (\<lambda>(k, s). (k, advance_stream s)) (di_streams d))"
  "di_authoritative (fst (advance env d)) = di_authoritative d"
  by (simp_all add: advance_def Let_def rebuild_def)

lemma advance_inv:
  assumes inv: "display_inv d"
  shows "display_inv (fst (advance env d))"
proof -
  let ?streams = "map (\<lambda>(k, s). (k, advance_stream s)) (di_streams d)"
  let ?over = "\<lambda>s. is_formal (di_authoritative d) (ss_partial s) \<and> is_drained s"
  let ?d1 = "d \<lparr> di_streams := filter (\<lambda>(k, s). \<not> ?over s) ?streams \<rparr>"
  let ?moved = "list_ex stream_moves (jm_values (di_streams d)) \<or> list_ex ?over (jm_values ?streams)"
  have ok: "streams_ok (di_authoritative ?d1) (di_streams ?d1)" "covered (di_authoritative ?d1) (di_streams ?d1)"
    using inv advance_streams_ok [of "di_authoritative d" "di_streams d" "di_streams ?d1"] by (simp_all add: display_inv_def)
  show ?thesis
  proof (cases ?moved)
    case True
    have "fst (advance env d) = fst (rebuild env (di_displayed d) True ?d1)"
      unfolding advance_def Let_def if_P [OF True] ..
    with rebuild_inv [OF ok] show ?thesis by simp
  next
    case False
    have "?streams = di_streams d"
      by (rule map_idI) (use False in \<open>auto simp: jm_values_def list_ex_iff advance_idle\<close>)
    moreover have "filter (\<lambda>(k, s). \<not> ?over s) ?streams = ?streams"
      by (rule filter_True) (use False in \<open>auto simp: jm_values_def list_ex_iff\<close>)
    ultimately have "?d1 = d" by simp
    moreover have "fst (advance env d) = ?d1"
      unfolding advance_def Let_def if_not_P [OF False] by simp
    ultimately show ?thesis using inv by simp
  qed
qed

subsection \<open>A reset\<close>

lemma reset_inv:
  assumes env: "env_ok env" and dist: "distinct (map partial_id (partials_of items))"
  shows "display_inv (fst (reset_display env items d))"
proof -
  let ?all = "map (\<lambda>v. (partial_id v, whole_stream env v)) (partials_of items)"
  let ?streams = "filter (\<lambda>(k, s). \<not> is_formal items (ss_partial s)) ?all"
  have part: "ss_partial (whole_stream env v) = v" "ss_seen (whole_stream env v)" for v
    by (simp_all add: whole_stream_def Let_def)
  have map: "jm_ok ?all" using dist by (simp add: jm_ok_def comp_def)
  have get: "jm_get ?all k = Some s \<longleftrightarrow> (\<exists>v. VwPartial v \<in> set items \<and> k = partial_id v \<and> s = whole_stream env v)" for k s
    unfolding jm_get_Some_iff [OF map] by auto
  have "streams_ok items ?streams"
    using map get part env by (auto simp: streams_ok_def jm_ok_filter get_filter_values stream_over_def good_whole split: option.splits if_splits)
  moreover have "covered items ?streams"
    unfolding covered_def
  proof
    fix v assume "v \<in> set (partials_of items)"
    then have "jm_get ?all (partial_id v) = Some (whole_stream env v)" unfolding get by auto
    then show "is_formal items v \<or> (\<exists>s. jm_get ?streams (partial_id v) = Some s \<and> ss_seen s \<and> ss_partial s = v)"
      by (cases "is_formal items v") (simp_all add: get_filter_values [OF map] part)
  qed
  ultimately show ?thesis
    by (simp add: reset_display_def Let_def fold_set_distinct [OF dist] rebuild_inv)
qed

subsection \<open>A new view\<close>

definition merged_stream :: "display_env \<Rightarrow> partial_view \<Rightarrow> stream_state option \<Rightarrow> stream_state" where
  "merged_stream env v old = (case old of None \<Rightarrow> new_stream env v | Some s \<Rightarrow> fst (update_stream env v s))"

definition needs_view :: "display_env \<Rightarrow> partial_view \<Rightarrow> stream_state option \<Rightarrow> bool" where
  "needs_view env v old = (case old of None \<Rightarrow> True | Some s \<Rightarrow> snd (update_stream env v s))"

lemma good_unseen: "good_stream (s \<lparr> ss_seen := b \<rparr>) = good_stream s"
  by (simp add: good_stream_def is_drained_def)

lemma merged_fields [simp]: "ss_partial (merged_stream env v old) = v" "ss_seen (merged_stream env v old)"
  by (simp_all add: merged_stream_def new_stream_def Let_def split: option.split)

lemma good_merged: "env_ok env \<Longrightarrow> (\<And>s. old = Some s \<Longrightarrow> good_stream s) \<Longrightarrow> good_stream (merged_stream env v old)"
  by (simp add: merged_stream_def good_new good_update split: option.split)

lemma ingest_partial_alt:
  "ingest_partial env v acc = (jm_set (partial_id v) (merged_stream env v (jm_get (fst acc) (partial_id v))) (fst acc),
     snd acc \<or> needs_view env v (jm_get (fst acc) (partial_id v)))"
  by (simp add: ingest_partial_def merged_stream_def needs_view_def split: option.split)

lemma merged_spec:
  assumes "distinct (map partial_id vs)"
  shows "(jm_ok (fst acc) \<longrightarrow> jm_ok (fst (fold (ingest_partial env) vs acc)))
    \<and> (\<forall>k. k \<notin> partial_id ` set vs \<longrightarrow> jm_get (fst (fold (ingest_partial env) vs acc)) k = jm_get (fst acc) k)
    \<and> (\<forall>v \<in> set vs. jm_get (fst (fold (ingest_partial env) vs acc)) (partial_id v)
        = Some (merged_stream env v (jm_get (fst acc) (partial_id v))))
    \<and> snd (fold (ingest_partial env) vs acc) = (snd acc \<or> (\<exists>v \<in> set vs. needs_view env v (jm_get (fst acc) (partial_id v))))"
  using assms
proof (induction vs arbitrary: acc)
  case (Cons v vs)
  let ?acc = "ingest_partial env v acc"
  have get: "jm_get (fst ?acc) k = (if partial_id v = k then Some (merged_stream env v (jm_get (fst acc) (partial_id v))) else jm_get (fst acc) k)" for k
    by (simp add: ingest_partial_alt)
  have other: "jm_get (fst ?acc) (partial_id w) = jm_get (fst acc) (partial_id w)" if "w \<in> set vs" for w
    using Cons.prems that unfolding get by auto
  have new: "partial_id v \<notin> partial_id ` set vs" using Cons.prems by simp
  let ?F = "fold (ingest_partial env) vs ?acc"
  have "distinct (map partial_id vs)" using Cons.prems by simp
  note ih = Cons.IH [OF this, of ?acc]
  have fold: "fold (ingest_partial env) (v # vs) acc = ?F" by simp
  have "jm_ok (fst acc) \<Longrightarrow> jm_ok (fst ?acc)" and needs: "snd ?acc = (snd acc \<or> needs_view env v (jm_get (fst acc) (partial_id v)))"
    by (simp_all add: ingest_partial_alt)
  then have ok: "jm_ok (fst acc) \<longrightarrow> jm_ok (fst ?F)" using ih by blast
  have "jm_get (fst ?F) k = jm_get (fst acc) k" if "k \<notin> partial_id ` set (v # vs)" for k
  proof -
    have "k \<notin> partial_id ` set vs" using that by simp
    then have "jm_get (fst ?F) k = jm_get (fst ?acc) k" using ih by blast
    with that show ?thesis unfolding get by auto
  qed
  moreover have "jm_get (fst ?F) (partial_id w) = Some (merged_stream env w (jm_get (fst acc) (partial_id w)))" if "w \<in> set (v # vs)" for w
  proof (cases "w \<in> set vs")
    case True
    with ih have "jm_get (fst ?F) (partial_id w) = Some (merged_stream env w (jm_get (fst ?acc) (partial_id w)))" by blast
    then show ?thesis unfolding other [OF True] .
  next
    case False
    with that have w: "w = v" by simp
    have "jm_get (fst ?F) (partial_id v) = jm_get (fst ?acc) (partial_id v)" using ih new by blast
    then show ?thesis unfolding w get by simp
  qed
  moreover have "snd ?F = (snd acc \<or> (\<exists>w \<in> set (v # vs). needs_view env w (jm_get (fst acc) (partial_id w))))"
  proof -
    have "snd ?F = (snd ?acc \<or> (\<exists>w \<in> set vs. needs_view env w (jm_get (fst ?acc) (partial_id w))))" using ih by blast
    also have "(\<exists>w \<in> set vs. needs_view env w (jm_get (fst ?acc) (partial_id w))) = (\<exists>w \<in> set vs. needs_view env w (jm_get (fst acc) (partial_id w)))"
      by (rule bex_cong [OF refl]) (simp only: other)
    finally show ?thesis unfolding needs by auto
  qed
  ultimately show ?case using ok unfolding fold by blast
qed simp

lemma same_tokens_eq:
  assumes "env_ok env" and "same_non_stream_tokens env as bs"
  shows "as = bs"
proof -
  have "same_token env a b \<Longrightarrow> a = b" for a b
  proof -
    have events: "dv_same_event env e e' \<Longrightarrow> e = e'" and images: "dv_same_images env i i' \<Longrightarrow> i = i'" for e e' i i'
      using assms(1) unfolding env_ok_def by blast+
    show "same_token env a b \<Longrightarrow> a = b" by (cases a; cases b) (auto dest: events images)
  qed
  then have "list_all2 (=) as bs"
    using assms(2) unfolding same_non_stream_tokens_def by (rule list_all2_mono [rotated])
  then show ?thesis by (simp add: list_all2_eq)
qed

lemma in_tokens:
  "TkEvent i e \<in> set (non_stream_tokens items) \<longleftrightarrow> VwEvent e \<in> set items \<and> i = text_member ''event_id'' e"
  "TkPending t \<in> set (non_stream_tokens items) \<longleftrightarrow> (\<exists>p. VwPending p \<in> set items \<and> pending_token_of p = t)"
proof -
  have "token_of x = Some (TkEvent i e) \<longleftrightarrow> x = VwEvent e \<and> i = text_member ''event_id'' e"
    "token_of x = Some (TkPending t) \<longleftrightarrow> (\<exists>p. x = VwPending p \<and> pending_token_of p = t)" for x
    by (cases x; auto)+
  then show "TkEvent i e \<in> set (non_stream_tokens items) \<longleftrightarrow> VwEvent e \<in> set items \<and> i = text_member ''event_id'' e"
    "TkPending t \<in> set (non_stream_tokens items) \<longleftrightarrow> (\<exists>p. VwPending p \<in> set items \<and> pending_token_of p = t)"
    unfolding non_stream_tokens_def set_map_filter by auto
qed

text \<open>A view that is not built again: streams with the same ids, lanes and visible texts.\<close>

lemma view_ok_same:
  assumes "view_ok d" and tokens: "non_stream_tokens items = non_stream_tokens (di_authoritative d)"
    and rel: "\<And>k. rel_option (\<lambda>s s'. same_lane (ss_partial s') (ss_partial s) \<and> ss_visible s' = ss_visible s)
      (jm_get (di_streams d) k) (jm_get streams k)"
  shows "view_ok (d \<lparr> di_authoritative := items, di_streams := streams \<rparr>)"
proof -
  have backward: "\<exists>s. jm_get (di_streams d) k = Some s \<and> same_lane (ss_partial s') (ss_partial s) \<and> ss_visible s' = ss_visible s"
    if "jm_get streams k = Some s'" for k s'
    using rel [of k] that by (cases "jm_get (di_streams d) k") auto
  have forth: "\<exists>s'. jm_get streams k = Some s' \<and> same_lane (ss_partial s') (ss_partial s) \<and> ss_visible s' = ss_visible s"
    if "jm_get (di_streams d) k = Some s" for k s
    using rel [of k] that by (cases "jm_get streams k") auto
  have lane: "same_lane v w \<Longrightarrow> matches_formal (pv_partial v) e = matches_formal (pv_partial w) e" for v w e
    by (simp add: same_lane_def matches_formal_def)
  have hides: "hides streams e = hides (di_streams d) e" for e
  proof
    assume "hides streams e"
    then obtain k s' where s': "jm_get streams k = Some s'" "matches_formal (pv_partial (ss_partial s')) e" by (auto simp: hides_def)
    from backward [OF s'(1)] obtain s where "jm_get (di_streams d) k = Some s" "same_lane (ss_partial s') (ss_partial s)" by blast
    with s'(2) lane [OF this(2), of e] show "hides (di_streams d) e" by (auto simp: hides_def)
  next
    assume "hides (di_streams d) e"
    then obtain k s where s: "jm_get (di_streams d) k = Some s" "matches_formal (pv_partial (ss_partial s)) e" by (auto simp: hides_def)
    from forth [OF s(1)] obtain s' where "jm_get streams k = Some s'" "same_lane (ss_partial s') (ss_partial s)" by blast
    with s(2) lane [OF this(2), of e] show "hides streams e" by (auto simp: hides_def)
  qed
  have events: "VwEvent e \<in> set items \<longleftrightarrow> VwEvent e \<in> set (di_authoritative d)" for e
    using in_tokens(1) [of "text_member ''event_id'' e" e] tokens by metis
  have messages: "(\<exists>p. VwPending p \<in> set items \<and> pending_token_of p = t)
      \<longleftrightarrow> (\<exists>p. VwPending p \<in> set (di_authoritative d) \<and> pending_token_of p = t)" for t
    unfolding in_tokens(2) [symmetric] tokens ..
  have partials: "\<exists>s. jm_get streams (partial_id v) = Some s \<and> partial_text (pv_partial v) = ss_visible s"
    if "VwPartial v \<in> set (di_displayed d)" for v
  proof -
    from assms(1) that obtain s where "jm_get (di_streams d) (partial_id v) = Some s" "partial_text (pv_partial v) = ss_visible s"
      unfolding view_ok_def by blast
    with forth [OF this(1)] show ?thesis by auto
  qed
  have streams: "\<exists>v. VwPartial v \<in> set (di_displayed d) \<and> partial_id v = k" if "jm_get streams k = Some s'" for k s'
    using backward [OF that] assms(1) unfolding view_ok_def by blast
  have "view_ok d \<Longrightarrow> VwEvent e \<in> set (di_displayed d) \<longleftrightarrow> VwEvent e \<in> set items \<and> \<not> hides streams e" for e
    unfolding view_ok_def hides events by blast
  moreover have "view_ok d \<Longrightarrow> (\<exists>p. VwPending p \<in> set (di_displayed d) \<and> pending_token_of p = t)
      \<longleftrightarrow> (\<exists>p. VwPending p \<in> set items \<and> pending_token_of p = t)" for t
    unfolding view_ok_def messages by blast
  moreover have "di_tokens d = non_stream_tokens items" using assms(1) tokens by (simp add: view_ok_def)
  ultimately show ?thesis
    using assms(1) partials streams unfolding view_ok_def [of "d \<lparr> di_authoritative := items, di_streams := streams \<rparr>"]
    by simp
qed

lemma ingest_inv:
  assumes inv: "display_inv d" and adm: "display_adm d (env, DsIngest items)"
  shows "display_inv (fst (ingest env items d))"
proof -
  have env: "env_ok env" and dist: "distinct (map partial_id (partials_of items))" using adm by simp_all
  define vs where "vs = partials_of items"
  define acc where "acc = (mark_unseen (di_streams d), \<not> same_non_stream_tokens env (di_tokens d) (non_stream_tokens items))"
  define merged where "merged = fold (ingest_partial env) vs acc"
  define d1 where "d1 = d \<lparr> di_authoritative := items, di_streams := filter (\<lambda>(k, s). \<not> stream_over items s) (fst merged) \<rparr>"
  have old: "streams_ok (di_authoritative d) (di_streams d)" using inv by (simp add: display_inv_def)
  then have ok0: "jm_ok (fst acc)" by (simp add: acc_def streams_ok_def mark_unseen_def ok_map_values)
  have get0: "jm_get (fst acc) k = map_option (\<lambda>s. s \<lparr> ss_seen := False \<rparr>) (jm_get (di_streams d) k)" for k
    by (simp add: acc_def mark_unseen_def get_map_values)
  have good0: "good_stream s \<and> partial_id (ss_partial s) = k \<and> \<not> ss_seen s" if "jm_get (fst acc) k = Some s" for k s
  proof -
    from that obtain s0 where s0: "jm_get (di_streams d) k = Some s0" "s = s0 \<lparr> ss_seen := False \<rparr>"
      unfolding get0 by auto
    from streams_okD(1, 2) [OF old s0(1)] show ?thesis by (simp add: s0(2) good_unseen)
  qed
  have spec: "jm_ok (fst merged)"
    "\<And>k. k \<notin> partial_id ` set vs \<Longrightarrow> jm_get (fst merged) k = jm_get (fst acc) k"
    "\<And>v. v \<in> set vs \<Longrightarrow> jm_get (fst merged) (partial_id v) = Some (merged_stream env v (jm_get (fst acc) (partial_id v)))"
    "snd merged = (snd acc \<or> (\<exists>v \<in> set vs. needs_view env v (jm_get (fst acc) (partial_id v))))"
    using merged_spec [OF dist, of acc env] ok0 unfolding merged_def vs_def by blast+
  have entry: "(\<exists>v \<in> set vs. k = partial_id v \<and> s = merged_stream env v (jm_get (fst acc) k))
      \<or> (k \<notin> partial_id ` set vs \<and> jm_get (fst acc) k = Some s)" if "jm_get (fst merged) k = Some s" for k s
    using that spec(2) [of k] spec(3) by (cases "k \<in> partial_id ` set vs") auto
  have get1: "jm_get (di_streams d1) k = (case jm_get (fst merged) k of None \<Rightarrow> None | Some s \<Rightarrow> if \<not> stream_over items s then Some s else None)" for k
    unfolding d1_def by (simp add: get_filter_values [OF spec(1)])
  have "jm_ok (di_streams d1)" unfolding d1_def using spec(1) by (simp add: jm_ok_filter)
  moreover have "partial_id (ss_partial s) = k \<and> good_stream s \<and> \<not> stream_over items s
      \<and> (ss_seen s \<longrightarrow> ss_partial s \<in> set (partials_of items))" if "jm_get (di_streams d1) k = Some s" for k s
  proof -
    from that have s: "jm_get (fst merged) k = Some s" "\<not> stream_over items s" unfolding get1 by (auto split: option.splits if_splits)
    from entry [OF s(1)] show ?thesis
    proof
      assume "\<exists>v \<in> set vs. k = partial_id v \<and> s = merged_stream env v (jm_get (fst acc) k)"
      then obtain v where v: "v \<in> set vs" "k = partial_id v" "s = merged_stream env v (jm_get (fst acc) k)" by blast
      have "good_stream s" unfolding v(3) by (rule good_merged [OF env]) (use good0 in blast)
      with v s(2) show ?thesis by (simp add: vs_def)
    next
      assume "k \<notin> partial_id ` set vs \<and> jm_get (fst acc) k = Some s"
      with good0 [of k s] s(2) show ?thesis by blast
    qed
  qed
  ultimately have "streams_ok items (di_streams d1)" unfolding streams_ok_def by blast
  then have ok1: "streams_ok (di_authoritative d1) (di_streams d1)" by (simp add: d1_def)
  have cov1: "covered (di_authoritative d1) (di_streams d1)"
    unfolding covered_def
  proof
    fix v assume "v \<in> set (partials_of (di_authoritative d1))"
    then have "v \<in> set vs" by (simp add: d1_def vs_def)
    from spec(3) [OF this] show "is_formal (di_authoritative d1) v
        \<or> (\<exists>s. jm_get (di_streams d1) (partial_id v) = Some s \<and> ss_seen s \<and> ss_partial s = v)"
      unfolding get1 by (auto simp: stream_over_def d1_def)
  qed
  let ?view = "snd merged \<or> list_ex (stream_over items) (jm_values (fst merged))"
  have ingest: "fst (ingest env items d) = (if ?view then fst (rebuild env (di_displayed d) True d1) else d1)"
    by (simp add: ingest_def Let_def current_distinct [OF dist] merged_def vs_def acc_def d1_def)
  show ?thesis
  proof (cases ?view)
    case True
    show ?thesis unfolding ingest if_P [OF True] by (rule rebuild_inv [OF ok1 cov1])
  next
    case False
    have kept: "rel_option (\<lambda>s s'. same_lane (ss_partial s') (ss_partial s) \<and> ss_visible s' = ss_visible s)
        (jm_get (di_streams d) k) (jm_get (di_streams d1) k)" for k
    proof -
      have stays: "jm_get (di_streams d1) k = jm_get (fst merged) k"
      proof (cases "jm_get (fst merged) k")
        case (Some s)
        then have "s \<in> set (jm_values (fst merged))" using in_values [OF spec(1)] by blast
        with False have "\<not> stream_over items s" by (auto simp: list_ex_iff)
        with Some show ?thesis unfolding get1 by simp
      qed (simp add: get1)
      show ?thesis
      proof (cases "k \<in> partial_id ` set vs")
        case True
        then obtain v where v: "v \<in> set vs" "k = partial_id v" by blast
        have "\<not> needs_view env v (jm_get (fst acc) k)" using False spec(4) v by blast
        then obtain s1 where s1: "jm_get (fst acc) k = Some s1" "\<not> snd (update_stream env v s1)"
          by (auto simp: needs_view_def split: option.splits)
        then obtain s0 where s0: "jm_get (di_streams d) k = Some s0" "s1 = s0 \<lparr> ss_seen := False \<rparr>"
          unfolding get0 by auto
        have "same_lane v (ss_partial s0)" using adm v s0(1) by (auto simp: list_all_iff vs_def split: option.splits)
        moreover have "jm_get (fst merged) k = Some (fst (update_stream env v s1))"
          using spec(3) [OF v(1)] v(2) s1(1) by (simp add: merged_stream_def)
        ultimately show ?thesis using s0 update_same_text [OF s1(2)] by (simp add: stays)
      next
        case other: False
        from spec(2) [OF other] show ?thesis
          unfolding stays get0 by (cases "jm_get (di_streams d) k") (simp_all add: same_lane_def)
      qed
    qed
    have "same_non_stream_tokens env (di_tokens d) (non_stream_tokens items)" using False spec(4) by (simp add: acc_def)
    then have "di_tokens d = non_stream_tokens items" by (rule same_tokens_eq [OF env])
    then have "non_stream_tokens items = non_stream_tokens (di_authoritative d)"
      using inv by (simp add: display_inv_def view_ok_def)
    then have "view_ok d1" unfolding d1_def using inv kept
      by (intro view_ok_same) (simp_all add: display_inv_def d1_def)
    with ok1 cov1 show ?thesis unfolding ingest if_not_P [OF False] by (simp add: display_inv_def)
  qed
qed

lemma display_step_keeps: "display_inv d \<Longrightarrow> display_adm d i \<Longrightarrow> display_inv (display_step d i)"
proof -
  assume inv: "display_inv d" and adm: "display_adm d i"
  obtain env e where i: "i = (env, e)" by (cases i)
  show ?thesis
  proof (cases e)
    case (DsIngest items)
    with ingest_inv [OF inv] adm show ?thesis by (simp add: i display_step_def del: display_adm.simps)
  next
    case (DsReset items)
    with reset_inv [of env items d] adm show ?thesis by (simp add: i display_step_def)
  next
    case DsAdvance
    with advance_inv [OF inv] show ?thesis by (simp add: i display_step_def)
  qed
qed

lemma new_display_inv: "display_inv new_display"
  by (simp add: new_display_def display_inv_def streams_ok_def covered_def view_ok_def hides_def non_stream_tokens_def
      partials_of_def map_filter_simps)

interpretation stream_display: invariant_machine display_step display_adm display_inv
  by unfold_locales (rule display_step_keeps)

lemma view_okD:
  assumes "view_ok d"
  shows "VwEvent e \<in> set (di_displayed d) \<longleftrightarrow> VwEvent e \<in> set (di_authoritative d) \<and> \<not> hides (di_streams d) e"
    and "(\<exists>p. VwPending p \<in> set (di_displayed d) \<and> pending_token_of p = t)
      \<longleftrightarrow> (\<exists>p. VwPending p \<in> set (di_authoritative d) \<and> pending_token_of p = t)"
    and "VwPartial v \<in> set (di_displayed d) \<Longrightarrow>
      \<exists>s. jm_get (di_streams d) (partial_id v) = Some s \<and> partial_text (pv_partial v) = ss_visible s"
    and "jm_get (di_streams d) k = Some s \<Longrightarrow> \<exists>v. VwPartial v \<in> set (di_displayed d) \<and> partial_id v = k"
  using assms unfolding view_ok_def by blast+


subsection \<open>Catching up with the timeline\<close>

lemma advances_streams:
  assumes "display_inv d"
  shows "display_inv (run display_step d (map (\<lambda>env. (env, DsAdvance)) envs))
    \<and> di_authoritative (run display_step d (map (\<lambda>env. (env, DsAdvance)) envs)) = di_authoritative d
    \<and> (\<forall>k s'. jm_get (di_streams (run display_step d (map (\<lambda>env. (env, DsAdvance)) envs))) k = Some s'
        \<longrightarrow> (\<exists>s. jm_get (di_streams d) k = Some s \<and> s' = (advance_stream ^^ length envs) s))"
  using assms
proof (induction envs arbitrary: d)
  case (Cons env envs)
  let ?d = "fst (advance env d)"
  have inv: "display_inv ?d" by (rule advance_inv [OF Cons.prems])
  have map: "jm_ok (di_streams d)" using Cons.prems by (simp add: display_inv_def streams_ok_def)
  have step: "\<exists>s. jm_get (di_streams d) k = Some s \<and> s' = advance_stream s" if "jm_get (di_streams ?d) k = Some s'" for k s'
    using that map unfolding advance_streams
    by (subst (asm) get_filter_values) (auto simp: ok_map_values get_map_values split: option.splits if_splits)
  have run: "run display_step d (map (\<lambda>env. (env, DsAdvance)) (env # envs)) = run display_step ?d (map (\<lambda>env. (env, DsAdvance)) envs)"
    by (simp add: display_step_def)
  have "\<exists>s. jm_get (di_streams d) k = Some s \<and> s' = (advance_stream ^^ length (env # envs)) s"
    if "jm_get (di_streams (run display_step ?d (map (\<lambda>env. (env, DsAdvance)) envs))) k = Some s'" for k s'
  proof -
    from Cons.IH [OF inv] that obtain t where t: "jm_get (di_streams ?d) k = Some t" "s' = (advance_stream ^^ length envs) t"
      by blast
    from step [OF t(1)] obtain s where "jm_get (di_streams d) k = Some s" "t = advance_stream s" by blast
    with t(2) show ?thesis by (auto simp: funpow_swap1)
  qed
  with Cons.IH [OF inv] show ?case unfolding run by (simp add: advance_streams(2))
qed simp

text \<open>A view with nothing left to show is the timeline.\<close>

definition shows_all :: "display \<Rightarrow> bool" where
  "shows_all d \<longleftrightarrow> (\<forall>e. VwEvent e \<in> set (di_displayed d) \<longleftrightarrow> VwEvent e \<in> set (di_authoritative d))
    \<and> (\<forall>t. (\<exists>p. VwPending p \<in> set (di_displayed d) \<and> pending_token_of p = t)
        \<longleftrightarrow> (\<exists>p. VwPending p \<in> set (di_authoritative d) \<and> pending_token_of p = t))
    \<and> (\<forall>i t. (\<exists>v. VwPartial v \<in> set (di_displayed d) \<and> partial_id v = i \<and> partial_text (pv_partial v) = t)
        \<longleftrightarrow> (\<exists>v. VwPartial v \<in> set (di_authoritative d) \<and> \<not> is_formal (di_authoritative d) v
              \<and> partial_id v = i \<and> partial_text (pv_partial v) = t))"

lemma drained_stream:
  assumes "display_inv d" and s: "jm_get (di_streams d) k = Some s" and "is_drained s"
  shows "\<not> is_formal (di_authoritative d) (ss_partial s)" and "VwPartial (ss_partial s) \<in> set (di_authoritative d)"
    and "partial_id (ss_partial s) = k" and "ss_visible s = partial_text (pv_partial (ss_partial s))"
proof -
  have "streams_ok (di_authoritative d) (di_streams d)" using assms(1) by (simp add: display_inv_def)
  note sk = streams_okD [OF this s]
  show "\<not> is_formal (di_authoritative d) (ss_partial s)" "VwPartial (ss_partial s) \<in> set (di_authoritative d)"
    using sk(3, 4) assms(3) by (auto simp: stream_over_def)
  show "partial_id (ss_partial s) = k" "ss_visible s = partial_text (pv_partial (ss_partial s))"
    using sk(1, 2) assms(3) by (simp_all add: good_stream_def is_drained_def)
qed

lemma drained_hides:
  assumes inv: "display_inv d" and drained: "\<And>k s. jm_get (di_streams d) k = Some s \<Longrightarrow> is_drained s"
    and e: "VwEvent e \<in> set (di_authoritative d)"
  shows "\<not> hides (di_streams d) e"
proof
  assume "hides (di_streams d) e"
  then obtain k s where s: "jm_get (di_streams d) k = Some s" "matches_formal (pv_partial (ss_partial s)) e"
    by (auto simp: hides_def)
  have "e \<in> set (formal_events (di_authoritative d))" using e by (force simp: formal_events_def set_map_filter)
  with s(2) have "is_formal (di_authoritative d) (ss_partial s)" by (auto simp: is_formal_def list_ex_iff)
  with drained_stream(1) [OF inv s(1) drained [OF s(1)]] show False by blast
qed

lemma drained_shows_all:
  assumes inv: "display_inv d" and drained: "\<And>k s. jm_get (di_streams d) k = Some s \<Longrightarrow> is_drained s"
  shows "\<not> has_pending d" and "shows_all d"
proof -
  have view: "view_ok d" and cov: "covered (di_authoritative d) (di_streams d)" and map: "jm_ok (di_streams d)"
    using inv by (simp_all add: display_inv_def streams_ok_def)
  show "\<not> has_pending d" using drained by (auto simp: has_pending_def list_ex_iff in_values [OF map])
  have shown: "\<exists>w. VwPartial w \<in> set (di_authoritative d) \<and> \<not> is_formal (di_authoritative d) w
      \<and> partial_id w = partial_id v \<and> partial_text (pv_partial w) = partial_text (pv_partial v)"
    if v: "VwPartial v \<in> set (di_displayed d)" for v
  proof -
    from view_okD(3) [OF view v] obtain s where s: "jm_get (di_streams d) (partial_id v) = Some s"
      "partial_text (pv_partial v) = ss_visible s" by blast
    from drained_stream [OF inv s(1) drained [OF s(1)]] s(2) show ?thesis by (intro exI [of _ "ss_partial s"]) simp
  qed
  have all: "\<exists>w. VwPartial w \<in> set (di_displayed d) \<and> partial_id w = partial_id v \<and> partial_text (pv_partial w) = partial_text (pv_partial v)"
    if v: "VwPartial v \<in> set (di_authoritative d)" "\<not> is_formal (di_authoritative d) v" for v
  proof -
    from cov v obtain s where s: "jm_get (di_streams d) (partial_id v) = Some s" "ss_partial s = v"
      by (auto simp: covered_def)
    from view_okD(4) [OF view s(1)] obtain w where w: "VwPartial w \<in> set (di_displayed d)" "partial_id w = partial_id v" by blast
    from view_okD(3) [OF view w(1)] w(2) s(1) have "partial_text (pv_partial w) = ss_visible s" by auto
    with w drained_stream(4) [OF inv s(1) drained [OF s(1)]] s(2) show ?thesis by auto
  qed
  have "\<not> hides (di_streams d) e" if "VwEvent e \<in> set (di_authoritative d)" for e
    using inv drained that by (rule drained_hides)
  then have "VwEvent e \<in> set (di_displayed d) \<longleftrightarrow> VwEvent e \<in> set (di_authoritative d)" for e
    using view_okD(1) [OF view, of e] by blast
  moreover have "(\<exists>v. VwPartial v \<in> set (di_displayed d) \<and> partial_id v = i \<and> partial_text (pv_partial v) = t)
      \<longleftrightarrow> (\<exists>v. VwPartial v \<in> set (di_authoritative d) \<and> \<not> is_formal (di_authoritative d) v
            \<and> partial_id v = i \<and> partial_text (pv_partial v) = t)" for i t
    using shown all by metis
  ultimately show "shows_all d" unfolding shows_all_def using view_okD(2) [OF view] by simp
qed

text \<open>
  C38: The paced view catches up: after eight ticks, or one for each 64 graphemes of the longest
  backlog if that is more, nothing is pending and the view shows what the timeline holds: every
  event, every message of the user as it is, and the whole text of each partial whose event is not
  there.
\<close>

theorem paced_view_catches_up:
  assumes "trace_ok display_step display_adm new_display calls" and "d = run display_step new_display calls"
    and "8 \<le> length envs"
    and "\<forall>s \<in> set (jm_values (di_streams d)). length (ss_graphemes s) - ss_count s \<le> 64 * length envs"
    and "d' = run display_step d (map (\<lambda>env. (env, DsAdvance)) envs)"
  shows "\<not> has_pending d' \<and> di_authoritative d' = di_authoritative d
    \<and> (\<forall>e. VwEvent e \<in> set (di_displayed d') \<longleftrightarrow> VwEvent e \<in> set (di_authoritative d))
    \<and> (\<forall>t. (\<exists>p. VwPending p \<in> set (di_displayed d') \<and> pending_token_of p = t)
        \<longleftrightarrow> (\<exists>p. VwPending p \<in> set (di_authoritative d) \<and> pending_token_of p = t))
    \<and> (\<forall>i t. (\<exists>v. VwPartial v \<in> set (di_displayed d') \<and> partial_id v = i \<and> partial_text (pv_partial v) = t)
        \<longleftrightarrow> (\<exists>v. VwPartial v \<in> set (di_authoritative d) \<and> \<not> is_formal (di_authoritative d) v
              \<and> partial_id v = i \<and> partial_text (pv_partial v) = t))"
proof -
  have inv0: "display_inv d" using stream_display.run_keeps [OF new_display_inv assms(1)] assms(2) by simp
  then have ok0: "streams_ok (di_authoritative d) (di_streams d)" by (simp add: display_inv_def)
  note adv = advances_streams [OF inv0, of envs, folded assms(5)]
  have drained: "is_drained s'" if "jm_get (di_streams d') k = Some s'" for k s'
  proof -
    from adv that obtain s where s: "jm_get (di_streams d) k = Some s" "s' = (advance_stream ^^ length envs) s" by blast
    have "s \<in> set (jm_values (di_streams d))" using s(1) ok0 by (auto simp: in_values streams_ok_def)
    with assms(4) have "length (ss_graphemes s) - ss_count s \<le> 64 * length envs" by blast
    from advances_drained [OF streams_okD(2) [OF ok0 s(1)] this assms(3)] show ?thesis by (simp add: s(2))
  qed
  have "display_inv d'" and auth: "di_authoritative d' = di_authoritative d" using adv by blast+
  from drained_shows_all [OF this(1) drained] show ?thesis unfolding shows_all_def auth by simp
qed

subsection \<open>Witnesses\<close>

definition demo_display_env :: display_env where
  "demo_display_env = \<lparr> dv_segment = map (\<lambda>c. [c]), dv_collate = (\<lambda>a b. 0), dv_same_event = (=), dv_same_images = (=) \<rparr>"

lemma demo_display_env_ok: "env_ok demo_display_env"
  by (simp add: env_ok_def demo_display_env_def)

definition demo_partial :: "string \<Rightarrow> view_item" where
  "demo_partial t = VwPartial \<lparr> pv_partial = JObj [(''partial_id'', JStr ''p1''), (''group_id'', JStr ''g1''),
     (''kind'', JStr ''assistant''), (''delta'', JStr t)], pv_created = 3 \<rparr>"

definition demo_answer :: string where
  "demo_answer = ''Twenty letters here.''"

definition demo_display_calls :: "(display_env \<times> display_event) list" where
  "demo_display_calls = [(demo_display_env, DsIngest [demo_partial ''Twenty'']),
     (demo_display_env, DsAdvance), (demo_display_env, DsIngest [demo_partial demo_answer])]"

lemma demo_display_trace: "trace_ok display_step display_adm new_display demo_display_calls"
proof -
  have "distinct (map partial_id (partials_of [demo_partial t]))" for t
    by (simp add: partials_of_def map_filter_simps demo_partial_def)
  moreover have "jm_get (di_streams (run display_step new_display (take 2 demo_display_calls))) ''p1'' \<noteq> None
    \<and> field ''group_id'' (pv_partial (ss_partial (the (jm_get (di_streams (run display_step new_display (take 2 demo_display_calls))) ''p1'')))) = Some (JStr ''g1'')
    \<and> str_field ''kind'' (pv_partial (ss_partial (the (jm_get (di_streams (run display_step new_display (take 2 demo_display_calls))) ''p1'')))) = Some ''assistant''"
    by code_simp
  moreover have "partials_of [demo_partial t] = [\<lparr> pv_partial = JObj [(''partial_id'', JStr ''p1''), (''group_id'', JStr ''g1''),
     (''kind'', JStr ''assistant''), (''delta'', JStr t)], pv_created = 3 \<rparr>]" for t
    by (simp add: partials_of_def map_filter_simps demo_partial_def)
  ultimately show ?thesis
    by (auto simp: demo_display_calls_def demo_display_env_ok new_display_def partial_id_def text_member_def str_field_def
        field_def same_lane_def)
qed


theorem paced_view_catches_up_witness:
  "\<exists>v. VwPartial v \<in> set (di_displayed (run display_step (run display_step new_display demo_display_calls)
       (map (\<lambda>env. (env, DsAdvance)) (replicate 8 demo_display_env)))) \<and> partial_text (pv_partial v) = demo_answer"
proof -
  let ?d = "run display_step new_display demo_display_calls"
  have len: "8 \<le> length (replicate 8 demo_display_env)" by simp
  have "list_all (\<lambda>s. length (ss_graphemes s) - ss_count s \<le> 64 * 8) (jm_values (di_streams ?d))" by code_simp
  then have backlog: "\<forall>s \<in> set (jm_values (di_streams ?d)). length (ss_graphemes s) - ss_count s \<le> 64 * length (replicate 8 demo_display_env)"
    by (simp add: list_all_iff)
  have auth: "di_authoritative ?d = [demo_partial demo_answer]" by code_simp
  let ?v = "\<lparr> pv_partial = JObj [(''partial_id'', JStr ''p1''), (''group_id'', JStr ''g1''),
     (''kind'', JStr ''assistant''), (''delta'', JStr demo_answer)], pv_created = 3 \<rparr>"
  have "VwPartial ?v \<in> set (di_authoritative ?d)" unfolding auth by (simp add: demo_partial_def)
  moreover have "\<not> is_formal (di_authoritative ?d) ?v"
    unfolding auth by (simp add: is_formal_def formal_events_def map_filter_simps demo_partial_def)
  moreover have "partial_text (pv_partial ?v) = demo_answer"
    by (simp add: partial_text_def has_blocks_def text_member_def str_field_def field_def)
  ultimately show ?thesis
    using paced_view_catches_up [OF demo_display_trace refl len backlog refl] by blast
qed

end
