(* ===== verification/TimelineStore.thy ===== *)
theory TimelineStore
  imports PwaTimeline
begin

text \<open>
  \<open>pwa/src/lib/pwa/timeline-store.ts\<close>: the committed events that the PWA keeps in the browser, at most
  the five latest groups of each session and history generation.

  The database is IndexedDB through Dexie, which the repository does not contain. Its table is a map
  by record id, and a transaction takes effect as a whole. \<open>so_index\<close> is the order in which the
  index on the scope lists the records that match, \<open>so_collate\<close> is \<open>localeCompare\<close>. Timestamps are
  integers (\<open>Date.now()\<close>).
\<close>

record store_scope =
  sp_device :: string
  sp_endpoint :: string
  sp_session :: string
  sp_generation :: string

record store_record =
  sr_id :: string
  sr_scope :: store_scope
  sr_event_id :: string
  sr_group :: string
  sr_time :: int
  sr_event :: json

text \<open>The four scope members of a record are its \<open>sr_scope\<close>.\<close>

type_synonym store_table = "(string, store_record) js_map"

record store_env =
  so_index :: "store_record list \<Rightarrow> store_record list"
  so_collate :: "string \<Rightarrow> string \<Rightarrow> int"

datatype store_error = StConflict string | StScope | StUngrouped

definition MAX_RECENT_GROUPS :: nat where
  "MAX_RECENT_GROUPS = 5"

section \<open>Record ids\<close>

text \<open>\<open>encodeURIComponent\<close> on code units below 256.\<close>

definition is_unreserved :: "char \<Rightarrow> bool" where
  "is_unreserved c = (let n = (of_char c :: nat) in
     (48 \<le> n \<and> n \<le> 57) \<or> (65 \<le> n \<and> n \<le> 90) \<or> (97 \<le> n \<and> n \<le> 122)
     \<or> c \<in> {CHR ''-'', CHR ''_'', CHR ''.'', CHR ''!'', CHR ''~'', CHR ''*'', CHR 0x27, CHR ''('', CHR '')''})"

definition upper_hex :: "nat \<Rightarrow> char" where
  "upper_hex n = (if n < 10 then char_of (48 + n) else char_of (55 + n))"

definition percent_byte :: "byte \<Rightarrow> string" where
  "percent_byte b = [CHR ''%'', upper_hex (unat b div 16), upper_hex (unat b mod 16)]"

definition uri_char :: "char \<Rightarrow> string" where
  "uri_char c = (if is_unreserved c then [c] else concat (map percent_byte (utf8_char c)))"

definition encode_uri_component :: "string \<Rightarrow> string" where
  "encode_uri_component s = concat (map uri_char s)"

fun colon_join :: "string list \<Rightarrow> string" where
  "colon_join [] = []"
| "colon_join [s] = s"
| "colon_join (s # ss) = s @ CHR '':'' # colon_join ss"

definition timeline_event_id :: "store_scope \<Rightarrow> string \<Rightarrow> string" where
  "timeline_event_id scope event_id =
     colon_join (map encode_uri_component
       [sp_device scope, sp_endpoint scope, sp_session scope, sp_generation scope, event_id])"

section \<open>Events\<close>

definition is_persistable :: "json \<Rightarrow> bool" where
  "is_persistable e =
     (let kind = str_field ''kind'' e; status = str_field ''status'' e in
      if field ''group_id'' e = None then False
      else if kind = Some ''user'' then status = Some ''committed''
      else if kind = Some ''assistant'' then status = Some ''complete'' \<or> status = Some ''interrupted''
      else if kind = Some ''tool'' then status = Some ''complete'' \<or> status = Some ''error'' \<or> status = Some ''interrupted''
      else kind = Some ''provider_error'' \<or> kind = Some ''compaction'' \<or> kind = Some ''branch_summary'' \<or> kind = Some ''custom'')"

definition event_group :: "json \<Rightarrow> string option" where
  "event_group e = (if is_persistable e then Some (text_member ''group_id'' e) else None)"

definition event_in_scope :: "store_scope \<Rightarrow> json \<Rightarrow> bool" where
  "event_in_scope scope e = (str_field ''session_id'' e = Some (sp_session scope)
     \<and> str_field ''history_generation'' e = Some (sp_generation scope))"

record grouped_event =
  ge_event :: json
  ge_group :: string
  ge_time :: int

fun to_grouped :: "store_scope \<Rightarrow> json list \<Rightarrow> (store_error, grouped_event list) result" where
  "to_grouped scope [] = Inr []"
| "to_grouped scope (e # es) =
     (if \<not> event_in_scope scope e then Inl StScope
      else case to_grouped scope es of
        Inl err \<Rightarrow> Inl err
      | Inr rest \<Rightarrow> Inr (case event_group e of None \<Rightarrow> rest
          | Some g \<Rightarrow> \<lparr> ge_event = e, ge_group = g, ge_time = int_member ''timestamp'' e \<rparr> # rest))"

definition compare_events :: "store_env \<Rightarrow> grouped_event \<Rightarrow> grouped_event \<Rightarrow> int" where
  "compare_events env a b =
     (let d = ge_time a - ge_time b
      in if d \<noteq> 0 then d else so_collate env (text_member ''event_id'' (ge_event a)) (text_member ''event_id'' (ge_event b)))"

definition latest_by_group :: "grouped_event list \<Rightarrow> (string, int) js_map" where
  "latest_by_group items =
     fold (\<lambda>i m. if (case jm_get m (ge_group i) of None \<Rightarrow> True | Some latest \<Rightarrow> ge_time i > latest)
                  then jm_set (ge_group i) (ge_time i) m else m) items []"

definition compare_groups :: "store_env \<Rightarrow> string \<times> int \<Rightarrow> string \<times> int \<Rightarrow> int" where
  "compare_groups env a b = (let d = snd a - snd b in if d \<noteq> 0 then d else so_collate env (fst a) (fst b))"

text \<open>\<open>slice(-n)\<close>: the last \<open>n\<close>.\<close>

definition last_n :: "nat \<Rightarrow> 'a list \<Rightarrow> 'a list" where
  "last_n n xs = drop (length xs - n) xs"

definition recent_groups :: "store_env \<Rightarrow> grouped_event list \<Rightarrow> string list" where
  "recent_groups env items =
     map fst (last_n MAX_RECENT_GROUPS (stable_sort (compare_groups env) (latest_by_group items)))"

definition recent_of :: "store_env \<Rightarrow> grouped_event list \<Rightarrow> json list" where
  "recent_of env items =
     map ge_event (stable_sort (compare_events env) (filter (\<lambda>i. ge_group i \<in> set (recent_groups env items)) items))"

definition select_recent :: "store_env \<Rightarrow> store_scope \<Rightarrow> json list \<Rightarrow> (store_error, json list) result" where
  "select_recent env scope events =
     (case to_grouped scope events of Inl err \<Rightarrow> Inl err | Inr items \<Rightarrow> Inr (recent_of env items))"

definition to_record :: "store_scope \<Rightarrow> json \<Rightarrow> (store_error, store_record) result" where
  "to_record scope e =
     (case event_group e of
        None \<Rightarrow> Inl StUngrouped
      | Some g \<Rightarrow> Inr \<lparr> sr_id = timeline_event_id scope (text_member ''event_id'' e), sr_scope = scope,
          sr_event_id = text_member ''event_id'' e, sr_group = g, sr_time = int_member ''timestamp'' e, sr_event = e \<rparr>)"

fun to_records :: "store_scope \<Rightarrow> json list \<Rightarrow> (store_error, store_record list) result" where
  "to_records scope [] = Inr []"
| "to_records scope (e # es) =
     (case to_record scope e of
        Inl err \<Rightarrow> Inl err
      | Inr r \<Rightarrow> (case to_records scope es of Inl err \<Rightarrow> Inl err | Inr rs \<Rightarrow> Inr (r # rs)))"

section \<open>Conflicts\<close>

text \<open>Equal JSON values, whatever the order of their members.\<close>

fun same_json_value :: "json \<Rightarrow> json \<Rightarrow> bool" where
  "same_json_value (JArr xs) right =
     (case right of JArr ys \<Rightarrow> list_all2 same_json_value xs ys | _ \<Rightarrow> False)"
| "same_json_value (JObj ms) right =
     (case right of JObj ns \<Rightarrow> sort (map fst ms) = sort (map fst ns)
          \<and> list_all (\<lambda>(k, v). case map_of ns k of Some w \<Rightarrow> same_json_value v w | None \<Rightarrow> False) ms
      | _ \<Rightarrow> False)"
| "same_json_value left right = (left = right)"

fun find_conflict_from :: "(string, store_record) js_map \<Rightarrow> store_record list \<Rightarrow> store_record option" where
  "find_conflict_from by_id [] = None"
| "find_conflict_from by_id (r # rs) =
     (case jm_get by_id (sr_id r) of
        Some previous \<Rightarrow> if same_json_value (sr_event previous) (sr_event r) then find_conflict_from by_id rs else Some r
      | None \<Rightarrow> find_conflict_from (jm_set (sr_id r) r by_id) rs)"

definition by_id :: "store_record list \<Rightarrow> (string, store_record) js_map" where
  "by_id rs = fold (\<lambda>r. jm_set (sr_id r) r) rs []"

definition find_timeline_conflict :: "store_record list \<Rightarrow> store_record list \<Rightarrow> store_record option" where
  "find_timeline_conflict existing incoming = find_conflict_from (by_id existing) incoming"

section \<open>The store\<close>

definition records_for_scope :: "store_env \<Rightarrow> store_scope \<Rightarrow> store_table \<Rightarrow> store_record list" where
  "records_for_scope env scope table = so_index env (filter (\<lambda>r. sr_scope r = scope) (jm_values table))"

definition clear_scope :: "store_scope \<Rightarrow> store_table \<Rightarrow> store_table" where
  "clear_scope scope table = filter (\<lambda>(k, r). sr_scope r \<noteq> scope) table"

definition bulk_put :: "store_record list \<Rightarrow> store_table \<Rightarrow> store_table" where
  "bulk_put rs table = fold (\<lambda>r. jm_set (sr_id r) r) rs table"

definition load_recent :: "store_env \<Rightarrow> store_scope \<Rightarrow> store_table \<Rightarrow> (store_error, json list) result" where
  "load_recent env scope table = select_recent env scope (map sr_event (records_for_scope env scope table))"

text \<open>The records that stay, in place of those of the scope; an error aborts the transaction.\<close>

definition store_retained ::
  "store_env \<Rightarrow> store_scope \<Rightarrow> store_record list \<Rightarrow> store_table \<Rightarrow> (store_error, unit) result \<times> store_table" where
  "store_retained env scope records table =
     (case select_recent env scope (map sr_event records) of
        Inl err \<Rightarrow> (Inl err, table)
      | Inr retained \<Rightarrow>
          (case to_records scope retained of
             Inl err \<Rightarrow> (Inl err, table)
           | Inr rs \<Rightarrow> (Inr (), bulk_put rs (clear_scope scope table))))"

definition incoming_records :: "store_scope \<Rightarrow> json list \<Rightarrow> (store_error, store_record list) result" where
  "incoming_records scope events =
     (case to_grouped scope events of Inl err \<Rightarrow> Inl err | Inr items \<Rightarrow> to_records scope (map ge_event items))"

definition replace_recent_window ::
  "store_env \<Rightarrow> store_scope \<Rightarrow> json list \<Rightarrow> json list \<Rightarrow> store_table \<Rightarrow> (store_error, unit) result \<times> store_table" where
  "replace_recent_window env scope events journal table =
     (case incoming_records scope (events @ journal) of
        Inl err \<Rightarrow> (Inl err, table)
      | Inr incoming \<Rightarrow>
          (case find_timeline_conflict (records_for_scope env scope table) incoming of
             Some r \<Rightarrow> (Inl (StConflict (sr_event_id r)), clear_scope scope table)
           | None \<Rightarrow> store_retained env scope (jm_values (by_id incoming)) table))"

definition merge_records :: "store_record list \<Rightarrow> store_record list \<Rightarrow> store_record list" where
  "merge_records existing incoming = jm_values (fold (\<lambda>r. jm_set (sr_id r) r) incoming (by_id existing))"

definition commit_realtime ::
  "store_env \<Rightarrow> store_scope \<Rightarrow> json list \<Rightarrow> store_table \<Rightarrow> (store_error, unit) result \<times> store_table" where
  "commit_realtime env scope events table =
     (case incoming_records scope events of
        Inl err \<Rightarrow> (Inl err, table)
      | Inr incoming \<Rightarrow>
          if incoming = [] then (Inr (), table)
          else let existing = records_for_scope env scope table in
            (case find_timeline_conflict existing incoming of
               Some r \<Rightarrow> (Inl (StConflict (sr_event_id r)), clear_scope scope table)
             | None \<Rightarrow> store_retained env scope (merge_records existing incoming) table))"

section \<open>The machine\<close>

datatype store_operation =
    SvReplace store_scope "json list" "json list"
  | SvCommit store_scope "json list"
  | SvClear store_scope

fun store_call :: "store_env \<Rightarrow> store_table \<Rightarrow> store_operation \<Rightarrow> (store_error, unit) result \<times> store_table" where
  "store_call env table (SvReplace scope events journal) = replace_recent_window env scope events journal table"
| "store_call env table (SvCommit scope events) = commit_realtime env scope events table"
| "store_call env table (SvClear scope) = (Inr (), clear_scope scope table)"

definition store_step :: "store_table \<Rightarrow> store_env \<times> store_operation \<Rightarrow> store_table" where
  "store_step table i = snd (store_call (fst i) table (snd i))"

section \<open>Ids\<close>

definition hex_digit_value :: "char \<Rightarrow> nat" where
  "hex_digit_value c = (let n = of_char c in if n < 65 then n - 48 else n - 55)"

lemma hex_value_upper: "n < 16 \<Longrightarrow> hex_digit_value (upper_hex n) = n"
  by (auto simp: hex_digit_value_def upper_hex_def Let_def)

text \<open>The escaped text can be read back, so it determines the text.\<close>

fun decode_uri :: "string \<Rightarrow> string" where
  "decode_uri [] = []"
| "decode_uri (c # s) =
     (if c \<noteq> CHR ''%'' then c # decode_uri s
      else let v = 16 * hex_digit_value (s ! 0) + hex_digit_value (s ! 1) in
        if v < 128 then char_of v # decode_uri (drop 2 s)
        else char_of ((v - 192) * 64 + (16 * hex_digit_value (s ! 3) + hex_digit_value (s ! 4) - 128)) # decode_uri (drop 5 s))"

lemma decode_byte: "16 * hex_digit_value (upper_hex (unat b div 16)) + hex_digit_value (upper_hex (unat b mod 16)) = unat (b :: byte)"
proof -
  have "unat b div 16 < 16" using unat_byte [of b] by simp
  then show ?thesis by (simp add: hex_value_upper)
qed

lemma unat_of_byte: "m < 256 \<Longrightarrow> unat (word_of_nat m :: byte) = m"
  by (simp add: unat_of_nat take_bit_eq_mod)

lemma decode_two_bytes:
  assumes "16 * hex_digit_value a + hex_digit_value b = 192 + v" and "16 * hex_digit_value c + hex_digit_value d = w"
  shows "decode_uri (CHR ''%'' # a # b # CHR ''%'' # c # d # rest) = char_of ((192 + v - 192) * 64 + (w - 128)) # decode_uri rest"
  using assms by (simp add: nth_Cons')

lemma decode_uri_char: "decode_uri (uri_char c @ rest) = c # decode_uri rest"
proof -
  let ?n = "of_char c :: nat"
  have n: "?n < 256" by simp
  have percent: "\<not> is_unreserved (CHR ''%'')" by code_simp
  consider "is_unreserved c" | "\<not> is_unreserved c" "?n < 128" | "\<not> is_unreserved c" "128 \<le> ?n" by linarith
  then show ?thesis
  proof cases
    case 1
    with percent have "c \<noteq> CHR ''%''" by metis
    with 1 show ?thesis by (simp add: uri_char_def)
  next
    case 2
    have "unat (word_of_nat ?n :: byte) = ?n" using n by (simp add: unat_of_nat take_bit_eq_mod)
    with 2 decode_byte [of "word_of_nat ?n"] show ?thesis
      by (simp add: uri_char_def utf8_char_def Let_def percent_byte_def)
  next
    case 3
    let ?b = "word_of_nat (192 + ?n div 64) :: byte" and ?b' = "word_of_nat (128 + ?n mod 64) :: byte"
    have bounds: "?n div 64 < 4" by (rule less_mult_imp_div_less) simp
    have "?n mod 64 < 64" by simp
    with bounds have "unat ?b = 192 + ?n div 64" "unat ?b' = 128 + ?n mod 64"
      by (intro unat_of_byte; simp)+
    with decode_byte [of ?b] decode_byte [of ?b'] have bytes:
      "16 * hex_digit_value (upper_hex (unat ?b div 16)) + hex_digit_value (upper_hex (unat ?b mod 16)) = 192 + ?n div 64"
      "16 * hex_digit_value (upper_hex (unat ?b' div 16)) + hex_digit_value (upper_hex (unat ?b' mod 16)) = 128 + ?n mod 64"
      by simp_all
    have enc: "uri_char c @ rest = CHR ''%'' # upper_hex (unat ?b div 16) # upper_hex (unat ?b mod 16)
        # CHR ''%'' # upper_hex (unat ?b' div 16) # upper_hex (unat ?b' mod 16) # rest"
      using 3 by (simp add: uri_char_def utf8_char_def Let_def percent_byte_def)
    have "(192 + ?n div 64 - 192) * 64 + (128 + ?n mod 64 - 128) = ?n" by (simp add: div_mult_mod_eq)
    then show ?thesis unfolding enc decode_two_bytes [OF bytes] by simp
  qed
qed

lemma decode_encode: "decode_uri (encode_uri_component s) = s"
  by (induction s) (simp_all add: encode_uri_component_def decode_uri_char)

lemma encode_inj: "encode_uri_component s = encode_uri_component t \<longleftrightarrow> s = t"
  using decode_encode by metis

lemma upper_hex_no_colon: "n < 16 \<Longrightarrow> upper_hex n \<noteq> CHR '':''"
proof
  assume "n < 16" "upper_hex n = CHR '':''"
  then have "hex_digit_value (CHR '':'') = n" using hex_value_upper by metis
  then have "n = 10" by (simp add: hex_digit_value_def)
  with \<open>upper_hex n = CHR '':''\<close> have "(of_char (char_of (65 :: nat)) :: nat) = of_char (CHR '':'')"
    by (simp add: upper_hex_def)
  then show False by simp
qed

lemma encode_no_colon: "CHR '':'' \<notin> set (encode_uri_component s)"
proof -
  have byte: "CHR '':'' \<notin> set (percent_byte b)" for b
  proof -
    have "unat b div 16 < 16" "unat b mod 16 < 16" using unat_byte [of b] by simp_all
    from this [THEN upper_hex_no_colon] show ?thesis by (simp add: percent_byte_def)
  qed
  have "\<not> is_unreserved (CHR '':'')" by code_simp
  then have "CHR '':'' \<notin> set (uri_char c)" for c using byte by (auto simp: uri_char_def)
  then show ?thesis by (auto simp: encode_uri_component_def)
qed

lemma timeline_event_id_inj:
  "timeline_event_id scope e = timeline_event_id scope' e' \<longleftrightarrow> scope = scope' \<and> e = e'"
proof
  assume eq: "timeline_event_id scope e = timeline_event_id scope' e'"
  note split = split_at_separator [OF _ encode_no_colon encode_no_colon]
  from eq have 1: "encode_uri_component (sp_device scope) @ CHR '':'' # colon_join (map encode_uri_component [sp_endpoint scope, sp_session scope, sp_generation scope, e])
      = encode_uri_component (sp_device scope') @ CHR '':'' # colon_join (map encode_uri_component [sp_endpoint scope', sp_session scope', sp_generation scope', e'])"
    by (simp add: timeline_event_id_def)
  from conjunct2 [OF split [OF 1]]
  have 2: "encode_uri_component (sp_endpoint scope) @ CHR '':'' # colon_join (map encode_uri_component [sp_session scope, sp_generation scope, e])
      = encode_uri_component (sp_endpoint scope') @ CHR '':'' # colon_join (map encode_uri_component [sp_session scope', sp_generation scope', e'])"
    by simp
  from conjunct2 [OF split [OF 2]]
  have 3: "encode_uri_component (sp_session scope) @ CHR '':'' # colon_join (map encode_uri_component [sp_generation scope, e])
      = encode_uri_component (sp_session scope') @ CHR '':'' # colon_join (map encode_uri_component [sp_generation scope', e'])"
    by simp
  from conjunct2 [OF split [OF 3]]
  have 4: "encode_uri_component (sp_generation scope) @ CHR '':'' # encode_uri_component e
      = encode_uri_component (sp_generation scope') @ CHR '':'' # encode_uri_component e'"
    by simp
  show "scope = scope' \<and> e = e'"
    using split [OF 1] split [OF 2] split [OF 3] split [OF 4] by (simp add: encode_inj)
qed simp

section \<open>Records\<close>

definition record_ok :: "store_record \<Rightarrow> bool" where
  "record_ok r \<longleftrightarrow> sr_id r = timeline_event_id (sr_scope r) (sr_event_id r)
     \<and> sr_event_id r = text_member ''event_id'' (sr_event r) \<and> event_in_scope (sr_scope r) (sr_event r)
     \<and> event_group (sr_event r) = Some (sr_group r) \<and> sr_time r = int_member ''timestamp'' (sr_event r)"

definition scope_record :: "store_scope \<Rightarrow> store_record \<Rightarrow> bool" where
  "scope_record scope r \<longleftrightarrow> record_ok r \<and> sr_scope r = scope"

lemma to_record_ok: "event_in_scope scope e \<Longrightarrow> to_record scope e = Inr r \<Longrightarrow> scope_record scope r \<and> sr_event r = e"
  by (auto simp: to_record_def scope_record_def record_ok_def split: option.splits)

lemma record_of_event: "scope_record scope r \<Longrightarrow> to_record scope (sr_event r) = Inr r"
  by (simp add: to_record_def scope_record_def record_ok_def)

lemma records_of_events: "(\<And>r. r \<in> set rs \<Longrightarrow> scope_record scope r) \<Longrightarrow> to_records scope (map sr_event rs) = Inr rs"
  by (induction rs) (simp_all add: record_of_event)

lemma to_records_ok:
  "to_records scope es = Inr rs \<Longrightarrow> (\<And>e. e \<in> set es \<Longrightarrow> event_in_scope scope e)
   \<Longrightarrow> (\<forall>r \<in> set rs. scope_record scope r) \<and> map sr_event rs = es"
proof (induction es arbitrary: rs)
  case (Cons e es)
  from Cons.prems(1) obtain r rs' where "to_record scope e = Inr r" "to_records scope es = Inr rs'" "rs = r # rs'"
    by (auto split: sum.splits)
  with Cons.IH [of rs'] Cons.prems(2) to_record_ok [of scope e r] show ?case by simp
qed simp

definition grouped_of :: "store_record \<Rightarrow> grouped_event" where
  "grouped_of r = \<lparr> ge_event = sr_event r, ge_group = sr_group r, ge_time = sr_time r \<rparr>"

lemma grouped_records:
  "\<forall>r \<in> set rs. scope_record scope r \<Longrightarrow> to_grouped scope (map sr_event rs) = Inr (map grouped_of rs)"
proof (induction rs)
  case (Cons r rs)
  then have "scope_record scope r" "to_grouped scope (map sr_event rs) = Inr (map grouped_of rs)" by simp_all
  then show ?case by (auto simp: scope_record_def record_ok_def grouped_of_def)
qed simp

lemma to_grouped_events:
  "to_grouped scope es = Inr items \<Longrightarrow> map ge_event items = filter is_persistable es \<and> (\<forall>e \<in> set es. event_in_scope scope e)"
  by (induction es arbitrary: items) (auto simp: event_group_def split: if_splits sum.splits option.splits)

lemma incoming_ok:
  assumes "incoming_records scope events = Inr rs"
  shows "\<forall>r \<in> set rs. scope_record scope r" and "map sr_event rs = filter is_persistable events"
proof -
  from assms obtain items where items: "to_grouped scope events = Inr items" "to_records scope (map ge_event items) = Inr rs"
    by (auto simp: incoming_records_def split: sum.splits)
  note ev = to_grouped_events [OF items(1)]
  then have "event_in_scope scope e" if "e \<in> set (map ge_event items)" for e using that by auto
  from to_records_ok [OF items(2) this] ev show "\<forall>r \<in> set rs. scope_record scope r" "map sr_event rs = filter is_persistable events"
    by simp_all
qed

section \<open>Maps by id\<close>

lemma put_entries: "(k, r) \<in> set (bulk_put rs table) \<Longrightarrow> (k = sr_id r \<and> r \<in> set rs) \<or> (k, r) \<in> set table"
  by (induction rs arbitrary: table) (auto simp: bulk_put_def dest: jm_set_entries)

lemma put_ok: "jm_ok table \<Longrightarrow> jm_ok (bulk_put rs table)"
  by (induction rs arbitrary: table) (simp_all add: bulk_put_def)

lemma put_get:
  "inj_on sr_id (set rs) \<Longrightarrow> jm_get (bulk_put rs table) k = Some r
     \<longleftrightarrow> (r \<in> set rs \<and> sr_id r = k) \<or> (k \<notin> sr_id ` set rs \<and> jm_get table k = Some r)"
proof (induction rs arbitrary: table)
  case (Cons q rs)
  have inj: "inj_on sr_id (set rs)" using Cons.prems by simp
  have step: "bulk_put (q # rs) table = bulk_put rs (jm_set (sr_id q) q table)" by (simp add: bulk_put_def)
  have same: "r \<in> set rs \<and> sr_id r = sr_id q \<longleftrightarrow> r \<in> set rs \<and> r = q" for r
    using Cons.prems by (auto simp: inj_on_def)
  show ?case
  proof (cases "k = sr_id q")
    case True
    then show ?thesis unfolding step Cons.IH [OF inj] using same [of r] Cons.prems by (auto simp: inj_on_def)
  next
    case False
    then show ?thesis unfolding step Cons.IH [OF inj] by auto
  qed
qed (simp add: bulk_put_def)

lemma fold_put: "fold (\<lambda>r. jm_set (sr_id r) r) rs m = bulk_put rs m"
  by (simp add: bulk_put_def)

lemma values_put: "r \<in> set (jm_values (bulk_put rs table)) \<Longrightarrow> r \<in> set rs \<or> r \<in> set (jm_values table)"
  by (auto simp: jm_values_def dest: put_entries)

lemma put_keyed:
  assumes "jm_ok table" and "\<forall>(k, r) \<in> set table. k = sr_id r"
  shows "inj_on sr_id (set (jm_values (bulk_put rs table)))"
proof -
  have "(k, r) \<in> set (bulk_put rs table) \<Longrightarrow> k = sr_id r" for k r using put_entries [of k r rs table] assms(2) by auto
  with put_ok [OF assms(1), of rs] show ?thesis
    by (auto simp: inj_on_def jm_values_def jm_ok_def dest: eq_key_imp_eq_value)
qed

lemma merged_inj: "inj_on sr_id (set (merge_records existing incoming))"
proof -
  have "\<forall>(k, r) \<in> set (by_id existing). k = sr_id r" using put_entries [of _ _ existing "[]"] by (auto simp: by_id_def fold_put)
  moreover have "jm_ok (by_id existing)" by (simp add: by_id_def fold_put put_ok)
  ultimately show ?thesis by (simp add: merge_records_def fold_put put_keyed)
qed

lemma merged_members: "r \<in> set (merge_records existing incoming) \<Longrightarrow> r \<in> set existing \<or> r \<in> set incoming"
  using values_put [of r incoming "by_id existing"] values_put [of r existing "[]"]
  by (auto simp: merge_records_def by_id_def fold_put jm_values_def)

lemma by_id_merge: "jm_values (by_id incoming) = merge_records [] incoming"
  by (simp add: merge_records_def by_id_def)

section \<open>The latest groups\<close>

lemma insert_sorted_by:
  assumes "\<And>a b. cmp a b < 0 \<Longrightarrow> key a \<le> (key b :: int)" and "\<And>a b. \<not> cmp a b < 0 \<Longrightarrow> key b \<le> key a" and "sorted (map key ys)"
  shows "sorted (map key (insert_item cmp x ys))"
  using assms(3)
proof (induction ys)
  case (Cons y ys)
  show ?case
  proof (cases "cmp x y < 0")
    case True
    with assms(1) [OF True] Cons.prems show ?thesis by fastforce
  next
    case False
    with assms(2) [OF False] Cons show ?thesis by (auto simp: set_insert_item)
  qed
qed simp

lemma stable_sort_sorted:
  assumes "\<And>a b. cmp a b < 0 \<Longrightarrow> key a \<le> (key b :: int)" and "\<And>a b. \<not> cmp a b < 0 \<Longrightarrow> key b \<le> key a"
  shows "sorted (map key (stable_sort cmp xs))"
proof -
  have "sorted (map key ys) \<Longrightarrow> sorted (map key (foldl (\<lambda>ys x. insert_item cmp x ys) ys xs))" for ys
    by (induction xs arbitrary: ys) (simp_all add: insert_sorted_by [OF assms])
  from this [of "[]"] show ?thesis by (simp add: stable_sort_def)
qed

lemma mset_insert_item: "mset (insert_item cmp x ys) = add_mset x (mset ys)"
  by (induction ys) auto

lemma mset_stable_sort: "mset (stable_sort cmp xs) = mset xs"
proof -
  have "mset (foldl (\<lambda>ys x. insert_item cmp x ys) ys xs) = mset ys + mset xs" for ys
    by (induction xs arbitrary: ys) (simp_all add: mset_insert_item)
  from this [of "[]"] show ?thesis by (simp add: stable_sort_def)
qed

definition latest_ok :: "grouped_event list \<Rightarrow> (string, int) js_map \<Rightarrow> bool" where
  "latest_ok items m \<longleftrightarrow> jm_ok m \<and> fst ` set m = ge_group ` set items
     \<and> (\<forall>(g, t) \<in> set m. (\<exists>i \<in> set items. ge_group i = g \<and> ge_time i = t) \<and> (\<forall>i \<in> set items. ge_group i = g \<longrightarrow> ge_time i \<le> t))"

lemma latest_step:
  assumes "latest_ok items m"
  shows "latest_ok (items @ [i]) (if (case jm_get m (ge_group i) of None \<Rightarrow> True | Some latest \<Rightarrow> ge_time i > latest)
     then jm_set (ge_group i) (ge_time i) m else m)"
proof (cases "case jm_get m (ge_group i) of None \<Rightarrow> True | Some latest \<Rightarrow> ge_time i > latest")
  case True
  let ?m = "jm_set (ge_group i) (ge_time i) m"
  have ok: "jm_ok m" using assms by (simp add: latest_ok_def)
  have entry: "(g = ge_group i \<and> t = ge_time i) \<or> (g \<noteq> ge_group i \<and> (g, t) \<in> set m)" if "(g, t) \<in> set ?m" for g t
  proof -
    have "jm_get ?m g = Some t" using that jm_get_Some_iff [OF jm_ok_set [OF ok]] by blast
    then show ?thesis using ok by (cases "ge_group i = g") (simp_all add: jm_get_Some_iff)
  qed
  have newest: "ge_time j \<le> ge_time i" if "j \<in> set items" "ge_group j = ge_group i" for j
  proof -
    have "ge_group j \<in> ge_group ` set items" using that(1) by simp
    then have "ge_group i \<in> fst ` set m" using assms that(2) by (simp add: latest_ok_def)
    then obtain t where t: "jm_get m (ge_group i) = Some t"
      using jm_get_None_iff [of m "ge_group i"] by (cases "jm_get m (ge_group i)") simp_all
    then have "(ge_group i, t) \<in> set m" using ok by (simp add: jm_get_Some_iff)
    with assms that have "ge_time j \<le> t" by (auto simp: latest_ok_def)
    with True t show ?thesis by simp
  qed
  have "fst ` set ?m = ge_group ` set (items @ [i])" using assms by (auto simp: latest_ok_def jm_set_keys)
  moreover have "(\<exists>j \<in> set (items @ [i]). ge_group j = g \<and> ge_time j = t) \<and> (\<forall>j \<in> set (items @ [i]). ge_group j = g \<longrightarrow> ge_time j \<le> t)"
    if "(g, t) \<in> set ?m" for g t
    using entry [OF that]
  proof
    assume "g = ge_group i \<and> t = ge_time i"
    with newest show ?thesis by auto
  next
    assume "g \<noteq> ge_group i \<and> (g, t) \<in> set m"
    with assms show ?thesis by (auto simp: latest_ok_def)
  qed
  ultimately show ?thesis unfolding if_P [OF True] using ok by (auto simp: latest_ok_def)
next
  case False
  then obtain t where t: "jm_get m (ge_group i) = Some t" "ge_time i \<le> t" by (auto split: option.splits)
  have ok: "jm_ok m" using assms by (simp add: latest_ok_def)
  have mem: "(ge_group i, t) \<in> set m" using t(1) ok by (simp add: jm_get_Some_iff)
  have same: "(ge_group i, u) \<in> set m \<Longrightarrow> u = t" for u using mem ok by (auto simp: jm_ok_def dest: eq_key_imp_eq_value)
  have "ge_group i \<in> fst ` set m" using mem by force
  then show ?thesis unfolding if_not_P [OF False] using assms t(2) same by (auto simp: latest_ok_def)
qed

lemma latest_by_group_ok: "latest_ok items (latest_by_group items)"
proof (induction items rule: rev_induct)
  case (snoc i items)
  have "latest_by_group (items @ [i]) = (let m = latest_by_group items in
      if (case jm_get m (ge_group i) of None \<Rightarrow> True | Some latest \<Rightarrow> ge_time i > latest)
      then jm_set (ge_group i) (ge_time i) m else m)" by (simp add: latest_by_group_def)
  then show ?case unfolding Let_def by (simp only: latest_step [OF snoc])
qed (simp add: latest_by_group_def latest_ok_def)

text \<open>The groups that stay: as many as there are, up to five, and none that goes is newer.\<close>

lemma recent_groups_spec:
  shows "set (recent_groups env items) \<subseteq> ge_group ` set items"
    and "card (set (recent_groups env items)) = min 5 (card (ge_group ` set items))"
    and "g \<in> set (recent_groups env items) \<Longrightarrow> j \<in> set items \<Longrightarrow> ge_group j \<notin> set (recent_groups env items)
      \<Longrightarrow> \<exists>i \<in> set items. ge_group i = g \<and> ge_time j \<le> ge_time i"
proof -
  let ?m = "latest_by_group items"
  let ?s = "stable_sort (compare_groups env) ?m"
  let ?n = "length ?s - 5"
  have ok: "latest_ok items ?m" by (rule latest_by_group_ok)
  have perm: "mset ?s = mset ?m" by (rule mset_stable_sort)
  then have set: "set ?s = set ?m" by (rule mset_eq_setD)
  have dist: "distinct (map fst ?s)"
    using ok perm mset_eq_imp_distinct_iff [of "map fst ?s" "map fst ?m"] by (simp add: latest_ok_def jm_ok_def)
  have keys: "fst ` set ?s = ge_group ` set items" using ok set by (simp add: latest_ok_def)
  have recent: "recent_groups env items = map fst (drop ?n ?s)"
    by (simp add: recent_groups_def last_n_def MAX_RECENT_GROUPS_def)
  have "set (drop ?n ?s) \<subseteq> set ?s" by (rule List.set_drop_subset)
  then show "set (recent_groups env items) \<subseteq> ge_group ` set items"
    unfolding recent keys [symmetric] by auto
  have "distinct (recent_groups env items)" unfolding recent using distinct_map_drop [OF dist] .
  then have "card (set (recent_groups env items)) = length (recent_groups env items)" by (rule distinct_card)
  then have "card (set (recent_groups env items)) = length ?s - ?n" by (simp add: recent)
  moreover have "length ?s = card (ge_group ` set items)" using distinct_card [OF dist] keys by simp
  ultimately show "card (set (recent_groups env items)) = min 5 (card (ge_group ` set items))" by simp
  have sorted: "sorted (map snd ?s)"
    by (rule stable_sort_sorted) (auto simp: compare_groups_def Let_def split: if_splits)
  show "\<exists>i \<in> set items. ge_group i = g \<and> ge_time j \<le> ge_time i"
    if g: "g \<in> set (recent_groups env items)" and j: "j \<in> set items" "ge_group j \<notin> set (recent_groups env items)"
  proof -
    from g obtain t where t: "(g, t) \<in> set (drop ?n ?s)" unfolding recent by auto
    have "ge_group j \<in> fst ` set ?s" unfolding keys using j(1) by simp
    then obtain u where u: "(ge_group j, u) \<in> set ?s" by auto
    have "(ge_group j, u) \<notin> set (drop ?n ?s)" using j(2) unfolding recent by force
    with u have take: "(ge_group j, u) \<in> set (take ?n ?s)" by (metis UnE append_take_drop_id set_append)
    have "sorted (map snd (take ?n ?s) @ map snd (drop ?n ?s))" using sorted by (simp flip: map_append)
    with take t have "u \<le> t" unfolding sorted_append by force
    moreover have "ge_time j \<le> u" using ok u j(1) unfolding set by (auto simp: latest_ok_def)
    moreover have "(g, t) \<in> set ?m" using t set List.set_drop_subset [of ?n ?s] by auto
    then obtain i where "i \<in> set items" "ge_group i = g" "ge_time i = t" using ok by (auto simp: latest_ok_def)
    ultimately show ?thesis by auto
  qed
qed

section \<open>The table\<close>

definition scope_records :: "store_scope \<Rightarrow> store_table \<Rightarrow> store_record set" where
  "scope_records scope table = {r \<in> set (jm_values table). sr_scope r = scope}"

definition keyed_table :: "store_table \<Rightarrow> bool" where
  "keyed_table table \<longleftrightarrow> jm_ok table \<and> (\<forall>(k, r) \<in> set table. k = sr_id r \<and> record_ok r)"

definition table_ok :: "store_table \<Rightarrow> bool" where
  "table_ok table \<longleftrightarrow> keyed_table table \<and> (\<forall>scope. card (sr_group ` scope_records scope table) \<le> 5)"

fun store_adm :: "store_table \<Rightarrow> store_env \<times> store_operation \<Rightarrow> bool" where
  "store_adm table (env, e) \<longleftrightarrow> (\<forall>rs. set (so_index env rs) = set rs)"

lemma value_entry: "keyed_table table \<Longrightarrow> r \<in> set (jm_values table) \<longleftrightarrow> jm_get table (sr_id r) = Some r"
  by (force simp: keyed_table_def jm_values_def jm_get_Some_iff)

lemma value_ok: "keyed_table table \<Longrightarrow> r \<in> set (jm_values table) \<Longrightarrow> record_ok r"
  by (auto simp: keyed_table_def jm_values_def)

lemma values_inj: "keyed_table table \<Longrightarrow> inj_on sr_id (set (jm_values table))"
  by (rule inj_onI) (simp add: value_entry)

lemma clear_keyed: "keyed_table table \<Longrightarrow> keyed_table (clear_scope scope table)"
  by (auto simp: keyed_table_def clear_scope_def jm_ok_filter)

lemma clear_records: "scope_records s (clear_scope scope table) = (if s = scope then {} else scope_records s table)"
  by (force simp: scope_records_def clear_scope_def jm_values_def)

lemma put_keyed_table: "keyed_table table \<Longrightarrow> \<forall>r \<in> set rs. scope_record scope r \<Longrightarrow> keyed_table (bulk_put rs table)"
  unfolding keyed_table_def using put_entries by (fastforce simp: put_ok scope_record_def)

text \<open>Ids of different scopes differ, so a scope is written without touching another.\<close>

lemma put_records:
  assumes keyed: "keyed_table table" and rs: "\<forall>r \<in> set rs. scope_record scope r" and inj: "inj_on sr_id (set rs)"
  shows "scope_records s (bulk_put rs (clear_scope scope table)) = (if s = scope then set rs else scope_records s table)"
proof -
  let ?t = "bulk_put rs (clear_scope scope table)"
  have keyed': "keyed_table (clear_scope scope table)" "keyed_table ?t"
    using clear_keyed [OF keyed] put_keyed_table rs by blast+
  have "r \<in> set (jm_values ?t) \<longleftrightarrow> r \<in> set rs \<or> (r \<in> set (jm_values table) \<and> sr_scope r \<noteq> scope)" for r
  proof
    assume "r \<in> set (jm_values ?t)"
    then have "jm_get ?t (sr_id r) = Some r" by (simp add: value_entry [OF keyed'(2)])
    then have "r \<in> set rs \<or> r \<in> set (jm_values (clear_scope scope table))"
      unfolding put_get [OF inj] value_entry [OF keyed'(1)] by auto
    then show "r \<in> set rs \<or> (r \<in> set (jm_values table) \<and> sr_scope r \<noteq> scope)"
      by (auto simp: clear_scope_def jm_values_def)
  next
    assume "r \<in> set rs \<or> (r \<in> set (jm_values table) \<and> sr_scope r \<noteq> scope)"
    then show "r \<in> set (jm_values ?t)"
    proof
      assume "r \<in> set rs"
      then show ?thesis unfolding value_entry [OF keyed'(2)] put_get [OF inj] by simp
    next
      assume r: "r \<in> set (jm_values table) \<and> sr_scope r \<noteq> scope"
      then have "r \<in> set (jm_values (clear_scope scope table))" by (force simp: clear_scope_def jm_values_def)
      then have get: "jm_get (clear_scope scope table) (sr_id r) = Some r" by (simp add: value_entry [OF keyed'(1)])
      have "sr_id r \<notin> sr_id ` set rs"
      proof
        assume "sr_id r \<in> sr_id ` set rs"
        then obtain q where q: "q \<in> set rs" "sr_id r = sr_id q" by blast
        have "record_ok r" "record_ok q" "sr_scope q = scope" using r value_ok [OF keyed] q(1) rs by (auto simp: scope_record_def)
        with q(2) r show False by (simp add: record_ok_def timeline_event_id_inj)
      qed
      then show ?thesis unfolding value_entry [OF keyed'(2)] put_get [OF inj] using get by simp
    qed
  qed
  then show ?thesis using rs by (auto simp: scope_records_def scope_record_def)
qed

subsection \<open>What stays\<close>

lemma insert_item_map: "insert_item cmp (f x) (map f ys) = map f (insert_item (\<lambda>a b. cmp (f a) (f b)) x ys)"
  by (induction ys) simp_all

lemma stable_sort_map: "stable_sort cmp (map f xs) = map f (stable_sort (\<lambda>a b. cmp (f a) (f b)) xs)"
proof -
  have "foldl (\<lambda>ys x. insert_item cmp x ys) (map f ys) (map f xs)
      = map f (foldl (\<lambda>ys x. insert_item (\<lambda>a b. cmp (f a) (f b)) x ys) ys xs)" for ys
    by (induction xs arbitrary: ys) (simp_all add: insert_item_map)
  from this [of "[]"] show ?thesis by (simp add: stable_sort_def)
qed

lemma retained_spec:
  assumes recs: "\<forall>r \<in> set recs. scope_record scope r"
  obtains rs where "store_retained env scope recs table = (Inr (), bulk_put rs (clear_scope scope table))"
    and "set rs = {r \<in> set recs. sr_group r \<in> set (recent_groups env (map grouped_of recs))}"
proof
  let ?items = "map grouped_of recs"
  let ?keep = "\<lambda>r. sr_group r \<in> set (recent_groups env ?items)"
  let ?rs = "stable_sort (\<lambda>a b. compare_events env (grouped_of a) (grouped_of b)) (filter ?keep recs)"
  have filtered: "filter (\<lambda>i. ge_group i \<in> set (recent_groups env ?items)) ?items = map grouped_of (filter ?keep recs)"
    by (simp add: filter_map comp_def grouped_of_def)
  have "recent_of env ?items = map ge_event (map grouped_of ?rs)"
    unfolding recent_of_def filtered stable_sort_map ..
  then have "recent_of env ?items = map sr_event ?rs" by (simp add: grouped_of_def comp_def)
  moreover have "to_records scope (map sr_event ?rs) = Inr ?rs"
    by (rule records_of_events) (use recs in \<open>simp add: set_stable_sort\<close>)
  ultimately show "store_retained env scope recs table = (Inr (), bulk_put ?rs (clear_scope scope table))"
    by (simp add: store_retained_def select_recent_def grouped_records [OF recs])
  show "set ?rs = {r \<in> set recs. ?keep r}" by (simp add: set_stable_sort)
qed

definition kept_of :: "store_record set \<Rightarrow> store_record set \<Rightarrow> bool" where
  "kept_of stored candidates \<longleftrightarrow> stored = {r \<in> candidates. sr_group r \<in> sr_group ` stored}
     \<and> card (sr_group ` stored) = min 5 (card (sr_group ` candidates))
     \<and> (\<forall>r \<in> candidates - stored. \<forall>g \<in> sr_group ` stored. \<exists>q \<in> stored. sr_group q = g \<and> sr_time r \<le> sr_time q)"

lemma retained_kept:
  assumes keyed: "keyed_table table" and recs: "\<forall>r \<in> set recs. scope_record scope r" and inj: "inj_on sr_id (set recs)"
    and result: "store_retained env scope recs table = (res, table')"
  shows "res = Inr () \<and> keyed_table table' \<and> kept_of (scope_records scope table') (set recs)
    \<and> (\<forall>s. s \<noteq> scope \<longrightarrow> scope_records s table' = scope_records s table)"
proof -
  let ?items = "map grouped_of recs"
  let ?groups = "set (recent_groups env ?items)"
  obtain rs where rs: "store_retained env scope recs table = (Inr (), bulk_put rs (clear_scope scope table))"
    "set rs = {r \<in> set recs. sr_group r \<in> ?groups}" by (rule retained_spec [OF recs])
  have sub: "\<forall>r \<in> set rs. scope_record scope r" "inj_on sr_id (set rs)"
    using recs inj by (auto simp: rs(2) inj_on_def)
  have t: "table' = bulk_put rs (clear_scope scope table)" "res = Inr ()" using result rs(1) by simp_all
  have all: "ge_group ` set ?items = sr_group ` set recs" by (auto simp: grouped_of_def image_iff)
  have groups: "sr_group ` set rs = ?groups"
  proof -
    have "?groups \<subseteq> sr_group ` set recs" using recent_groups_spec(1) [of env ?items] all by simp
    then show ?thesis unfolding rs(2) by auto
  qed
  have "kept_of (set rs) (set recs)"
    unfolding kept_of_def groups
  proof (intro conjI ballI)
    show "set rs = {r \<in> set recs. sr_group r \<in> ?groups}" by (rule rs(2))
    show "card ?groups = min 5 (card (sr_group ` set recs))" using recent_groups_spec(2) [of env ?items] all by simp
    fix r g assume r: "r \<in> set recs - set rs" and g: "g \<in> ?groups"
    have "grouped_of r \<in> set ?items" "ge_group (grouped_of r) \<notin> ?groups" using r by (auto simp: rs(2) grouped_of_def)
    from recent_groups_spec(3) [OF g this] obtain i where "i \<in> set ?items" "ge_group i = g" "ge_time (grouped_of r) \<le> ge_time i" by blast
    then obtain q where q: "q \<in> set recs" "sr_group q = g" "sr_time r \<le> sr_time q" by (auto simp: grouped_of_def)
    with g show "\<exists>q \<in> set rs. sr_group q = g \<and> sr_time r \<le> sr_time q" by (auto simp: rs(2))
  qed
  then show ?thesis
    using put_records [OF keyed sub] put_keyed_table [OF clear_keyed [OF keyed] sub(1)] by (simp add: t)
qed

subsection \<open>The calls\<close>

lemma existing_records:
  assumes "keyed_table table" and "\<forall>rs. set (so_index env rs) = set rs"
  shows "set (records_for_scope env scope table) = scope_records scope table"
    and "\<forall>r \<in> set (records_for_scope env scope table). scope_record scope r"
  using assms value_ok [OF assms(1)] by (auto simp: records_for_scope_def scope_records_def scope_record_def)

lemma merged_scope:
  assumes "\<forall>r \<in> set existing. scope_record scope r" and "\<forall>r \<in> set incoming. scope_record scope r"
  shows "\<forall>r \<in> set (merge_records existing incoming). scope_record scope r"
  using assms by (auto dest: merged_members)

lemma replace_spec:
  assumes keyed: "keyed_table table" and index: "\<forall>rs. set (so_index env rs) = set rs"
    and incoming: "incoming_records scope (events @ journal) = Inr incoming"
    and conflict: "find_timeline_conflict (records_for_scope env scope table) incoming = None"
    and result: "replace_recent_window env scope events journal table = (res, table')"
  shows "res = Inr () \<and> keyed_table table' \<and> kept_of (scope_records scope table') (set (merge_records [] incoming))
    \<and> (\<forall>s. s \<noteq> scope \<longrightarrow> scope_records s table' = scope_records s table)"
proof (rule retained_kept [OF keyed _ merged_inj])
  show "\<forall>r \<in> set (merge_records [] incoming). scope_record scope r"
    by (rule merged_scope) (use incoming_ok(1) [OF incoming] in simp_all)
  show "store_retained env scope (merge_records [] incoming) table = (res, table')"
    using result by (simp add: replace_recent_window_def incoming conflict by_id_merge)
qed

lemma commit_spec:
  assumes keyed: "keyed_table table" and index: "\<forall>rs. set (so_index env rs) = set rs"
    and incoming: "incoming_records scope events = Inr incoming" "incoming \<noteq> []"
    and conflict: "find_timeline_conflict (records_for_scope env scope table) incoming = None"
    and result: "commit_realtime env scope events table = (res, table')"
  shows "res = Inr () \<and> keyed_table table'
    \<and> kept_of (scope_records scope table') (set (merge_records (records_for_scope env scope table) incoming))
    \<and> (\<forall>s. s \<noteq> scope \<longrightarrow> scope_records s table' = scope_records s table)"
proof (rule retained_kept [OF keyed _ merged_inj])
  show "\<forall>r \<in> set (merge_records (records_for_scope env scope table) incoming). scope_record scope r"
    by (rule merged_scope) (use existing_records(2) [OF keyed index] incoming_ok(1) [OF incoming(1)] in simp_all)
  show "store_retained env scope (merge_records (records_for_scope env scope table) incoming) table = (res, table')"
    using result by (simp add: commit_realtime_def incoming conflict Let_def)
qed

lemma clear_ok: "table_ok table \<Longrightarrow> table_ok (clear_scope scope table)"
  by (simp add: table_ok_def clear_keyed clear_records)

lemma kept_ok:
  assumes "table_ok table" and "keyed_table table'" and "kept_of (scope_records scope table') candidates"
    and "\<forall>s. s \<noteq> scope \<longrightarrow> scope_records s table' = scope_records s table"
  shows "table_ok table'"
  unfolding table_ok_def
proof (intro conjI allI)
  fix s show "card (sr_group ` scope_records s table') \<le> 5"
  proof (cases "s = scope")
    case True
    with assms(3) show ?thesis by (simp add: kept_of_def)
  next
    case False
    with assms(1, 4) show ?thesis by (simp add: table_ok_def)
  qed
qed (rule assms(2))

lemma replace_keeps:
  assumes ok: "table_ok table" and index: "\<forall>rs. set (so_index env rs) = set rs"
  shows "table_ok (snd (replace_recent_window env scope events journal table))"
proof -
  obtain res table' where result: "replace_recent_window env scope events journal table = (res, table')" by (rule prod.exhaust)
  have keyed: "keyed_table table" using ok by (simp add: table_ok_def)
  consider err where "incoming_records scope (events @ journal) = Inl err"
    | incoming r where "incoming_records scope (events @ journal) = Inr incoming"
        "find_timeline_conflict (records_for_scope env scope table) incoming = Some r"
    | incoming where "incoming_records scope (events @ journal) = Inr incoming"
        "find_timeline_conflict (records_for_scope env scope table) incoming = None"
    by (metis sum.exhaust option.exhaust)
  then show ?thesis
  proof cases
    case 1
    with ok show ?thesis by (simp add: replace_recent_window_def)
  next
    case 2
    with ok show ?thesis by (simp add: replace_recent_window_def clear_ok)
  next
    case 3
    from replace_spec [OF keyed index 3 result] have "table_ok table'" by (elim conjE) (rule kept_ok [OF ok])
    then show ?thesis by (simp add: result)
  qed
qed

lemma commit_keeps:
  assumes ok: "table_ok table" and index: "\<forall>rs. set (so_index env rs) = set rs"
  shows "table_ok (snd (commit_realtime env scope events table))"
proof -
  obtain res table' where result: "commit_realtime env scope events table = (res, table')" by (rule prod.exhaust)
  have keyed: "keyed_table table" using ok by (simp add: table_ok_def)
  consider err where "incoming_records scope events = Inl err"
    | "incoming_records scope events = Inr []"
    | incoming r where "incoming_records scope events = Inr incoming" "incoming \<noteq> []"
        "find_timeline_conflict (records_for_scope env scope table) incoming = Some r"
    | incoming where "incoming_records scope events = Inr incoming" "incoming \<noteq> []"
        "find_timeline_conflict (records_for_scope env scope table) incoming = None"
    by (metis sum.exhaust option.exhaust)
  then show ?thesis
  proof cases
    case 1
    with ok show ?thesis by (simp add: commit_realtime_def)
  next
    case 2
    with ok show ?thesis by (simp add: commit_realtime_def)
  next
    case 3
    with ok show ?thesis by (simp add: commit_realtime_def clear_ok Let_def)
  next
    case 4
    from commit_spec [OF keyed index 4 result] have "table_ok table'" by (elim conjE) (rule kept_ok [OF ok])
    then show ?thesis by (simp add: result)
  qed
qed

lemma store_step_keeps: "table_ok table \<Longrightarrow> store_adm table i \<Longrightarrow> table_ok (store_step table i)"
proof -
  assume ok: "table_ok table" and adm: "store_adm table i"
  obtain env e where i: "i = (env, e)" by (cases i)
  from adm have index: "\<forall>rs. set (so_index env rs) = set rs" by (simp add: i)
  show ?thesis
    by (cases e) (simp_all add: i store_step_def replace_keeps [OF ok index] commit_keeps [OF ok index] clear_ok [OF ok])
qed

interpretation timeline_store: invariant_machine store_step store_adm table_ok
  by unfold_locales (rule store_step_keeps)

lemma empty_table_ok: "table_ok []"
  by (simp add: table_ok_def keyed_table_def scope_records_def jm_values_def)

lemma finite_scope [simp]: "finite (scope_records scope table)"
  by (simp add: scope_records_def)

text \<open>With five groups at most, all of them are recent.\<close>

lemma load_all:
  assumes ok: "table_ok table" and index: "\<forall>rs. set (so_index env rs) = set rs"
  obtains es where "load_recent env scope table = Inr es" and "set es = sr_event ` scope_records scope table"
    and "sorted (map (int_member ''timestamp'') es)"
proof -
  let ?recs = "records_for_scope env scope table"
  let ?items = "map grouped_of ?recs"
  have keyed: "keyed_table table" using ok by (simp add: table_ok_def)
  note recs = existing_records [OF keyed index, of scope]
  have groups: "ge_group ` set ?items = sr_group ` scope_records scope table"
    unfolding recs(1) [symmetric] by (auto simp: grouped_of_def image_iff)
  have "card (sr_group ` scope_records scope table) \<le> 5" using ok by (simp add: table_ok_def)
  then have "set (recent_groups env ?items) = sr_group ` scope_records scope table"
    using recent_groups_spec(1, 2) [of env ?items] unfolding groups by (intro card_subset_eq) simp_all
  then have all: "filter (\<lambda>i. ge_group i \<in> set (recent_groups env ?items)) ?items = ?items"
    using groups by (intro filter_True) auto
  let ?es = "map ge_event (stable_sort (compare_events env) ?items)"
  have load: "load_recent env scope table = Inr ?es"
    by (simp add: load_recent_def select_recent_def grouped_records [OF recs(2)] recent_of_def all)
  moreover have "set ?es = sr_event ` scope_records scope table"
    unfolding recs(1) [symmetric] by (auto simp: set_stable_sort grouped_of_def image_iff)
  moreover have "sorted (map (int_member ''timestamp'') ?es)"
  proof -
    have "sorted (map ge_time (stable_sort (compare_events env) ?items))"
      by (rule stable_sort_sorted) (auto simp: compare_events_def Let_def split: if_splits)
    moreover have "int_member ''timestamp'' (ge_event i) = ge_time i" if "i \<in> set ?items" for i
      using that recs(2) by (auto simp: grouped_of_def scope_record_def record_ok_def)
    then have "map (int_member ''timestamp'') ?es = map ge_time (stable_sort (compare_events env) ?items)"
      by (simp add: set_stable_sort)
    ultimately show ?thesis by (simp only:)
  qed
  ultimately show ?thesis by (rule that)
qed

section \<open>What the store guarantees\<close>

text \<open>
  C39: After any calls, whatever events they brought: every stored event is committed, belongs to the
  session and the generation it is filed under, and is the only one there with its id; no scope
  holds more than five groups; and loading a scope gives exactly its events in the order of time.
\<close>

theorem store_run_ok:
  assumes "trace_ok store_step store_adm [] calls" and "table = run store_step [] calls"
    and "\<forall>rs. set (so_index env rs) = set rs"
  shows "(\<forall>r \<in> set (jm_values table). is_persistable (sr_event r) \<and> event_in_scope (sr_scope r) (sr_event r)
        \<and> (\<forall>q \<in> set (jm_values table). sr_scope q = sr_scope r
            \<and> text_member ''event_id'' (sr_event q) = text_member ''event_id'' (sr_event r) \<longrightarrow> q = r))
    \<and> card (sr_group ` scope_records scope table) \<le> 5
    \<and> (\<exists>es. load_recent env scope table = Inr es \<and> set es = sr_event ` scope_records scope table
        \<and> sorted (map (int_member ''timestamp'') es))"
proof -
  have ok: "table_ok table" using timeline_store.run_keeps [OF empty_table_ok assms(1)] assms(2) by simp
  then have keyed: "keyed_table table" by (simp add: table_ok_def)
  have "is_persistable (sr_event r) \<and> event_in_scope (sr_scope r) (sr_event r)" if "r \<in> set (jm_values table)" for r
    using value_ok [OF keyed that] by (auto simp: record_ok_def event_group_def split: if_splits)
  moreover have "q = r" if "r \<in> set (jm_values table)" "q \<in> set (jm_values table)" "sr_scope q = sr_scope r"
      "text_member ''event_id'' (sr_event q) = text_member ''event_id'' (sr_event r)" for q r
  proof -
    have "sr_id q = sr_id r" using value_ok [OF keyed that(1)] value_ok [OF keyed that(2)] that(3, 4) by (simp add: record_ok_def)
    with values_inj [OF keyed] that(1, 2) show ?thesis by (simp add: inj_on_def)
  qed
  moreover have "card (sr_group ` scope_records scope table) \<le> 5" using ok by (simp add: table_ok_def)
  moreover obtain es where "load_recent env scope table = Inr es" "set es = sr_event ` scope_records scope table"
      "sorted (map (int_member ''timestamp'') es)" by (rule load_all [OF ok assms(3)])
  ultimately show ?thesis by blast
qed


subsection \<open>Witnesses\<close>

definition demo_store_env :: store_env where
  "demo_store_env = \<lparr> so_index = (\<lambda>rs. rs), so_collate = (\<lambda>a b. 0) \<rparr>"

definition demo_store_scope :: store_scope where
  "demo_store_scope = \<lparr> sp_device = ''d'', sp_endpoint = ''e:1'', sp_session = ''s'', sp_generation = ''g'' \<rparr>"

definition demo_stored_event :: "string \<Rightarrow> string \<Rightarrow> int \<Rightarrow> json" where
  "demo_stored_event i g t = JObj [(''event_id'', JStr i), (''session_id'', JStr ''s''), (''history_generation'', JStr ''g''),
     (''timestamp'', JNum (NInt t)), (''group_id'', JStr g), (''kind'', JStr ''assistant''), (''status'', JStr ''complete'')]"

definition demo_commits :: "(store_env \<times> store_operation) list" where
  "demo_commits = [(demo_store_env, SvCommit demo_store_scope [demo_stored_event ''e1'' ''g1'' 1, demo_stored_event ''e2'' ''g2'' 2]),
     (demo_store_env, SvCommit demo_store_scope [demo_stored_event ''e3'' ''g3'' 3, demo_stored_event ''e4'' ''g4'' 4])]"

definition demo_latest :: "json list" where
  "demo_latest = [demo_stored_event ''e5'' ''g5'' 5, demo_stored_event ''e6'' ''g6'' 6]"

lemma demo_store_adm: "store_adm table (demo_store_env, e)"
  by (simp add: demo_store_env_def)

lemma demo_commits_ok: "trace_ok store_step store_adm [] (demo_commits @ [(demo_store_env, SvCommit demo_store_scope demo_latest)])"
  by (simp add: demo_commits_def demo_store_adm del: store_adm.simps)

theorem store_run_ok_witness:
  "card (sr_group ` scope_records demo_store_scope (run store_step [] demo_commits)) \<le> 5
   \<and> (\<exists>es. load_recent demo_store_env demo_store_scope (run store_step [] demo_commits) = Inr es
       \<and> sorted (map (int_member ''timestamp'') es))"
proof -
  have "trace_ok store_step store_adm [] demo_commits" using demo_commits_ok by (simp add: trace_ok_append)
  moreover have "\<forall>rs. set (so_index demo_store_env rs) = set rs" by (simp add: demo_store_env_def)
  ultimately show ?thesis using store_run_ok [OF _ refl, of demo_commits demo_store_env demo_store_scope] by blast
qed


end
