(* ===== verification/Spec2Isabelle.thy ===== *)
theory Spec2Isabelle
  imports PairingCoordinator KeyStore RelayLifecycle ServiceFrames SchemaAgreement OwnerRouter StreamDisplay
    TimelineStore
begin

text \<open>
  Remote Pi: a Pi coding agent, remote-controlled from a browser.

  The program. The extension (\<open>pi-extension/\<close>, the host) runs inside a Pi session and keeps a
  connection to a Relay. The PWA (\<open>pwa/\<close>) runs in the browser of an Owner and connects to the same
  Relay. A QR code with a short-lived token pairs the two; from then on they exchange Protocol v2
  frames, JSON texts in a Base64 envelope, that the Relay forwards. The extension turns the
  messages of the session into timeline events, publishes them live and serves the history in
  pages; the PWA puts the fragments and chunks together and shows the timeline. A message that the
  Owner types travels the other way and comes back as a committed event.

  Base theories.
    \<^item> \<open>Prelude\<close>: results with errors as values, runs of a step function, the locale
      \<open>invariant_machine\<close> (a step that keeps an invariant on admissible inputs).
    \<^item> \<open>JsMap\<close>: the \<open>Map\<close> of JavaScript, an association list in insertion order; the locale
      \<open>keyed_store\<close> has its laws.
    \<^item> \<open>Json\<close>, \<open>Bytes\<close>: JSON values, \<open>JSON.stringify\<close>, the canonical form of a value, UTF-8, Base64.
    \<^item> \<open>Zod\<close>: the schemas of the code as data. The library zod is not in the repository, so
      acceptance is a parameter with its documented laws, the locale \<open>zod\<close>; \<open>zod_accepts\<close> is a
      concrete instance for witnesses and the interpretation of the locale.

  Protocol v2.
    \<^item> \<open>ExtensionSchemas\<close> (\<open>protocol/v2/schemas.ts\<close>) and \<open>PwaSchemas\<close> (\<open>protocol-v2/schema.ts\<close>,
      \<open>frames.ts\<close>): every schema of both sides; \<open>Schemas\<close> and \<open>SchemaAgreement\<close>: the two sides accept
      the same frames, what the accepted frames have, and that no value is a frame of both directions.
    \<^item> \<open>Codec\<close> and \<open>PwaCodec\<close> (both \<open>codec.ts\<close>): decoding and encoding with their limits. The codecs
      agree on every raw value, and what one side encodes the other decodes to the same frame.

  The extension.
    \<^item> \<open>Runtime\<close> (\<open>timeline/runtime.ts\<close>): events from the messages of the session. Nothing of the
      branch is lost or doubled on recovery, a live event is recovered identically, and the cut of
      long deltas never splits a character.
    \<^item> \<open>History\<close> (\<open>timeline/history.ts\<close>): windows and cursors. Cursors serve once, windows are bounded,
      groups that interleave are where paging leaves a message out.
    \<^item> \<open>SessionState\<close> (\<open>protocol/v2/session_state.ts\<close>): the handshake and the idempotency store. A
      request is new once within its time to live.
    \<^item> \<open>V2Service\<close> (\<open>timeline/v2_service.ts\<close>): the frames of one Owner. It refines runs of the session
      state, serves nothing before the hello and delivers a user message once. \<open>ServiceFrames\<close>: every
      frame it returns passes the server schema. \<open>Transport\<close>: what \<open>publishFrames\<close> cuts, the PWA
      reassembles in any order.
    \<^item> \<open>QrSession\<close> (\<open>pairing/qr.ts\<close>), \<open>OwnerKeys\<close> (\<open>pairing/crypto.ts\<close>), \<open>OwnerStorage\<close>
      (\<open>pairing/owner_storage.ts\<close>) and \<open>PairingCoordinator\<close> (\<open>runtime/pairing_coordinator.ts\<close>): a token
      has a single Owner, a key one canonical spelling; a pairing is confirmed only after it is stored,
      reserved and committed, it ends, and a rollback restores what it wrote. Every stretch of code
      between two awaits is a step, so attempts interleave freely.
    \<^item> \<open>KeyStore\<close> (\<open>pairing/storage.ts\<close>): the identity of the host is never replaced.
    \<^item> \<open>RelayLifecycle\<close> (\<open>runtime/relay_lifecycle.ts\<close>): generations, timers and clients. A started
      lifecycle without a connection is on its way to one; no client is leaked.
    \<^item> \<open>Routing\<close> (\<open>transport/peer_channel.ts\<close>, and \<open>protocol.ts\<close>, \<open>peer-channel.ts\<close> of the PWA) and
      \<open>OwnerRouter\<close> (\<open>runtime/owner_router.ts\<close>, the bindings of \<open>index.ts\<close>): a frame crosses the Relay
      unchanged and reaches the service of its Owner once.

  The PWA.
    \<^item> \<open>TimelineTransfer\<close> (\<open>timeline-transfer.ts\<close>): fragments and history windows.
    \<^item> \<open>PwaTimeline\<close> (\<open>timeline-runtime.ts\<close>): the timeline that is shown. Messages of the Owner are shown
      once, and none is lost before it is committed.
    \<^item> \<open>StreamDisplay\<close> (\<open>stream-display-buffer.ts\<close>): the same timeline with the output paced. It never
      runs ahead of the timeline and catches up with it within a bound of ticks.
    \<^item> \<open>TimelineStore\<close> (\<open>timeline-store.ts\<close>): what the browser keeps of the committed events, five whole
      groups of a session and generation at most, the latest ones.

  Conventions. A class is a record, its methods take the record and return it changed; what a
  method returns beside is the second component of a pair. Thrown errors are the left side of a sum,
  absent values \<open>None\<close>. Clocks, random ids, digests, the keyring, files, the session manager of Pi and
  \<open>localeCompare\<close> are arguments of the definitions that use them. A component has a datatype of events
  and a step function over it; \<open>run\<close> and \<open>trace_ok\<close> of \<open>Prelude\<close> give its runs from the initial state,
  and the interpretation of \<open>invariant_machine\<close> carries its invariant to all of them.

  Bounds and fuel. The limits of the code are definitions with the values of the source: 2 MiB a
  frame, 512 KiB a chunk, 50 KiB a fragment, 32 MiB an event, 65,536 code units a delta chunk.
  No definition runs on fuel: the loops of the code are structural, or \<open>function\<close> with a
  termination proof. Sizes, times and counters are unbounded integers: JavaScript numbers are exact up
  to \<open>2 ^ 53\<close>, beyond every bound here. Words are used where the code works on bytes (\<open>Bytes\<close>).

  Not modelled. The sockets of the Relay connection (both sides) and the Rust Relay: I/O behind the
  events of \<open>RelayLifecycle\<close> and the lines of \<open>Routing\<close>. The daemon (supervisor, child processes,
  registry, cron, installation) is a separate program for starting agents, mostly calls of node. The
  actions and the UI bridge of the extension adapt the Pi SDK. The React components, the hooks, the
  service worker and the database of the PWA are rendering, browser calls and library transactions.
  \<open>protocol/types.ts\<close> has types only. Error texts are left out or shortened; error codes are kept.
\<close>

end
